(* ===== verification/Prelude.thy ===== *)
theory Prelude
  imports Main "HOL-Library.Word"
begin

text \<open>
  Shared vocabulary of the development: the kernel's fixed-width integers
  (\<^verbatim>\<open>kernel/util/types.h\<close>), nullable pointers to state objects, output arguments, and the
  generic lemmas on words, lists and reachable states that the component theories use.
\<close>

unbundle bit_operations_syntax

section \<open>Fixed-width integers\<close>

type_synonym u8 = "8 word"
type_synonym u16 = "16 word"
type_synonym u32 = "32 word"
type_synonym u64 = "64 word"

text \<open>
  \<open>kdefs\<close> collects the defining equations of the scalar constants of the sources, so that
  \<^theory_text>\<open>simp add: kdefs\<close> evaluates a guard on concrete bounds.
\<close>

named_theorems kdefs \<open>scalar constants of the kernel sources\<close>
named_theorems state_frames \<open>fields that an operation leaves unchanged\<close>

definition kU64Max :: u64 where
  [kdefs]: "kU64Max = 0xFFFFFFFFFFFFFFFF"

lemma kU64Max_unat: "unat kU64Max = 2 ^ 64 - 1"
  by (simp add: kU64Max_def)

lemma kU64Max_nonzero [simp]: "kU64Max \<noteq> 0"
  by (simp add: kU64Max_def)

lemma u64_le_max: "(x :: u64) \<le> kU64Max"
proof -
  have "unat x < 2 ^ 64"
    using unsigned_less [of x] by simp
  then show ?thesis
    by (simp add: word_le_nat_alt kU64Max_def)
qed

lemma u64_succ_unat: "(x :: u64) \<noteq> kU64Max \<Longrightarrow> unat (x + 1) = unat x + 1"
proof -
  assume "x \<noteq> kU64Max"
  with u64_le_max [of x] have "x < kU64Max"
    by simp
  then have "unat x + 1 < 2 ^ 64"
    by (simp add: word_less_nat_alt kU64Max_def)
  then show "unat (x + 1) = unat x + 1"
    by (simp add: unat_word_ariths)
qed

lemma u64_succ_gt: "(x :: u64) \<noteq> kU64Max \<Longrightarrow> x < x + 1"
  by (simp add: word_less_nat_alt u64_succ_unat)

lemma u64_succ_nonzero: "(x :: u64) \<noteq> kU64Max \<Longrightarrow> x + 1 \<noteq> 0"
  using u64_succ_gt [of x] by auto

lemma unat_ucast_u32_u64 [simp]: "unat (ucast (x :: u32) :: u64) = unat x"
proof -
  have "unat x < 2 ^ 32"
    using unsigned_less [of x, where ?'a = nat] by simp
  then have "unat x < 2 ^ 64"
    by simp
  then show ?thesis
    by (simp only: unsigned_ucast_eq) (simp add: take_bit_nat_eq_self)
qed

lemma word_neq_0_pos: "(x :: 'a :: len word) \<noteq> 0 \<longleftrightarrow> 0 < unat x"
  by (simp add: unat_gt_0)

lemma unat_add_lt:
  "unat (a :: 'a :: len word) + unat b < 2 ^ LENGTH('a) \<Longrightarrow> unat (a + b) = unat a + unat b"
  by (simp add: unat_word_ariths)

lemma unat_sub_ge:
  "b \<le> (a :: 'a :: len word) \<Longrightarrow> unat (a - b) = unat a - unat b"
  by (simp add: unat_sub)

lemma unat_of_nat_u32: "n < 4294967296 \<Longrightarrow> unat (of_nat n :: u32) = n"
  by (simp add: unat_of_nat)

section \<open>Packed tokens\<close>

text \<open>
  Tokens that pack a generation above \<open>n\<close> bits of slot index.
\<close>

lemma packed_fields:
  "unat (drop_bit n (h :: u32)) = unat h div 2 ^ n" "unat (h AND mask n) = unat h mod 2 ^ n"
proof -
  show "unat (drop_bit n h) = unat h div 2 ^ n"
    unfolding unat_drop_bit_eq by (simp add: drop_bit_eq_div)
  show "unat (h AND mask n) = unat h mod 2 ^ n"
    unfolding take_bit_eq_mask [symmetric] unsigned_take_bit_eq by (simp add: take_bit_eq_mod)
qed

lemma packed_low:
  assumes "unat (s :: u32) < 2 ^ n"
  shows "(push_bit n g OR s) AND mask n = s"
proof -
  have "take_bit n s = s"
    using assms by (simp add: word_unat_eq_iff unsigned_take_bit_eq take_bit_nat_eq_self)
  then show ?thesis
    by (simp add: take_bit_push_bit flip: take_bit_eq_mask)
qed

lemma packed_high:
  assumes "unat (s :: u32) < 2 ^ n" and "unat g * 2 ^ n < 2 ^ 32"
  shows "drop_bit n (push_bit n g OR s) = g"
proof -
  have "drop_bit n s = 0"
    using assms(1) by (simp add: word_unat_eq_iff packed_fields)
  moreover have "drop_bit n (push_bit n g) = g"
  proof -
    have "unat (push_bit n g) = unat g * 2 ^ n"
      unfolding unsigned_push_bit_eq using assms(2) by (simp add: push_bit_eq_mult take_bit_eq_mod)
    then show ?thesis by (simp add: word_unat_eq_iff packed_fields)
  qed
  ultimately show ?thesis by simp
qed

lemma packed_split: "push_bit n (drop_bit n (h :: u32)) OR (h AND mask n) = h"
  by (rule bit_word_eqI) (auto simp: bit_simps)

lemma packed_unat:
  assumes "unat (s :: u32) < 2 ^ n" and "unat g * 2 ^ n < 2 ^ 32"
  shows "unat (push_bit n g OR s) = unat g * 2 ^ n + unat s"
proof -
  let ?h = "push_bit n g OR s"
  have "unat ?h div 2 ^ n = unat g" "unat ?h mod 2 ^ n = unat s"
    using packed_fields [where n = n and h = ?h] packed_high [OF assms] packed_low [OF assms(1)] by simp_all
  then show ?thesis
    using div_mult_mod_eq [of "unat ?h" "2 ^ n"] by simp
qed

section \<open>Guards\<close>

text \<open>
  A chain of early returns \<^verbatim>\<open>if (c) return e;\<close> is a nested conditional. The rules below read
  the conditions off a known result.
\<close>

lemma fst_guard: "e \<noteq> k \<Longrightarrow> (fst (if c then (e, x) else y) = k) = (\<not> c \<and> fst y = k)"
  by simp

lemma guard_result: "e \<noteq> k \<Longrightarrow> ((if c then (e, x) else y) = (k, z)) = (\<not> c \<and> y = (k, z))"
  by simp

lemma guard_status: "e \<noteq> k \<Longrightarrow> ((if c then e else y) = k) = (\<not> c \<and> y = k)"
  by simp

lemmas guards = fst_guard guard_result guard_status

section \<open>Pointers to state objects\<close>

text \<open>
  A parameter \<^verbatim>\<open>T*\<close> that may be null and through which the callee mutates a state object is an
  \<open>'s option\<close>: \<open>None\<close> is the null pointer. \<open>on_ptr p bad f\<close> is the usual shape
  \<^verbatim>\<open>if (p == nullptr) return bad; ... *p ...\<close>.
\<close>

definition on_ptr :: "'s option \<Rightarrow> 'r \<Rightarrow> ('s \<Rightarrow> 'r \<times> 's) \<Rightarrow> 'r \<times> 's option" where
  "on_ptr p bad f = (case p of None \<Rightarrow> (bad, None) | Some s \<Rightarrow> (case f s of (r, s') \<Rightarrow> (r, Some s')))"

lemma on_ptr_None [simp]: "on_ptr None bad f = (bad, None)"
  by (simp add: on_ptr_def)

lemma on_ptr_Some [simp]: "on_ptr (Some s) bad f = (fst (f s), Some (snd (f s)))"
  by (simp add: on_ptr_def split: prod.splits)

text \<open>
  An output argument \<^verbatim>\<open>T* out\<close> is an address that the code compares with other ranges, or the
  address of a local variable of the caller, which overlaps no other object. What the callee
  stores through it is part of the result: \<open>None\<close> when the storage is not written, \<open>Some v\<close>
  when its final content is \<open>v\<close>.
\<close>

datatype out_arg = OutNull | OutAt u64 | OutLocal

section \<open>Lists\<close>

lemma nth_list_update_iff:
  "i < length xs \<Longrightarrow> xs[j := x] ! i = (if i = j then x else xs ! i)"
  by (auto simp: nth_list_update)

lemma filter_update_remove:
  assumes "i < length xs" and "P (xs ! i)" and "\<not> P x"
  shows "length (filter P xs) = Suc (length (filter P (xs[i := x])))"
proof -
  have split: "xs = take i xs @ xs ! i # drop (Suc i) xs"
    using assms(1) by (simp add: id_take_nth_drop)
  have upd: "xs[i := x] = take i xs @ x # drop (Suc i) xs"
    using assms(1) by (simp add: upd_conv_take_nth_drop)
  show ?thesis
    by (subst split, subst upd) (use assms in simp)
qed

lemma filter_update_add:
  assumes "i < length xs" and "\<not> P (xs ! i)" and "P x"
  shows "length (filter P (xs[i := x])) = Suc (length (filter P xs))"
  using filter_update_remove [of i "xs[i := x]" P "xs ! i"] assms by simp

lemma filter_update_same:
  assumes "i < length xs" and "P (xs ! i) = P x"
  shows "length (filter P (xs[i := x])) = length (filter P xs)"
proof -
  have split: "xs = take i xs @ xs ! i # drop (Suc i) xs"
    using assms(1) by (simp add: id_take_nth_drop)
  have upd: "xs[i := x] = take i xs @ x # drop (Suc i) xs"
    using assms(1) by (simp add: upd_conv_take_nth_drop)
  have "length (filter P xs) = length (filter P (take i xs @ xs ! i # drop (Suc i) xs))"
    using split by simp
  with upd assms(2) show ?thesis
    by simp
qed

lemma sum_list_map_update:
  fixes f :: "'a \<Rightarrow> nat"
  assumes "i < length xs"
  shows "sum_list (map f (xs[i := x])) + f (xs ! i) = sum_list (map f xs) + f x"
proof -
  have split: "xs = take i xs @ xs ! i # drop (Suc i) xs"
    using assms by (simp add: id_take_nth_drop)
  have upd: "xs[i := x] = take i xs @ x # drop (Suc i) xs"
    using assms by (simp add: upd_conv_take_nth_drop)
  have "sum_list (map f xs) = sum_list (map f (take i xs @ xs ! i # drop (Suc i) xs))"
    using split by simp
  with upd show ?thesis
    by simp
qed

section \<open>Binary search\<close>

text \<open>
  The loop that \<^verbatim>\<open>FindRule\<close> (\<^verbatim>\<open>ipc/versioned_payload.cpp\<close>) and \<^verbatim>\<open>MemberLowerBound\<close>
  (\<^verbatim>\<open>proc/thread_group.cpp\<close>) share, over the test "the element at this index is below the key":
  \<^verbatim>\<open>while (count != 0) { step = count / 2; probe = first + step; ... }\<close>.
\<close>

function lower_bound :: "(u32 \<Rightarrow> bool) \<Rightarrow> u32 \<Rightarrow> u32 \<Rightarrow> u32" where
  "lower_bound below first count =
    (if count = 0 then first
     else let step = count div 2; probe = first + step
          in if below probe then lower_bound below (probe + 1) (count - (step + 1))
             else lower_bound below first step)"
  by pat_completeness auto

lemma unat_half: "unat ((c :: u32) div 2) = unat c div 2"
  by (simp add: unat_div)

lemma unat_half_succ:
  assumes "c \<noteq> (0 :: u32)"
  shows "unat (c - (c div 2 + 1)) = unat c - (unat c div 2 + 1)" and "unat c div 2 + 1 \<le> unat c"
proof -
  have pos: "0 < unat c"
    using assms by (simp add: word_neq_0_pos)
  then show le: "unat c div 2 + 1 \<le> unat c"
    by linarith
  have "unat c < 4294967296"
    using unsigned_less [of c, where ?'a = nat] by simp
  then have s: "unat (c div 2 + 1) = unat c div 2 + 1"
    using unat_add_lt [of "c div 2" 1] by (simp add: unat_half)
  with le have "c div 2 + 1 \<le> c"
    by (simp only: word_le_nat_alt)
  then show "unat (c - (c div 2 + 1)) = unat c - (unat c div 2 + 1)"
    by (simp only: unat_sub_ge s)
qed

termination lower_bound
proof (relation "measure (\<lambda>(below, first, count). unat count)", goal_cases)
  case 1
  show ?case by simp
next
  case (2 below first count step probe)
  then show ?case
    using unat_half_succ [OF "2"(1)] by (simp only: in_measure prod.case)
next
  case (3 below first count step probe)
  then have "0 < unat count" "step = count div 2"
    by (simp_all add: word_neq_0_pos)
  then show ?case
    by (simp add: unat_half)
qed

declare lower_bound.simps [simp del]

text \<open>
  On an array where the test holds on a prefix, the loop returns the length of that prefix.
\<close>

lemma lower_bound_prefix:
  assumes "unat first + unat count \<le> n" and "n < 2 ^ 32"
    and "\<And>i. i < unat first \<Longrightarrow> below (of_nat i)"
    and "\<And>i. unat first + unat count \<le> i \<Longrightarrow> i < n \<Longrightarrow> \<not> below (of_nat i)"
    and "\<And>i j. i \<le> j \<Longrightarrow> j < n \<Longrightarrow> below (of_nat j) \<Longrightarrow> below (of_nat i)"
  shows "unat (lower_bound below first count) \<le> n \<and>
    (\<forall>i < n. below (of_nat i) \<longleftrightarrow> i < unat (lower_bound below first count))"
  using assms(1,3,4,5)
proof (induction below first count rule: lower_bound.induct)
  case (1 below first count)
  note IH1 = "1.IH"(1) and IH2 = "1.IH"(2) and prems = "1.prems" and mono = "1.prems"(4)
  show ?case
  proof (cases "count = 0")
    case True
    then show ?thesis
      using prems by (auto simp: lower_bound.simps [of below first 0] intro: ccontr leI)
  next
    case False
    define step where "step = count div 2"
    define probe where "probe = first + step"
    have step_lt: "unat step + 1 \<le> unat count"
      using unat_half_succ(2) [OF False] by (simp add: step_def unat_half)
    have rest: "unat (count - (step + 1)) = unat count - (unat step + 1)"
      using unat_half_succ(1) [OF False] by (simp add: step_def unat_half)
    have probe: "unat probe = unat first + unat step"
      unfolding probe_def using prems(1) step_lt assms(2) by (intro unat_add_lt) simp
    have probe1: "unat (probe + 1) = unat probe + 1"
      using prems(1) step_lt assms(2) probe by (subst unat_add_lt) simp_all
    have of_probe: "of_nat (unat probe) = probe"
      by simp
    have probe_n: "unat probe < n"
      using prems(1) step_lt probe by linarith
    show ?thesis
    proof (cases "below probe")
      case True
      have "unat (lower_bound below (probe + 1) (count - (step + 1))) \<le> n \<and>
        (\<forall>i < n. below (of_nat i) \<longleftrightarrow> i < unat (lower_bound below (probe + 1) (count - (step + 1))))"
      proof (rule IH1 [OF False step_def probe_def True])
        show "unat (probe + 1) + unat (count - (step + 1)) \<le> n"
          using probe1 rest probe prems(1) step_lt by linarith
        show "below (of_nat i)" if "i < unat (probe + 1)" for i
          using mono [of i "unat probe"] that probe1 probe_n True of_probe by simp
        show "\<not> below (of_nat i)" if "unat (probe + 1) + unat (count - (step + 1)) \<le> i" "i < n" for i
          using prems(3) [of i] that probe1 rest probe step_lt by linarith
      qed (rule mono)
      then show ?thesis
        using False True
        by (simp add: lower_bound.simps [of below first count] Let_def step_def probe_def)
    next
      case nb: False
      have "unat (lower_bound below first step) \<le> n \<and>
        (\<forall>i < n. below (of_nat i) \<longleftrightarrow> i < unat (lower_bound below first step))"
      proof (rule IH2 [OF False step_def probe_def nb])
        show "unat first + unat step \<le> n"
          using prems(1) step_lt by linarith
        show "below (of_nat i)" if "i < unat first" for i
          using prems(2) that by blast
        show "\<not> below (of_nat i)" if "unat first + unat step \<le> i" "i < n" for i
          using mono [of "unat probe" i] that probe nb of_probe by auto
      qed (rule mono)
      then show ?thesis
        using False nb
        by (simp add: lower_bound.simps [of below first count] Let_def step_def probe_def)
    qed
  qed
qed

section \<open>Reachable states\<close>

text \<open>
  The contract every component's step relation meets: a set of initial states, a step relation
  and an invariant that holds initially and is kept by each step. What holds of every run is
  proved once here.
\<close>

locale transition_system =
  fixes init :: "'s \<Rightarrow> bool"
    and step :: "'s \<Rightarrow> 's \<Rightarrow> bool"
    and inv :: "'s \<Rightarrow> bool"
  assumes init_inv: "init s \<Longrightarrow> inv s"
    and step_inv: "inv s \<Longrightarrow> step s t \<Longrightarrow> inv t"
begin

lemma run_inv: "step\<^sup>*\<^sup>* s t \<Longrightarrow> inv s \<Longrightarrow> inv t"
  by (induction rule: rtranclp_induct) (auto intro: step_inv)

lemma reachable_inv: "init s \<Longrightarrow> step\<^sup>*\<^sup>* s t \<Longrightarrow> inv t"
  using init_inv run_inv by blast

lemma run_mono:
  assumes mono: "\<And>a b. inv a \<Longrightarrow> step a b \<Longrightarrow> R (f a) (f b)"
    and refl: "\<And>x. R x x" and trans: "\<And>x y z. R x y \<Longrightarrow> R y z \<Longrightarrow> R x z"
    and run: "step\<^sup>*\<^sup>* s t" and inv: "inv s"
  shows "R (f s) (f t)"
  using run
proof (induction rule: rtranclp_induct)
  case base
  show ?case by (rule refl)
next
  case (step y z)
  from step.hyps(1) inv have "inv y" by (rule run_inv)
  from mono [OF this step.hyps(2)] have "R (f y) (f z)" .
  with step.IH show ?case by (rule trans)
qed

end

text \<open>
  A system built on another: each of its steps is a step of the lower system or leaves it alone,
  so what holds of the runs of the lower system holds of the composition.
\<close>

locale layered_system = transition_system +
  fixes low :: "'a \<Rightarrow> 'l"
    and low_init :: "'l \<Rightarrow> bool"
    and low_step :: "'l \<Rightarrow> 'l \<Rightarrow> bool"
  assumes low_start: "init s \<Longrightarrow> low_init (low s)"
    and low_move: "inv s \<Longrightarrow> step s t \<Longrightarrow> low t = low s \<or> low_step (low s) (low t)"
begin

lemma low_run: "step\<^sup>*\<^sup>* s t \<Longrightarrow> inv s \<Longrightarrow> low_step\<^sup>*\<^sup>* (low s) (low t)"
proof (induction rule: rtranclp_induct)
  case (step y z)
  from low_move [OF run_inv [OF step.hyps(1) step.prems] step.hyps(2)] step.IH [OF step.prems]
  show ?case by (auto intro: rtranclp.rtrancl_into_rtrancl)
qed simp

lemma low_reachable:
  assumes "init s" and "step\<^sup>*\<^sup>* s t"
  shows "low_init (low s)" and "low_step\<^sup>*\<^sup>* (low s) (low t)"
  using low_start [OF assms(1)] low_run [OF assms(2) init_inv [OF assms(1)]] by simp_all

end

section \<open>Generation-keyed rows\<close>

lemma find_upt_Some: "find P [0..<n] = Some i \<Longrightarrow> i < n \<and> P i"
  by (auto simp: find_Some_iff)

lemma find_upt_None: "find P [0..<n] = None \<longleftrightarrow> (\<forall>i<n. \<not> P i)"
  by (auto simp: find_None_iff)

text \<open>
  The discipline behind every table whose rows are named by a slot and a generation: a row
  changes generation only while it is free, and then to a larger one. A key whose generation has
  passed, or whose row is free, never names a live row again.
\<close>

locale generation_rows =
  fixes gen :: "'r \<Rightarrow> 'g::linorder"
    and free :: "'r \<Rightarrow> bool"
    and row_step :: "'r \<Rightarrow> 'r \<Rightarrow> bool"
  assumes row_law: "row_step r r' \<Longrightarrow> gen r' = gen r \<and> (free r \<longrightarrow> free r') \<or> free r \<and> gen r < gen r'"
begin

lemma gen_mono: "row_step r r' \<Longrightarrow> gen r \<le> gen r'"
  using row_law by fastforce

lemma dead_step: "row_step r r' \<Longrightarrow> g < gen r \<or> g = gen r \<and> free r \<Longrightarrow> g < gen r' \<or> g = gen r' \<and> free r'"
  using row_law by fastforce

lemma dead_run: "row_step\<^sup>*\<^sup>* r r' \<Longrightarrow> g < gen r \<or> g = gen r \<and> free r \<Longrightarrow> g < gen r' \<or> g = gen r' \<and> free r'"
  by (induction rule: rtranclp_induct) (auto dest: dead_step)

end

text \<open>What an operation does to a table of rows: nothing, or it rewrites one row, which keeps the
  generation of a row in use and increases that of a free one.\<close>

definition rows_change :: "('r \<Rightarrow> u64) \<Rightarrow> ('r \<Rightarrow> bool) \<Rightarrow> 'r list \<Rightarrow> 'r list \<Rightarrow> bool" where
  "rows_change gen free xs xs' \<longleftrightarrow> xs' = xs \<or> (\<exists>i row. i < length xs \<and> xs' = xs[i := row] \<and>
     (\<not> free (xs ! i) \<and> gen row = gen (xs ! i) \<or> free (xs ! i) \<and> gen (xs ! i) < gen row))"

lemma rows_change_refl [simp]: "rows_change gen free xs xs"
  by (simp add: rows_change_def)

lemma rows_change_law:
  "rows_change gen free xs xs' \<Longrightarrow> gen (xs' ! j) = gen (xs ! j) \<and> (free (xs ! j) \<longrightarrow> free (xs' ! j)) \<or>
     free (xs ! j) \<and> gen (xs ! j) < gen (xs' ! j)"
  unfolding rows_change_def by (metis nth_list_update)

lemma rows_change_keep:
  "i < length xs \<Longrightarrow> \<not> free (xs ! i) \<Longrightarrow> gen row = gen (xs ! i) \<Longrightarrow> rows_change gen free xs (xs[i := row])"
  by (auto simp: rows_change_def)

lemma rows_change_new:
  "i < length xs \<Longrightarrow> free (xs ! i) \<Longrightarrow> gen (xs ! i) < gen row \<Longrightarrow> rows_change gen free xs (xs[i := row])"
  by (auto simp: rows_change_def)

end
