(* ===== verification/Bytes.thy ===== *)
theory Bytes
  imports Prelude
begin

text \<open>
  Byte memory, little-endian scalars and pointer ranges, as the IPC sources use them
  (\<^verbatim>\<open>kernel/ipc/message_abi.cpp\<close>, \<^verbatim>\<open>versioned_payload.cpp\<close> and \<^verbatim>\<open>message_ring.cpp\<close> each carry
  their own textual copy of these helpers). Memory is a total map from 64-bit addresses to
  bytes; a read-only byte buffer is the list of bytes at its address.
\<close>

type_synonym mem = "u64 \<Rightarrow> u8"

section \<open>Byte ranges\<close>

definition mem_read :: "mem \<Rightarrow> u64 \<Rightarrow> nat \<Rightarrow> u8 list" where
  "mem_read m p n = map (\<lambda>i. m (p + of_nat i)) [0..<n]"

definition mem_write :: "mem \<Rightarrow> u64 \<Rightarrow> u8 list \<Rightarrow> mem" where
  "mem_write m p bs = (\<lambda>a. if unat (a - p) < length bs then bs ! unat (a - p) else m a)"

lemma length_mem_read [simp]: "length (mem_read m p n) = n"
  by (simp add: mem_read_def)

lemma nth_mem_read [simp]: "i < n \<Longrightarrow> mem_read m p n ! i = m (p + of_nat i)"
  by (simp add: mem_read_def)

lemma unat_of_nat_u64 [simp]: "i < 18446744073709551616 \<Longrightarrow> unat (of_nat i :: u64) = i"
  by (simp add: unat_of_nat)

lemma mem_write_at:
  "i < length bs \<Longrightarrow> i < 18446744073709551616 \<Longrightarrow> mem_write m p bs (p + of_nat i) = bs ! i"
  by (simp add: mem_write_def)

lemma mem_read_write_same:
  assumes "length bs \<le> 18446744073709551616"
  shows "mem_read (mem_write m p bs) p (length bs) = bs"
  using assms by (intro nth_equalityI) (auto simp: mem_write_at)

lemma drop_mem_read:
  "drop k (mem_read m p n) = mem_read m (p + of_nat k) (n - k)"
  by (rule nth_equalityI) (auto simp: algebra_simps)

lemma take_mem_read: "take k (mem_read m p n) = mem_read m p (min k n)"
  by (rule nth_equalityI) auto

section \<open>Pointer ranges\<close>

definition PointerRangeIsValid :: "u64 \<Rightarrow> u32 \<Rightarrow> bool" where
  "PointerRangeIsValid pointer bytes \<longleftrightarrow> pointer \<noteq> 0 \<and> ucast bytes \<le> kU64Max - pointer"

definition PointerRangesOverlap :: "u64 \<Rightarrow> u32 \<Rightarrow> u64 \<Rightarrow> u32 \<Rightarrow> bool" where
  "PointerRangesOverlap left left_bytes right right_bytes =
    (if left = 0 \<or> right = 0 \<or> left_bytes = 0 \<or> right_bytes = 0 then False
     else if left \<le> right then right - left < ucast left_bytes
     else left - right < ucast right_bytes)"

text \<open>The same tests with an output argument on the left.\<close>

definition OutRangeIsValid :: "out_arg \<Rightarrow> u32 \<Rightarrow> bool" where
  "OutRangeIsValid out bytes =
    (case out of OutNull \<Rightarrow> False | OutAt p \<Rightarrow> PointerRangeIsValid p bytes | OutLocal \<Rightarrow> True)"

definition OutOverlaps :: "out_arg \<Rightarrow> u32 \<Rightarrow> u64 \<Rightarrow> u32 \<Rightarrow> bool" where
  "OutOverlaps out out_bytes p bytes =
    (case out of OutNull \<Rightarrow> False
     | OutAt q \<Rightarrow> PointerRangesOverlap q out_bytes p bytes
     | OutLocal \<Rightarrow> False)"

definition is_null_out :: "out_arg \<Rightarrow> bool" where
  "is_null_out out \<longleftrightarrow> out = OutNull"

lemma out_simps [simp]:
  "OutRangeIsValid OutLocal n" "\<not> OutRangeIsValid OutNull n"
  "\<not> OutOverlaps OutNull n p k" "\<not> OutOverlaps OutLocal n p k"
  "is_null_out OutNull" "\<not> is_null_out OutLocal" "\<not> is_null_out (OutAt a)"
  by (simp_all add: OutRangeIsValid_def OutOverlaps_def is_null_out_def)

text \<open>
  What the two tests mean: a valid range does not run past the end of the address space, and
  for valid ranges the overlap test is false exactly when no address lies in both.
\<close>

definition in_range :: "u64 \<Rightarrow> u64 \<Rightarrow> nat \<Rightarrow> bool" where
  "in_range a p n \<longleftrightarrow> unat p \<le> unat a \<and> unat a < unat p + n"

lemma PointerRangeIsValid_unat:
  "PointerRangeIsValid p n \<longleftrightarrow> p \<noteq> 0 \<and> unat p + unat n < 2 ^ 64"
proof -
  have sub: "unat (kU64Max - p) = 2 ^ 64 - 1 - unat p"
    using u64_le_max [of p] by (simp only: unat_sub_ge kU64Max_unat)
  have bound: "unat p < 2 ^ 64"
    using unsigned_less [of p] by simp
  have le: "b \<le> M - 1 - a \<longleftrightarrow> a + b < M" if "a < M" for a b M :: nat
    using that by linarith
  show ?thesis
    by (simp only: PointerRangeIsValid_def word_le_nat_alt unat_ucast_u32_u64 sub le [OF bound])
qed

lemma PointerRangesOverlap_sym:
  "PointerRangesOverlap p n q k = PointerRangesOverlap q k p n"
proof -
  have "0 < (ucast x :: u64) \<longleftrightarrow> x \<noteq> 0" for x :: u32
    by (simp add: word_less_nat_alt word_neq_0_pos)
  note pos = this
  show ?thesis
  proof (cases p q rule: linorder_cases)
    case less
    then show ?thesis
      by (simp add: PointerRangesOverlap_def leD less_imp_le conj_commute disj_commute)
  next
    case equal
    then show ?thesis
      by (simp add: PointerRangesOverlap_def pos)
  next
    case greater
    then show ?thesis
      by (simp add: PointerRangesOverlap_def leD less_imp_le conj_commute disj_commute)
  qed
qed

lemma PointerRangesOverlap_le:
  assumes "p \<noteq> 0" and "q \<noteq> 0" and "n \<noteq> 0" and "k \<noteq> 0" and le: "p \<le> q"
  shows "PointerRangesOverlap p n q k \<longleftrightarrow> (\<exists>a. in_range a p (unat n) \<and> in_range a q (unat k))"
proof -
  from le have le': "unat p \<le> unat q" and sub: "unat (q - p) = unat q - unat p"
    by (simp_all add: word_le_nat_alt unat_sub_ge)
  have test: "PointerRangesOverlap p n q k \<longleftrightarrow> unat q - unat p < unat n"
    using assms sub by (simp add: PointerRangesOverlap_def word_less_nat_alt)
  show ?thesis
  proof
    assume "PointerRangesOverlap p n q k"
    with test le' \<open>k \<noteq> 0\<close> have "in_range q p (unat n) \<and> in_range q q (unat k)"
      by (simp add: in_range_def word_neq_0_pos less_diff_conv2)
    then show "\<exists>a. in_range a p (unat n) \<and> in_range a q (unat k)"
      by blast
  next
    assume "\<exists>a. in_range a p (unat n) \<and> in_range a q (unat k)"
    with test le' show "PointerRangesOverlap p n q k"
      unfolding in_range_def by fastforce
  qed
qed

lemma PointerRangesOverlap_iff:
  assumes "p \<noteq> 0" and "q \<noteq> 0"
  shows "PointerRangesOverlap p n q k \<longleftrightarrow> (\<exists>a. in_range a p (unat n) \<and> in_range a q (unat k))"
proof (cases "n = 0 \<or> k = 0")
  case True
  then have "unat n = 0 \<or> unat k = 0"
    by auto
  with True show ?thesis
    unfolding PointerRangesOverlap_def in_range_def by fastforce
next
  case False
  show ?thesis
  proof (cases "p \<le> q")
    case True
    with assms False show ?thesis
      by (simp add: PointerRangesOverlap_le)
  next
    case le: False
    with assms False have "PointerRangesOverlap q k p n \<longleftrightarrow>
        (\<exists>a. in_range a q (unat k) \<and> in_range a p (unat n))"
      by (simp add: PointerRangesOverlap_le)
    then show ?thesis
      by (subst PointerRangesOverlap_sym) (auto simp: conj_commute)
  qed
qed

lemma unat_sub_of_nat_le:
  assumes "k \<le> unat (a :: u64)"
  shows "unat (a - of_nat k) = unat a - k"
proof -
  have "unat a < 18446744073709551616"
    using unsigned_less [of a, where ?'a = nat] by simp
  with assms have k: "unat (of_nat k :: u64) = k"
    by simp
  then have "of_nat k \<le> a"
    using assms by (simp only: word_le_nat_alt)
  then show ?thesis
    by (simp only: unat_sub_ge k)
qed

lemma unat_sub_of_nat_gt:
  assumes "unat (a :: u64) < k" and "k < 18446744073709551616"
  shows "unat (a - of_nat k) + k = unat a + 18446744073709551616"
proof -
  have k: "unat (of_nat k :: u64) = k"
    using assms(2) by simp
  have le: "x - y + y = x" if "y \<le> x" for x y :: nat
    using that by simp
  have "unat (a - of_nat k) = unat a + 2 ^ LENGTH(64) - k"
    using assms(1) [unfolded not_le [symmetric]] unat_sub_if' [of a "of_nat k"] unfolding k by (simp only: if_False)
  then show ?thesis
    using assms(2) le [of k "unat a + 18446744073709551616"] by simp
qed

lemma mem_write_append:
  assumes len: "length as + length bs \<le> 18446744073709551616" and ne: "bs \<noteq> []"
  shows "mem_write (mem_write m p as) (p + of_nat (length as)) bs = mem_write m p (as @ bs)"
proof
  fix a
  define k where "k = unat (a - p)"
  have la: "length as < 18446744073709551616"
    using len ne by (cases bs) auto
  have eq: "a - (p + of_nat (length as)) = (a - p) - of_nat (length as)"
    by (simp add: algebra_simps)
  show "mem_write (mem_write m p as) (p + of_nat (length as)) bs a = mem_write m p (as @ bs) a"
  proof (cases "length as \<le> k")
    case True
    then have off: "unat (a - (p + of_nat (length as))) = k - length as"
      unfolding eq k_def by (rule unat_sub_of_nat_le)
    from True have "k - length as < length bs \<longleftrightarrow> k < length as + length bs"
      by (rule less_diff_conv2 [THEN trans]) (simp add: add.commute)
    with True off show ?thesis
      by (simp add: mem_write_def nth_append flip: k_def)
  next
    case False
    then have "unat (a - (p + of_nat (length as))) + length as = k + 18446744073709551616"
      unfolding eq k_def not_le by (rule unat_sub_of_nat_gt) (rule la)
    with len have "\<not> unat (a - (p + of_nat (length as))) < length bs"
      by linarith
    with False show ?thesis
      by (simp add: mem_write_def nth_append flip: k_def)
  qed
qed

lemma mem_read_write_prefix:
  assumes "length bs \<le> n" and "n \<le> 18446744073709551616"
  shows "mem_read (mem_write m p bs) p n = bs @ mem_read m (p + of_nat (length bs)) (n - length bs)"
proof (rule nth_equalityI)
  fix i assume "i < length (mem_read (mem_write m p bs) p n)"
  then have i: "i < n" "i < 18446744073709551616"
    using assms by auto
  then show "mem_read (mem_write m p bs) p n ! i =
      (bs @ mem_read m (p + of_nat (length bs)) (n - length bs)) ! i"
    by (auto simp: mem_write_def nth_append algebra_simps)
qed (use assms in simp)

lemma mem_read_write_sub:
  assumes "k + n \<le> length bs" and "length bs < 18446744073709551616"
  shows "mem_read (mem_write m p bs) (p + of_nat k) n = take n (drop k bs)"
proof (rule nth_equalityI)
  show "length (mem_read (mem_write m p bs) (p + of_nat k) n) = length (take n (drop k bs))"
    using assms(1) by simp
next
  fix i assume "i < length (mem_read (mem_write m p bs) (p + of_nat k) n)"
  then have i: "i < n" by simp
  have "mem_write m p bs (p + of_nat k + of_nat i) = mem_write m p bs (p + of_nat (k + i))"
    by (simp add: add.assoc)
  also have "\<dots> = bs ! (k + i)"
    using i assms by (intro mem_write_at) simp_all
  finally show "mem_read (mem_write m p bs) (p + of_nat k) n ! i = take n (drop k bs) ! i"
    using i assms(1) by simp
qed

lemma mem_read_cong:
  "(\<And>i. i < n \<Longrightarrow> m (p + of_nat i) = m' (p + of_nat i)) \<Longrightarrow> mem_read m p n = mem_read m' p n"
  by (simp add: mem_read_def)

lemma in_range_offset:
  assumes "i < n" and "unat p + n \<le> 18446744073709551616"
  shows "in_range (p + of_nat i) p n"
proof -
  have "unat (of_nat i :: u64) = i"
    using assms by simp
  then have "unat (p + of_nat i) = unat p + i"
    using assms unat_add_lt [of p "of_nat i"] by simp
  with assms show ?thesis
    by (simp add: in_range_def)
qed

lemma mem_write_outside:
  assumes out: "\<not> in_range a p (length bs)" and fit: "unat p + length bs \<le> 18446744073709551616"
  shows "mem_write m p bs a = m a"
proof -
  have "\<not> unat (a - p) < length bs"
  proof (cases "p \<le> a")
    case True
    then have "unat (a - p) = unat a - unat p" "unat p \<le> unat a"
      by (simp_all only: unat_sub_ge word_le_nat_alt)
    then show ?thesis
      using out unfolding in_range_def by linarith
  next
    case False
    then have lt: "unat a < unat p"
      by (simp add: word_le_nat_alt)
    have "unat p < 18446744073709551616"
      using unsigned_less [of p, where ?'a = nat] by simp
    from unat_sub_of_nat_gt [OF lt this] have "unat (a - p) + unat p = unat a + 18446744073709551616"
      by simp
    with fit show ?thesis
      by linarith
  qed
  then show ?thesis
    by (simp only: mem_write_def if_False)
qed

lemma mem_read_write_disjoint:
  assumes fit: "unat p + length bs \<le> 18446744073709551616" "unat q + n \<le> 18446744073709551616"
    and sub: "k + j \<le> n" and disj: "\<And>a. \<not> (in_range a p (length bs) \<and> in_range a q n)"
  shows "mem_read (mem_write m p bs) (q + of_nat k) j = mem_read m (q + of_nat k) j"
proof (rule mem_read_cong)
  fix i assume "i < j"
  then have "in_range (q + of_nat (k + i)) q n"
    using sub fit(2) by (intro in_range_offset) simp_all
  with disj have "\<not> in_range (q + of_nat (k + i)) p (length bs)"
    by blast
  from mem_write_outside [OF this fit(1)]
  show "mem_write m p bs (q + of_nat k + of_nat i) = m (q + of_nat k + of_nat i)"
    by (simp add: add.assoc)
qed

section \<open>Little-endian scalars\<close>

definition ReadLe16 :: "u8 list \<Rightarrow> u16" where
  "ReadLe16 bytes = ucast (bytes ! 0) OR push_bit 8 (ucast (bytes ! 1))"

definition ReadLe32 :: "u8 list \<Rightarrow> u32" where
  "ReadLe32 bytes = ucast (bytes ! 0) OR push_bit 8 (ucast (bytes ! 1)) OR
     push_bit 16 (ucast (bytes ! 2)) OR push_bit 24 (ucast (bytes ! 3))"

definition ReadLe64 :: "u8 list \<Rightarrow> u64" where
  "ReadLe64 bytes = ucast (ReadLe32 bytes) OR push_bit 32 (ucast (ReadLe32 (drop 4 bytes)))"

text \<open>The writers store their bytes at increasing addresses from the given pointer.\<close>

definition WriteLe16 :: "u16 \<Rightarrow> u8 list" where
  "WriteLe16 value = [ucast (value AND 0xFF), ucast (drop_bit 8 value AND 0xFF)]"

definition WriteLe32 :: "u32 \<Rightarrow> u8 list" where
  "WriteLe32 value = [ucast (value AND 0xFF), ucast (drop_bit 8 value AND 0xFF),
     ucast (drop_bit 16 value AND 0xFF), ucast (drop_bit 24 value AND 0xFF)]"

definition WriteLe64 :: "u64 \<Rightarrow> u8 list" where
  "WriteLe64 value = WriteLe32 (ucast (value AND 0xFFFFFFFF)) @ WriteLe32 (ucast (drop_bit 32 value))"

lemma length_WriteLe [simp]:
  "length (WriteLe16 a) = 2" "length (WriteLe32 b) = 4" "length (WriteLe64 c) = 8"
  by (simp_all add: WriteLe16_def WriteLe32_def WriteLe64_def)

lemma low_byte_u16: "ucast ((v :: u16) AND 0xFF) = (ucast v :: u8)"
proof -
  have "ucast v AND (- 1 :: u8) = ucast v" by simp
  moreover have "(- 1 :: u8) = 0xFF" by simp
  ultimately show ?thesis by (simp only: unsigned_and_eq) simp
qed

lemma low_byte_u32: "ucast ((v :: u32) AND 0xFF) = (ucast v :: u8)"
proof -
  have "ucast v AND (- 1 :: u8) = ucast v" by simp
  moreover have "(- 1 :: u8) = 0xFF" by simp
  ultimately show ?thesis by (simp only: unsigned_and_eq) simp
qed

lemma low_word_u64: "ucast ((v :: u64) AND 0xFFFFFFFF) = (ucast v :: u32)"
proof -
  have "ucast v AND (- 1 :: u32) = ucast v" by simp
  moreover have "(- 1 :: u32) = 0xFFFFFFFF" by simp
  ultimately show ?thesis by (simp only: unsigned_and_eq) simp
qed

lemma bit_byte_at:
  "bit (push_bit k (ucast (ucast (drop_bit k (v :: 'a :: len word)) :: u8)) :: 'a word) n \<longleftrightarrow>
     k \<le> n \<and> n < k + 8 \<and> bit v n" if "k + 8 \<le> LENGTH('a)"
  using that by (cases "k \<le> n") (auto simp: bit_push_bit_iff bit_ucast_iff bit_drop_bit_eq less_diff_conv2)

lemma bit_byte_0:
  "bit (ucast (ucast (v :: 'a :: len word) :: u8) :: 'a word) n \<longleftrightarrow> n < 8 \<and> bit v n" if "8 \<le> LENGTH('a)"
  using bit_byte_at [of 0 v n] that by simp

lemma ReadLe16_WriteLe16: "ReadLe16 (WriteLe16 v @ rest) = v"
proof (rule bit_word_eqI)
  fix n assume "n < LENGTH(16)"
  then show "bit (ReadLe16 (WriteLe16 v @ rest)) n = bit v n"
    by (simp add: ReadLe16_def WriteLe16_def low_byte_u16 bit_or_iff bit_byte_at bit_byte_0) auto
qed

lemma ReadLe32_WriteLe32: "ReadLe32 (WriteLe32 v @ rest) = v"
proof (rule bit_word_eqI)
  fix n assume "n < LENGTH(32)"
  then show "bit (ReadLe32 (WriteLe32 v @ rest)) n = bit v n"
    by (simp add: ReadLe32_def WriteLe32_def low_byte_u32 bit_or_iff bit_byte_at bit_byte_0) auto
qed

lemma ReadLe64_WriteLe64: "ReadLe64 (WriteLe64 v @ rest) = v"
proof (rule bit_word_eqI)
  have lo: "ReadLe32 (WriteLe64 v @ rest) = ucast v"
    by (simp add: WriteLe64_def ReadLe32_WriteLe32 low_word_u64)
  have hi: "ReadLe32 (drop 4 (WriteLe64 v @ rest)) = ucast (drop_bit 32 v)"
    by (simp add: WriteLe64_def ReadLe32_WriteLe32)
  fix n assume "n < LENGTH(64)"
  then show "bit (ReadLe64 (WriteLe64 v @ rest)) n = bit v n"
    unfolding ReadLe64_def lo hi
    by (cases "n < 32") (simp_all add: bit_or_iff bit_push_bit_iff bit_ucast_iff bit_drop_bit_eq less_diff_conv2)
qed

end
