(* ===== verification/MessageAbi.thy ===== *)
theory MessageAbi
  imports Bytes
begin

text \<open>
  The versioned IPC message envelope of \<^verbatim>\<open>kernel/ipc/message_abi.h\<close> and
  \<^verbatim>\<open>kernel/ipc/message_abi.cpp\<close>: the 32-byte little-endian header, its encoder and its
  validator. An enumeration over \<^verbatim>\<open>u16\<close> that is read from the wire can hold any 16-bit value,
  so \<open>MessageKind\<close> is a \<^typ>\<open>u16\<close> with four named values.
\<close>

section \<open>Constants and data\<close>

definition kMessageAbiMagic :: u32 where [kdefs]: "kMessageAbiMagic = 0x43504944"
definition kMessageAbiVersion1 :: u16 where [kdefs]: "kMessageAbiVersion1 = 1"
definition kMessageAbiHeaderV1Bytes :: u16 where [kdefs]: "kMessageAbiHeaderV1Bytes = 32"
definition kMessageAbiMaxBytes :: u32 where [kdefs]: "kMessageAbiMaxBytes = 64 * 1024"
definition kMessageAbiV1KnownFlags :: u16 where [kdefs]: "kMessageAbiV1KnownFlags = 0"

type_synonym MessageKind = u16

definition KindRequest :: MessageKind where [kdefs]: "KindRequest = 1"
definition KindReply :: MessageKind where [kdefs]: "KindReply = 2"
definition KindNotification :: MessageKind where [kdefs]: "KindNotification = 3"
definition KindCancel :: MessageKind where [kdefs]: "KindCancel = 4"

datatype MessageValidationError =
    MsgOk
  | MsgNullBuffer
  | MsgTruncatedHeader
  | MsgBadMagic
  | MsgUnsupportedVersion
  | MsgUnsupportedHeaderSize
  | MsgMessageTooSmall
  | MsgMessageTooLarge
  | MsgSizeMismatch
  | MsgUnsupportedFlags
  | MsgInvalidKind
  | MsgInvalidRoute
  | MsgInvalidRequestId
  | MsgUnexpectedPayload
  | MsgOutputAliasesInput

record MessageHeaderV1 =
  hdr_kind :: MessageKind
  hdr_flags :: u16
  hdr_service_id :: u32
  hdr_method_id :: u32
  hdr_request_id :: u64

record MessageView =
  view_total_size :: u32
  view_version :: u16
  view_header_size :: u16
  view_kind :: MessageKind
  view_flags :: u16
  view_service_id :: u32
  view_method_id :: u32
  view_request_id :: u64
  view_payload_offset :: u32
  view_payload_size :: u32

text \<open>\<^verbatim>\<open>MessageView{}\<close>, and the size of the structure in bytes.\<close>

definition zero_view :: MessageView where
  "zero_view = \<lparr>view_total_size = 0, view_version = 0, view_header_size = 0, view_kind = 0,
     view_flags = 0, view_service_id = 0, view_method_id = 0, view_request_id = 0,
     view_payload_offset = 0, view_payload_size = 0\<rparr>"

definition sizeof_MessageView :: u32 where [kdefs]: "sizeof_MessageView = 40"

text \<open>Field offsets in the header.\<close>

definition kMagicOffset :: nat where [kdefs]: "kMagicOffset = 0"
definition kTotalSizeOffset :: nat where [kdefs]: "kTotalSizeOffset = 4"
definition kVersionOffset :: nat where [kdefs]: "kVersionOffset = 8"
definition kHeaderSizeOffset :: nat where [kdefs]: "kHeaderSizeOffset = 10"
definition kKindOffset :: nat where [kdefs]: "kKindOffset = 12"
definition kFlagsOffset :: nat where [kdefs]: "kFlagsOffset = 14"
definition kServiceIdOffset :: nat where [kdefs]: "kServiceIdOffset = 16"
definition kMethodIdOffset :: nat where [kdefs]: "kMethodIdOffset = 20"
definition kRequestIdOffset :: nat where [kdefs]: "kRequestIdOffset = 24"

section \<open>Operations\<close>

definition MessageKindIsValid :: "MessageKind \<Rightarrow> bool" where
  "MessageKindIsValid kind \<longleftrightarrow>
     kind = KindRequest \<or> kind = KindReply \<or> kind = KindNotification \<or> kind = KindCancel"

definition ValidateSemantics ::
  "MessageKind \<Rightarrow> u16 \<Rightarrow> u32 \<Rightarrow> u32 \<Rightarrow> u64 \<Rightarrow> u32 \<Rightarrow> MessageValidationError" where
  "ValidateSemantics kind flags service_id method_id request_id payload_size =
    (if flags AND NOT kMessageAbiV1KnownFlags \<noteq> 0 then MsgUnsupportedFlags
     else if \<not> MessageKindIsValid kind then MsgInvalidKind
     else if service_id = 0 \<or> method_id = 0 then MsgInvalidRoute
     else if kind = KindNotification \<and> request_id \<noteq> 0 then MsgInvalidRequestId
     else if kind \<noteq> KindNotification \<and> request_id = 0 then MsgInvalidRequestId
     else if kind = KindCancel \<and> payload_size \<noteq> 0 then MsgUnexpectedPayload
     else MsgOk)"

definition MessageEncodeHeaderV1 ::
  "mem \<Rightarrow> u64 \<Rightarrow> u32 \<Rightarrow> MessageHeaderV1 \<Rightarrow> MessageValidationError \<times> mem" where
  "MessageEncodeHeaderV1 m buffer buffer_bytes header =
    (if buffer = 0 then (MsgNullBuffer, m)
     else if buffer_bytes < ucast kMessageAbiHeaderV1Bytes then (MsgMessageTooSmall, m)
     else if buffer_bytes > kMessageAbiMaxBytes then (MsgMessageTooLarge, m)
     else
       let payload_size = buffer_bytes - ucast kMessageAbiHeaderV1Bytes;
           semantic_error = ValidateSemantics (hdr_kind header) (hdr_flags header)
             (hdr_service_id header) (hdr_method_id header) (hdr_request_id header) payload_size
       in if semantic_error \<noteq> MsgOk then (semantic_error, m)
          else
            let m1 = mem_write m (buffer + of_nat kMagicOffset) (WriteLe32 kMessageAbiMagic);
                m2 = mem_write m1 (buffer + of_nat kTotalSizeOffset) (WriteLe32 buffer_bytes);
                m3 = mem_write m2 (buffer + of_nat kVersionOffset) (WriteLe16 kMessageAbiVersion1);
                m4 = mem_write m3 (buffer + of_nat kHeaderSizeOffset) (WriteLe16 kMessageAbiHeaderV1Bytes);
                m5 = mem_write m4 (buffer + of_nat kKindOffset) (WriteLe16 (hdr_kind header));
                m6 = mem_write m5 (buffer + of_nat kFlagsOffset) (WriteLe16 (hdr_flags header));
                m7 = mem_write m6 (buffer + of_nat kServiceIdOffset) (WriteLe32 (hdr_service_id header));
                m8 = mem_write m7 (buffer + of_nat kMethodIdOffset) (WriteLe32 (hdr_method_id header));
                m9 = mem_write m8 (buffer + of_nat kRequestIdOffset) (WriteLe64 (hdr_request_id header))
            in (MsgOk, m9))"

text \<open>
  The validator reads the snapshot of \<open>available_bytes\<close> bytes at \<open>buffer\<close>. Its second result
  is what it stores through \<open>view_out\<close>. The overlap test is symmetric in its two ranges
  (\<open>PointerRangesOverlap_sym\<close>).
\<close>

definition MessageValidate ::
  "mem \<Rightarrow> u64 \<Rightarrow> u32 \<Rightarrow> out_arg \<Rightarrow> MessageValidationError \<times> MessageView option" where
  "MessageValidate m buffer available_bytes view_out =
    (if OutOverlaps view_out sizeof_MessageView buffer available_bytes
     then (MsgOutputAliasesInput, None)
     else
       let cleared = (if is_null_out view_out then None else Some zero_view);
           bytes = mem_read m buffer (unat available_bytes)
       in if buffer = 0 then (MsgNullBuffer, cleared)
          else if available_bytes < ucast kMessageAbiHeaderV1Bytes then (MsgTruncatedHeader, cleared)
          else if ReadLe32 (drop kMagicOffset bytes) \<noteq> kMessageAbiMagic then (MsgBadMagic, cleared)
          else let version = ReadLe16 (drop kVersionOffset bytes) in
            if version \<noteq> kMessageAbiVersion1 then (MsgUnsupportedVersion, cleared)
          else let header_size = ReadLe16 (drop kHeaderSizeOffset bytes) in
            if header_size \<noteq> kMessageAbiHeaderV1Bytes then (MsgUnsupportedHeaderSize, cleared)
          else let total_size = ReadLe32 (drop kTotalSizeOffset bytes) in
            if total_size < ucast header_size then (MsgMessageTooSmall, cleared)
          else if total_size > kMessageAbiMaxBytes then (MsgMessageTooLarge, cleared)
          else if total_size \<noteq> available_bytes then (MsgSizeMismatch, cleared)
          else
            let kind = ReadLe16 (drop kKindOffset bytes);
                flags = ReadLe16 (drop kFlagsOffset bytes);
                service_id = ReadLe32 (drop kServiceIdOffset bytes);
                method_id = ReadLe32 (drop kMethodIdOffset bytes);
                request_id = ReadLe64 (drop kRequestIdOffset bytes);
                payload_size = total_size - ucast header_size;
                semantic_error =
                  ValidateSemantics kind flags service_id method_id request_id payload_size
            in if semantic_error \<noteq> MsgOk then (semantic_error, cleared)
               else (MsgOk,
                 if is_null_out view_out then None
                 else Some \<lparr>view_total_size = total_size, view_version = version,
                   view_header_size = header_size, view_kind = kind, view_flags = flags,
                   view_service_id = service_id, view_method_id = method_id,
                   view_request_id = request_id,
                   view_payload_offset = (if payload_size = 0 then 0 else ucast header_size),
                   view_payload_size = payload_size\<rparr>))"

definition MessageValidationErrorName :: "MessageValidationError \<Rightarrow> string" where
  "MessageValidationErrorName error = (case error of
     MsgOk \<Rightarrow> ''ok''
   | MsgNullBuffer \<Rightarrow> ''null-buffer''
   | MsgOutputAliasesInput \<Rightarrow> ''output-aliases-input''
   | MsgTruncatedHeader \<Rightarrow> ''truncated-header''
   | MsgBadMagic \<Rightarrow> ''bad-magic''
   | MsgUnsupportedVersion \<Rightarrow> ''unsupported-version''
   | MsgUnsupportedHeaderSize \<Rightarrow> ''unsupported-header-size''
   | MsgMessageTooSmall \<Rightarrow> ''message-too-small''
   | MsgMessageTooLarge \<Rightarrow> ''message-too-large''
   | MsgSizeMismatch \<Rightarrow> ''size-mismatch''
   | MsgUnsupportedFlags \<Rightarrow> ''unsupported-flags''
   | MsgInvalidKind \<Rightarrow> ''invalid-kind''
   | MsgInvalidRoute \<Rightarrow> ''invalid-route''
   | MsgInvalidRequestId \<Rightarrow> ''invalid-request-id''
   | MsgUnexpectedPayload \<Rightarrow> ''unexpected-payload'')"

section \<open>The header as a byte string\<close>

definition header_bytes :: "u32 \<Rightarrow> MessageHeaderV1 \<Rightarrow> u8 list" where
  "header_bytes n h = WriteLe32 kMessageAbiMagic @ WriteLe32 n @
     WriteLe16 kMessageAbiVersion1 @ WriteLe16 kMessageAbiHeaderV1Bytes @
     WriteLe16 (hdr_kind h) @ WriteLe16 (hdr_flags h) @ WriteLe32 (hdr_service_id h) @
     WriteLe32 (hdr_method_id h) @ WriteLe64 (hdr_request_id h)"

lemma length_header_bytes [simp]: "length (header_bytes n h) = 32"
  by (simp add: header_bytes_def)

lemmas le_roundtrips = ReadLe16_WriteLe16 ReadLe32_WriteLe32 ReadLe64_WriteLe64

lemma read_header_fields:
  "ReadLe32 (drop kMagicOffset (header_bytes n h @ rest)) = kMessageAbiMagic"
  "ReadLe32 (drop kTotalSizeOffset (header_bytes n h @ rest)) = n"
  "ReadLe16 (drop kVersionOffset (header_bytes n h @ rest)) = kMessageAbiVersion1"
  "ReadLe16 (drop kHeaderSizeOffset (header_bytes n h @ rest)) = kMessageAbiHeaderV1Bytes"
  "ReadLe16 (drop kKindOffset (header_bytes n h @ rest)) = hdr_kind h"
  "ReadLe16 (drop kFlagsOffset (header_bytes n h @ rest)) = hdr_flags h"
  "ReadLe32 (drop kServiceIdOffset (header_bytes n h @ rest)) = hdr_service_id h"
  "ReadLe32 (drop kMethodIdOffset (header_bytes n h @ rest)) = hdr_method_id h"
  "ReadLe64 (drop kRequestIdOffset (header_bytes n h @ rest)) = hdr_request_id h"
  by (simp_all add: header_bytes_def kMagicOffset_def kTotalSizeOffset_def kVersionOffset_def
      kHeaderSizeOffset_def kKindOffset_def kFlagsOffset_def kServiceIdOffset_def
      kMethodIdOffset_def kRequestIdOffset_def le_roundtrips)

lemma mem_write_step:
  "mem_write (mem_write m p as) (p + of_nat k) bs = mem_write m p (as @ bs)"
  if "k = length as" "length as \<le> 32" "0 < length bs" "length bs \<le> 8"
  using that mem_write_append [of as bs m p] by auto

lemma header_writes:
  "mem_write (mem_write (mem_write (mem_write (mem_write (mem_write (mem_write (mem_write
     (mem_write m (p + of_nat kMagicOffset) (WriteLe32 kMessageAbiMagic))
       (p + of_nat kTotalSizeOffset) (WriteLe32 n))
       (p + of_nat kVersionOffset) (WriteLe16 kMessageAbiVersion1))
       (p + of_nat kHeaderSizeOffset) (WriteLe16 kMessageAbiHeaderV1Bytes))
       (p + of_nat kKindOffset) (WriteLe16 (hdr_kind h)))
       (p + of_nat kFlagsOffset) (WriteLe16 (hdr_flags h)))
       (p + of_nat kServiceIdOffset) (WriteLe32 (hdr_service_id h)))
       (p + of_nat kMethodIdOffset) (WriteLe32 (hdr_method_id h)))
       (p + of_nat kRequestIdOffset) (WriteLe64 (hdr_request_id h)) = mem_write m p (header_bytes n h)"
proof -
  have first: "mem_write m (p + of_nat kMagicOffset) bs = mem_write m p bs" for bs
    by (simp add: kMagicOffset_def)
  show ?thesis
    by (simp add: first mem_write_step header_bytes_def kTotalSizeOffset_def kVersionOffset_def
        kHeaderSizeOffset_def kKindOffset_def kFlagsOffset_def kServiceIdOffset_def
        kMethodIdOffset_def kRequestIdOffset_def del: of_nat_numeral)
qed

lemma MessageEncodeHeaderV1_cases:
  "MessageEncodeHeaderV1 m buffer n h =
    (if buffer = 0 then (MsgNullBuffer, m)
     else if n < 32 then (MsgMessageTooSmall, m)
     else if n > 65536 then (MsgMessageTooLarge, m)
     else let e = ValidateSemantics (hdr_kind h) (hdr_flags h) (hdr_service_id h) (hdr_method_id h)
                    (hdr_request_id h) (n - 32)
          in if e \<noteq> MsgOk then (e, m) else (MsgOk, mem_write m buffer (header_bytes n h)))"
  unfolding MessageEncodeHeaderV1_def Let_def header_writes
  by (simp add: kMessageAbiHeaderV1Bytes_def kMessageAbiMaxBytes_def)

lemma MessageEncodeHeaderV1_Ok:
  assumes "fst (MessageEncodeHeaderV1 m buffer n h) = MsgOk"
  shows "buffer \<noteq> 0 \<and> 32 \<le> n \<and> n \<le> 65536 \<and>
    ValidateSemantics (hdr_kind h) (hdr_flags h) (hdr_service_id h) (hdr_method_id h)
      (hdr_request_id h) (n - 32) = MsgOk \<and>
    snd (MessageEncodeHeaderV1 m buffer n h) = mem_write m buffer (header_bytes n h)"
  using assms unfolding MessageEncodeHeaderV1_cases Let_def
  by (auto simp: not_less split: if_splits)

section \<open>What the validator accepts\<close>

definition message_semantics_ok :: "MessageKind \<Rightarrow> u16 \<Rightarrow> u32 \<Rightarrow> u32 \<Rightarrow> u64 \<Rightarrow> u32 \<Rightarrow> bool" where
  "message_semantics_ok kind flags service method request payload \<longleftrightarrow>
     flags = 0 \<and> kind \<in> {KindRequest, KindReply, KindNotification, KindCancel} \<and>
     service \<noteq> 0 \<and> method \<noteq> 0 \<and> (kind = KindNotification \<longleftrightarrow> request = 0) \<and>
     (kind = KindCancel \<longrightarrow> payload = 0)"

lemma ValidateSemantics_Ok_iff:
  "ValidateSemantics kind flags service method request payload = MsgOk \<longleftrightarrow>
     message_semantics_ok kind flags service method request payload"
  by (auto simp: ValidateSemantics_def message_semantics_ok_def MessageKindIsValid_def
      kMessageAbiV1KnownFlags_def)

text \<open>A well-formed frame, as a predicate on its bytes.\<close>

definition message_wf :: "u8 list \<Rightarrow> bool" where
  "message_wf bs \<longleftrightarrow>
     32 \<le> length bs \<and> length bs \<le> 65536 \<and>
     ReadLe32 bs = 0x43504944 \<and> unat (ReadLe32 (drop 4 bs)) = length bs \<and>
     ReadLe16 (drop 8 bs) = 1 \<and> ReadLe16 (drop 10 bs) = 32 \<and>
     message_semantics_ok (ReadLe16 (drop 12 bs)) (ReadLe16 (drop 14 bs)) (ReadLe32 (drop 16 bs))
       (ReadLe32 (drop 20 bs)) (ReadLe64 (drop 24 bs)) (of_nat (length bs) - 32)"

definition message_view :: "u8 list \<Rightarrow> MessageView" where
  "message_view bs = \<lparr>view_total_size = of_nat (length bs), view_version = 1, view_header_size = 32,
     view_kind = ReadLe16 (drop 12 bs), view_flags = 0, view_service_id = ReadLe32 (drop 16 bs),
     view_method_id = ReadLe32 (drop 20 bs), view_request_id = ReadLe64 (drop 24 bs),
     view_payload_offset = (if length bs = 32 then 0 else 32),
     view_payload_size = of_nat (length bs) - 32\<rparr>"

lemma word_le_unat_32: "(32 :: u32) \<le> n \<longleftrightarrow> 32 \<le> unat n"
  by (simp add: word_le_nat_alt)

lemma word_le_unat_65536: "n \<le> (65536 :: u32) \<longleftrightarrow> unat n \<le> 65536"
  by (simp add: word_le_nat_alt)

lemma MessageValidate_Ok_iff:
  "fst (MessageValidate m buffer n out) = MsgOk \<longleftrightarrow>
     \<not> OutOverlaps out sizeof_MessageView buffer n \<and> buffer \<noteq> 0 \<and>
     message_wf (mem_read m buffer (unat n))"
proof -
  define bs where "bs = mem_read m buffer (unat n)"
  have len: "length bs = unat n" and ofn: "of_nat (length bs) = n"
    by (simp_all add: bs_def)
  have tot: "ReadLe32 (drop 4 bs) = n \<longleftrightarrow> unat (ReadLe32 (drop 4 bs)) = length bs"
    by (simp add: len word_unat_eq_iff)
  have "fst (MessageValidate m buffer n out) = MsgOk \<longleftrightarrow>
     \<not> OutOverlaps out sizeof_MessageView buffer n \<and> buffer \<noteq> 0 \<and>
     32 \<le> n \<and> n \<le> 65536 \<and> ReadLe32 bs = 0x43504944 \<and> ReadLe32 (drop 4 bs) = n \<and>
     ReadLe16 (drop 8 bs) = 1 \<and> ReadLe16 (drop 10 bs) = 32 \<and>
     message_semantics_ok (ReadLe16 (drop 12 bs)) (ReadLe16 (drop 14 bs)) (ReadLe32 (drop 16 bs))
       (ReadLe32 (drop 20 bs)) (ReadLe64 (drop 24 bs)) (n - 32)"
    unfolding MessageValidate_def Let_def bs_def [symmetric] kdefs
    by (simp add: guards not_less ValidateSemantics_Ok_iff cong: conj_cong) (safe; simp)
  then show ?thesis
    unfolding message_wf_def bs_def [symmetric] ofn tot word_le_unat_32 word_le_unat_65536
    by (simp add: len)
qed

lemma MessageValidate_stored:
  "snd (MessageValidate m buffer n out) =
    (if OutOverlaps out sizeof_MessageView buffer n \<or> is_null_out out then None
     else if fst (MessageValidate m buffer n out) = MsgOk
          then Some (message_view (mem_read m buffer (unat n))) else Some zero_view)"
proof (cases "fst (MessageValidate m buffer n out) = MsgOk")
  case True
  define bs where "bs = mem_read m buffer (unat n)"
  from True have wf: "\<not> OutOverlaps out sizeof_MessageView buffer n" "buffer \<noteq> 0" "message_wf bs"
    by (simp_all add: MessageValidate_Ok_iff bs_def)
  have len: "length bs = unat n" "of_nat (length bs) = n"
    by (simp_all add: bs_def)
  have tot: "ReadLe32 (drop 4 bs) = n"
    using wf(3) len by (simp add: message_wf_def word_unat_eq_iff)
  have z: "n - 32 = 0 \<longleftrightarrow> length bs = 32"
    using len by (simp only: right_minus_eq) (simp add: word_unat_eq_iff [of n])
  show ?thesis
    using True wf tot z unfolding MessageValidate_def Let_def bs_def [symmetric]
    by (simp add: kdefs message_wf_def message_semantics_ok_def message_view_def len
        ValidateSemantics_Ok_iff guards split: if_split_asm)
next
  case False
  then show ?thesis
    unfolding MessageValidate_def Let_def by (auto split: if_splits)
qed

section \<open>Properties\<close>

text \<open>
  C18. The validator accepts exactly the well-formed frames: it returns \<^verbatim>\<open>Ok\<close> if and only if the
  output does not alias the input, the buffer is not null and its bytes form a frame with the
  right magic, version, header size and exact total size, a known kind, no flags, a nonzero
  route, a request identifier that is zero exactly for notifications, and no payload on a
  cancellation. On success a non-null output holds the decoded view; on every other outcome but
  aliasing it is cleared; on aliasing it is untouched.
\<close>

theorem message_validate_correct:
  "(fst (MessageValidate m buffer n out) = MsgOk \<longleftrightarrow>
      \<not> OutOverlaps out sizeof_MessageView buffer n \<and> buffer \<noteq> 0 \<and>
      message_wf (mem_read m buffer (unat n))) \<and>
   snd (MessageValidate m buffer n out) =
     (if OutOverlaps out sizeof_MessageView buffer n \<or> is_null_out out then None
      else if fst (MessageValidate m buffer n out) = MsgOk
           then Some (message_view (mem_read m buffer (unat n))) else Some zero_view)"
  by (intro conjI MessageValidate_Ok_iff MessageValidate_stored)

lemma message_wf_header_bytes:
  assumes "32 \<le> n" and "n \<le> 65536" and "length rest = unat n - 32"
    and "message_semantics_ok (hdr_kind h) (hdr_flags h) (hdr_service_id h) (hdr_method_id h)
      (hdr_request_id h) (n - 32)"
  shows "message_wf (header_bytes n h @ rest)"
proof -
  have ge: "32 \<le> unat n" "unat n \<le> 65536"
    using assms(1,2) by (simp_all add: word_le_unat_32 word_le_unat_65536)
  then have len: "length (header_bytes n h @ rest) = unat n" "of_nat (length (header_bytes n h @ rest)) = n"
    using assms(3) by simp_all
  show ?thesis
    unfolding message_wf_def len
    using ge assms(4) read_header_fields [of n h rest, unfolded kdefs] by simp
qed

lemma message_view_header_bytes:
  assumes "32 \<le> n" and "length rest = unat n - 32"
  shows "message_view (header_bytes n h @ rest) = \<lparr>view_total_size = n, view_version = 1,
     view_header_size = 32, view_kind = hdr_kind h, view_flags = 0,
     view_service_id = hdr_service_id h, view_method_id = hdr_method_id h,
     view_request_id = hdr_request_id h, view_payload_offset = (if n = 32 then 0 else 32),
     view_payload_size = n - 32\<rparr>"
proof -
  have ge: "32 \<le> unat n"
    using assms(1) by (simp add: word_le_unat_32)
  then have len: "length (header_bytes n h @ rest) = unat n" "of_nat (length (header_bytes n h @ rest)) = n"
    using assms(2) by simp_all
  have z: "unat n = 32 \<longleftrightarrow> n = 32"
    by (simp add: word_unat_eq_iff)
  show ?thesis
    unfolding message_view_def len z
    using read_header_fields [of n h rest, unfolded kdefs] by simp
qed

text \<open>
  C19. What the encoder writes, the validator reads back: after a successful encode of a header
  into a buffer of \<open>n\<close> bytes, validating those \<open>n\<close> bytes succeeds and yields exactly the
  header's logical fields, the canonical version and sizes, and the payload extent behind the
  header.
\<close>

theorem message_encode_validate_roundtrip:
  assumes "MessageEncodeHeaderV1 m buffer n h = (MsgOk, m')"
  shows "MessageValidate m' buffer n OutLocal = (MsgOk, Some
    \<lparr>view_total_size = n, view_version = 1, view_header_size = 32, view_kind = hdr_kind h,
     view_flags = 0, view_service_id = hdr_service_id h, view_method_id = hdr_method_id h,
     view_request_id = hdr_request_id h, view_payload_offset = (if n = 32 then 0 else 32),
     view_payload_size = n - 32\<rparr>)"
proof -
  from MessageEncodeHeaderV1_Ok [of m buffer n h] assms
  have enc: "buffer \<noteq> 0" "32 \<le> n" "n \<le> 65536" "m' = mem_write m buffer (header_bytes n h)"
    "message_semantics_ok (hdr_kind h) (hdr_flags h) (hdr_service_id h) (hdr_method_id h)
      (hdr_request_id h) (n - 32)"
    by (simp_all add: ValidateSemantics_Ok_iff)
  have ge: "32 \<le> unat n" "unat n \<le> 65536"
    using enc(2,3) by (simp_all add: word_le_unat_32 word_le_unat_65536)
  define rest where "rest = mem_read m (buffer + 32) (unat n - 32)"
  have rd: "mem_read m' buffer (unat n) = header_bytes n h @ rest"
    using ge mem_read_write_prefix [of "header_bytes n h" "unat n" m buffer]
    by (simp add: enc(4) rest_def)
  have len: "length rest = unat n - 32"
    by (simp add: rest_def)
  have "fst (MessageValidate m' buffer n OutLocal) = MsgOk"
    using enc(1) message_wf_header_bytes [OF enc(2,3) len enc(5)] by (simp add: MessageValidate_Ok_iff rd)
  moreover from this have "snd (MessageValidate m' buffer n OutLocal) = Some (message_view (header_bytes n h @ rest))"
    by (simp add: MessageValidate_stored rd)
  ultimately show ?thesis
    unfolding message_view_header_bytes [OF enc(2) len] by (simp add: prod_eq_iff)
qed

theorem message_encode_validate_roundtrip_witness:
  "\<exists>m'. MessageEncodeHeaderV1 (\<lambda>_. 0) 4096 40
        \<lparr>hdr_kind = 1, hdr_flags = 0, hdr_service_id = 7, hdr_method_id = 9, hdr_request_id = 5\<rparr> = (MsgOk, m') \<and>
      fst (MessageValidate m' 4096 40 OutLocal) = MsgOk"
proof -
  let ?h = "\<lparr>hdr_kind = 1, hdr_flags = 0, hdr_service_id = 7, hdr_method_id = 9, hdr_request_id = 5\<rparr>"
  have enc: "MessageEncodeHeaderV1 (\<lambda>_. 0) 4096 40 ?h = (MsgOk, mem_write (\<lambda>_. 0) 4096 (header_bytes 40 ?h))"
    by (simp add: MessageEncodeHeaderV1_cases Let_def ValidateSemantics_def MessageKindIsValid_def kdefs)
  from enc message_encode_validate_roundtrip [OF enc] show ?thesis
    by auto
qed

text \<open>
  C20. An accepted frame authorises only reads inside the received bytes: its total size is the
  number of bytes available, and the payload extent of the view is either empty at offset zero
  or starts right behind the 32-byte header and ends exactly at the end of the frame, with no
  wrap-around in 32-bit arithmetic.
\<close>

theorem message_validate_payload_bounds:
  assumes "MessageValidate m buffer n OutLocal = (MsgOk, Some v)"
  shows "view_total_size v = n \<and> 32 \<le> unat n \<and> unat n \<le> 65536 \<and>
    (view_payload_size v = 0 \<and> view_payload_offset v = 0 \<and> unat n = 32 \<or>
     view_payload_offset v = 32 \<and> 32 + unat (view_payload_size v) = unat n)"
proof -
  define bs where "bs = mem_read m buffer (unat n)"
  from assms have ok: "fst (MessageValidate m buffer n OutLocal) = MsgOk"
    by simp
  then have wf: "message_wf bs"
    by (simp add: MessageValidate_Ok_iff bs_def)
  from assms ok have v: "v = message_view bs"
    using MessageValidate_stored [of m buffer n OutLocal] by (simp add: bs_def)
  have len: "length bs = unat n" "of_nat (length bs) = n"
    by (simp_all add: bs_def)
  from wf len have b: "32 \<le> unat n" "unat n \<le> 65536"
    by (simp_all add: message_wf_def)
  then have "unat (n - 32) = unat n - 32"
    by (simp add: unat_sub_ge word_le_unat_32)
  with b show ?thesis
    by (auto simp: v message_view_def len word_unat_eq_iff [of n])
qed

theorem message_validate_payload_bounds_witness:
  "\<exists>m v. MessageValidate m 4096 40 OutLocal = (MsgOk, Some v) \<and>
     view_payload_offset v = 32 \<and> unat (view_payload_size v) = 8"
proof -
  let ?h = "\<lparr>hdr_kind = 1, hdr_flags = 0, hdr_service_id = 7, hdr_method_id = 9, hdr_request_id = 5\<rparr>"
  let ?bs = "header_bytes 40 ?h @ replicate 8 0"
  let ?m = "mem_write (\<lambda>_. 0) 4096 ?bs"
  have sem: "message_semantics_ok (hdr_kind ?h) (hdr_flags ?h) (hdr_service_id ?h) (hdr_method_id ?h)
      (hdr_request_id ?h) (40 - 32)"
    by (simp add: message_semantics_ok_def kdefs)
  have rd: "mem_read ?m 4096 40 = ?bs"
    using mem_read_write_same [of ?bs "\<lambda>_. 0" 4096] by simp
  have "message_wf ?bs"
    by (rule message_wf_header_bytes [OF _ _ _ sem]) simp_all
  then have "fst (MessageValidate ?m 4096 40 OutLocal) = MsgOk"
    by (simp add: MessageValidate_Ok_iff rd)
  then have ok: "MessageValidate ?m 4096 40 OutLocal = (MsgOk, Some (message_view ?bs))"
    using MessageValidate_stored [of ?m 4096 40 OutLocal] by (simp add: rd prod_eq_iff)
  have "view_payload_size (message_view ?bs) \<noteq> 0"
    by (simp add: message_view_def)
  with ok message_validate_payload_bounds [OF ok] show ?thesis
    by (intro exI [of _ ?m] exI [of _ "message_view ?bs"]) auto
qed

text \<open>
  C21. Encoding is transactional: any result other than \<^verbatim>\<open>Ok\<close> leaves all of memory unchanged, and
  a successful encode changes no byte outside the 32 header bytes at the buffer, in particular
  no payload byte.
\<close>

theorem message_encode_transactional:
  assumes "unat buffer + 32 \<le> 18446744073709551616"
    and "MessageEncodeHeaderV1 m buffer n h = (e, m')"
  shows "(e \<noteq> MsgOk \<longrightarrow> m' = m) \<and> (\<forall>a. \<not> in_range a buffer 32 \<longrightarrow> m' a = m a)"
proof (cases "e = MsgOk")
  case True
  with assms(2) MessageEncodeHeaderV1_Ok [of m buffer n h]
  have "m' = mem_write m buffer (header_bytes n h)"
    by simp
  with True assms(1) show ?thesis
    using mem_write_outside [of _ buffer "header_bytes n h" m] by simp
next
  case False
  with assms(2) have "m' = m"
    unfolding MessageEncodeHeaderV1_cases Let_def by (auto split: if_splits)
  then show ?thesis
    by simp
qed

theorem message_encode_transactional_witness:
  "\<exists>m'. MessageEncodeHeaderV1 (\<lambda>_. 3) 4096 40
      \<lparr>hdr_kind = 3, hdr_flags = 0, hdr_service_id = 7, hdr_method_id = 9, hdr_request_id = 5\<rparr>
      = (MsgInvalidRequestId, m') \<and> m' = (\<lambda>_. 3)"
proof -
  let ?h = "\<lparr>hdr_kind = 3, hdr_flags = 0, hdr_service_id = 7, hdr_method_id = 9, hdr_request_id = 5\<rparr>"
  have enc: "MessageEncodeHeaderV1 (\<lambda>_. 3) 4096 40 ?h = (MsgInvalidRequestId, \<lambda>_. 3)"
    by (simp add: MessageEncodeHeaderV1_cases Let_def ValidateSemantics_def MessageKindIsValid_def kdefs)
  with message_encode_transactional [OF _ enc] show ?thesis
    by simp
qed

end
