(* ===== verification/VersionedPayload.thy ===== *)
theory VersionedPayload
  imports MessageAbi
begin

text \<open>
  The size- and version-tagged payload contract of \<^verbatim>\<open>kernel/ipc/versioned_payload.h\<close> and
  \<^verbatim>\<open>kernel/ipc/versioned_payload.cpp\<close>: an eight-byte prefix validated against a table of
  rules, strictly ordered by version, that is searched by bisection. A rule table is an array of
  12-byte structures in memory, read at the table's address.
\<close>

section \<open>Constants and data\<close>

definition kVersionedPayloadHeaderBytes :: u32 where [kdefs]: "kVersionedPayloadHeaderBytes = 8"
definition kVersionedPayloadMaxBytes :: u32 where
  [kdefs]: "kVersionedPayloadMaxBytes = kMessageAbiMaxBytes - ucast kMessageAbiHeaderV1Bytes"
definition kVersionedPayloadMaxRules :: u32 where [kdefs]: "kVersionedPayloadMaxRules = 256"

record PayloadVersionRule =
  rule_version :: u16
  rule_known_flags :: u16
  rule_minimum_size :: u32
  rule_maximum_size :: u32

definition sizeof_PayloadVersionRule :: u32 where [kdefs]: "sizeof_PayloadVersionRule = 12"

text \<open>\<^verbatim>\<open>rules[index]\<close>: the structure's fields are at offsets 0, 2, 4 and 8.\<close>

definition rule_at :: "mem \<Rightarrow> u64 \<Rightarrow> u32 \<Rightarrow> PayloadVersionRule" where
  "rule_at m rules index =
    (let p = rules + ucast sizeof_PayloadVersionRule * ucast index
     in \<lparr>rule_version = ReadLe16 (mem_read m p 2), rule_known_flags = ReadLe16 (mem_read m (p + 2) 2),
         rule_minimum_size = ReadLe32 (mem_read m (p + 4) 4),
         rule_maximum_size = ReadLe32 (mem_read m (p + 8) 4)\<rparr>)"

datatype PayloadValidationError =
    PayOk
  | PayNullBuffer
  | PayInvalidRuleTable
  | PayTruncatedHeader
  | PayPayloadTooSmall
  | PayPayloadTooLarge
  | PaySizeMismatch
  | PayUnsupportedVersion
  | PayUnsupportedFlags
  | PaySizeOutsideVersionRange
  | PayOutputAliasesInput
  | PayInputsOverlap

record VersionedPayloadView =
  pv_total_size :: u32
  pv_version :: u16
  pv_flags :: u16

definition zero_payload_view :: VersionedPayloadView where
  "zero_payload_view = \<lparr>pv_total_size = 0, pv_version = 0, pv_flags = 0\<rparr>"

definition sizeof_VersionedPayloadView :: u32 where [kdefs]: "sizeof_VersionedPayloadView = 8"

definition kPayloadTotalSizeOffset :: nat where [kdefs]: "kPayloadTotalSizeOffset = 0"
definition kPayloadVersionOffset :: nat where [kdefs]: "kPayloadVersionOffset = 4"
definition kPayloadFlagsOffset :: nat where [kdefs]: "kPayloadFlagsOffset = 6"

section \<open>Operations\<close>

text \<open>The loop of \<^verbatim>\<open>RuleTableIsValid\<close>, from an index with a number of rules left.\<close>

fun rule_table_scan :: "mem \<Rightarrow> u64 \<Rightarrow> nat \<Rightarrow> nat \<Rightarrow> u16 \<Rightarrow> bool" where
  "rule_table_scan m rules index 0 previous_version = True"
| "rule_table_scan m rules index (Suc left) previous_version =
    (let rule = rule_at m rules (of_nat index)
     in if rule_version rule = 0 \<or> rule_version rule \<le> previous_version then False
        else if rule_minimum_size rule < kVersionedPayloadHeaderBytes \<or>
                rule_maximum_size rule < rule_minimum_size rule \<or>
                rule_maximum_size rule > kVersionedPayloadMaxBytes then False
        else rule_table_scan m rules (Suc index) left (rule_version rule))"

definition RuleTableIsValid :: "mem \<Rightarrow> u64 \<Rightarrow> u32 \<Rightarrow> bool" where
  "RuleTableIsValid m rules rule_count =
    (if rules = 0 \<or> rule_count = 0 \<or> rule_count > kVersionedPayloadMaxRules then False
     else rule_table_scan m rules 0 (unat rule_count) 0)"

text \<open>\<^verbatim>\<open>FindRule\<close> returns the index of the matching rule, \<open>None\<close> for the null pointer.\<close>

definition FindRule :: "mem \<Rightarrow> u64 \<Rightarrow> u32 \<Rightarrow> u16 \<Rightarrow> u32 option" where
  "FindRule m rules rule_count version =
    (let first = lower_bound (\<lambda>index. rule_version (rule_at m rules index) < version) 0 rule_count
     in if first < rule_count \<and> rule_version (rule_at m rules first) = version then Some first
        else None)"

definition ValidateAgainstRule :: "u32 \<Rightarrow> u16 \<Rightarrow> PayloadVersionRule \<Rightarrow> PayloadValidationError" where
  "ValidateAgainstRule total_size flags rule =
    (if flags AND NOT (rule_known_flags rule) \<noteq> 0 then PayUnsupportedFlags
     else if total_size < rule_minimum_size rule \<or> total_size > rule_maximum_size rule
       then PaySizeOutsideVersionRange
     else PayOk)"

definition PayloadEncodeHeader ::
  "mem \<Rightarrow> u64 \<Rightarrow> u32 \<Rightarrow> u16 \<Rightarrow> u16 \<Rightarrow> u64 \<Rightarrow> u32 \<Rightarrow> PayloadValidationError \<times> mem" where
  "PayloadEncodeHeader m buffer buffer_bytes version flags rules rule_count =
    (if buffer = 0 then (PayNullBuffer, m)
     else if buffer_bytes < kVersionedPayloadHeaderBytes then (PayPayloadTooSmall, m)
     else if buffer_bytes > kVersionedPayloadMaxBytes then (PayPayloadTooLarge, m)
     else if \<not> RuleTableIsValid m rules rule_count then (PayInvalidRuleTable, m)
     else case FindRule m rules rule_count version of
       None \<Rightarrow> (PayUnsupportedVersion, m)
     | Some matched_rule \<Rightarrow>
         let canonical_rule = rule_at m rules matched_rule;
             semantic_error = ValidateAgainstRule buffer_bytes flags canonical_rule
         in if semantic_error \<noteq> PayOk then (semantic_error, m)
            else
              let m1 = mem_write m (buffer + of_nat kPayloadTotalSizeOffset) (WriteLe32 buffer_bytes);
                  m2 = mem_write m1 (buffer + of_nat kPayloadVersionOffset) (WriteLe16 version);
                  m3 = mem_write m2 (buffer + of_nat kPayloadFlagsOffset) (WriteLe16 flags)
              in (PayOk, m3))"

definition PayloadValidate ::
  "mem \<Rightarrow> u64 \<Rightarrow> u32 \<Rightarrow> u64 \<Rightarrow> u32 \<Rightarrow> out_arg \<Rightarrow>
     PayloadValidationError \<times> VersionedPayloadView option" where
  "PayloadValidate m buffer available_bytes rules rule_count view_out =
    (if rule_count > kVersionedPayloadMaxRules then (PayInvalidRuleTable, None)
     else
       let rule_bytes = rule_count * sizeof_PayloadVersionRule
       in if OutOverlaps view_out sizeof_VersionedPayloadView buffer available_bytes \<or>
             OutOverlaps view_out sizeof_VersionedPayloadView rules rule_bytes
          then (PayOutputAliasesInput, None)
          else if PointerRangesOverlap buffer available_bytes rules rule_bytes
          then (PayInputsOverlap, None)
          else
            let cleared = (if is_null_out view_out then None else Some zero_payload_view);
                bytes = mem_read m buffer (unat available_bytes)
            in if buffer = 0 then (PayNullBuffer, cleared)
               else if available_bytes < kVersionedPayloadHeaderBytes then (PayTruncatedHeader, cleared)
               else if available_bytes > kVersionedPayloadMaxBytes then (PayPayloadTooLarge, cleared)
               else if \<not> RuleTableIsValid m rules rule_count then (PayInvalidRuleTable, cleared)
               else let total_size = ReadLe32 (drop kPayloadTotalSizeOffset bytes) in
                 if total_size < kVersionedPayloadHeaderBytes then (PayPayloadTooSmall, cleared)
               else if total_size > kVersionedPayloadMaxBytes then (PayPayloadTooLarge, cleared)
               else if total_size \<noteq> available_bytes then (PaySizeMismatch, cleared)
               else let version = ReadLe16 (drop kPayloadVersionOffset bytes) in
                 (case FindRule m rules rule_count version of
                    None \<Rightarrow> (PayUnsupportedVersion, cleared)
                  | Some matched_rule \<Rightarrow>
                      let flags = ReadLe16 (drop kPayloadFlagsOffset bytes);
                          semantic_error =
                            ValidateAgainstRule total_size flags (rule_at m rules matched_rule)
                      in if semantic_error \<noteq> PayOk then (semantic_error, cleared)
                         else (PayOk,
                           if is_null_out view_out then None
                           else Some \<lparr>pv_total_size = total_size, pv_version = version,
                             pv_flags = flags\<rparr>)))"

definition PayloadValidationErrorName :: "PayloadValidationError \<Rightarrow> string" where
  "PayloadValidationErrorName error = (case error of
     PayOk \<Rightarrow> ''ok''
   | PayNullBuffer \<Rightarrow> ''null-buffer''
   | PayInvalidRuleTable \<Rightarrow> ''invalid-rule-table''
   | PayTruncatedHeader \<Rightarrow> ''truncated-header''
   | PayPayloadTooSmall \<Rightarrow> ''payload-too-small''
   | PayPayloadTooLarge \<Rightarrow> ''payload-too-large''
   | PaySizeMismatch \<Rightarrow> ''size-mismatch''
   | PayUnsupportedVersion \<Rightarrow> ''unsupported-version''
   | PayUnsupportedFlags \<Rightarrow> ''unsupported-flags''
   | PaySizeOutsideVersionRange \<Rightarrow> ''size-outside-version-range''
   | PayOutputAliasesInput \<Rightarrow> ''output-aliases-input''
   | PayInputsOverlap \<Rightarrow> ''inputs-overlap'')"

section \<open>Rule tables\<close>

definition rule_in_bounds :: "PayloadVersionRule \<Rightarrow> bool" where
  "rule_in_bounds r \<longleftrightarrow> rule_version r \<noteq> 0 \<and> 8 \<le> rule_minimum_size r \<and>
     rule_minimum_size r \<le> rule_maximum_size r \<and> rule_maximum_size r \<le> 65504"

lemma rule_table_scan_iff:
  "rule_table_scan m rules index left prev \<longleftrightarrow>
    (\<forall>i < left. rule_in_bounds (rule_at m rules (of_nat (index + i))) \<and>
       prev < rule_version (rule_at m rules (of_nat (index + i)))) \<and>
    (\<forall>i j. i < j \<longrightarrow> j < left \<longrightarrow>
       rule_version (rule_at m rules (of_nat (index + i))) < rule_version (rule_at m rules (of_nat (index + j))))"
proof (induction left arbitrary: index prev)
  case 0
  show ?case by simp
next
  case (Suc left)
  define v where "v i = rule_version (rule_at m rules (of_nat (index + i)))" for i
  define good where "good i = rule_in_bounds (rule_at m rules (of_nat (index + i)))" for i
  have step: "rule_table_scan m rules index (Suc left) prev \<longleftrightarrow>
      good 0 \<and> prev < v 0 \<and> rule_table_scan m rules (Suc index) left (v 0)"
    by (auto simp: Let_def v_def good_def rule_in_bounds_def kdefs not_le not_less)
  have IH: "rule_table_scan m rules (Suc index) left (v 0) \<longleftrightarrow>
      (\<forall>i < left. good (Suc i) \<and> v 0 < v (Suc i)) \<and>
      (\<forall>i j. i < j \<longrightarrow> j < left \<longrightarrow> v (Suc i) < v (Suc j))"
    unfolding Suc.IH [of "Suc index" "v 0"] by (simp add: v_def good_def)
  have "(good 0 \<and> prev < v 0 \<and> (\<forall>i < left. good (Suc i) \<and> v 0 < v (Suc i)) \<and>
      (\<forall>i j. i < j \<longrightarrow> j < left \<longrightarrow> v (Suc i) < v (Suc j))) \<longleftrightarrow>
      (\<forall>i < Suc left. good i \<and> prev < v i) \<and>
      (\<forall>i j. i < j \<longrightarrow> j < Suc left \<longrightarrow> v i < v j)" (is "?L \<longleftrightarrow> ?R")
  proof
    assume L: ?L
    have "good i \<and> prev < v i" if "i < Suc left" for i
      using L that by (cases i) (auto intro: less_trans)
    moreover have "v i < v j" if "i < j" "j < Suc left" for i j
      using L that by (cases i; cases j) auto
    ultimately show ?R by blast
  next
    assume R: ?R
    then show ?L
      by (metis Suc_mono zero_less_Suc)
  qed
  with step IH show ?case
    by (simp add: v_def good_def)
qed

lemma RuleTableIsValid_iff:
  "RuleTableIsValid m rules n \<longleftrightarrow> rules \<noteq> 0 \<and> n \<noteq> 0 \<and> unat n \<le> 256 \<and>
    (\<forall>i < unat n. rule_in_bounds (rule_at m rules (of_nat i))) \<and>
    (\<forall>i j. i < j \<longrightarrow> j < unat n \<longrightarrow>
       rule_version (rule_at m rules (of_nat i)) < rule_version (rule_at m rules (of_nat j)))"
proof -
  have pos: "0 < unat (rule_version r)" if "rule_in_bounds r" for r
    using that by (simp add: rule_in_bounds_def word_neq_0_pos)
  show ?thesis
    unfolding RuleTableIsValid_def rule_table_scan_iff
    by (auto simp: kdefs word_less_nat_alt not_less pos dest: pos)
qed

section \<open>Tables laid out in memory\<close>

definition rule_bytes :: "PayloadVersionRule \<Rightarrow> u8 list" where
  "rule_bytes r = WriteLe16 (rule_version r) @ WriteLe16 (rule_known_flags r) @
     WriteLe32 (rule_minimum_size r) @ WriteLe32 (rule_maximum_size r)"

lemma length_rule_bytes [simp]: "length (rule_bytes r) = 12"
  by (simp add: rule_bytes_def)

lemma length_rules_bytes [simp]: "length (concat (map rule_bytes rs)) = 12 * length rs"
  by (induction rs) simp_all

lemma drop_rules_bytes:
  "i < length rs \<Longrightarrow> \<exists>rest. drop (12 * i) (concat (map rule_bytes rs)) = rule_bytes (rs ! i) @ rest"
proof (induction rs arbitrary: i)
  case (Cons r rs)
  then show ?case
    by (cases i) (auto simp: mult_Suc_right)
qed simp

lemma rule_at_alt:
  "rule_at m p (of_nat i) =
    \<lparr>rule_version = ReadLe16 (mem_read m (p + of_nat (12 * i)) 2),
     rule_known_flags = ReadLe16 (mem_read m (p + of_nat (12 * i + 2)) 2),
     rule_minimum_size = ReadLe32 (mem_read m (p + of_nat (12 * i + 4)) 4),
     rule_maximum_size = ReadLe32 (mem_read m (p + of_nat (12 * i + 8)) 4)\<rparr>"
  if "i < 4294967296"
proof -
  have "unat (of_nat i :: u32) = i"
    using that by (simp add: unat_of_nat)
  then have i: "(ucast (of_nat i :: u32) :: u64) = of_nat i"
    by (metis of_nat_unat)
  show ?thesis
    unfolding rule_at_def Let_def i kdefs of_nat_add of_nat_mult add.assoc by simp
qed

lemma rule_at_table:
  assumes "i < length rs" and "12 * length rs < 18446744073709551616" and "i < 4294967296"
  shows "rule_at (mem_write m p (concat (map rule_bytes rs))) p (of_nat i) = rs ! i"
proof -
  let ?bs = "concat (map rule_bytes rs)"
  obtain rest where rest: "drop (12 * i) ?bs = rule_bytes (rs ! i) @ rest"
    using drop_rules_bytes [OF assms(1)] by blast
  have rd: "mem_read (mem_write m p ?bs) (p + of_nat (12 * i + k)) n = take n (drop k (rule_bytes (rs ! i) @ rest))"
    if "k + n \<le> 12" for k n
    using mem_read_write_sub [of "12 * i + k" n ?bs m p] that assms rest
    by (simp add: add.commute flip: drop_drop)
  show ?thesis
    unfolding rule_at_alt [OF assms(3)] using rd [of 0 2] rd [of 2 2] rd [of 4 4] rd [of 8 4]
    by (simp add: rule_bytes_def le_roundtrips [where rest = "[]", simplified])
qed

lemma FindRule_eq_find:
  assumes "RuleTableIsValid m rules n"
  shows "FindRule m rules n version =
    find (\<lambda>index. rule_version (rule_at m rules index) = version) (map of_nat [0..<unat n])"
proof -
  define v where "v i = rule_version (rule_at m rules (of_nat i))" for i
  from assms have n256: "unat n \<le> 256" and mono: "\<And>i j. i < j \<Longrightarrow> j < unat n \<Longrightarrow> v i < v j"
    by (auto simp: RuleTableIsValid_iff v_def)
  define below where "below index \<longleftrightarrow> rule_version (rule_at m rules index) < version" for index
  define first where "first = lower_bound below 0 n"
  have below: "below (of_nat i) \<longleftrightarrow> v i < version" for i
    by (simp add: below_def v_def)
  have pre: "below (of_nat i)" if "i \<le> j" "j < unat n" "below (of_nat j)" for i j
    using mono [of i j] that unfolding below by (cases "i = j") (auto intro: less_trans)
  have spec: "unat first \<le> unat n" "\<And>i. i < unat n \<Longrightarrow> v i < version \<longleftrightarrow> i < unat first"
    using lower_bound_prefix [of 0 n "unat n" below] n256 pre below by (auto simp: first_def)
  have vf: "rule_version (rule_at m rules first) = v (unat first)"
    by (simp add: v_def)
  have find: "FindRule m rules n version = (if unat first < unat n \<and> v (unat first) = version then Some first else None)"
    unfolding FindRule_def below_def [symmetric] first_def [symmetric] Let_def vf
    by (simp add: word_less_nat_alt)
  have uniq: "i = unat first" if "i < unat n" "v i = version" for i
  proof (rule ccontr)
    assume "i \<noteq> unat first"
    then consider "i < unat first" | "unat first < i" by linarith
    then show False
    proof cases
      case 1
      with that spec(2) [of i] show False by simp
    next
      case 2
      with that mono [of "unat first" i] spec(2) [of "unat first"] show False by simp
    qed
  qed
  show ?thesis
  proof (cases "unat first < unat n \<and> v (unat first) = version")
    case True
    have "\<not> v j = version" if "j < unat first" for j
      using uniq [of j] that True by auto
    then have "find (\<lambda>index. rule_version (rule_at m rules index) = version) (map of_nat [0..<unat n]) = Some first"
      unfolding find_Some_iff
      by (intro exI [of _ "unat first"]) (use True in \<open>simp add: v_def\<close>)
    with True find show ?thesis by simp
  next
    case False
    have "v i \<noteq> version" if "i < unat n" for i
      using uniq [OF that] that False by auto
    then have "find (\<lambda>index. rule_version (rule_at m rules index) = version) (map of_nat [0..<unat n]) = None"
      unfolding find_None_iff by (auto simp: v_def)
    moreover have "FindRule m rules n version = None"
      unfolding find using False by simp
    ultimately show ?thesis by simp
  qed
qed

lemma FindRule_Some_iff:
  assumes "RuleTableIsValid m rules n"
  shows "FindRule m rules n version = Some i \<longleftrightarrow> i < n \<and> rule_version (rule_at m rules i) = version"
proof -
  from assms have mono: "\<And>i j. i < j \<Longrightarrow> j < unat n \<Longrightarrow>
      rule_version (rule_at m rules (of_nat i)) < rule_version (rule_at m rules (of_nat j))"
    by (auto simp: RuleTableIsValid_iff)
  have "(\<exists>k < unat n. rule_version (rule_at m rules (of_nat k)) = version \<and> i = of_nat k \<and>
        (\<forall>j < k. rule_version (rule_at m rules (of_nat j)) \<noteq> version)) \<longleftrightarrow>
      i < n \<and> rule_version (rule_at m rules i) = version" (is "?L \<longleftrightarrow> ?R")
  proof
    assume ?L
    then obtain k where k: "k < unat n" "rule_version (rule_at m rules (of_nat k)) = version" "i = of_nat k"
      by blast
    have "unat n < 4294967296"
      using unsigned_less [of n, where ?'a = nat] by simp
    with k have "unat i = k"
      by (simp add: unat_of_nat)
    with k show ?R
      by (simp add: word_less_nat_alt)
  next
    assume R: ?R
    then have "rule_version (rule_at m rules (of_nat j)) \<noteq> version" if "j < unat i" for j
      using mono [of j "unat i"] that by (auto simp: word_less_nat_alt)
    with R show ?L
      by (intro exI [of _ "unat i"]) (simp add: word_less_nat_alt)
  qed
  then show ?thesis
    unfolding FindRule_eq_find [OF assms] find_Some_iff by (simp cong: conj_cong)
qed

definition payload_wf :: "mem \<Rightarrow> u64 \<Rightarrow> u32 \<Rightarrow> u8 list \<Rightarrow> bool" where
  "payload_wf m rules n bs \<longleftrightarrow>
     8 \<le> length bs \<and> length bs \<le> 65504 \<and> unat (ReadLe32 bs) = length bs \<and>
     (\<exists>i < n. rule_version (rule_at m rules i) = ReadLe16 (drop 4 bs) \<and>
        ReadLe16 (drop 6 bs) AND NOT (rule_known_flags (rule_at m rules i)) = 0 \<and>
        unat (rule_minimum_size (rule_at m rules i)) \<le> length bs \<and>
        length bs \<le> unat (rule_maximum_size (rule_at m rules i)))"

lemma ValidateAgainstRule_Ok_iff:
  "ValidateAgainstRule n flags r = PayOk \<longleftrightarrow> flags AND NOT (rule_known_flags r) = 0 \<and>
     unat (rule_minimum_size r) \<le> unat n \<and> unat n \<le> unat (rule_maximum_size r)"
  by (auto simp: ValidateAgainstRule_def word_less_nat_alt not_less)

lemma case_FindRule:
  assumes valid: "RuleTableIsValid m rules count"
  shows "fst (case FindRule m rules count v of None \<Rightarrow> (PayUnsupportedVersion, x)
       | Some i \<Rightarrow> if f i \<noteq> PayOk then (f i, x) else (PayOk, y)) = PayOk \<longleftrightarrow>
     (\<exists>i < count. rule_version (rule_at m rules i) = v \<and> f i = PayOk)"
proof (cases "FindRule m rules count v")
  case None
  with FindRule_Some_iff [OF valid, of v] have "\<not> (i < count \<and> rule_version (rule_at m rules i) = v)" for i
    by (metis option.distinct(1))
  with None show ?thesis
    by simp blast
next
  case (Some k)
  with FindRule_Some_iff [OF valid, of v] have k: "(i < count \<and> rule_version (rule_at m rules i) = v) \<longleftrightarrow> i = k" for i
    by (metis option.inject)
  have "(\<exists>i < count. rule_version (rule_at m rules i) = v \<and> f i = PayOk) \<longleftrightarrow> f k = PayOk"
    by (simp add: k flip: conj_assoc)
  with Some show ?thesis
    by simp
qed

definition payload_disjoint :: "u64 \<Rightarrow> u32 \<Rightarrow> u64 \<Rightarrow> u32 \<Rightarrow> out_arg \<Rightarrow> bool" where
  "payload_disjoint buffer n rules count out \<longleftrightarrow>
     \<not> OutOverlaps out 8 buffer n \<and> \<not> OutOverlaps out 8 rules (count * 12) \<and>
     \<not> PointerRangesOverlap buffer n rules (count * 12)"

lemma PayloadValidate_Ok_iff:
  "fst (PayloadValidate m buffer n rules count out) = PayOk \<longleftrightarrow>
     payload_disjoint buffer n rules count out \<and> buffer \<noteq> 0 \<and> RuleTableIsValid m rules count \<and>
     payload_wf m rules count (mem_read m buffer (unat n))"
proof (cases "RuleTableIsValid m rules count")
  case valid: True
  define bs where "bs = mem_read m buffer (unat n)"
  have len: "length bs = unat n"
    by (simp add: bs_def)
  from valid have c: "\<not> count > 256"
    by (simp add: RuleTableIsValid_iff word_less_nat_alt)
  have tot: "ReadLe32 bs = n \<longleftrightarrow> unat (ReadLe32 bs) = length bs"
    by (simp add: len word_unat_eq_iff)
  note case_ok = case_FindRule [OF valid]
  have bounds: "8 \<le> n \<longleftrightarrow> 8 \<le> unat n" "n \<le> 65504 \<longleftrightarrow> unat n \<le> 65504"
    by (simp_all add: word_le_nat_alt)
  have max: "kVersionedPayloadMaxBytes = 65504"
    by (simp add: kdefs)
  have "fst (PayloadValidate m buffer n rules count out) = PayOk \<longleftrightarrow>
     payload_disjoint buffer n rules count out \<and> buffer \<noteq> 0 \<and> 8 \<le> n \<and> n \<le> 65504 \<and> ReadLe32 bs = n \<and>
     (\<exists>i < count. rule_version (rule_at m rules i) = ReadLe16 (drop 4 bs) \<and>
       ValidateAgainstRule n (ReadLe16 (drop 6 bs)) (rule_at m rules i) = PayOk)"
    unfolding PayloadValidate_def Let_def bs_def [symmetric] max payload_disjoint_def
    using valid c
    by (simp add: guards case_ok not_less kVersionedPayloadMaxRules_def kVersionedPayloadHeaderBytes_def
        sizeof_PayloadVersionRule_def sizeof_VersionedPayloadView_def kPayloadTotalSizeOffset_def
        kPayloadVersionOffset_def kPayloadFlagsOffset_def cong: conj_cong)
      (intro iffI; elim conjE; intro conjI; simp)
  then show ?thesis
    unfolding payload_wf_def bs_def [symmetric] tot bounds using valid
    by (auto simp: len ValidateAgainstRule_Ok_iff)
next
  case False
  then show ?thesis
    unfolding PayloadValidate_def Let_def by (simp add: guards)
qed

text \<open>
  C22. On every rule table that passes \<^verbatim>\<open>RuleTableIsValid\<close> the bisection of \<^verbatim>\<open>FindRule\<close> returns
  exactly what a left-to-right scan for the requested version would return, including the
  null result for an unknown version.
\<close>

theorem find_rule_is_linear_search:
  assumes "RuleTableIsValid m rules n"
  shows "FindRule m rules n version =
    find (\<lambda>index. rule_version (rule_at m rules index) = version) (map of_nat [0..<unat n])"
  using assms by (rule FindRule_eq_find)

definition sample_rules :: "PayloadVersionRule list" where
  "sample_rules =
    [\<lparr>rule_version = 1, rule_known_flags = 0, rule_minimum_size = 8, rule_maximum_size = 16\<rparr>,
     \<lparr>rule_version = 3, rule_known_flags = 1, rule_minimum_size = 8, rule_maximum_size = 64\<rparr>]"

definition sample_mem :: mem where
  "sample_mem = mem_write (\<lambda>_. 0) 8192 (concat (map rule_bytes sample_rules))"

lemma sample_rule_at: "rule_at sample_mem 8192 0 = sample_rules ! 0" "rule_at sample_mem 8192 1 = sample_rules ! 1"
  using rule_at_table [of 0 sample_rules "\<lambda>_. 0" 8192] rule_at_table [of 1 sample_rules "\<lambda>_. 0" 8192]
  by (simp_all add: sample_mem_def sample_rules_def)

lemma sample_table_valid: "RuleTableIsValid sample_mem 8192 2"
proof -
  have two: "i < 2 \<longleftrightarrow> i = 0 \<or> i = 1" for i :: nat
    by auto
  show ?thesis
    unfolding RuleTableIsValid_iff
    by (auto simp: two sample_rule_at sample_rules_def rule_in_bounds_def)
qed

theorem find_rule_is_linear_search_witness:
  "RuleTableIsValid sample_mem 8192 2 \<and> FindRule sample_mem 8192 2 3 = Some 1 \<and>
   FindRule sample_mem 8192 2 2 = None"
proof -
  have list: "map of_nat [0..<unat (2 :: u32)] = [0, 1 :: u32]"
    by (simp add: upt_rec)
  show ?thesis
    using sample_table_valid find_rule_is_linear_search [OF sample_table_valid, of 3]
      find_rule_is_linear_search [OF sample_table_valid, of 2]
    unfolding list by (simp add: sample_rule_at sample_rules_def)
qed

lemma PayloadValidate_stored:
  assumes "fst (PayloadValidate m buffer n rules count out) = PayOk"
  shows "snd (PayloadValidate m buffer n rules count out) =
    (if is_null_out out then None
     else Some \<lparr>pv_total_size = n, pv_version = ReadLe16 (drop 4 (mem_read m buffer (unat n))),
       pv_flags = ReadLe16 (drop 6 (mem_read m buffer (unat n)))\<rparr>)"
  using assms unfolding PayloadValidate_def Let_def
  by (simp add: kPayloadTotalSizeOffset_def kPayloadVersionOffset_def kPayloadFlagsOffset_def
      split: if_split_asm option.split_asm)

lemma PayloadValidate_cleared:
  assumes "fst (PayloadValidate m buffer n rules count out) \<noteq> PayOk"
    and "snd (PayloadValidate m buffer n rules count out) = Some v"
  shows "v = zero_payload_view \<and> \<not> is_null_out out"
  using assms unfolding PayloadValidate_def Let_def
  by (simp split: if_split_asm option.split_asm)

text \<open>
  C23. The payload validator returns \<^verbatim>\<open>Ok\<close> exactly when the payload, the rule table and the output
  are pairwise disjoint, the buffer is not null, the rule table is valid, the encoded total
  equals the received size within the global limits, and some rule of the table has the
  payload's version, knows all its flags and admits its size. Whatever it stores is the decoded
  prefix on success and the zero view on failure.
\<close>

theorem payload_validate_correct:
  "(fst (PayloadValidate m buffer n rules count out) = PayOk \<longleftrightarrow>
     payload_disjoint buffer n rules count out \<and> buffer \<noteq> 0 \<and> RuleTableIsValid m rules count \<and>
     payload_wf m rules count (mem_read m buffer (unat n))) \<and>
   (case snd (PayloadValidate m buffer n rules count out) of None \<Rightarrow> True
    | Some v \<Rightarrow> v = (if fst (PayloadValidate m buffer n rules count out) = PayOk
        then \<lparr>pv_total_size = n, pv_version = ReadLe16 (drop 4 (mem_read m buffer (unat n))),
          pv_flags = ReadLe16 (drop 6 (mem_read m buffer (unat n)))\<rparr>
        else zero_payload_view))"
proof (intro conjI PayloadValidate_Ok_iff)
  let ?v = "PayloadValidate m buffer n rules count out"
  show "case snd ?v of None \<Rightarrow> True
    | Some v \<Rightarrow> v = (if fst ?v = PayOk
        then \<lparr>pv_total_size = n, pv_version = ReadLe16 (drop 4 (mem_read m buffer (unat n))),
          pv_flags = ReadLe16 (drop 6 (mem_read m buffer (unat n)))\<rparr>
        else zero_payload_view)"
  proof (cases "fst ?v = PayOk")
    case True
    from PayloadValidate_stored [OF this] show ?thesis
      using True by (simp split: option.split if_split_asm)
  next
    case False
    then show ?thesis
      using PayloadValidate_cleared [of m buffer n rules count out] by (simp split: option.split)
  qed
qed

lemma PayloadEncodeHeader_Ok:
  assumes "PayloadEncodeHeader m buffer n version flags rules count = (PayOk, m')"
  shows "buffer \<noteq> 0" and "8 \<le> unat n" and "unat n \<le> 65504" and "RuleTableIsValid m rules count"
    and "m' = mem_write m buffer (WriteLe32 n @ WriteLe16 version @ WriteLe16 flags)"
    and "\<exists>i < count. rule_version (rule_at m rules i) = version \<and>
           ValidateAgainstRule n flags (rule_at m rules i) = PayOk"
proof -
  note enc = assms [unfolded PayloadEncodeHeader_def Let_def]
  from enc show c: "buffer \<noteq> 0" "8 \<le> unat n" "unat n \<le> 65504" and valid: "RuleTableIsValid m rules count"
    by (simp_all add: kdefs word_less_nat_alt split: if_split_asm)
  have g: "\<not> n < kVersionedPayloadHeaderBytes" "\<not> n > kVersionedPayloadMaxBytes"
    using c by (simp_all add: kdefs word_less_nat_alt)
  from enc c(1) g valid obtain i where i: "FindRule m rules count version = Some i"
    by (simp split: option.split_asm)
  with enc c(1) g valid have ok: "ValidateAgainstRule n flags (rule_at m rules i) = PayOk"
    by (simp split: if_split_asm)
  from i valid ok show "\<exists>i < count. rule_version (rule_at m rules i) = version \<and>
           ValidateAgainstRule n flags (rule_at m rules i) = PayOk"
    by (auto simp: FindRule_Some_iff)
  have "m' = mem_write (mem_write (mem_write m buffer (WriteLe32 n)) (buffer + of_nat 4) (WriteLe16 version))
      (buffer + of_nat 6) (WriteLe16 flags)"
    using enc c(1) g valid i ok by (simp add: kPayloadTotalSizeOffset_def kPayloadVersionOffset_def kPayloadFlagsOffset_def)
  moreover have "mem_write (mem_write m buffer (WriteLe32 n)) (buffer + of_nat 4) (WriteLe16 version) =
      mem_write m buffer (WriteLe32 n @ WriteLe16 version)"
    using mem_write_append [of "WriteLe32 n" "WriteLe16 version" m buffer] by (simp add: WriteLe16_def)
  moreover have "mem_write (mem_write m buffer (WriteLe32 n @ WriteLe16 version)) (buffer + of_nat 6) (WriteLe16 flags) =
      mem_write m buffer ((WriteLe32 n @ WriteLe16 version) @ WriteLe16 flags)"
    using mem_write_append [of "WriteLe32 n @ WriteLe16 version" "WriteLe16 flags" m buffer] by (simp add: WriteLe16_def)
  ultimately show "m' = mem_write m buffer (WriteLe32 n @ WriteLe16 version @ WriteLe16 flags)"
    by simp
qed

lemma rule_at_write_disjoint:
  assumes fit: "unat p + length bs \<le> 18446744073709551616" "unat rules + 12 * c \<le> 18446744073709551616"
    and disj: "\<And>a. \<not> (in_range a p (length bs) \<and> in_range a rules (12 * c))" and i: "i < c" "c \<le> 256"
  shows "rule_at (mem_write m p bs) rules (of_nat i) = rule_at m rules (of_nat i)"
proof -
  have "mem_read (mem_write m p bs) (rules + of_nat (12 * i + k)) j = mem_read m (rules + of_nat (12 * i + k)) j"
    if "k + j \<le> 12" for k j
    using that i by (intro mem_read_write_disjoint [OF fit _ disj]) simp
  from this [of 0 2] this [of 2 2] this [of 4 4] this [of 8 4] show ?thesis
    using i by (simp add: rule_at_alt)
qed

lemma rule_table_cong:
  assumes "\<And>i. i < unat count \<Longrightarrow> rule_at m' rules (of_nat i) = rule_at m rules (of_nat i)"
  shows "RuleTableIsValid m' rules count = RuleTableIsValid m rules count"
  unfolding RuleTableIsValid_iff using assms by (simp cong: conj_cong)

text \<open>
  C24. What the payload encoder writes, the validator accepts: when buffer and rule table are
  valid, disjoint address ranges, a successful encode of a version and flags into \<open>n\<close> bytes is
  followed by a successful validation under the same table, which yields that size, version
  and flags.
\<close>

theorem payload_encode_validate_roundtrip:
  assumes ranges: "PointerRangeIsValid buffer n" "PointerRangeIsValid rules (count * 12)"
    and disj: "\<not> PointerRangesOverlap buffer n rules (count * 12)"
    and enc: "PayloadEncodeHeader m buffer n version flags rules count = (PayOk, m')"
  shows "PayloadValidate m' buffer n rules count OutLocal =
    (PayOk, Some \<lparr>pv_total_size = n, pv_version = version, pv_flags = flags\<rparr>)"
proof -
  define bs where "bs = WriteLe32 n @ WriteLe16 version @ WriteLe16 flags"
  note e = PayloadEncodeHeader_Ok [OF enc, folded bs_def]
  have len: "length bs = 8"
    by (simp add: bs_def)
  have count: "unat count \<le> 256"
    using e(4) by (simp add: RuleTableIsValid_iff)
  then have size: "unat (count * 12) = 12 * unat count"
    by (simp add: unat_word_ariths)
  have fit: "unat buffer + length bs \<le> 18446744073709551616" "unat rules + 12 * unat count \<le> 18446744073709551616"
    using ranges e(2) by (simp_all add: PointerRangeIsValid_unat size len)
  have apart: "\<not> (in_range a buffer (length bs) \<and> in_range a rules (12 * unat count))" for a
  proof
    assume a: "in_range a buffer (length bs) \<and> in_range a rules (12 * unat count)"
    with e(2) have "in_range a buffer (unat n)"
      by (simp add: in_range_def len)
    with a disj ranges show False
      using PointerRangesOverlap_iff [of buffer rules n "count * 12"]
      by (auto simp: size PointerRangeIsValid_unat)
  qed
  have same: "rule_at m' rules (of_nat i) = rule_at m rules (of_nat i)" if "i < unat count" for i
    unfolding e(5) by (rule rule_at_write_disjoint [OF fit apart that count])
  from rule_table_cong [OF this] have valid: "RuleTableIsValid m' rules count"
    using e(4) by simp
  have rd: "mem_read m' buffer (unat n) = bs @ mem_read m (buffer + 8) (unat n - 8)"
    using mem_read_write_prefix [of bs "unat n" m buffer] e(2,3) by (simp add: e(5) len)
  have f: "ReadLe32 (mem_read m' buffer (unat n)) = n" "ReadLe16 (drop 4 (mem_read m' buffer (unat n))) = version"
    "ReadLe16 (drop 6 (mem_read m' buffer (unat n))) = flags"
    unfolding rd by (simp_all add: bs_def ReadLe32_WriteLe32 ReadLe16_WriteLe16)
  obtain i where i: "i < count" "rule_version (rule_at m rules i) = version"
      "ValidateAgainstRule n flags (rule_at m rules i) = PayOk"
    using e(6) by blast
  moreover from i(1) have "rule_at m' rules i = rule_at m rules i"
    using same [of "unat i"] by (simp add: word_less_nat_alt)
  ultimately have i: "i < count" "rule_version (rule_at m' rules i) = version"
      "ValidateAgainstRule n flags (rule_at m' rules i) = PayOk"
    by simp_all
  then have "payload_wf m' rules count (mem_read m' buffer (unat n))"
    using e(2,3) unfolding payload_wf_def f by (auto simp: ValidateAgainstRule_Ok_iff)
  then have ok: "fst (PayloadValidate m' buffer n rules count OutLocal) = PayOk"
    using e(1) disj valid by (simp add: PayloadValidate_Ok_iff payload_disjoint_def)
  from PayloadValidate_stored [OF ok] show ?thesis
    using ok by (simp add: f prod_eq_iff)
qed

lemma sample_find: "FindRule sample_mem 8192 2 3 = Some 1"
proof -
  have "map of_nat [0..<unat (2 :: u32)] = [0, 1 :: u32]"
    by (simp add: upt_rec)
  then show ?thesis
    unfolding FindRule_eq_find [OF sample_table_valid] by (simp add: sample_rule_at sample_rules_def)
qed

theorem payload_encode_validate_roundtrip_witness:
  "\<exists>m'. PayloadEncodeHeader sample_mem 4096 24 3 1 8192 2 = (PayOk, m') \<and>
     PayloadValidate m' 4096 24 8192 2 OutLocal =
       (PayOk, Some \<lparr>pv_total_size = 24, pv_version = 3, pv_flags = 1\<rparr>)"
proof -
  have "fst (PayloadEncodeHeader sample_mem 4096 24 3 1 8192 2) = PayOk"
    by (simp add: PayloadEncodeHeader_def sample_table_valid sample_find Let_def kdefs
        ValidateAgainstRule_def sample_rule_at sample_rules_def)
  then obtain m' where enc: "PayloadEncodeHeader sample_mem 4096 24 3 1 8192 2 = (PayOk, m')"
    by (metis prod.collapse)
  have "PointerRangeIsValid 4096 24" "PointerRangeIsValid 8192 (2 * 12)"
      "\<not> PointerRangesOverlap 4096 24 8192 (2 * 12)"
    by (simp_all add: PointerRangeIsValid_def PointerRangesOverlap_def kdefs)
  from payload_encode_validate_roundtrip [OF this enc] enc show ?thesis
    by blast
qed

end
