(* ===== verification/MessageRing.thy ===== *)
theory MessageRing
  imports VersionedPayload "HOL-Library.Monad_Syntax"
begin

text \<open>
  The fixed-storage IPC message ring (\<^verbatim>\<open>kernel/ipc/message_ring.{h,cpp}\<close>). The ring object is a
  record, the caller-owned storage lives in byte memory. Each section of code that the source
  runs under the ring lock is one atomic definition; an operation that leaves the lock for its
  byte copy (\<^verbatim>\<open>PrepareEnqueue\<close>, \<^verbatim>\<open>CopyOut\<close>) is the composition of such sections and a copy loop.
  A loop that need not return on a corrupt object is a \<open>partial_function (option)\<close>, so an
  operation that reaches it returns an \<open>option\<close> whose \<open>None\<close> means that the call never returns.
\<close>

section \<open>Data\<close>

definition kMessageRingRecordHeaderBytes :: u32 where [kdefs]: "kMessageRingRecordHeaderBytes = 16"
definition kMessageRingMinimumStorageBytes :: u32 where
  [kdefs]: "kMessageRingMinimumStorageBytes = kMessageRingRecordHeaderBytes + ucast kMessageAbiHeaderV1Bytes"

datatype MessageRingStatus =
    RingOk | RingInvalidArgument | RingNotInitialized | RingAliasedBuffer | RingMalformedMessage
  | RingInvalidPayloadContract | RingMissingPayloadContract | RingMalformedPayload | RingFull
  | RingBusy | RingEmpty | RingBufferTooSmall | RingCopyRequired | RingCopyNotActive
  | RingStaleSequence | RingStaleReservation | RingProducerAborted | RingSequenceExhausted
  | RingReservationExhausted | RingCorruptState | RingAlreadyInitialized | RingStaleReceiveLease
  | RingStaleCopyAttempt | RingReceiveLeaseExhausted | RingCopyIdExhausted

record MessageRingEnqueueResult =
  enq_status :: MessageRingStatus
  enq_reservation_id :: u64
  enq_sequence :: u64
  enq_message_error :: MessageValidationError
  enq_payload_error :: PayloadValidationError

record MessageRingPeekView =
  peek_sequence :: u64
  peek_receive_lease_id :: u64
  peek_frame_size :: u32

record MessageRingCopySpans =
  spans_first :: u64
  spans_first_size :: u32
  spans_second :: u64
  spans_second_size :: u32
  spans_copy_id :: u64

record MessageRingSnapshot =
  snap_capacity_bytes :: u32
  snap_used_bytes :: u32
  snap_free_bytes :: u32
  snap_queued_frames :: u32
  snap_next_sequence :: u64
  snap_producer_reservation_id :: u64
  snap_receive_sequence :: u64
  snap_producer_copy_active :: bool
  snap_producer_abort_requested :: bool
  snap_receive_copy_active :: bool
  snap_receive_copy_succeeded :: bool
  snap_sequence_exhausted :: bool
  snap_reservation_exhausted :: bool
  snap_receive_lease_exhausted :: bool
  snap_copy_id_exhausted :: bool

text \<open>
  The ring object. \<open>ring_self\<close> is the address of the object, which the alias checks compare
  with caller ranges; the ticket lock has no field, since each section under it is atomic here.
\<close>

record MessageRing =
  ring_self :: u64
  storage :: u64
  capacity_bytes :: u32
  head_offset :: u32
  tail_offset :: u32
  used_bytes :: u32
  queued_frames :: u32
  initialized :: u32
  next_sequence :: u64
  sequence_exhausted :: u32
  next_reservation_id :: u64
  reservation_exhausted :: u32
  producer_reservation_id :: u64
  producer_tail_offset :: u32
  producer_record_bytes :: u32
  producer_frame_size :: u32
  producer_copy_active :: u32
  producer_abort_requested :: u32
  next_receive_lease_id :: u64
  receive_lease_exhausted :: u32
  receive_sequence :: u64
  receive_lease_id :: u64
  receive_frame_size :: u32
  next_copy_id :: u64
  copy_id_exhausted :: u32
  receive_copy_id :: u64
  receive_copy_succeeded_id :: u64

definition sizeof_MessageRing :: u32 where [kdefs]: "sizeof_MessageRing = 184"
definition sizeof_MessageRingPeekView :: u32 where [kdefs]: "sizeof_MessageRingPeekView = 24"
definition sizeof_MessageRingCopySpans :: u32 where [kdefs]: "sizeof_MessageRingCopySpans = 40"
definition sizeof_MessageRingSnapshot :: u32 where [kdefs]: "sizeof_MessageRingSnapshot = 48"

definition kRecordSequenceOffset :: nat where [kdefs]: "kRecordSequenceOffset = 0"
definition kRecordFrameSizeOffset :: nat where [kdefs]: "kRecordFrameSizeOffset = 8"
definition kRecordReservedOffset :: nat where [kdefs]: "kRecordReservedOffset = 12"
definition kRingStateUninitialized :: u32 where [kdefs]: "kRingStateUninitialized = 0"
definition kRingStateInitializing :: u32 where [kdefs]: "kRingStateInitializing = 1"
definition kRingStateReady :: u32 where [kdefs]: "kRingStateReady = 2"

section \<open>Helpers\<close>

definition RingIsReady :: "MessageRing option \<Rightarrow> bool" where
  "RingIsReady ring \<longleftrightarrow> (case ring of None \<Rightarrow> False | Some r \<Rightarrow> initialized r = kRingStateReady)"

definition AdvanceOffset :: "u32 \<Rightarrow> u32 \<Rightarrow> u32 \<Rightarrow> u32" where
  "AdvanceOffset offset bytes capacity =
    (let remaining = capacity - offset
     in if bytes < remaining then offset + bytes
        else if bytes = remaining then 0
        else bytes - remaining)"

text \<open>
  The source of a copy into storage is a kernel buffer or the local header array of the caller.
\<close>

datatype byte_source = FromMem u64 | FromLocal "u8 list"

fun source_byte :: "mem \<Rightarrow> byte_source \<Rightarrow> u32 \<Rightarrow> u8" where
  "source_byte m (FromMem p) index = m (p + ucast index)"
| "source_byte m (FromLocal bytes) index = bytes ! unat index"

partial_function (option) CopyIntoStorage_loop ::
    "MessageRing \<Rightarrow> byte_source \<Rightarrow> mem \<Rightarrow> u32 \<Rightarrow> u32 \<Rightarrow> u32 \<Rightarrow> mem option" where
  "CopyIntoStorage_loop ring source m remaining source_offset target_offset =
    (if remaining = 0 then Some m
     else
       let contiguous = capacity_bytes ring - target_offset;
           chunk = (if remaining < contiguous then remaining else contiguous);
           m' = fold (\<lambda>index m. m(storage ring + ucast (target_offset + of_nat index) :=
                    source_byte m source (source_offset + of_nat index))) [0..<unat chunk] m;
           remaining' = remaining - chunk
       in CopyIntoStorage_loop ring source m' remaining' (source_offset + chunk)
            (if remaining' = 0 then target_offset else 0))"

definition CopyIntoStorage :: "MessageRing \<Rightarrow> mem \<Rightarrow> u32 \<Rightarrow> byte_source \<Rightarrow> u32 \<Rightarrow> mem option" where
  "CopyIntoStorage ring m offset source bytes = CopyIntoStorage_loop ring source m bytes 0 offset"

text \<open>Every caller of \<^verbatim>\<open>CopyFromStorage\<close> passes a local array, whose content is the result.\<close>

partial_function (option) CopyFromStorage_loop ::
    "MessageRing \<Rightarrow> mem \<Rightarrow> u8 list \<Rightarrow> u32 \<Rightarrow> u32 \<Rightarrow> u32 \<Rightarrow> u8 list option" where
  "CopyFromStorage_loop ring m destination remaining destination_offset source_offset =
    (if remaining = 0 then Some destination
     else
       let contiguous = capacity_bytes ring - source_offset;
           chunk = (if remaining < contiguous then remaining else contiguous);
           destination' = fold (\<lambda>index d. d[unat (destination_offset + of_nat index) :=
                    m (storage ring + ucast (source_offset + of_nat index))]) [0..<unat chunk] destination;
           remaining' = remaining - chunk
       in CopyFromStorage_loop ring m destination' remaining' (destination_offset + chunk)
            (if remaining' = 0 then source_offset else 0))"

definition CopyFromStorage :: "MessageRing \<Rightarrow> mem \<Rightarrow> u32 \<Rightarrow> u8 list \<Rightarrow> u32 \<Rightarrow> u8 list option" where
  "CopyFromStorage ring m offset destination bytes = CopyFromStorage_loop ring m destination bytes 0 offset"

definition CopyBytes :: "mem \<Rightarrow> u64 \<Rightarrow> u64 \<Rightarrow> u32 \<Rightarrow> mem" where
  "CopyBytes m destination source bytes =
    fold (\<lambda>index m. m(destination + of_nat index := m (source + of_nat index))) [0..<unat bytes] m"

definition StateIsValid :: "MessageRing \<Rightarrow> bool" where
  "StateIsValid ring =
    (if storage ring = 0 \<or> capacity_bytes ring < kMessageRingMinimumStorageBytes then False
     else if head_offset ring \<ge> capacity_bytes ring \<or> tail_offset ring \<ge> capacity_bytes ring \<or>
             used_bytes ring > capacity_bytes ring then False
     else if (queued_frames ring = 0) \<noteq> (used_bytes ring = 0) then False
     else if queued_frames ring \<noteq> 0 \<and> used_bytes ring < kMessageRingMinimumStorageBytes then False
     else if (if receive_sequence ring = 0
              then receive_lease_id ring \<noteq> 0 \<or> receive_frame_size ring \<noteq> 0 \<or>
                   receive_copy_id ring \<noteq> 0 \<or> receive_copy_succeeded_id ring \<noteq> 0
              else queued_frames ring = 0 \<or> receive_lease_id ring = 0 \<or>
                   receive_frame_size ring < ucast kMessageAbiHeaderV1Bytes) then False
     else if receive_copy_id ring \<noteq> 0 \<and> receive_copy_succeeded_id ring \<noteq> 0 then False
     else if next_receive_lease_id ring = 0 \<or> next_copy_id ring = 0 \<or>
             receive_lease_exhausted ring > 1 \<or> copy_id_exhausted ring > 1 then False
     else if (if producer_reservation_id ring = 0
              then producer_record_bytes ring \<noteq> 0 \<or> producer_frame_size ring \<noteq> 0 \<or>
                   producer_copy_active ring \<noteq> 0 \<or> producer_abort_requested ring \<noteq> 0
              else producer_tail_offset ring \<noteq> tail_offset ring \<or>
                   producer_record_bytes ring \<noteq> kMessageRingRecordHeaderBytes + producer_frame_size ring \<or>
                   producer_frame_size ring < ucast kMessageAbiHeaderV1Bytes \<or>
                   producer_record_bytes ring > capacity_bytes ring - used_bytes ring) then False
     else True)"

definition ClearProducer :: "MessageRing \<Rightarrow> MessageRing" where
  "ClearProducer ring = ring\<lparr>producer_reservation_id := 0, producer_tail_offset := 0,
     producer_record_bytes := 0, producer_frame_size := 0, producer_copy_active := 0,
     producer_abort_requested := 0\<rparr>"

definition ClearReceiver :: "MessageRing \<Rightarrow> MessageRing" where
  "ClearReceiver ring = ring\<lparr>receive_sequence := 0, receive_lease_id := 0, receive_frame_size := 0,
     receive_copy_id := 0, receive_copy_succeeded_id := 0\<rparr>"

record HeadRecord =
  rec_sequence :: u64
  rec_frame_size :: u32
  rec_record_size :: u32

text \<open>
  \<^verbatim>\<open>ReadHeadRecord\<close> is always called with a non-null output: the inner \<open>None\<close> is its result
  \<^verbatim>\<open>false\<close>.
\<close>

definition ReadHeadRecord :: "mem \<Rightarrow> MessageRing \<Rightarrow> HeadRecord option option" where
  "ReadHeadRecord m ring =
    (if queued_frames ring = 0 \<or> used_bytes ring < kMessageRingRecordHeaderBytes then Some None
     else do {
       header \<leftarrow> CopyFromStorage ring m (head_offset ring)
         (replicate (unat kMessageRingRecordHeaderBytes) 0) kMessageRingRecordHeaderBytes;
       let sequence = ReadLe64 (drop kRecordSequenceOffset header);
       let frame_size = ReadLe32 (drop kRecordFrameSizeOffset header);
       let reserved = ReadLe32 (drop kRecordReservedOffset header);
       Some (if sequence = 0 \<or> reserved \<noteq> 0 \<or> frame_size < ucast kMessageAbiHeaderV1Bytes \<or>
                frame_size > kMessageAbiMaxBytes then None
             else
               let record_size = kMessageRingRecordHeaderBytes + frame_size
               in if record_size > used_bytes ring \<or> record_size > capacity_bytes ring then None
                  else Some \<lparr>rec_sequence = sequence, rec_frame_size = frame_size,
                    rec_record_size = record_size\<rparr>)
     })"

definition EnqueueFailure ::
    "MessageRingStatus \<Rightarrow> MessageValidationError \<Rightarrow> PayloadValidationError \<Rightarrow> MessageRingEnqueueResult" where
  "EnqueueFailure status message_error payload_error =
    \<lparr>enq_status = status, enq_reservation_id = 0, enq_sequence = 0,
     enq_message_error = message_error, enq_payload_error = payload_error\<rparr>"

section \<open>Initialization\<close>

definition MessageRingInitialize ::
    "MessageRing option \<Rightarrow> u64 \<Rightarrow> u32 \<Rightarrow> u64 \<Rightarrow> MessageRingStatus \<times> MessageRing option" where
  "MessageRingInitialize ring storage_ptr storage_bytes first_sequence =
    on_ptr ring RingInvalidArgument (\<lambda>r.
      if first_sequence = 0 \<or> storage_bytes < kMessageRingMinimumStorageBytes \<or>
         \<not> PointerRangeIsValid storage_ptr storage_bytes \<or>
         PointerRangesOverlap (ring_self r) sizeof_MessageRing storage_ptr storage_bytes
      then (RingInvalidArgument, r)
      else if initialized r \<noteq> kRingStateUninitialized then (RingAlreadyInitialized, r)
      else
        let r = r\<lparr>initialized := kRingStateInitializing\<rparr>;
            r = r\<lparr>storage := storage_ptr, capacity_bytes := storage_bytes, head_offset := 0,
                  tail_offset := 0, used_bytes := 0, queued_frames := 0,
                  next_sequence := first_sequence, sequence_exhausted := 0,
                  next_reservation_id := 1, reservation_exhausted := 0,
                  next_receive_lease_id := 1, receive_lease_exhausted := 0,
                  next_copy_id := 1, copy_id_exhausted := 0\<rparr>;
            r = ClearReceiver (ClearProducer r)
        in (RingOk, r\<lparr>initialized := kRingStateReady\<rparr>))"

section \<open>Producer\<close>

text \<open>
  \<^verbatim>\<open>PrepareEnqueue\<close> has three phases: the preflight, which runs outside the lock and yields either
  a failure or permission to go on (\<open>None\<close>), the locked reservation with the unlocked copy
  behind it, and the locked end of the copy.
\<close>

definition PreparePreflight ::
    "mem \<Rightarrow> MessageRing option \<Rightarrow> u64 \<Rightarrow> u32 \<Rightarrow> u64 \<Rightarrow> u32 \<Rightarrow> MessageRingEnqueueResult option" where
  "PreparePreflight m ring frame frame_bytes payload_rules payload_rule_count =
    (case ring of
       None \<Rightarrow> Some (EnqueueFailure RingInvalidArgument MsgOk PayOk)
     | Some r \<Rightarrow>
       if frame = 0 \<or> frame_bytes = 0 then Some (EnqueueFailure RingInvalidArgument MsgOk PayOk)
       else if \<not> RingIsReady ring then Some (EnqueueFailure RingNotInitialized MsgOk PayOk)
       else if \<not> PointerRangeIsValid frame frame_bytes \<or>
               PointerRangesOverlap frame frame_bytes (storage r) (capacity_bytes r) \<or>
               PointerRangesOverlap frame frame_bytes (ring_self r) sizeof_MessageRing
       then Some (EnqueueFailure RingAliasedBuffer MsgOk PayOk)
       else
         let has_rules = (payload_rules \<noteq> 0);
             has_rule_count = (payload_rule_count \<noteq> 0)
         in if has_rules \<noteq> has_rule_count \<or> payload_rule_count > kVersionedPayloadMaxRules
            then Some (EnqueueFailure RingInvalidPayloadContract MsgOk PayInvalidRuleTable)
            else
              let rule_bytes = payload_rule_count * sizeof_PayloadVersionRule
              in if has_rules \<and> \<not> PointerRangeIsValid payload_rules rule_bytes
                 then Some (EnqueueFailure RingInvalidPayloadContract MsgOk PayInvalidRuleTable)
                 else if has_rules \<and>
                    (PointerRangesOverlap payload_rules rule_bytes frame frame_bytes \<or>
                     PointerRangesOverlap payload_rules rule_bytes (storage r) (capacity_bytes r) \<or>
                     PointerRangesOverlap payload_rules rule_bytes (ring_self r) sizeof_MessageRing)
                 then Some (EnqueueFailure RingAliasedBuffer MsgOk PayOk)
                 else
                   (case MessageValidate m frame frame_bytes OutLocal of (message_error, stored) \<Rightarrow>
                      if message_error \<noteq> MsgOk
                      then Some (EnqueueFailure RingMalformedMessage message_error PayOk)
                      else
                        let message_view = (case stored of Some v \<Rightarrow> v | None \<Rightarrow> zero_view)
                        in if view_payload_size message_view = 0
                           then (if has_rules
                                 then Some (EnqueueFailure RingMalformedPayload MsgOk
                                        (fst (PayloadValidate m (frame + ucast (view_header_size message_view)) 0
                                               payload_rules payload_rule_count OutNull)))
                                 else None)
                           else if \<not> has_rules
                           then Some (EnqueueFailure RingMissingPayloadContract MsgOk PayInvalidRuleTable)
                           else
                             let payload_error = fst (PayloadValidate m
                                   (frame + ucast (view_payload_offset message_view))
                                   (view_payload_size message_view) payload_rules payload_rule_count OutNull)
                             in if payload_error \<noteq> PayOk
                                then Some (EnqueueFailure RingMalformedPayload MsgOk payload_error)
                                else None))"

text \<open>The reservation, under the lock: status, reservation id and frame offset.\<close>

definition PrepareReserve :: "MessageRing \<Rightarrow> u32 \<Rightarrow> (MessageRingStatus \<times> u64 \<times> u32) \<times> MessageRing" where
  "PrepareReserve ring frame_bytes =
    (let record_bytes = kMessageRingRecordHeaderBytes + frame_bytes
     in if \<not> StateIsValid ring then ((RingCorruptState, 0, 0), ring)
        else if producer_reservation_id ring \<noteq> 0 then ((RingBusy, 0, 0), ring)
        else if reservation_exhausted ring \<noteq> 0 then ((RingReservationExhausted, 0, 0), ring)
        else if sequence_exhausted ring \<noteq> 0 then ((RingSequenceExhausted, 0, 0), ring)
        else if record_bytes > capacity_bytes ring - used_bytes ring then ((RingFull, 0, 0), ring)
        else
          let reservation_id = next_reservation_id ring;
              ring = (if reservation_id = kU64Max then ring\<lparr>reservation_exhausted := 1\<rparr>
                      else ring\<lparr>next_reservation_id := reservation_id + 1\<rparr>);
              ring = ring\<lparr>producer_reservation_id := reservation_id,
                          producer_tail_offset := tail_offset ring,
                          producer_record_bytes := record_bytes,
                          producer_frame_size := frame_bytes,
                          producer_copy_active := 1, producer_abort_requested := 0\<rparr>;
              frame_offset = AdvanceOffset (tail_offset ring) kMessageRingRecordHeaderBytes (capacity_bytes ring)
          in ((RingOk, reservation_id, frame_offset), ring))"

definition PrepareFinish :: "MessageRing \<Rightarrow> u64 \<Rightarrow> MessageRingStatus \<times> MessageRing" where
  "PrepareFinish ring reservation_id =
    (if \<not> StateIsValid ring \<or> producer_reservation_id ring \<noteq> reservation_id \<or> producer_copy_active ring = 0
     then (RingCorruptState,
           if producer_reservation_id ring = reservation_id then ClearProducer ring else ring)
     else
       let ring = ring\<lparr>producer_copy_active := 0\<rparr>
       in if producer_abort_requested ring \<noteq> 0 then (RingProducerAborted, ClearProducer ring)
          else (RingOk, ring))"

definition MessageRingPrepareEnqueue ::
    "mem \<Rightarrow> MessageRing option \<Rightarrow> u64 \<Rightarrow> u32 \<Rightarrow> u64 \<Rightarrow> u32 \<Rightarrow>
      (MessageRingEnqueueResult \<times> mem \<times> MessageRing option) option" where
  "MessageRingPrepareEnqueue m ring frame frame_bytes payload_rules payload_rule_count =
    (case PreparePreflight m ring frame frame_bytes payload_rules payload_rule_count of
       Some failure \<Rightarrow> Some (failure, m, ring)
     | None \<Rightarrow>
       (case PrepareReserve (the ring) frame_bytes of ((status, reservation_id, frame_offset), r) \<Rightarrow>
          if status \<noteq> RingOk then Some (EnqueueFailure status MsgOk PayOk, m, Some r)
          else do {
            m' \<leftarrow> CopyIntoStorage r m frame_offset (FromMem frame) frame_bytes;
            let (finish, r') = PrepareFinish r reservation_id;
            Some (if finish \<noteq> RingOk then EnqueueFailure finish MsgOk PayOk
                  else \<lparr>enq_status = RingOk, enq_reservation_id = reservation_id, enq_sequence = 0,
                        enq_message_error = MsgOk, enq_payload_error = PayOk\<rparr>, m', Some r')
          }))"

definition PublishLocked ::
    "mem \<Rightarrow> MessageRing \<Rightarrow> u64 \<Rightarrow> (MessageRingStatus \<times> u64 \<times> mem \<times> MessageRing) option" where
  "PublishLocked m ring reservation_id =
    (if \<not> StateIsValid ring then Some (RingCorruptState, 0, m, ring)
     else if producer_reservation_id ring \<noteq> reservation_id then Some (RingStaleReservation, 0, m, ring)
     else if producer_copy_active ring \<noteq> 0 then Some (RingBusy, 0, m, ring)
     else if producer_abort_requested ring \<noteq> 0 then Some (RingProducerAborted, 0, m, ClearProducer ring)
     else if sequence_exhausted ring \<noteq> 0 then Some (RingSequenceExhausted, 0, m, ClearProducer ring)
     else do {
       let sequence = next_sequence ring;
       let header = WriteLe64 sequence @ WriteLe32 (producer_frame_size ring) @ WriteLe32 0;
       m' \<leftarrow> CopyIntoStorage ring m (producer_tail_offset ring) (FromLocal header) kMessageRingRecordHeaderBytes;
       let ring = ring\<lparr>tail_offset := AdvanceOffset (tail_offset ring) (producer_record_bytes ring) (capacity_bytes ring),
                       used_bytes := used_bytes ring + producer_record_bytes ring,
                       queued_frames := queued_frames ring + 1\<rparr>;
       let ring = (if sequence = kU64Max then ring\<lparr>sequence_exhausted := 1\<rparr>
                   else ring\<lparr>next_sequence := sequence + 1\<rparr>);
       Some (RingOk, sequence, m', ClearProducer ring)
     })"

definition MessageRingPublishEnqueue ::
    "mem \<Rightarrow> MessageRing option \<Rightarrow> u64 \<Rightarrow> out_arg \<Rightarrow>
      (MessageRingStatus \<times> u64 option \<times> mem \<times> MessageRing option) option" where
  "MessageRingPublishEnqueue m ring reservation_id sequence_out =
    (let zeroed = (if is_null_out sequence_out then None else Some 0)
     in if \<not> is_null_out sequence_out \<and> \<not> OutRangeIsValid sequence_out 8
        then Some (RingInvalidArgument, None, m, ring)
        else case ring of
          None \<Rightarrow> Some (RingInvalidArgument, zeroed, m, ring)
        | Some r \<Rightarrow>
          if OutOverlaps sequence_out 8 (ring_self r) sizeof_MessageRing then Some (RingAliasedBuffer, None, m, ring)
          else if \<not> RingIsReady ring then Some (RingNotInitialized, None, m, ring)
          else if OutOverlaps sequence_out 8 (storage r) (capacity_bytes r) then Some (RingAliasedBuffer, None, m, ring)
          else if reservation_id = 0 then Some (RingInvalidArgument, zeroed, m, ring)
          else do {
            (status, sequence, m', r') \<leftarrow> PublishLocked m r reservation_id;
            Some (status,
                  if status = RingOk \<and> \<not> is_null_out sequence_out then Some sequence else zeroed,
                  m', Some r')
          })"

definition MessageRingAbortEnqueue ::
    "MessageRing option \<Rightarrow> u64 \<Rightarrow> MessageRingStatus \<times> MessageRing option" where
  "MessageRingAbortEnqueue ring reservation_id =
    on_ptr ring RingInvalidArgument (\<lambda>r.
      if reservation_id = 0 then (RingInvalidArgument, r)
      else if \<not> RingIsReady ring then (RingNotInitialized, r)
      else if \<not> StateIsValid r then (RingCorruptState, r)
      else if producer_reservation_id r \<noteq> reservation_id then (RingStaleReservation, r)
      else if producer_copy_active r \<noteq> 0 then (RingOk, r\<lparr>producer_abort_requested := 1\<rparr>)
      else (RingOk, ClearProducer r))"

definition MessageRingEnqueue ::
    "mem \<Rightarrow> MessageRing option \<Rightarrow> u64 \<Rightarrow> u32 \<Rightarrow> u64 \<Rightarrow> u32 \<Rightarrow>
      (MessageRingEnqueueResult \<times> mem \<times> MessageRing option) option" where
  "MessageRingEnqueue m ring frame frame_bytes payload_rules payload_rule_count = do {
     (result, m1, ring1) \<leftarrow> MessageRingPrepareEnqueue m ring frame frame_bytes payload_rules payload_rule_count;
     if enq_status result \<noteq> RingOk then Some (result, m1, ring1)
     else do {
       (status, sequence, m2, ring2) \<leftarrow>
         MessageRingPublishEnqueue m1 ring1 (enq_reservation_id result) OutLocal;
       let result = result\<lparr>enq_status := status\<rparr>;
       if status = RingOk
       then Some (result\<lparr>enq_sequence := (case sequence of Some s \<Rightarrow> s | None \<Rightarrow> 0)\<rparr>, m2, ring2)
       else Some (result, m2, snd (MessageRingAbortEnqueue ring2 (enq_reservation_id result)))
     }
   }"

section \<open>Receiver\<close>

definition PeekLocked ::
    "mem \<Rightarrow> MessageRing \<Rightarrow> (MessageRingStatus \<times> MessageRingPeekView option \<times> MessageRing) option" where
  "PeekLocked m ring =
    (if \<not> StateIsValid ring then Some (RingCorruptState, None, ring)
     else if receive_sequence ring \<noteq> 0 then Some (RingBusy, None, ring)
     else if queued_frames ring = 0 then Some (RingEmpty, None, ring)
     else if receive_lease_exhausted ring \<noteq> 0 then Some (RingReceiveLeaseExhausted, None, ring)
     else do {
       read \<leftarrow> ReadHeadRecord m ring;
       Some (case read of None \<Rightarrow> (RingCorruptState, None, ring)
         | Some head \<Rightarrow>
             let lease = next_receive_lease_id ring;
                 ring = (if lease = kU64Max then ring\<lparr>receive_lease_exhausted := 1\<rparr>
                         else ring\<lparr>next_receive_lease_id := lease + 1\<rparr>);
                 ring = ring\<lparr>receive_sequence := rec_sequence head, receive_lease_id := lease,
                             receive_frame_size := rec_frame_size head, receive_copy_id := 0,
                             receive_copy_succeeded_id := 0\<rparr>
             in (RingOk, Some \<lparr>peek_sequence = rec_sequence head, peek_receive_lease_id = lease,
                               peek_frame_size = rec_frame_size head\<rparr>, ring))
     })"

definition zero_peek_view :: MessageRingPeekView where
  "zero_peek_view = \<lparr>peek_sequence = 0, peek_receive_lease_id = 0, peek_frame_size = 0\<rparr>"

definition MessageRingPeek ::
    "mem \<Rightarrow> MessageRing option \<Rightarrow> out_arg \<Rightarrow>
      (MessageRingStatus \<times> MessageRingPeekView option \<times> MessageRing option) option" where
  "MessageRingPeek m ring view_out =
    (if \<not> is_null_out view_out \<and> \<not> OutRangeIsValid view_out sizeof_MessageRingPeekView
     then Some (RingInvalidArgument, None, ring)
     else case ring of
       None \<Rightarrow> Some (RingInvalidArgument, None, ring)
     | Some r \<Rightarrow>
       if OutOverlaps view_out sizeof_MessageRingPeekView (ring_self r) sizeof_MessageRing
       then Some (RingAliasedBuffer, None, ring)
       else if is_null_out view_out then Some (RingInvalidArgument, None, ring)
       else if \<not> RingIsReady ring then Some (RingNotInitialized, None, ring)
       else if OutOverlaps view_out sizeof_MessageRingPeekView (storage r) (capacity_bytes r)
       then Some (RingAliasedBuffer, None, ring)
       else do {
         (status, view, r') \<leftarrow> PeekLocked m r;
         Some (status, Some (case view of Some v \<Rightarrow> v | None \<Rightarrow> zero_peek_view), Some r')
       })"

definition BeginCopyOutLocked ::
    "mem \<Rightarrow> MessageRing \<Rightarrow> u64 \<Rightarrow> u64 \<Rightarrow>
      (MessageRingStatus \<times> MessageRingCopySpans option \<times> MessageRing) option" where
  "BeginCopyOutLocked m ring sequence lease =
    (if \<not> StateIsValid ring then Some (RingCorruptState, None, ring)
     else if receive_sequence ring \<noteq> sequence then Some (RingStaleSequence, None, ring)
     else if receive_lease_id ring \<noteq> lease then Some (RingStaleReceiveLease, None, ring)
     else if receive_copy_id ring \<noteq> 0 then Some (RingBusy, None, ring)
     else if copy_id_exhausted ring \<noteq> 0 then Some (RingCopyIdExhausted, None, ring)
     else do {
       read \<leftarrow> ReadHeadRecord m ring;
       Some (case read of None \<Rightarrow> (RingCorruptState, None, ring)
         | Some head \<Rightarrow>
             if rec_sequence head \<noteq> sequence \<or> rec_frame_size head \<noteq> receive_frame_size ring
             then (RingCorruptState, None, ring)
             else
               let frame_offset = AdvanceOffset (head_offset ring) kMessageRingRecordHeaderBytes (capacity_bytes ring);
                   contiguous = capacity_bytes ring - frame_offset;
                   first_size = (if rec_frame_size head < contiguous then rec_frame_size head else contiguous);
                   second_size = rec_frame_size head - first_size;
                   copy_id = next_copy_id ring;
                   ring = (if copy_id = kU64Max then ring\<lparr>copy_id_exhausted := 1\<rparr>
                           else ring\<lparr>next_copy_id := copy_id + 1\<rparr>);
                   ring = ring\<lparr>receive_copy_id := copy_id, receive_copy_succeeded_id := 0\<rparr>
               in (RingOk, Some \<lparr>spans_first = storage ring + ucast frame_offset,
                                 spans_first_size = first_size,
                                 spans_second = (if second_size = 0 then 0 else storage ring),
                                 spans_second_size = second_size, spans_copy_id = copy_id\<rparr>, ring))
     })"

definition zero_spans :: MessageRingCopySpans where
  "zero_spans = \<lparr>spans_first = 0, spans_first_size = 0, spans_second = 0, spans_second_size = 0,
     spans_copy_id = 0\<rparr>"

definition MessageRingBeginCopyOut ::
    "mem \<Rightarrow> MessageRing option \<Rightarrow> u64 \<Rightarrow> u64 \<Rightarrow> out_arg \<Rightarrow>
      (MessageRingStatus \<times> MessageRingCopySpans option \<times> MessageRing option) option" where
  "MessageRingBeginCopyOut m ring sequence lease spans_out =
    (if \<not> is_null_out spans_out \<and> \<not> OutRangeIsValid spans_out sizeof_MessageRingCopySpans
     then Some (RingInvalidArgument, None, ring)
     else case ring of
       None \<Rightarrow> Some (RingInvalidArgument, None, ring)
     | Some r \<Rightarrow>
       if OutOverlaps spans_out sizeof_MessageRingCopySpans (ring_self r) sizeof_MessageRing
       then Some (RingAliasedBuffer, None, ring)
       else if sequence = 0 \<or> lease = 0 \<or> is_null_out spans_out then Some (RingInvalidArgument, None, ring)
       else if \<not> RingIsReady ring then Some (RingNotInitialized, None, ring)
       else if OutOverlaps spans_out sizeof_MessageRingCopySpans (storage r) (capacity_bytes r)
       then Some (RingAliasedBuffer, None, ring)
       else do {
         (status, spans, r') \<leftarrow> BeginCopyOutLocked m r sequence lease;
         Some (status, Some (case spans of Some v \<Rightarrow> v | None \<Rightarrow> zero_spans), Some r')
       })"

definition MessageRingEndCopyOut ::
    "MessageRing option \<Rightarrow> u64 \<Rightarrow> u64 \<Rightarrow> u64 \<Rightarrow> bool \<Rightarrow> MessageRingStatus \<times> MessageRing option" where
  "MessageRingEndCopyOut ring sequence lease copy_id succeeded =
    on_ptr ring RingInvalidArgument (\<lambda>r.
      if sequence = 0 \<or> lease = 0 \<or> copy_id = 0 then (RingInvalidArgument, r)
      else if \<not> RingIsReady ring then (RingNotInitialized, r)
      else if \<not> StateIsValid r then (RingCorruptState, r)
      else if receive_sequence r \<noteq> sequence then (RingStaleSequence, r)
      else if receive_lease_id r \<noteq> lease then (RingStaleReceiveLease, r)
      else if receive_copy_id r = 0 then (RingCopyNotActive, r)
      else if receive_copy_id r \<noteq> copy_id then (RingStaleCopyAttempt, r)
      else (RingOk, r\<lparr>receive_copy_id := 0,
                       receive_copy_succeeded_id := (if succeeded then copy_id else 0)\<rparr>))"

text \<open>
  \<^verbatim>\<open>CopyOut\<close> behind its preflight: \<open>zeroed\<close> is the cleared byte count of the caller.
\<close>

definition CopyOutTransfer ::
    "mem \<Rightarrow> MessageRing option \<Rightarrow> u64 \<Rightarrow> u64 \<Rightarrow> u64 \<Rightarrow> u32 \<Rightarrow> u32 option \<Rightarrow>
      (MessageRingStatus \<times> u32 option \<times> mem \<times> MessageRing option) option" where
  "CopyOutTransfer m ring sequence lease destination destination_bytes zeroed = do {
     (status, stored, ring1) \<leftarrow> MessageRingBeginCopyOut m ring sequence lease OutLocal;
     let spans = (case stored of Some v \<Rightarrow> v | None \<Rightarrow> zero_spans);
     if status \<noteq> RingOk then Some (status, zeroed, m, ring1)
     else
       let required = spans_first_size spans + spans_second_size spans
       in if destination_bytes < required
          then Some (RingBufferTooSmall, zeroed, m,
            snd (MessageRingEndCopyOut ring1 sequence lease (spans_copy_id spans) False))
          else
            let m1 = CopyBytes m destination (spans_first spans) (spans_first_size spans);
                m2 = (if spans_second_size spans \<noteq> 0
                      then CopyBytes m1 (destination + ucast (spans_first_size spans))
                             (spans_second spans) (spans_second_size spans)
                      else m1);
                (status, ring2) = MessageRingEndCopyOut ring1 sequence lease (spans_copy_id spans) True
            in Some (status, if status = RingOk \<and> zeroed \<noteq> None then Some required else zeroed, m2, ring2)
   }"

definition MessageRingCopyOut ::
    "mem \<Rightarrow> MessageRing option \<Rightarrow> u64 \<Rightarrow> u64 \<Rightarrow> u64 \<Rightarrow> u32 \<Rightarrow> out_arg \<Rightarrow>
      (MessageRingStatus \<times> u32 option \<times> mem \<times> MessageRing option) option" where
  "MessageRingCopyOut m ring sequence lease destination destination_bytes copied_bytes_out =
    (let zeroed = (if is_null_out copied_bytes_out then None else Some 0)
     in if \<not> is_null_out copied_bytes_out \<and> \<not> OutRangeIsValid copied_bytes_out 4
        then Some (RingInvalidArgument, None, m, ring)
        else case ring of
          None \<Rightarrow> Some (RingInvalidArgument, zeroed, m, ring)
        | Some r \<Rightarrow>
          if OutOverlaps copied_bytes_out 4 (ring_self r) sizeof_MessageRing then Some (RingAliasedBuffer, None, m, ring)
          else if \<not> RingIsReady ring then Some (RingNotInitialized, None, m, ring)
          else if PointerRangesOverlap destination destination_bytes (storage r) (capacity_bytes r) \<or>
                  PointerRangesOverlap destination destination_bytes (ring_self r) sizeof_MessageRing
          then Some (RingAliasedBuffer, None, m, ring)
          else if OutOverlaps copied_bytes_out 4 (storage r) (capacity_bytes r) then Some (RingAliasedBuffer, None, m, ring)
          else if sequence = 0 \<or> lease = 0 \<or> destination = 0 \<or> \<not> PointerRangeIsValid destination destination_bytes
          then Some (RingInvalidArgument, zeroed, m, ring)
          else if OutOverlaps copied_bytes_out 4 destination destination_bytes then Some (RingAliasedBuffer, None, m, ring)
          else CopyOutTransfer m ring sequence lease destination destination_bytes zeroed)"

definition CommitLocked :: "mem \<Rightarrow> MessageRing \<Rightarrow> u64 \<Rightarrow> u64 \<Rightarrow> (MessageRingStatus \<times> MessageRing) option" where
  "CommitLocked m ring sequence lease =
    (if \<not> StateIsValid ring then Some (RingCorruptState, ring)
     else if receive_sequence ring \<noteq> sequence then Some (RingStaleSequence, ring)
     else if receive_lease_id ring \<noteq> lease then Some (RingStaleReceiveLease, ring)
     else if receive_copy_id ring \<noteq> 0 then Some (RingBusy, ring)
     else if receive_copy_succeeded_id ring = 0 then Some (RingCopyRequired, ring)
     else do {
       read \<leftarrow> ReadHeadRecord m ring;
       Some (case read of None \<Rightarrow> (RingCorruptState, ring)
         | Some head \<Rightarrow>
             if rec_sequence head \<noteq> sequence \<or> rec_frame_size head \<noteq> receive_frame_size ring
             then (RingCorruptState, ring)
             else
               let ring = ring\<lparr>head_offset := AdvanceOffset (head_offset ring) (rec_record_size head) (capacity_bytes ring),
                               used_bytes := used_bytes ring - rec_record_size head,
                               queued_frames := queued_frames ring - 1\<rparr>;
                   ring = (if queued_frames ring = 0 then ring\<lparr>head_offset := tail_offset ring\<rparr> else ring)
               in (RingOk, ClearReceiver ring))
     })"

definition MessageRingCommit ::
    "mem \<Rightarrow> MessageRing option \<Rightarrow> u64 \<Rightarrow> u64 \<Rightarrow> (MessageRingStatus \<times> MessageRing option) option" where
  "MessageRingCommit m ring sequence lease =
    (case ring of
       None \<Rightarrow> Some (RingInvalidArgument, ring)
     | Some r \<Rightarrow>
       if sequence = 0 \<or> lease = 0 then Some (RingInvalidArgument, ring)
       else if \<not> RingIsReady ring then Some (RingNotInitialized, ring)
       else do {
         (status, r') \<leftarrow> CommitLocked m r sequence lease;
         Some (status, Some r')
       })"

definition MessageRingCancelReceive ::
    "MessageRing option \<Rightarrow> u64 \<Rightarrow> u64 \<Rightarrow> MessageRingStatus \<times> MessageRing option" where
  "MessageRingCancelReceive ring sequence lease =
    on_ptr ring RingInvalidArgument (\<lambda>r.
      if sequence = 0 \<or> lease = 0 then (RingInvalidArgument, r)
      else if \<not> RingIsReady ring then (RingNotInitialized, r)
      else if \<not> StateIsValid r then (RingCorruptState, r)
      else if receive_sequence r \<noteq> sequence then (RingStaleSequence, r)
      else if receive_lease_id r \<noteq> lease then (RingStaleReceiveLease, r)
      else if receive_copy_id r \<noteq> 0 then (RingBusy, r)
      else (RingOk, ClearReceiver r))"

section \<open>Diagnostics\<close>

definition zero_snapshot :: MessageRingSnapshot where
  "zero_snapshot = \<lparr>snap_capacity_bytes = 0, snap_used_bytes = 0, snap_free_bytes = 0,
     snap_queued_frames = 0, snap_next_sequence = 0, snap_producer_reservation_id = 0,
     snap_receive_sequence = 0, snap_producer_copy_active = False,
     snap_producer_abort_requested = False, snap_receive_copy_active = False,
     snap_receive_copy_succeeded = False, snap_sequence_exhausted = False,
     snap_reservation_exhausted = False, snap_receive_lease_exhausted = False,
     snap_copy_id_exhausted = False\<rparr>"

definition MessageRingInspect ::
    "MessageRing option \<Rightarrow> out_arg \<Rightarrow> MessageRingStatus \<times> MessageRingSnapshot option" where
  "MessageRingInspect ring snapshot_out =
    (if \<not> is_null_out snapshot_out \<and> \<not> OutRangeIsValid snapshot_out sizeof_MessageRingSnapshot
     then (RingInvalidArgument, None)
     else case ring of
       None \<Rightarrow> (RingInvalidArgument, None)
     | Some r \<Rightarrow>
       if OutOverlaps snapshot_out sizeof_MessageRingSnapshot (ring_self r) sizeof_MessageRing
       then (RingAliasedBuffer, None)
       else if is_null_out snapshot_out then (RingInvalidArgument, None)
       else if \<not> RingIsReady ring then (RingNotInitialized, None)
       else if OutOverlaps snapshot_out sizeof_MessageRingSnapshot (storage r) (capacity_bytes r)
       then (RingAliasedBuffer, None)
       else if \<not> StateIsValid r then (RingCorruptState, Some zero_snapshot)
       else (RingOk, Some
         \<lparr>snap_capacity_bytes = capacity_bytes r, snap_used_bytes = used_bytes r,
          snap_free_bytes = capacity_bytes r - used_bytes r, snap_queued_frames = queued_frames r,
          snap_next_sequence = next_sequence r,
          snap_producer_reservation_id = producer_reservation_id r,
          snap_receive_sequence = receive_sequence r,
          snap_producer_copy_active = (producer_copy_active r \<noteq> 0),
          snap_producer_abort_requested = (producer_abort_requested r \<noteq> 0),
          snap_receive_copy_active = (receive_copy_id r \<noteq> 0),
          snap_receive_copy_succeeded = (receive_copy_succeeded_id r \<noteq> 0),
          snap_sequence_exhausted = (sequence_exhausted r \<noteq> 0),
          snap_reservation_exhausted = (reservation_exhausted r \<noteq> 0),
          snap_receive_lease_exhausted = (receive_lease_exhausted r \<noteq> 0),
          snap_copy_id_exhausted = (copy_id_exhausted r \<noteq> 0)\<rparr>))"

definition MessageRingStatusName :: "MessageRingStatus \<Rightarrow> string" where
  "MessageRingStatusName status = (case status of
     RingOk \<Rightarrow> ''ok''
   | RingInvalidArgument \<Rightarrow> ''invalid-argument''
   | RingNotInitialized \<Rightarrow> ''not-initialized''
   | RingAliasedBuffer \<Rightarrow> ''aliased-buffer''
   | RingMalformedMessage \<Rightarrow> ''malformed-message''
   | RingInvalidPayloadContract \<Rightarrow> ''invalid-payload-contract''
   | RingMissingPayloadContract \<Rightarrow> ''missing-payload-contract''
   | RingMalformedPayload \<Rightarrow> ''malformed-payload''
   | RingFull \<Rightarrow> ''full''
   | RingBusy \<Rightarrow> ''busy''
   | RingEmpty \<Rightarrow> ''empty''
   | RingBufferTooSmall \<Rightarrow> ''buffer-too-small''
   | RingCopyRequired \<Rightarrow> ''copy-required''
   | RingCopyNotActive \<Rightarrow> ''copy-not-active''
   | RingStaleSequence \<Rightarrow> ''stale-sequence''
   | RingStaleReservation \<Rightarrow> ''stale-reservation''
   | RingProducerAborted \<Rightarrow> ''producer-aborted''
   | RingSequenceExhausted \<Rightarrow> ''sequence-exhausted''
   | RingReservationExhausted \<Rightarrow> ''reservation-exhausted''
   | RingCorruptState \<Rightarrow> ''corrupt-state''
   | RingAlreadyInitialized \<Rightarrow> ''already-initialized''
   | RingStaleReceiveLease \<Rightarrow> ''stale-receive-lease''
   | RingStaleCopyAttempt \<Rightarrow> ''stale-copy-attempt''
   | RingReceiveLeaseExhausted \<Rightarrow> ''receive-lease-exhausted''
   | RingCopyIdExhausted \<Rightarrow> ''copy-id-exhausted'')"

end
