(* ===== verification/CircularStorage.thy ===== *)
theory CircularStorage
  imports MessageRing
begin

text \<open>
  What the copy loops of the message ring do to circular storage: positions wrap at the
  capacity, a store touches one position, and on a well-formed object each loop returns after
  at most two chunks and is the sequence of its byte stores.
\<close>

section \<open>Positions\<close>

definition circ_at :: "MessageRing \<Rightarrow> nat \<Rightarrow> u64" where
  "circ_at r p = storage r + of_nat (p mod unat (capacity_bytes r))"

definition circ_read :: "MessageRing \<Rightarrow> mem \<Rightarrow> nat \<Rightarrow> nat \<Rightarrow> u8 list" where
  "circ_read r m p n = map (\<lambda>i. m (circ_at r (p + i))) [0..<n]"

text \<open>
  The storage of the object is a valid range and its offsets lie inside: the part of the state
  that the copy loops need.
\<close>

definition storage_ok :: "MessageRing \<Rightarrow> bool" where
  "storage_ok r \<longleftrightarrow> capacity_bytes r \<noteq> 0 \<and> PointerRangeIsValid (storage r) (capacity_bytes r)"

lemma u32_lt: "unat (x :: u32) < 4294967296"
  using unsigned_less [of x, where ?'a = nat] by simp

declare unat_of_nat_u32 [simp]

lemma ucast_u32_of_nat: "(ucast (x :: u32) :: u64) = of_nat (unat x)"
  by (rule word_unat_eq_iff [THEN iffD2]) (use u32_lt [of x] in simp)

lemma length_circ_read [simp]: "length (circ_read r m p n) = n"
  by (simp add: circ_read_def)

lemma nth_circ_read [simp]: "i < n \<Longrightarrow> circ_read r m p n ! i = m (circ_at r (p + i))"
  by (simp add: circ_read_def)

lemma circ_read_0 [simp]: "circ_read r m p 0 = []"
  by (simp add: circ_read_def)

lemma circ_at_mod: "circ_at r (p mod unat (capacity_bytes r) + i) = circ_at r (p + i)"
  by (simp add: circ_at_def mod_add_left_eq)

lemma circ_read_mod: "circ_read r m (p mod unat (capacity_bytes r)) n = circ_read r m p n"
  by (simp add: circ_read_def circ_at_mod)

lemma circ_read_append: "circ_read r m p (a + b) = circ_read r m p a @ circ_read r m (p + a) b"
  by (rule nth_equalityI) (auto simp: nth_append add.assoc)

lemma circ_read_cong:
  "(\<And>i. i < n \<Longrightarrow> m (circ_at r (p + i)) = m' (circ_at r (p + i))) \<Longrightarrow> circ_read r m p n = circ_read r m' p n"
  by (simp add: circ_read_def)

lemma circ_read_ring_cong:
  "storage r' = storage r \<Longrightarrow> capacity_bytes r' = capacity_bytes r \<Longrightarrow> circ_read r' m p n = circ_read r m p n"
  by (simp add: circ_read_def circ_at_def)

lemma circ_at_inj:
  assumes "storage_ok r"
  shows "circ_at r p = circ_at r q \<longleftrightarrow> p mod unat (capacity_bytes r) = q mod unat (capacity_bytes r)"
proof -
  let ?c = "unat (capacity_bytes r)"
  have pos: "0 < ?c"
    using assms by (simp add: storage_ok_def word_neq_0_pos)
  have small: "x mod ?c < 18446744073709551616" for x
    using mod_less_divisor [OF pos, of x] u32_lt [of "capacity_bytes r"] by linarith
  have "circ_at r p = circ_at r q \<longleftrightarrow>
      (of_nat (p mod ?c) :: u64) = of_nat (q mod ?c)"
    by (simp add: circ_at_def)
  also have "\<dots> \<longleftrightarrow> p mod ?c = q mod ?c"
    by (simp only: word_unat_eq_iff unat_of_nat_u64 [OF small])
  finally show ?thesis .
qed

lemma mod_window_le:
  assumes "i \<le> j" and "(p + i) mod c = (p + j) mod (c :: nat)" and "j < c"
  shows "i = j"
proof -
  have "c dvd (p + j) - (p + i)"
    using assms mod_eq_dvd_iff_nat [of "p + i" "p + j" c] by simp
  then have "c dvd j - i"
    by simp
  with assms show ?thesis
    by (auto dest: dvd_imp_le)
qed

lemma circ_window:
  assumes "storage_ok r" and "i < unat (capacity_bytes r)" and "j < unat (capacity_bytes r)"
  shows "circ_at r (p + i) = circ_at r (p + j) \<longleftrightarrow> i = j"
proof
  assume "circ_at r (p + i) = circ_at r (p + j)"
  then have "(p + i) mod unat (capacity_bytes r) = (p + j) mod unat (capacity_bytes r)"
    unfolding circ_at_inj [OF assms(1)] .
  then show "i = j"
    using mod_window_le [of i j p] mod_window_le [OF _ sym, of j i p] assms(2,3) linear [of i j] by blast
qed simp

lemma AdvanceOffset_mod:
  assumes off: "offset < capacity" and b: "bytes \<le> capacity"
  shows "unat (AdvanceOffset offset bytes capacity) = (unat offset + unat bytes) mod unat capacity"
    and "AdvanceOffset offset bytes capacity < capacity"
proof -
  have lt: "unat offset < unat capacity" "unat bytes \<le> unat capacity"
    using off b by (simp_all add: word_less_nat_alt word_le_nat_alt)
  have rem: "unat (capacity - offset) = unat capacity - unat offset"
    using off by (simp add: unat_sub_ge)
  have "unat (AdvanceOffset offset bytes capacity) = (unat offset + unat bytes) mod unat capacity"
  proof (cases bytes "capacity - offset" rule: linorder_cases)
    case less
    then have sum: "unat offset + unat bytes < unat capacity"
      using lt rem by (simp add: word_less_nat_alt)
    then have "unat (offset + bytes) = unat offset + unat bytes"
      using u32_lt [of capacity] by (intro unat_add_lt) simp
    with less sum show ?thesis
      by (simp add: AdvanceOffset_def Let_def)
  next
    case equal
    then show ?thesis
      using lt rem by (simp add: AdvanceOffset_def Let_def)
  next
    case greater
    then have ge: "unat capacity - unat offset \<le> unat bytes" "capacity - offset \<le> bytes"
      using rem by (simp_all add: word_less_nat_alt less_imp_le)
    then have "unat (bytes - (capacity - offset)) = unat bytes - (unat capacity - unat offset)"
      by (simp add: unat_sub_ge rem)
    moreover have "(unat offset + unat bytes) mod unat capacity = unat offset + unat bytes - unat capacity"
    proof -
      have "unat capacity \<le> unat offset + unat bytes" "unat offset + unat bytes - unat capacity < unat capacity"
        using ge(1) lt by linarith+
      then show ?thesis
        by (simp add: le_mod_geq)
    qed
    moreover have "AdvanceOffset offset bytes capacity = bytes - (capacity - offset)"
      using greater order.asym [OF greater] order.strict_implies_not_eq [OF greater]
      unfolding AdvanceOffset_def Let_def by auto
    ultimately show ?thesis
      using lt by (simp add: add.commute)
  qed
  then show "unat (AdvanceOffset offset bytes capacity) = (unat offset + unat bytes) mod unat capacity" .
  with lt(1) show "AdvanceOffset offset bytes capacity < capacity"
    by (simp add: word_less_nat_alt)
qed

section \<open>Stores\<close>

definition copy_store :: "MessageRing \<Rightarrow> nat \<Rightarrow> byte_source \<Rightarrow> nat \<Rightarrow> mem \<Rightarrow> mem" where
  "copy_store r p source i m = m(circ_at r (p + i) := source_byte m source (of_nat i))"

lemma chunk_position:
  fixes target :: u32
  assumes fit: "unat target + n \<le> unat (capacity_bytes r)" and "i < n"
    and pos: "(p + s) mod unat (capacity_bytes r) = unat target"
  shows "storage r + ucast (target + of_nat i) = circ_at r (p + (s + i))"
proof -
  have "unat (target + of_nat i) = unat target + i"
    using assms(2) fit u32_lt [of "capacity_bytes r"] by (subst unat_add_lt) simp_all
  moreover have "(p + (s + i)) mod unat (capacity_bytes r) = unat target + i"
    using assms(2) fit pos mod_add_left_eq [of "p + s" "unat (capacity_bytes r)" i]
    by (simp add: add.assoc)
  ultimately show ?thesis
    by (simp only: circ_at_def ucast_u32_of_nat)
qed

lemma chunk_is_stores:
  fixes target :: u32
  assumes fit: "unat target + n \<le> unat (capacity_bytes r)" and s: "s + n < 4294967296"
    and pos: "(p + s) mod unat (capacity_bytes r) = unat target"
  shows "fold (\<lambda>index m. m(storage r + ucast (target + of_nat index) :=
      source_byte m source (of_nat s + of_nat index))) [0..<n] m = fold (copy_store r p source) [s..<s + n] m"
proof -
  note step = chunk_position [OF fit _ pos]
  have shift: "[s..<s + n] = map (\<lambda>i. s + i) [0..<n]"
    by (simp add: map_add_upt add.commute)
  show ?thesis
    unfolding shift fold_map
    by (rule fold_cong) (auto simp: copy_store_def step)
qed

lemma chunk_progress:
  assumes "remaining \<noteq> 0" and "target < (capacity :: u32)"
  defines "chunk \<equiv> if remaining < capacity - target then remaining else capacity - target"
  shows "unat (remaining - chunk) = unat remaining - unat chunk" and "0 < unat chunk"
    and "unat chunk \<le> unat remaining" and "unat target + unat chunk \<le> unat capacity"
    and "unat chunk < unat remaining \<Longrightarrow> unat target + unat chunk = unat capacity"
proof -
  have lt: "unat target < unat capacity"
    using assms(2) by (simp add: word_less_nat_alt)
  have rem: "unat (capacity - target) = unat capacity - unat target"
    using assms(2) by (simp add: unat_sub_ge)
  have pos: "0 < unat remaining"
    using assms(1) by (simp add: word_neq_0_pos)
  have c: "unat chunk = min (unat remaining) (unat capacity - unat target)"
    unfolding chunk_def by (auto simp: word_less_nat_alt rem)
  then have le: "chunk \<le> remaining"
    by (simp add: word_le_nat_alt)
  show "unat (remaining - chunk) = unat remaining - unat chunk"
    using le by (rule unat_sub_ge)
  show "0 < unat chunk" "unat chunk \<le> unat remaining" "unat target + unat chunk \<le> unat capacity"
    "unat chunk < unat remaining \<Longrightarrow> unat target + unat chunk = unat capacity"
    using c lt pos by simp_all
qed

lemma chunk_next:
  fixes remaining target :: u32
  assumes "remaining \<noteq> 0" and "target < capacity_bytes r"
    and pos: "(p + s) mod unat (capacity_bytes r) = unat target"
  defines "chunk \<equiv> if remaining < capacity_bytes r - target then remaining else capacity_bytes r - target"
  defines "remaining' \<equiv> remaining - chunk"
  defines "target' \<equiv> if remaining' = 0 then target else 0"
  assumes more: "remaining' \<noteq> 0"
  shows "target' < capacity_bytes r \<and> (p + (s + unat chunk)) mod unat (capacity_bytes r) = unat target'"
proof -
  note c = chunk_progress [OF assms(1,2), folded chunk_def, folded remaining'_def]
  from more have "unat chunk < unat remaining"
    using c(1) by (simp add: word_neq_0_pos)
  from c(5) [OF this] have "unat target + unat chunk = unat (capacity_bytes r)" .
  moreover have "(p + (s + unat chunk)) mod unat (capacity_bytes r) =
      (unat target + unat chunk) mod unat (capacity_bytes r)"
    using pos mod_add_left_eq [of "p + s" "unat (capacity_bytes r)" "unat chunk"]
    by (simp add: add.assoc)
  ultimately show ?thesis
    using more assms(2) by (auto simp: target'_def word_less_nat_alt unat_gt_0)
qed

lemma CopyIntoStorage_loop_stores:
  assumes "s + unat remaining < 4294967296" and "capacity_bytes r \<noteq> 0"
    and "remaining \<noteq> 0 \<Longrightarrow> target < capacity_bytes r"
    and "remaining \<noteq> 0 \<Longrightarrow> (p + s) mod unat (capacity_bytes r) = unat target"
  shows "CopyIntoStorage_loop r source m remaining (of_nat s) target =
    Some (fold (copy_store r p source) [s..<s + unat remaining] m)"
  using assms(1,3,4)
proof (induction "unat remaining" arbitrary: m remaining s target rule: less_induct)
  case less
  show ?case
  proof (cases "remaining = 0")
    case True
    then show ?thesis
      by (subst CopyIntoStorage_loop.simps) simp
  next
    case False
    define chunk where "chunk = (if remaining < capacity_bytes r - target then remaining
      else capacity_bytes r - target)"
    define remaining' where "remaining' = remaining - chunk"
    define target' where "target' = (if remaining' = 0 then target else 0)"
    note c = chunk_progress [OF False less.prems(2) [OF False], folded chunk_def, folded remaining'_def]
    define m' where "m' = fold (copy_store r p source) [s..<s + unat chunk] m"
    have body: "CopyIntoStorage_loop r source m remaining (of_nat s) target =
        CopyIntoStorage_loop r source m' remaining' (of_nat (s + unat chunk)) target'"
      using chunk_is_stores [OF c(4), of s p source m] c(3) less.prems(1) less.prems(3) [OF False] False
      by (subst CopyIntoStorage_loop.simps)
         (simp add: Let_def m'_def target'_def remaining'_def chunk_def)
    note t = chunk_next [OF False less.prems(2) [OF False] less.prems(3) [OF False],
        folded chunk_def, folded remaining'_def, folded target'_def]
    have "CopyIntoStorage_loop r source m' remaining' (of_nat (s + unat chunk)) target' =
        Some (fold (copy_store r p source) [s + unat chunk..<s + unat chunk + unat remaining'] m')"
      using t c less.prems(1) by (intro less.hyps) auto
    also have "fold (copy_store r p source) [s + unat chunk..<s + unat chunk + unat remaining'] m' =
        fold (copy_store r p source) [s..<s + unat remaining] m"
    proof -
      have "[s..<s + unat remaining] =
          [s..<s + unat chunk] @ [s + unat chunk..<s + unat chunk + unat remaining']"
        using c(1,3) upt_add_eq_append [of s "s + unat chunk" "unat remaining'"] by simp
      then show ?thesis
        by (simp only: m'_def fold_append comp_apply)
    qed
    finally show ?thesis
      unfolding body .
  qed
qed

lemma CopyIntoStorage_stores:
  assumes "storage_ok r" and "offset < capacity_bytes r"
  shows "CopyIntoStorage r m offset source bytes =
    Some (fold (copy_store r (unat offset) source) [0..<unat bytes] m)"
  using CopyIntoStorage_loop_stores [of 0 bytes r offset "unat offset" source m] assms u32_lt [of bytes]
  by (simp add: CopyIntoStorage_def storage_ok_def word_less_nat_alt)

text \<open>
  A source is apart from the storage when none of its bytes is a storage byte. The stores then
  commute with reading the source.
\<close>

definition in_storage :: "MessageRing \<Rightarrow> u64 \<Rightarrow> bool" where
  "in_storage r a \<longleftrightarrow> in_range a (storage r) (unat (capacity_bytes r))"

fun source_apart :: "MessageRing \<Rightarrow> byte_source \<Rightarrow> nat \<Rightarrow> bool" where
  "source_apart r (FromMem p) n = (\<forall>i < n. \<not> in_storage r (p + of_nat i))"
| "source_apart r (FromLocal bytes) n = True"

fun source_bytes :: "mem \<Rightarrow> byte_source \<Rightarrow> nat \<Rightarrow> u8 list" where
  "source_bytes m (FromMem p) n = mem_read m p n"
| "source_bytes m (FromLocal bytes) n = take n bytes"

lemma circ_at_in_storage:
  assumes "storage_ok r"
  shows "in_storage r (circ_at r p)"
proof -
  have "p mod unat (capacity_bytes r) < unat (capacity_bytes r)"
    using assms by (simp add: storage_ok_def unat_gt_0)
  then show ?thesis
    unfolding in_storage_def circ_at_def
    using assms by (intro in_range_offset) (simp_all add: storage_ok_def PointerRangeIsValid_unat)
qed

lemma source_byte_nth:
  assumes "i < n" and "n < 4294967296" and "n \<le> length (source_bytes m source n)"
  shows "source_byte m source (of_nat i) = source_bytes m source n ! i"
  using assms by (cases source) (simp_all add: ucast_u32_of_nat)

lemma source_byte_stable:
  assumes "source_apart r source n" and "storage_ok r" and "i < n" and "n < 4294967296"
  shows "source_byte (m(circ_at r p := b)) source (of_nat i) = source_byte m source (of_nat i)"
proof (cases source)
  case (FromMem f)
  with assms have "\<not> in_storage r (f + of_nat i)"
    by simp
  then have "f + of_nat i \<noteq> circ_at r p"
    using circ_at_in_storage [OF assms(2), of p] by auto
  with FromMem assms show ?thesis
    by (simp add: ucast_u32_of_nat)
qed simp

lemma stores_effect:
  assumes ok: "storage_ok r" and apart: "source_apart r source n" and n: "n \<le> unat (capacity_bytes r)"
    and k: "k \<le> n"
  shows "(\<forall>i < k. fold (copy_store r p source) [0..<k] m (circ_at r (p + i)) = source_byte m source (of_nat i)) \<and>
    (\<forall>a. (\<forall>i < k. a \<noteq> circ_at r (p + i)) \<longrightarrow> fold (copy_store r p source) [0..<k] m a = m a) \<and>
    (\<forall>i < n. source_byte (fold (copy_store r p source) [0..<k] m) source (of_nat i) = source_byte m source (of_nat i))"
  using k
proof (induction k)
  case (Suc k)
  let ?M = "fold (copy_store r p source) [0..<k] m"
  have n32: "n < 4294967296"
    using n u32_lt [of "capacity_bytes r"] by linarith
  from Suc have IH: "\<And>i. i < k \<Longrightarrow> ?M (circ_at r (p + i)) = source_byte m source (of_nat i)"
      "\<And>a. (\<forall>i < k. a \<noteq> circ_at r (p + i)) \<Longrightarrow> ?M a = m a"
      "\<And>i. i < n \<Longrightarrow> source_byte ?M source (of_nat i) = source_byte m source (of_nat i)"
    by simp_all
  have st: "fold (copy_store r p source) [0..<Suc k] m = ?M(circ_at r (p + k) := source_byte m source (of_nat k))"
    using IH(3) [of k] Suc.prems by (simp add: copy_store_def)
  have ne: "circ_at r (p + i) \<noteq> circ_at r (p + k)" if "i < k" for i
    using that Suc.prems n circ_window [OF ok, of i k p] by simp
  have src: "source_byte (?M(circ_at r (p + k) := b)) source (of_nat i) = source_byte m source (of_nat i)"
    if "i < n" for i b
    using source_byte_stable [OF apart ok that n32] IH(3) [OF that] by simp
  show ?case
    unfolding st
  proof (intro conjI allI impI)
    show "source_byte (?M(circ_at r (p + k) := source_byte m source (of_nat k))) source (of_nat i) =
        source_byte m source (of_nat i)" if "i < n" for i
      using that by (rule src)
  qed (use IH(1,2) ne in \<open>auto simp: less_Suc_eq\<close>)
qed simp

lemma CopyIntoStorage_read:
  fixes p :: nat
  assumes "storage_ok r" and "source_apart r source n" and "n \<le> unat (capacity_bytes r)"
    and "n \<le> length (source_bytes m source n)"
  defines "M \<equiv> fold (copy_store r p source) [0..<n] m"
  shows "circ_read r M p n = source_bytes m source n"
    and "\<And>b u k l. p = b + u \<Longrightarrow> u + n \<le> unat (capacity_bytes r) \<Longrightarrow>
      k + l \<le> u \<or> u + n \<le> k \<and> k + l \<le> unat (capacity_bytes r) \<Longrightarrow> circ_read r M (b + k) l = circ_read r m (b + k) l"
    and "\<And>a. \<not> in_storage r a \<Longrightarrow> M a = m a"
proof -
  note eff = stores_effect [OF assms(1,2,3) order.refl, of p m, folded M_def]
  have n32: "n < 4294967296"
    using assms(3) u32_lt [of "capacity_bytes r"] by linarith
  have len: "length (source_bytes m source n) = n"
    using assms(4) by (cases source) simp_all
  show "circ_read r M p n = source_bytes m source n"
    using eff len n32 by (intro nth_equalityI) (auto simp: source_byte_nth)
  show "M a = m a" if "\<not> in_storage r a" for a
    using that eff circ_at_in_storage [OF assms(1)] by metis
  show "circ_read r M (b + k) l = circ_read r m (b + k) l"
    if "p = b + u" and fit: "u + n \<le> unat (capacity_bytes r)"
      and sep: "k + l \<le> u \<or> u + n \<le> k \<and> k + l \<le> unat (capacity_bytes r)" for b u k l
  proof (rule circ_read_cong)
    fix i assume i: "i < l"
    have "circ_at r (b + (k + i)) \<noteq> circ_at r (b + (u + j))" if "j < n" for j
      using circ_window [OF assms(1), of "k + i" "u + j" b] sep fit i that by auto
    then have "\<forall>j < n. circ_at r (b + k + i) \<noteq> circ_at r (p + j)"
      using \<open>p = b + u\<close> by (simp add: add.assoc)
    with eff show "M (circ_at r (b + k + i)) = m (circ_at r (b + k + i))"
      by blast
  qed
qed

section \<open>Loads\<close>

lemma load_chunk:
  fixes target :: u32
  assumes fit: "unat target + n \<le> unat (capacity_bytes r)" and s: "s + n < 4294967296"
    and pos: "(p + s) mod unat (capacity_bytes r) = unat target"
  shows "fold (\<lambda>index d. d[unat (of_nat s + of_nat index :: u32) :=
      m (storage r + ucast (target + of_nat index))]) [0..<n] d =
    fold (\<lambda>i d. d[i := m (circ_at r (p + i))]) [s..<s + n] d"
proof -
  note step = chunk_position [OF fit _ pos]
  have idx: "unat (of_nat s + of_nat i :: u32) = s + i" if "i < n" for i
    using that s by (simp flip: of_nat_add)
  have shift: "[s..<s + n] = map (\<lambda>i. s + i) [0..<n]"
    by (simp add: map_add_upt add.commute)
  show ?thesis
    unfolding shift fold_map by (rule fold_cong) (auto simp: step idx)
qed

lemma CopyFromStorage_loop_loads:
  assumes "s + unat remaining < 4294967296" and "capacity_bytes r \<noteq> 0"
    and "remaining \<noteq> 0 \<Longrightarrow> target < capacity_bytes r"
    and "remaining \<noteq> 0 \<Longrightarrow> (p + s) mod unat (capacity_bytes r) = unat target"
  shows "CopyFromStorage_loop r m d remaining (of_nat s) target =
    Some (fold (\<lambda>i d. d[i := m (circ_at r (p + i))]) [s..<s + unat remaining] d)"
  using assms(1,3,4)
proof (induction "unat remaining" arbitrary: d remaining s target rule: less_induct)
  case less
  let ?load = "\<lambda>i d. d[i := m (circ_at r (p + i))]"
  show ?case
  proof (cases "remaining = 0")
    case True
    then show ?thesis
      by (subst CopyFromStorage_loop.simps) simp
  next
    case False
    define chunk where "chunk = (if remaining < capacity_bytes r - target then remaining
      else capacity_bytes r - target)"
    define remaining' where "remaining' = remaining - chunk"
    define target' where "target' = (if remaining' = 0 then target else 0)"
    note c = chunk_progress [OF False less.prems(2) [OF False], folded chunk_def, folded remaining'_def]
    define d' where "d' = fold ?load [s..<s + unat chunk] d"
    have body: "CopyFromStorage_loop r m d remaining (of_nat s) target =
        CopyFromStorage_loop r m d' remaining' (of_nat (s + unat chunk)) target'"
      using load_chunk [OF c(4), of s p m d] c(3) less.prems(1) less.prems(3) [OF False] False
      by (subst CopyFromStorage_loop.simps)
         (simp add: Let_def d'_def target'_def remaining'_def chunk_def)
    note t = chunk_next [OF False less.prems(2) [OF False] less.prems(3) [OF False],
        folded chunk_def, folded remaining'_def, folded target'_def]
    have "CopyFromStorage_loop r m d' remaining' (of_nat (s + unat chunk)) target' =
        Some (fold ?load [s + unat chunk..<s + unat chunk + unat remaining'] d')"
      using t c less.prems(1) by (intro less.hyps) auto
    also have "fold ?load [s + unat chunk..<s + unat chunk + unat remaining'] d' =
        fold ?load [s..<s + unat remaining] d"
    proof -
      have "[s..<s + unat remaining] =
          [s..<s + unat chunk] @ [s + unat chunk..<s + unat chunk + unat remaining']"
        using c(1,3) upt_add_eq_append [of s "s + unat chunk" "unat remaining'"] by simp
      then show ?thesis
        by (simp only: d'_def fold_append comp_apply)
    qed
    finally show ?thesis
      unfolding body .
  qed
qed

lemma loads_effect:
  "n \<le> length d \<Longrightarrow> fold (\<lambda>i d. d[i := f i]) [0..<n] d = map f [0..<n] @ drop n d"
proof (induction n)
  case (Suc n)
  have "drop n d = d ! n # drop (Suc n) d"
    using Suc.prems by (simp add: Cons_nth_drop_Suc)
  with Suc show ?case
    by (simp add: list_update_append)
qed simp

lemma CopyFromStorage_read:
  assumes "storage_ok r" and "offset < capacity_bytes r" and "length d = unat bytes"
  shows "CopyFromStorage r m offset d bytes = Some (circ_read r m (unat offset) (unat bytes))"
  using CopyFromStorage_loop_loads [of 0 bytes r offset "unat offset" m d] assms u32_lt [of bytes]
    loads_effect [of "unat bytes" d "\<lambda>i. m (circ_at r (unat offset + i))"]
  by (simp add: CopyFromStorage_def storage_ok_def word_less_nat_alt circ_read_def)

end
