(* ===== verification/MessageRingQueue.thy ===== *)
theory MessageRingQueue
  imports CircularStorage
begin

text \<open>
  The message ring as a queue. \<open>ring_inv m r q\<close> relates the object and the bytes of its storage
  to the list of entries (sequence number and frame) that it holds, oldest first. Each operation
  is shown to return, to keep the relation, and to do one of three things to the list: append
  the published frame, drop the committed head, or nothing.
\<close>

section \<open>Well-formed rings\<close>

type_synonym entry = "u64 \<times> u8 list"

definition record_bytes :: "entry \<Rightarrow> u8 list" where
  "record_bytes e = WriteLe64 (fst e) @ WriteLe32 (of_nat (length (snd e))) @ WriteLe32 0 @ snd e"

definition queue_bytes :: "entry list \<Rightarrow> u8 list" where
  "queue_bytes q = concat (map record_bytes q)"

definition entry_ok :: "entry \<Rightarrow> bool" where
  "entry_ok e \<longleftrightarrow> fst e \<noteq> 0 \<and> 32 \<le> length (snd e) \<and> length (snd e) \<le> 65536"

definition receiver_valid :: "MessageRing \<Rightarrow> bool" where
  "receiver_valid r \<longleftrightarrow>
     (if receive_sequence r = 0
      then receive_lease_id r = 0 \<and> receive_frame_size r = 0 \<and> receive_copy_id r = 0 \<and>
           receive_copy_succeeded_id r = 0
      else queued_frames r \<noteq> 0 \<and> receive_lease_id r \<noteq> 0 \<and> 32 \<le> unat (receive_frame_size r)) \<and>
     (receive_copy_id r = 0 \<or> receive_copy_succeeded_id r = 0) \<and>
     next_receive_lease_id r \<noteq> 0 \<and> next_copy_id r \<noteq> 0 \<and>
     receive_lease_exhausted r \<le> 1 \<and> copy_id_exhausted r \<le> 1"

definition producer_valid :: "MessageRing \<Rightarrow> bool" where
  "producer_valid r \<longleftrightarrow>
     (if producer_reservation_id r = 0
      then producer_record_bytes r = 0 \<and> producer_frame_size r = 0 \<and> producer_copy_active r = 0 \<and>
           producer_abort_requested r = 0
      else producer_tail_offset r = tail_offset r \<and>
           producer_record_bytes r = 16 + producer_frame_size r \<and>
           32 \<le> unat (producer_frame_size r) \<and>
           unat (producer_record_bytes r) \<le> unat (capacity_bytes r) - unat (used_bytes r))"

definition layout_valid :: "MessageRing \<Rightarrow> bool" where
  "layout_valid r \<longleftrightarrow> storage r \<noteq> 0 \<and> 48 \<le> unat (capacity_bytes r) \<and>
     unat (head_offset r) < unat (capacity_bytes r) \<and> unat (tail_offset r) < unat (capacity_bytes r) \<and>
     unat (used_bytes r) \<le> unat (capacity_bytes r) \<and>
     (queued_frames r = 0 \<longleftrightarrow> used_bytes r = 0) \<and> (queued_frames r \<noteq> 0 \<longrightarrow> 48 \<le> unat (used_bytes r))"

lemma layout_valid_guards:
  "layout_valid r \<longleftrightarrow>
     \<not> (storage r = 0 \<or> capacity_bytes r < kMessageRingMinimumStorageBytes) \<and>
     \<not> (head_offset r \<ge> capacity_bytes r \<or> tail_offset r \<ge> capacity_bytes r \<or> used_bytes r > capacity_bytes r) \<and>
     \<not> (queued_frames r = 0) \<noteq> (used_bytes r = 0) \<and>
     \<not> (queued_frames r \<noteq> 0 \<and> used_bytes r < kMessageRingMinimumStorageBytes)"
  by (auto simp: layout_valid_def kdefs word_less_nat_alt word_le_nat_alt not_less not_le)

lemma receiver_valid_guards:
  "receiver_valid r \<longleftrightarrow>
     \<not> (if receive_sequence r = 0
        then receive_lease_id r \<noteq> 0 \<or> receive_frame_size r \<noteq> 0 \<or> receive_copy_id r \<noteq> 0 \<or>
             receive_copy_succeeded_id r \<noteq> 0
        else queued_frames r = 0 \<or> receive_lease_id r = 0 \<or>
             receive_frame_size r < ucast kMessageAbiHeaderV1Bytes) \<and>
     \<not> (receive_copy_id r \<noteq> 0 \<and> receive_copy_succeeded_id r \<noteq> 0) \<and>
     \<not> (next_receive_lease_id r = 0 \<or> next_copy_id r = 0 \<or> receive_lease_exhausted r > 1 \<or>
        copy_id_exhausted r > 1)"
  by (simp add: receiver_valid_def kdefs word_less_nat_alt word_le_nat_alt not_less) blast

lemma producer_valid_guards:
  assumes "used_bytes r \<le> capacity_bytes r"
  shows "producer_valid r \<longleftrightarrow>
     \<not> (if producer_reservation_id r = 0
        then producer_record_bytes r \<noteq> 0 \<or> producer_frame_size r \<noteq> 0 \<or> producer_copy_active r \<noteq> 0 \<or>
             producer_abort_requested r \<noteq> 0
        else producer_tail_offset r \<noteq> tail_offset r \<or>
             producer_record_bytes r \<noteq> kMessageRingRecordHeaderBytes + producer_frame_size r \<or>
             producer_frame_size r < ucast kMessageAbiHeaderV1Bytes \<or>
             producer_record_bytes r > capacity_bytes r - used_bytes r)"
proof -
  have "producer_record_bytes r > capacity_bytes r - used_bytes r \<longleftrightarrow>
      unat (capacity_bytes r) - unat (used_bytes r) < unat (producer_record_bytes r)"
    using assms by (simp only: word_less_nat_alt unat_sub_ge)
  moreover have "producer_frame_size r < ucast kMessageAbiHeaderV1Bytes \<longleftrightarrow> unat (producer_frame_size r) < 32"
    by (simp add: kdefs word_less_nat_alt)
  ultimately show ?thesis
    unfolding producer_valid_def kMessageRingRecordHeaderBytes_def
    by (simp only: not_less de_Morgan_disj not_not not_le split: if_split) blast
qed

lemma StateIsValid_iff:
  "StateIsValid r \<longleftrightarrow> layout_valid r \<and> receiver_valid r \<and> producer_valid r"
proof (cases "used_bytes r \<le> capacity_bytes r")
  case True
  have guard: "(if c then False else x) \<longleftrightarrow> \<not> c \<and> x" for c x
    by simp
  show ?thesis
    unfolding StateIsValid_def layout_valid_guards receiver_valid_guards producer_valid_guards [OF True] guard
    by (simp only: conj_assoc simp_thms)
next
  case False
  then show ?thesis
    by (simp add: StateIsValid_def layout_valid_guards not_le)
qed

text \<open>The receiver's lease, when there is one, is on the head of the queue.\<close>

definition lease_ok :: "MessageRing \<Rightarrow> entry list \<Rightarrow> bool" where
  "lease_ok r q \<longleftrightarrow> (receive_sequence r \<noteq> 0 \<longrightarrow>
     (\<exists>f q'. q = (receive_sequence r, f) # q' \<and> unat (receive_frame_size r) = length f))"

definition ring_holds :: "mem \<Rightarrow> MessageRing \<Rightarrow> entry list \<Rightarrow> bool" where
  "ring_holds m r q \<longleftrightarrow>
     circ_read r m (unat (head_offset r)) (unat (used_bytes r)) = queue_bytes q \<and>
     unat (queued_frames r) = length q \<and> (\<forall>e \<in> set q. entry_ok e) \<and>
     unat (tail_offset r) = (unat (head_offset r) + unat (used_bytes r)) mod unat (capacity_bytes r)"

definition ring_inv :: "mem \<Rightarrow> MessageRing \<Rightarrow> entry list \<Rightarrow> bool" where
  "ring_inv m r q \<longleftrightarrow> storage_ok r \<and> StateIsValid r \<and> initialized r = kRingStateReady \<and>
     unat (producer_frame_size r) \<le> 65536 \<and> next_reservation_id r \<noteq> 0 \<and> next_sequence r \<noteq> 0 \<and>
     ring_holds m r q \<and> lease_ok r q"

lemma length_record_bytes [simp]: "length (record_bytes e) = 16 + length (snd e)"
  by (simp add: record_bytes_def)

lemma queue_bytes_simps [simp]:
  "queue_bytes [] = []" "queue_bytes (e # q) = record_bytes e @ queue_bytes q"
  "queue_bytes (q @ q') = queue_bytes q @ queue_bytes q'"
  by (simp_all add: queue_bytes_def)

lemma queue_bytes_length: "\<forall>e \<in> set q. entry_ok e \<Longrightarrow> 48 * length q \<le> length (queue_bytes q)"
  by (induction q) (auto simp: entry_ok_def)

lemma ring_holds_length: "ring_holds m r q \<Longrightarrow> length (queue_bytes q) = unat (used_bytes r)"
  by (auto simp: ring_holds_def dest: arg_cong [where f = length])

lemma ring_holds_count:
  assumes "ring_holds m r q"
  shows "48 * length q \<le> unat (used_bytes r)"
  using queue_bytes_length [of q] ring_holds_length [OF assms] assms by (simp add: ring_holds_def)

section \<open>The head record\<close>

lemma ring_holds_head:
  assumes "ring_holds m r ((s, f) # q)"
  shows "circ_read r m (unat (head_offset r)) 16 = WriteLe64 s @ WriteLe32 (of_nat (length f)) @ WriteLe32 0"
    and "circ_read r m (unat (head_offset r) + 16) (length f) = f"
    and "16 + length f \<le> unat (used_bytes r)"
    and "circ_read r m (unat (head_offset r) + (16 + length f)) (unat (used_bytes r) - (16 + length f)) = queue_bytes q"
proof -
  let ?h = "unat (head_offset r)" and ?u = "unat (used_bytes r)"
  have all: "circ_read r m ?h ?u = record_bytes (s, f) @ queue_bytes q"
    using assms by (simp add: ring_holds_def)
  have len: "?u = 16 + (length f + length (queue_bytes q))"
    using ring_holds_length [OF assms] by simp
  define hdr where "hdr = WriteLe64 s @ WriteLe32 (of_nat (length f)) @ WriteLe32 0"
  have "length hdr = 16"
    by (simp add: hdr_def)
  moreover have "circ_read r m ?h ?u =
      circ_read r m ?h 16 @ circ_read r m (?h + 16) (length f) @
      circ_read r m (?h + 16 + length f) (length (queue_bytes q))"
    unfolding len circ_read_append ..
  moreover have "circ_read r m ?h ?u = hdr @ f @ queue_bytes q"
    using all by (simp add: record_bytes_def hdr_def)
  ultimately show "circ_read r m ?h 16 = hdr" and "circ_read r m (?h + 16) (length f) = f"
      and "circ_read r m (?h + (16 + length f)) (?u - (16 + length f)) = queue_bytes q"
    by (simp_all add: len append_eq_append_conv add.assoc)
  show "16 + length f \<le> ?u"
    using len by simp
qed

lemma ReadHeadRecord_empty: "queued_frames r = 0 \<Longrightarrow> ReadHeadRecord m r = Some None"
  by (simp add: ReadHeadRecord_def)

lemma ReadHeadRecord_head:
  assumes inv: "ring_inv m r ((s, f) # q)"
  shows "ReadHeadRecord m r =
    Some (Some \<lparr>rec_sequence = s, rec_frame_size = of_nat (length f), rec_record_size = of_nat (16 + length f)\<rparr>)"
proof -
  from inv have ok: "storage_ok r" and holds: "ring_holds m r ((s, f) # q)" and lay: "layout_valid r"
    by (simp_all add: ring_inv_def StateIsValid_iff)
  from holds have e: "s \<noteq> 0" "32 \<le> length f" "length f \<le> 65536"
    by (simp_all add: ring_holds_def entry_ok_def)
  have q0: "queued_frames r \<noteq> 0"
    using holds by (auto simp: ring_holds_def)
  have used: "16 + length f \<le> unat (used_bytes r)" "unat (used_bytes r) \<le> unat (capacity_bytes r)"
    using ring_holds_head(3) [OF holds] lay by (simp_all add: layout_valid_def)
  have rd: "CopyFromStorage r m (head_offset r) (replicate 16 0) 16 =
      Some (WriteLe64 s @ WriteLe32 (of_nat (length f)) @ WriteLe32 0)"
    using CopyFromStorage_read [OF ok, of "head_offset r" "replicate 16 0" 16 m] lay ring_holds_head(1) [OF holds]
    by (simp add: layout_valid_def word_less_nat_alt)
  have fs: "unat (of_nat (length f) :: u32) = length f" "unat (of_nat (16 + length f) :: u32) = 16 + length f"
    using e(3) by (simp_all add: unat_of_nat_u32 del: of_nat_add)
  have sz: "(16 :: u32) + of_nat (length f) = of_nat (16 + length f)"
    by simp
  have g: "\<not> (of_nat (length f) :: u32) < ucast kMessageAbiHeaderV1Bytes"
      "\<not> (of_nat (length f) :: u32) > kMessageAbiMaxBytes"
      "\<not> (of_nat (16 + length f) :: u32) > used_bytes r" "\<not> (of_nat (16 + length f) :: u32) > capacity_bytes r"
      "\<not> used_bytes r < kMessageRingRecordHeaderBytes"
    using e used fs by (simp_all only: word_less_nat_alt) (simp_all add: kdefs)
  show ?thesis
    using q0 g e(1) unfolding ReadHeadRecord_def
    by (simp add: kRecordSequenceOffset_def kRecordFrameSizeOffset_def kRecordReservedOffset_def Let_def
        kMessageRingRecordHeaderBytes_def rd ReadLe64_WriteLe64 ReadLe32_WriteLe32
        ReadLe32_WriteLe32 [where rest = "[]", simplified] flip: sz)
qed

section \<open>Operations on the queue\<close>

lemma ring_invD:
  assumes "ring_inv m r q"
  shows "storage_ok r" and "StateIsValid r" and "initialized r = kRingStateReady" and "RingIsReady (Some r)"
    and "layout_valid r" and "receiver_valid r" and "producer_valid r" and "ring_holds m r q" and "lease_ok r q"
    and "next_reservation_id r \<noteq> 0" and "next_sequence r \<noteq> 0" and "unat (producer_frame_size r) \<le> 65536"
  using assms by (simp_all add: ring_inv_def StateIsValid_iff RingIsReady_def)

text \<open>
  An operation changes the layout of the queue, the producer's fields or the receiver's fields;
  the rules below reduce the invariant to the group that changed.
\<close>

definition same_layout :: "MessageRing \<Rightarrow> MessageRing \<Rightarrow> bool" where
  "same_layout r r' \<longleftrightarrow> storage r' = storage r \<and> capacity_bytes r' = capacity_bytes r \<and>
     head_offset r' = head_offset r \<and> tail_offset r' = tail_offset r \<and> used_bytes r' = used_bytes r \<and>
     queued_frames r' = queued_frames r \<and> initialized r' = initialized r \<and> next_sequence r' = next_sequence r"

definition same_receiver :: "MessageRing \<Rightarrow> MessageRing \<Rightarrow> bool" where
  "same_receiver r r' \<longleftrightarrow> receive_sequence r' = receive_sequence r \<and> receive_lease_id r' = receive_lease_id r \<and>
     receive_frame_size r' = receive_frame_size r \<and> receive_copy_id r' = receive_copy_id r \<and>
     receive_copy_succeeded_id r' = receive_copy_succeeded_id r \<and>
     next_receive_lease_id r' = next_receive_lease_id r \<and> next_copy_id r' = next_copy_id r \<and>
     receive_lease_exhausted r' = receive_lease_exhausted r \<and> copy_id_exhausted r' = copy_id_exhausted r"

definition same_producer :: "MessageRing \<Rightarrow> MessageRing \<Rightarrow> bool" where
  "same_producer r r' \<longleftrightarrow> producer_reservation_id r' = producer_reservation_id r \<and>
     producer_tail_offset r' = producer_tail_offset r \<and> producer_record_bytes r' = producer_record_bytes r \<and>
     producer_frame_size r' = producer_frame_size r \<and> producer_copy_active r' = producer_copy_active r \<and>
     producer_abort_requested r' = producer_abort_requested r \<and>
     next_reservation_id r' = next_reservation_id r"

lemmas same_defs = same_layout_def same_receiver_def same_producer_def

lemma ring_inv_producer:
  assumes "ring_inv m r q" and "same_layout r r'" and "same_receiver r r'" and "producer_valid r'"
    and "unat (producer_frame_size r') \<le> 65536" and "next_reservation_id r' \<noteq> 0"
  shows "ring_inv m r' q"
proof -
  from assms(2) have "storage_ok r' = storage_ok r" "layout_valid r' = layout_valid r"
      "ring_holds m r' q = ring_holds m r q"
    by (simp_all add: same_layout_def storage_ok_def layout_valid_def ring_holds_def circ_read_def circ_at_def)
  moreover from assms(2,3) have "receiver_valid r' = receiver_valid r" "lease_ok r' q = lease_ok r q"
    by (simp_all add: same_layout_def same_receiver_def receiver_valid_def lease_ok_def)
  ultimately show ?thesis
    using assms ring_invD [OF assms(1)] by (simp add: ring_inv_def StateIsValid_iff same_layout_def)
qed

lemma ring_inv_receiver:
  assumes "ring_inv m r q" and "same_layout r r'" and "same_producer r r'" and "receiver_valid r'"
    and "lease_ok r' q"
  shows "ring_inv m r' q"
proof -
  from assms(2) have "storage_ok r' = storage_ok r" "layout_valid r' = layout_valid r"
      "ring_holds m r' q = ring_holds m r q"
    by (simp_all add: same_layout_def storage_ok_def layout_valid_def ring_holds_def circ_read_def circ_at_def)
  moreover from assms(2,3) have "producer_valid r' = producer_valid r"
    by (simp add: same_layout_def same_producer_def producer_valid_def)
  ultimately show ?thesis
    using assms ring_invD [OF assms(1)]
    by (simp add: ring_inv_def StateIsValid_iff same_layout_def same_producer_def)
qed

lemma ClearProducer_inv:
  assumes "ring_inv m r q"
  shows "ring_inv m (ClearProducer r) q"
  using assms by (rule ring_inv_producer)
    (simp_all add: same_defs ClearProducer_def producer_valid_def ring_invD [OF assms])

lemma ClearReceiver_inv:
  assumes "ring_inv m r q"
  shows "ring_inv m (ClearReceiver r) q"
  using assms by (rule ring_inv_receiver)
    (use ring_invD(6) [OF assms] in \<open>simp_all add: same_defs ClearReceiver_def receiver_valid_def lease_ok_def\<close>)

lemma producer_flags_inv:
  assumes "ring_inv m r q" and "producer_reservation_id r \<noteq> 0"
  shows "ring_inv m (r\<lparr>producer_abort_requested := a\<rparr>) q" and "ring_inv m (r\<lparr>producer_copy_active := a\<rparr>) q"
  using assms(2) ring_invD [OF assms(1)]
  by (auto intro!: ring_inv_producer [OF assms(1)] simp: same_defs producer_valid_def)

subsection \<open>Producer\<close>

definition reserved_ring :: "MessageRing \<Rightarrow> u32 \<Rightarrow> MessageRing" where
  "reserved_ring r n =
    (if next_reservation_id r = kU64Max then r\<lparr>reservation_exhausted := 1\<rparr>
     else r\<lparr>next_reservation_id := next_reservation_id r + 1\<rparr>)
    \<lparr>producer_reservation_id := next_reservation_id r, producer_tail_offset := tail_offset r,
     producer_record_bytes := 16 + n, producer_frame_size := n, producer_copy_active := 1,
     producer_abort_requested := 0\<rparr>"

lemma PrepareReserve_eq:
  assumes "ring_inv m r q"
  shows "PrepareReserve r n =
    (if producer_reservation_id r \<noteq> 0 then ((RingBusy, 0, 0), r)
     else if reservation_exhausted r \<noteq> 0 then ((RingReservationExhausted, 0, 0), r)
     else if sequence_exhausted r \<noteq> 0 then ((RingSequenceExhausted, 0, 0), r)
     else if \<not> 16 + n \<le> capacity_bytes r - used_bytes r then ((RingFull, 0, 0), r)
     else ((RingOk, next_reservation_id r, AdvanceOffset (tail_offset r) 16 (capacity_bytes r)), reserved_ring r n))"
  using ring_invD(2) [OF assms]
  unfolding PrepareReserve_def kMessageRingRecordHeaderBytes_def
  by (cases "16 + n \<le> capacity_bytes r - used_bytes r"; cases "next_reservation_id r = kU64Max")
     (simp_all add: reserved_ring_def Let_def not_less [symmetric])

text \<open>The conditions under which the ring has room for a new reservation.\<close>

definition accepts :: "MessageRing \<Rightarrow> u32 \<Rightarrow> bool" where
  "accepts r n \<longleftrightarrow> producer_reservation_id r = 0 \<and> reservation_exhausted r = 0 \<and> sequence_exhausted r = 0 \<and>
     16 + n \<le> capacity_bytes r - used_bytes r"

lemma PrepareReserve_accepts:
  assumes "ring_inv m r q"
  shows "accepts r n \<Longrightarrow> PrepareReserve r n =
      ((RingOk, next_reservation_id r, AdvanceOffset (tail_offset r) 16 (capacity_bytes r)), reserved_ring r n)"
    and "\<not> accepts r n \<Longrightarrow> \<exists>st. st \<noteq> RingOk \<and> st \<noteq> RingCorruptState \<and> PrepareReserve r n = ((st, 0, 0), r)"
  unfolding PrepareReserve_eq [OF assms] accepts_def by auto

lemma reserved_ring_inv:
  assumes inv: "ring_inv m r q" and n: "32 \<le> unat n" "unat n \<le> 65536"
    and room: "16 + n \<le> capacity_bytes r - used_bytes r"
  shows "ring_inv m (reserved_ring r n) q"
proof -
  have rec: "unat (16 + n) = 16 + unat n"
    using n(2) by (subst unat_add_lt) simp_all
  have "used_bytes r \<le> capacity_bytes r"
    using ring_invD(5) [OF inv] by (simp add: layout_valid_def word_le_nat_alt)
  then have room': "unat (16 + n) \<le> unat (capacity_bytes r) - unat (used_bytes r)"
    using room by (simp only: word_le_nat_alt unat_sub_ge)
  have "next_reservation_id r \<noteq> 0"
    using inv by (simp add: ring_inv_def)
  then show ?thesis
    using n room' u64_succ_nonzero [of "next_reservation_id r"]
    by (intro ring_inv_producer [OF inv]) (simp_all add: same_defs reserved_ring_def producer_valid_def)
qed

lemma PrepareFinish_inv:
  assumes "ring_inv m r q"
  shows "ring_inv m (snd (PrepareFinish r rid)) q"
proof (cases "producer_reservation_id r = 0")
  case True
  then have "producer_copy_active r = 0"
    using ring_invD(7) [OF assms] by (simp add: producer_valid_def)
  then show ?thesis
    using assms ClearProducer_inv [OF assms] by (simp add: PrepareFinish_def)
next
  case False
  note f = producer_flags_inv(2) [OF assms False, of 0]
  show ?thesis
    using assms f ClearProducer_inv [OF f] ClearProducer_inv [OF assms]
    by (simp add: PrepareFinish_def Let_def)
qed

text \<open>
  The frame that a reservation holds is what lies behind the record header at the tail.
\<close>

definition reserved_frame :: "mem \<Rightarrow> MessageRing \<Rightarrow> u8 list" where
  "reserved_frame m r = circ_read r m (unat (tail_offset r) + 16) (unat (producer_frame_size r))"

definition published_ring :: "MessageRing \<Rightarrow> MessageRing" where
  "published_ring r =
    (let r' = r\<lparr>tail_offset := AdvanceOffset (tail_offset r) (producer_record_bytes r) (capacity_bytes r),
                used_bytes := used_bytes r + producer_record_bytes r, queued_frames := queued_frames r + 1\<rparr>
     in ClearProducer (if next_sequence r = kU64Max then r'\<lparr>sequence_exhausted := 1\<rparr>
          else r'\<lparr>next_sequence := next_sequence r + 1\<rparr>))"

definition record_header :: "MessageRing \<Rightarrow> u8 list" where
  "record_header r = WriteLe64 (next_sequence r) @ WriteLe32 (producer_frame_size r) @ WriteLe32 0"

definition published_mem :: "mem \<Rightarrow> MessageRing \<Rightarrow> mem" where
  "published_mem m r = fold (copy_store r (unat (tail_offset r)) (FromLocal (record_header r))) [0..<16] m"

lemma PublishLocked_eq:
  assumes inv: "ring_inv m r q" and rid: "rid \<noteq> 0"
  shows "PublishLocked m r rid =
    Some (if producer_reservation_id r \<noteq> rid then (RingStaleReservation, 0, m, r)
     else if producer_copy_active r \<noteq> 0 then (RingBusy, 0, m, r)
     else if producer_abort_requested r \<noteq> 0 then (RingProducerAborted, 0, m, ClearProducer r)
     else if sequence_exhausted r \<noteq> 0 then (RingSequenceExhausted, 0, m, ClearProducer r)
     else (RingOk, next_sequence r, published_mem m r, published_ring r))"
proof -
  have "tail_offset r < capacity_bytes r"
    using ring_invD(5) [OF inv] by (simp add: layout_valid_def word_less_nat_alt)
  then have copy: "CopyIntoStorage r m (tail_offset r) (FromLocal (record_header r)) 16 = Some (published_mem m r)"
    using CopyIntoStorage_stores [OF ring_invD(1) [OF inv], of "tail_offset r" m "FromLocal (record_header r)" 16]
    by (simp add: published_mem_def)
  have tail: "producer_tail_offset r = tail_offset r" if "producer_reservation_id r = rid"
    using ring_invD(7) [OF inv] that rid by (simp add: producer_valid_def)
  show ?thesis
    using ring_invD(2) [OF inv] copy tail
    unfolding PublishLocked_def Let_def record_header_def [symmetric] kMessageRingRecordHeaderBytes_def published_ring_def
    by (cases "producer_reservation_id r = rid") simp_all
qed

lemma circ_read_mod_add: "circ_read r m (p mod unat (capacity_bytes r) + k) n = circ_read r m (p + k) n"
  by (simp add: circ_read_def circ_at_mod add.assoc)

lemma copy_store_mod: "copy_store r (p mod unat (capacity_bytes r)) source = copy_store r p source"
  by (intro ext) (simp add: copy_store_def circ_at_mod)

lemma reservation_size:
  assumes "ring_inv m r q" and "producer_reservation_id r \<noteq> 0"
  shows "unat (producer_record_bytes r) = 16 + unat (producer_frame_size r)"
proof -
  have "producer_record_bytes r = 16 + producer_frame_size r" "unat (producer_frame_size r) \<le> 65536"
    using ring_invD(7,12) [OF assms(1)] assms(2) by (simp_all add: producer_valid_def)
  then show ?thesis
    by (simp only:) (subst unat_add_lt, simp_all)
qed

lemma reservation_fits:
  assumes "ring_inv m r q" and "producer_reservation_id r \<noteq> 0"
  shows "unat (used_bytes r) + (16 + unat (producer_frame_size r)) \<le> unat (capacity_bytes r)"
  using ring_invD(5,7) [OF assms(1)] assms(2) reservation_size [OF assms]
  by (auto simp: producer_valid_def layout_valid_def)

lemma published_mem_read:
  assumes inv: "ring_inv m r q" and rid: "producer_reservation_id r \<noteq> 0"
  defines "p \<equiv> unat (head_offset r) + unat (used_bytes r)" and "M \<equiv> published_mem m r"
  shows "circ_read r M (unat (head_offset r)) (unat (used_bytes r)) =
      circ_read r m (unat (head_offset r)) (unat (used_bytes r))"
    and "circ_read r M p 16 = record_header r"
    and "circ_read r M (p + 16) (unat (producer_frame_size r)) = reserved_frame m r"
    and "\<not> in_storage r a \<Longrightarrow> M a = m a"
proof -
  have M: "M = fold (copy_store r p (FromLocal (record_header r))) [0..<16] m"
    using ring_invD(8) [OF inv]
    by (simp add: M_def published_mem_def copy_store_mod ring_holds_def p_def)
  have room: "unat (used_bytes r) + (16 + unat (producer_frame_size r)) \<le> unat (capacity_bytes r)"
    using inv rid by (rule reservation_fits)
  then have sixteen: "16 \<le> unat (capacity_bytes r)"
    by simp
  have len: "length (record_header r) = 16"
    by (simp add: record_header_def)
  note rd = CopyIntoStorage_read [where source = "FromLocal (record_header r)" and n = 16 and p = p and m = m,
      OF ring_invD(1) [OF inv] _ sixteen, folded M, simplified, unfolded len, simplified]
  show "circ_read r M (unat (head_offset r)) (unat (used_bytes r)) =
      circ_read r m (unat (head_offset r)) (unat (used_bytes r))"
    using rd(2) [of "unat (head_offset r)" "unat (used_bytes r)" 0 "unat (used_bytes r)"] room by (simp add: p_def)
  show "circ_read r M p 16 = record_header r"
    using rd(1) len by simp
  show "\<not> in_storage r a \<Longrightarrow> M a = m a"
    by (rule rd(3))
  have "circ_read r M (p + 16) (unat (producer_frame_size r)) = circ_read r m (p + 16) (unat (producer_frame_size r))"
    using rd(2) [of "unat (head_offset r)" "unat (used_bytes r)" "unat (used_bytes r) + 16" "unat (producer_frame_size r)"]
      room by (simp add: p_def add.assoc)
  then show "circ_read r M (p + 16) (unat (producer_frame_size r)) = reserved_frame m r"
    using ring_invD(8) [OF inv] by (simp add: reserved_frame_def ring_holds_def p_def circ_read_mod_add)
qed

lemma published_ring_inv:
  assumes inv: "ring_inv m r q" and rid: "producer_reservation_id r \<noteq> 0"
  shows "ring_inv (published_mem m r) (published_ring r) (q @ [(next_sequence r, reserved_frame m r)])"
proof -
  let ?n = "unat (producer_frame_size r)" and ?t = "unat (tail_offset r)" and ?h = "unat (head_offset r)"
    and ?u = "unat (used_bytes r)" and ?c = "unat (capacity_bytes r)"
  let ?M = "published_mem m r" and ?f = "reserved_frame m r"
  note lay = ring_invD(5) [OF inv] and ok = ring_invD(1) [OF inv] and holds = ring_invD(8) [OF inv]
  have pv: "32 \<le> ?n" "?n \<le> 65536"
    using ring_invD(7,12) [OF inv] rid by (simp_all add: producer_valid_def)
  note rec = reservation_size [OF inv rid]
  have c: "?u \<le> ?c" "?h < ?c" "?t < ?c" "48 \<le> ?c" "?u + (16 + ?n) \<le> ?c"
    using lay reservation_fits [OF inv rid] by (simp_all add: layout_valid_def)
  have tail: "?t = (?h + ?u) mod ?c"
    using holds by (simp add: ring_holds_def)
  have used: "unat (used_bytes r + producer_record_bytes r) = ?u + (16 + ?n)"
    using c(5) u32_lt [of "capacity_bytes r"] rec by (subst unat_add_lt) simp_all
  have count: "unat (queued_frames r + 1) = length q + 1"
    using holds ring_holds_count [OF holds] c(1) u32_lt [of "capacity_bytes r"]
    by (subst unat_add_lt) (simp_all add: ring_holds_def)
  have adv: "unat (AdvanceOffset (tail_offset r) (producer_record_bytes r) (capacity_bytes r)) =
      (?h + (?u + (16 + ?n))) mod ?c"
    using AdvanceOffset_mod(1) [of "tail_offset r" "capacity_bytes r" "producer_record_bytes r"] c rec
      mod_add_left_eq [of "?h + ?u" ?c "16 + ?n"] tail
    by (simp add: word_less_nat_alt word_le_nat_alt add.assoc)
  have read: "circ_read r ?M ?h (?u + (16 + ?n)) = queue_bytes q @ record_header r @ ?f"
    unfolding circ_read_append published_mem_read [OF inv rid] using holds by (simp add: ring_holds_def)
  have q: "queue_bytes q @ record_header r @ ?f = queue_bytes (q @ [(next_sequence r, ?f)])"
    by (simp add: record_bytes_def record_header_def reserved_frame_def)
  have lay': "layout_valid (published_ring r)"
    using c lay used count adv pv(1)
    by (auto simp: layout_valid_def published_ring_def Let_def ClearProducer_def word_unat_eq_iff)
  have holds': "ring_holds ?M (published_ring r) (q @ [(next_sequence r, ?f)])"
    using holds read [unfolded q] used count adv ring_invD(11) [OF inv] pv
    by (auto simp: ring_holds_def published_ring_def Let_def ClearProducer_def circ_read_def circ_at_def
        entry_ok_def reserved_frame_def)
  have "receiver_valid (published_ring r)"
    using ring_invD(6) [OF inv] count
    by (auto simp: receiver_valid_def published_ring_def Let_def ClearProducer_def word_unat_eq_iff)
  moreover have "lease_ok (published_ring r) (q @ [(next_sequence r, ?f)])"
    using ring_invD(9) [OF inv] by (auto simp: lease_ok_def published_ring_def Let_def ClearProducer_def)
  moreover have "storage_ok (published_ring r)"
    using ok by (simp add: storage_ok_def published_ring_def Let_def ClearProducer_def)
  ultimately show ?thesis
    using lay' holds' ring_invD [OF inv] u64_succ_nonzero [of "next_sequence r"]
    by (simp add: ring_inv_def StateIsValid_iff producer_valid_def published_ring_def Let_def ClearProducer_def)
qed

lemma AbortEnqueue_inv:
  assumes inv: "ring_inv m r q"
  shows "\<exists>r'. snd (MessageRingAbortEnqueue (Some r) rid) = Some r' \<and> ring_inv m r' q"
proof (cases "rid = 0")
  case True
  then show ?thesis
    using inv by (simp add: MessageRingAbortEnqueue_def)
next
  case False
  then show ?thesis
    using inv ClearProducer_inv [OF inv] producer_flags_inv(1) [OF inv, of 1]
    by (auto simp: MessageRingAbortEnqueue_def)
qed

subsection \<open>Receiver\<close>

definition peeked_ring :: "MessageRing \<Rightarrow> entry \<Rightarrow> MessageRing" where
  "peeked_ring r e =
    (if next_receive_lease_id r = kU64Max then r\<lparr>receive_lease_exhausted := 1\<rparr>
     else r\<lparr>next_receive_lease_id := next_receive_lease_id r + 1\<rparr>)
    \<lparr>receive_sequence := fst e, receive_lease_id := next_receive_lease_id r,
     receive_frame_size := of_nat (length (snd e)), receive_copy_id := 0, receive_copy_succeeded_id := 0\<rparr>"

lemma queued_frames_empty: "ring_holds m r q \<Longrightarrow> queued_frames r = 0 \<longleftrightarrow> q = []"
  by (auto simp: ring_holds_def word_unat_eq_iff)

lemma PeekLocked_eq:
  assumes inv: "ring_inv m r q"
  shows "PeekLocked m r =
    (if receive_sequence r \<noteq> 0 then Some (RingBusy, None, r)
     else case q of [] \<Rightarrow> Some (RingEmpty, None, r)
       | e # q' \<Rightarrow>
         if receive_lease_exhausted r \<noteq> 0 then Some (RingReceiveLeaseExhausted, None, r)
         else Some (RingOk, Some \<lparr>peek_sequence = fst e, peek_receive_lease_id = next_receive_lease_id r,
                peek_frame_size = of_nat (length (snd e))\<rparr>, peeked_ring r e))"
proof (cases q)
  case Nil
  then show ?thesis
    using ring_invD(2) [OF inv] queued_frames_empty [OF ring_invD(8) [OF inv]] by (simp add: PeekLocked_def)
next
  case (Cons e q')
  then have "ReadHeadRecord m r = Some (Some \<lparr>rec_sequence = fst e, rec_frame_size = of_nat (length (snd e)),
      rec_record_size = of_nat (16 + length (snd e))\<rparr>)"
    using ReadHeadRecord_head [of m r "fst e" "snd e" q'] inv by simp
  then show ?thesis
    using ring_invD(2) [OF inv] queued_frames_empty [OF ring_invD(8) [OF inv]] Cons
    by (simp add: PeekLocked_def peeked_ring_def Let_def)
qed

lemma entry_size:
  assumes "ring_holds m r (e # q)"
  shows "unat (of_nat (length (snd e)) :: u32) = length (snd e)" and "32 \<le> length (snd e)" and "fst e \<noteq> 0"
  using assms by (simp_all add: ring_holds_def entry_ok_def)

lemma peeked_ring_inv:
  assumes inv: "ring_inv m r (e # q)"
  shows "ring_inv m (peeked_ring r e) (e # q)"
proof (rule ring_inv_receiver [OF inv])
  note e = entry_size [OF ring_invD(8) [OF inv]]
  have "queued_frames r \<noteq> 0"
    using queued_frames_empty [OF ring_invD(8) [OF inv]] by simp
  then show "receiver_valid (peeked_ring r e)"
    using ring_invD(6) [OF inv] e u64_succ_nonzero [of "next_receive_lease_id r"]
    by (simp add: receiver_valid_def peeked_ring_def)
  show "lease_ok (peeked_ring r e) (e # q)"
    using e by (simp add: lease_ok_def peeked_ring_def prod_eq_iff)
qed (simp_all add: same_defs peeked_ring_def)

definition copying_ring :: "MessageRing \<Rightarrow> MessageRing" where
  "copying_ring r =
    (if next_copy_id r = kU64Max then r\<lparr>copy_id_exhausted := 1\<rparr> else r\<lparr>next_copy_id := next_copy_id r + 1\<rparr>)
    \<lparr>receive_copy_id := next_copy_id r, receive_copy_succeeded_id := 0\<rparr>"

definition head_spans :: "MessageRing \<Rightarrow> nat \<Rightarrow> MessageRingCopySpans" where
  "head_spans r n =
    (let offset = (unat (head_offset r) + 16) mod unat (capacity_bytes r);
         first_size = min n (unat (capacity_bytes r) - offset)
     in \<lparr>spans_first = storage r + of_nat offset, spans_first_size = of_nat first_size,
         spans_second = (if n = first_size then 0 else storage r),
         spans_second_size = of_nat (n - first_size), spans_copy_id = next_copy_id r\<rparr>)"

lemma lease_head:
  assumes "ring_inv m r q" and "receive_sequence r \<noteq> 0"
  obtains f q' where "q = (receive_sequence r, f) # q'" and "receive_frame_size r = of_nat (length f)"
    and "32 \<le> length f" and "length f \<le> 65536" and "unat (of_nat (length f) :: u32) = length f"
proof -
  from assms ring_invD(9) [OF assms(1)] obtain f q' where q: "q = (receive_sequence r, f) # q'"
      "unat (receive_frame_size r) = length f"
    by (auto simp: lease_ok_def)
  moreover have "receive_frame_size r = of_nat (length f)"
    unfolding q(2) [symmetric] by simp
  moreover have "32 \<le> length f" "length f \<le> 65536"
    using ring_invD(8) [OF assms(1)] q by (simp_all add: ring_holds_def entry_ok_def)
  ultimately show ?thesis
    using that by simp
qed

lemma BeginCopyOutLocked_eq:
  assumes inv: "ring_inv m r q" and seq: "sequence \<noteq> 0"
  shows "BeginCopyOutLocked m r sequence lease =
    Some (if receive_sequence r \<noteq> sequence then (RingStaleSequence, None, r)
     else if receive_lease_id r \<noteq> lease then (RingStaleReceiveLease, None, r)
     else if receive_copy_id r \<noteq> 0 then (RingBusy, None, r)
     else if copy_id_exhausted r \<noteq> 0 then (RingCopyIdExhausted, None, r)
     else (RingOk, Some (head_spans r (unat (receive_frame_size r))), copying_ring r))"
proof (cases "receive_sequence r = sequence")
  case True
  with seq have "receive_sequence r \<noteq> 0"
    by simp
  from lease_head [OF inv this] obtain f q' where q: "q = (receive_sequence r, f) # q'"
      "receive_frame_size r = of_nat (length f)" "length f \<le> 65536" "unat (of_nat (length f) :: u32) = length f"
    by blast
  have lt: "unat (head_offset r) < unat (capacity_bytes r)" "48 \<le> unat (capacity_bytes r)"
    using ring_invD(5) [OF inv] by (simp_all add: layout_valid_def)
  define off where "off = AdvanceOffset (head_offset r) 16 (capacity_bytes r)"
  have off: "unat off = (unat (head_offset r) + 16) mod unat (capacity_bytes r)" "off < capacity_bytes r"
    using AdvanceOffset_mod [of "head_offset r" "capacity_bytes r" 16] lt
    by (simp_all add: off_def word_less_nat_alt word_le_nat_alt)
  define n :: u32 where "n = of_nat (length f)"
  define first where "first = (if n < capacity_bytes r - off then n else capacity_bytes r - off)"
  have room: "unat (capacity_bytes r - off) = unat (capacity_bytes r) - unat off"
    using off(2) by (simp add: unat_sub_ge)
  have first: "unat first = min (length f) (unat (capacity_bytes r) - unat off)"
    unfolding first_def using q(4) room by (auto simp: word_less_nat_alt n_def)
  then have "first \<le> n"
    using q(4) by (simp add: word_le_nat_alt n_def)
  then have second: "unat (n - first) = length f - unat first"
    using q(4) by (simp add: unat_sub_ge n_def)
  have spans: "\<lparr>spans_first = storage r + ucast off, spans_first_size = first,
      spans_second = (if n - first = 0 then 0 else storage r), spans_second_size = n - first,
      spans_copy_id = next_copy_id r\<rparr> = head_spans r (length f)"
  proof -
    have conv: "of_nat (length f - unat first) = n - first" "of_nat (unat first) = first"
      unfolding second [symmetric] by simp_all
    have zero: "n - first = 0 \<longleftrightarrow> length f = unat first"
      using second first by (auto simp: word_unat_eq_iff)
    show ?thesis
      unfolding head_spans_def Let_def off(1) [symmetric] first [symmetric] conv zero ucast_u32_of_nat ..
  qed
  show ?thesis
    using True ReadHeadRecord_head [of m r "receive_sequence r" f q'] inv q(1) ring_invD(2) [OF inv]
    unfolding q(2) [THEN arg_cong [where f = unat]] q(4) spans [symmetric]
    by (simp add: BeginCopyOutLocked_def Let_def copying_ring_def kMessageRingRecordHeaderBytes_def
        n_def off_def first_def q(2))
next
  case False
  then show ?thesis
    using ring_invD(2) [OF inv] by (simp add: BeginCopyOutLocked_def)
qed

lemma copying_ring_inv:
  assumes inv: "ring_inv m r q" and "receive_sequence r \<noteq> 0"
  shows "ring_inv m (copying_ring r) q"
proof (rule ring_inv_receiver [OF inv])
  show "receiver_valid (copying_ring r)"
    using ring_invD(6) [OF inv] assms(2) u64_succ_nonzero [of "next_copy_id r"]
    by (simp add: receiver_valid_def copying_ring_def)
  show "lease_ok (copying_ring r) q"
    using ring_invD(9) [OF inv] by (simp add: lease_ok_def copying_ring_def)
qed (simp_all add: same_defs copying_ring_def)

lemma EndCopyOut_inv:
  assumes inv: "ring_inv m r q"
  shows "\<exists>r'. snd (MessageRingEndCopyOut (Some r) sequence lease copy_id ok) = Some r' \<and> ring_inv m r' q"
proof -
  have "ring_inv m (r\<lparr>receive_copy_id := 0, receive_copy_succeeded_id := x\<rparr>) q" if "receive_sequence r \<noteq> 0" for x
  proof (rule ring_inv_receiver [OF inv])
    show "receiver_valid (r\<lparr>receive_copy_id := 0, receive_copy_succeeded_id := x\<rparr>)"
      using ring_invD(6) [OF inv] that by (simp add: receiver_valid_def)
    show "lease_ok (r\<lparr>receive_copy_id := 0, receive_copy_succeeded_id := x\<rparr>) q"
      using ring_invD(9) [OF inv] by (simp add: lease_ok_def)
  qed (simp_all add: same_defs)
  then show ?thesis
    using inv by (auto simp: MessageRingEndCopyOut_def)
qed

lemma CancelReceive_inv:
  assumes "ring_inv m r q"
  shows "\<exists>r'. snd (MessageRingCancelReceive (Some r) sequence lease) = Some r' \<and> ring_inv m r' q"
  using assms ClearReceiver_inv [OF assms] by (simp add: MessageRingCancelReceive_def)

definition committed_ring :: "MessageRing \<Rightarrow> MessageRing" where
  "committed_ring r =
    (let r = r\<lparr>head_offset := AdvanceOffset (head_offset r) (16 + receive_frame_size r) (capacity_bytes r),
               used_bytes := used_bytes r - (16 + receive_frame_size r),
               queued_frames := queued_frames r - 1\<rparr>;
         r = (if queued_frames r = 0 then r\<lparr>head_offset := tail_offset r\<rparr> else r)
     in ClearReceiver r)"

lemma CommitLocked_eq:
  assumes inv: "ring_inv m r q" and seq: "sequence \<noteq> 0"
  shows "CommitLocked m r sequence lease =
    Some (if receive_sequence r \<noteq> sequence then (RingStaleSequence, r)
     else if receive_lease_id r \<noteq> lease then (RingStaleReceiveLease, r)
     else if receive_copy_id r \<noteq> 0 then (RingBusy, r)
     else if receive_copy_succeeded_id r = 0 then (RingCopyRequired, r)
     else (RingOk, committed_ring r))"
proof (cases "receive_sequence r = sequence")
  case True
  with seq have "receive_sequence r \<noteq> 0"
    by simp
  from lease_head [OF inv this] obtain f q' where q: "q = (receive_sequence r, f) # q'"
      "receive_frame_size r = of_nat (length f)"
    by blast
  show ?thesis
    using True ReadHeadRecord_head [of m r "receive_sequence r" f q'] inv q(1) ring_invD(2) [OF inv]
    by (simp add: CommitLocked_def committed_ring_def Let_def q(2))
next
  case False
  then show ?thesis
    using ring_invD(2) [OF inv] by (simp add: CommitLocked_def)
qed

lemma committed_ring_inv:
  assumes inv: "ring_inv m r q" and lease: "receive_sequence r \<noteq> 0"
  shows "ring_inv m (committed_ring r) (tl q) \<and> q \<noteq> []"
proof -
  from lease_head [OF inv lease] obtain f q' where q: "q = (receive_sequence r, f) # q'"
      "receive_frame_size r = of_nat (length f)" "32 \<le> length f" "length f \<le> 65536"
      "unat (of_nat (length f) :: u32) = length f"
    by blast
  let ?h = "unat (head_offset r)" and ?u = "unat (used_bytes r)" and ?c = "unat (capacity_bytes r)"
    and ?n = "16 + length f" and ?r = "committed_ring r"
  note lay = ring_invD(5) [OF inv]
  have holds: "ring_holds m r ((receive_sequence r, f) # q')"
    using ring_invD(8) [OF inv] q(1) by simp
  note head = ring_holds_head [OF holds]
  have n: "unat (16 + receive_frame_size r) = ?n"
    using q(2,4,5) by (simp only:) (subst unat_add_lt, simp_all)
  have c: "?u \<le> ?c" "?h < ?c" "?n \<le> ?u" "unat (tail_offset r) < ?c"
    using lay head(3) by (simp_all add: layout_valid_def)
  have used: "unat (used_bytes r - (16 + receive_frame_size r)) = ?u - ?n"
    using c(3) n by (simp only: unat_sub_ge word_le_nat_alt)
  have count: "unat (queued_frames r - 1) = length q'"
    using holds by (subst unat_sub_ge) (auto simp: ring_holds_def word_le_nat_alt)
  have adv: "unat (AdvanceOffset (head_offset r) (16 + receive_frame_size r) (capacity_bytes r)) = (?h + ?n) mod ?c"
    using AdvanceOffset_mod(1) [of "head_offset r" "capacity_bytes r" "16 + receive_frame_size r"] c n
    by (simp add: word_less_nat_alt word_le_nat_alt)
  have qb: "length (queue_bytes q') = ?u - ?n" "48 * length q' \<le> ?u - ?n"
    using ring_holds_length [OF holds] queue_bytes_length [of q'] holds by (simp_all add: ring_holds_def)
  have tail: "unat (tail_offset r) = (?h + ?u) mod ?c"
    using holds by (simp add: ring_holds_def)
  have last: "?u = ?n" if "q' = []"
    using qb that c(3) by simp
  have head': "unat (head_offset ?r) = (?h + ?n) mod ?c"
    using adv tail last count
    by (auto simp: committed_ring_def Let_def ClearReceiver_def word_unat_eq_iff)
  have fields: "used_bytes ?r = used_bytes r - (16 + receive_frame_size r)" "queued_frames ?r = queued_frames r - 1"
      "tail_offset ?r = tail_offset r" "storage ?r = storage r" "capacity_bytes ?r = capacity_bytes r"
      "initialized ?r = initialized r" "next_sequence ?r = next_sequence r" "same_producer r ?r" "receive_sequence ?r = 0"
    by (simp_all add: committed_ring_def Let_def ClearReceiver_def same_producer_def)
  have lay': "layout_valid ?r"
  proof -
    have "unat (used_bytes ?r) = ?u - ?n" "unat (queued_frames ?r) = length q'"
      using used count fields by simp_all
    moreover from this have "used_bytes ?r = 0 \<longleftrightarrow> q' = []" "queued_frames ?r = 0 \<longleftrightarrow> q' = []"
      using qb last by (auto simp: word_unat_eq_iff)
    moreover have "48 \<le> ?u - ?n" if "q' \<noteq> []"
      using qb(2) that by (cases q') auto
    moreover have "(?h + ?n) mod ?c < ?c"
      using c(2) by simp
    ultimately show ?thesis
      using c lay fields head' by (simp add: layout_valid_def)
  qed
  have holds': "ring_holds m ?r q'"
  proof -
    have "circ_read ?r m (unat (head_offset ?r)) (?u - ?n) = queue_bytes q'"
      unfolding head' using head(4) fields(4,5)
      by (metis circ_read_mod circ_read_ring_cong)
    moreover have "unat (tail_offset r) = ((?h + ?n) mod ?c + (?u - ?n)) mod ?c"
      unfolding tail mod_add_left_eq using c(3) by simp
    ultimately show ?thesis
      using holds unfolding ring_holds_def fields used count head' by simp
  qed
  have "receiver_valid ?r"
    using ring_invD(6) [OF inv] by (simp add: receiver_valid_def committed_ring_def Let_def ClearReceiver_def)
  moreover have "storage_ok ?r" "producer_valid ?r"
    using ring_invD(1,7) [OF inv] used n c fields
    by (auto simp: storage_ok_def producer_valid_def same_producer_def)
  ultimately show ?thesis
    using lay' holds' ring_invD [OF inv] fields q(1)
    by (simp add: ring_inv_def StateIsValid_iff lease_ok_def same_producer_def)
qed

end
