(* ===== verification/MessageRingOps.thy ===== *)
theory MessageRingOps
  imports MessageRingQueue
begin

text \<open>
  The public operations of the message ring, run to completion: what each call returns, what it
  does to the queue, and that every call returns.
\<close>

section \<open>Unlocked copies\<close>

lemma fun_upd_mem_write: "m(a := b) = mem_write m a [b]"
proof
  fix x
  have "unat (x - a) = 0 \<longleftrightarrow> x = a"
    by (simp add: unat_eq_0)
  then show "(m(a := b)) x = mem_write m a [b] x"
    by (simp add: mem_write_def)
qed

lemma mem_read_Suc: "mem_read m p (Suc k) = mem_read m p k @ [m (p + of_nat k)]"
  by (simp add: mem_read_def)

lemma CopyBytes_mem_write:
  assumes apart: "\<And>i j. i < unat n \<Longrightarrow> j < unat n \<Longrightarrow> source + of_nat i \<noteq> destination + of_nat j"
  shows "CopyBytes m destination source n = mem_write m destination (mem_read m source (unat n))"
proof -
  have "fold (\<lambda>index m. m(destination + of_nat index := m (source + of_nat index))) [0..<k] m =
      mem_write m destination (mem_read m source k)" if "k \<le> unat n" for k
    using that
  proof (induction k)
    case 0
    show ?case
      by (simp add: mem_read_def mem_write_def)
  next
    case (Suc k)
    let ?M = "mem_write m destination (mem_read m source k)"
    have k: "k < 4294967296"
      using Suc.prems u32_lt [of n] by simp
    have "?M (source + of_nat k) = m (source + of_nat k)"
    proof -
      have "unat (source + of_nat k - destination) \<ge> k"
      proof (rule ccontr)
        assume "\<not> k \<le> unat (source + of_nat k - destination)"
        then have lt: "unat (source + of_nat k - destination) < unat n"
          using Suc.prems by simp
        have "source + of_nat k = destination + of_nat (unat (source + of_nat k - destination))"
          by simp
        with apart [OF _ lt, of k] Suc.prems show False
          by simp
      qed
      then show ?thesis
        by (simp add: mem_write_def)
    qed
    then have "fold (\<lambda>index m. m(destination + of_nat index := m (source + of_nat index))) [0..<Suc k] m =
        mem_write ?M (destination + of_nat (length (mem_read m source k))) [m (source + of_nat k)]"
      using Suc by (simp add: fun_upd_mem_write)
    also have "\<dots> = mem_write m destination (mem_read m source k @ [m (source + of_nat k)])"
      using k by (intro mem_write_append) simp_all
    finally show ?case
      by (simp only: mem_read_Suc)
  qed
  from this [of "unat n"] show ?thesis
    by (simp add: CopyBytes_def)
qed

lemma circ_read_spans:
  assumes "p < unat (capacity_bytes r)" and "n \<le> unat (capacity_bytes r)"
  shows "circ_read r m p n = mem_read m (storage r + of_nat p) (min n (unat (capacity_bytes r) - p)) @
    mem_read m (storage r) (n - min n (unat (capacity_bytes r) - p))"
proof (rule nth_equalityI)
  let ?c = "unat (capacity_bytes r)"
  fix i assume "i < length (circ_read r m p n)"
  then have i: "i < n"
    by simp
  show "circ_read r m p n ! i = (mem_read m (storage r + of_nat p) (min n (?c - p)) @
      mem_read m (storage r) (n - min n (?c - p))) ! i"
  proof (cases "p + i < ?c")
    case True
    then have "i < ?c - p"
      by simp
    with i True show ?thesis
      by (simp add: nth_append circ_at_def add.assoc)
  next
    case False
    then have "(p + i) mod ?c = i - (?c - p)"
      using assms i by (simp add: le_mod_geq)
    moreover have "min n (?c - p) = ?c - p" "?c - p \<le> i"
      using False i by simp_all
    ultimately show ?thesis
      using i by (simp add: nth_append circ_at_def)
  qed
qed simp

definition spans_bytes :: "mem \<Rightarrow> MessageRingCopySpans \<Rightarrow> u8 list" where
  "spans_bytes m spans = mem_read m (spans_first spans) (unat (spans_first_size spans)) @
     mem_read m (spans_second spans) (unat (spans_second_size spans))"

lemma head_spans_bytes:
  assumes inv: "ring_inv m r ((s, f) # q)"
  shows "spans_bytes m (head_spans r (length f)) = f"
    and "unat (spans_first_size (head_spans r (length f))) + unat (spans_second_size (head_spans r (length f))) = length f"
proof -
  let ?c = "unat (capacity_bytes r)"
  define p where "p = (unat (head_offset r) + 16) mod ?c"
  have c: "48 \<le> ?c" "unat (used_bytes r) \<le> ?c"
    using ring_invD(5) [OF inv] by (simp_all add: layout_valid_def)
  have f: "16 + length f \<le> unat (used_bytes r)" "circ_read r m (unat (head_offset r) + 16) (length f) = f"
    using ring_holds_head [OF ring_invD(8) [OF inv]] by simp_all
  have n: "length f < 4294967296"
    using f(1) c(2) u32_lt [of "capacity_bytes r"] by linarith
  define k where "k = min (length f) (?c - p)"
  have k: "unat (of_nat k :: u32) = k" "unat (of_nat (length f - k) :: u32) = length f - k" "k \<le> length f"
    using n by (simp_all add: k_def del: of_nat_diff)
  have spans: "head_spans r (length f) = \<lparr>spans_first = storage r + of_nat p, spans_first_size = of_nat k,
      spans_second = (if length f = k then 0 else storage r), spans_second_size = of_nat (length f - k),
      spans_copy_id = next_copy_id r\<rparr>"
    unfolding head_spans_def Let_def p_def [symmetric] k_def [symmetric] ..
  have "circ_read r m p (length f) = mem_read m (storage r + of_nat p) k @ mem_read m (storage r) (length f - k)"
    unfolding k_def using c f(1) by (intro circ_read_spans) (simp_all add: p_def)
  then have "mem_read m (storage r + of_nat p) k @ mem_read m (storage r) (length f - k) = f"
    using f(2) by (simp add: p_def circ_read_mod)
  then show "spans_bytes m (head_spans r (length f)) = f"
    unfolding spans_bytes_def spans MessageRingCopySpans.simps k
    by (cases "length f = k") (simp_all add: mem_read_def)
  show "unat (spans_first_size (head_spans r (length f))) + unat (spans_second_size (head_spans r (length f))) = length f"
    unfolding spans MessageRingCopySpans.simps k(1,2) using k(3) by simp
qed

section \<open>Enqueue\<close>

lemma no_overlap_apart:
  assumes "PointerRangeIsValid p n" and "storage_ok r"
    and "\<not> PointerRangesOverlap p n (storage r) (capacity_bytes r)" and "i < unat n"
  shows "\<not> in_storage r (p + of_nat i)"
proof -
  have p: "p \<noteq> 0" "unat p + unat n \<le> 18446744073709551616" "storage r \<noteq> 0"
    using assms(1,2) by (simp_all add: PointerRangeIsValid_unat storage_ok_def)
  from in_range_offset [OF assms(4) p(2)] have "in_range (p + of_nat i) p (unat n)" .
  then show ?thesis
    using assms(3) PointerRangesOverlap_iff [OF p(1,3)] by (auto simp: in_storage_def)
qed

lemma PreparePreflight_None:
  assumes "PreparePreflight m (Some r) frame n rules count = None"
  shows "PointerRangeIsValid frame n" and "\<not> PointerRangesOverlap frame n (storage r) (capacity_bytes r)"
    and "message_wf (mem_read m frame (unat n))" and "32 \<le> unat n" and "unat n \<le> 65536"
proof -
  from assms have *: "PointerRangeIsValid frame n" "\<not> PointerRangesOverlap frame n (storage r) (capacity_bytes r)"
      "fst (MessageValidate m frame n OutLocal) = MsgOk"
    by (auto simp: PreparePreflight_def Let_def split: if_split_asm prod.split_asm)
  then show "PointerRangeIsValid frame n" "\<not> PointerRangesOverlap frame n (storage r) (capacity_bytes r)"
    by simp_all
  from *(3) show "message_wf (mem_read m frame (unat n))"
    by (simp add: MessageValidate_Ok_iff)
  then show "32 \<le> unat n" "unat n \<le> 65536"
    by (simp_all add: message_wf_def)
qed

text \<open>
  The copy of a prepared frame: it fills the reserved range, leaves the queued bytes alone and
  touches nothing outside the storage.
\<close>

lemma reserved_copy:
  assumes inv: "ring_inv m r q" and rid: "producer_reservation_id r \<noteq> 0"
    and apart: "source_apart r (FromMem frame) (unat (producer_frame_size r))"
  defines "M \<equiv> fold (copy_store r (unat (tail_offset r) + 16) (FromMem frame)) [0..<unat (producer_frame_size r)] m"
  shows "ring_inv M r q" and "reserved_frame M r = mem_read m frame (unat (producer_frame_size r))"
    and "\<And>a. \<not> in_storage r a \<Longrightarrow> M a = m a"
proof -
  let ?n = "unat (producer_frame_size r)" and ?p = "unat (head_offset r) + (unat (used_bytes r) + 16)"
  have fit: "unat (used_bytes r) + (16 + ?n) \<le> unat (capacity_bytes r)"
    using inv rid by (rule reservation_fits)
  then have n: "?n \<le> unat (capacity_bytes r)"
    by simp
  have tail: "unat (tail_offset r) = (unat (head_offset r) + unat (used_bytes r)) mod unat (capacity_bytes r)"
    using ring_invD(8) [OF inv] by (simp add: ring_holds_def)
  have store: "copy_store r (unat (tail_offset r) + 16) source = copy_store r ?p source" for source
    unfolding tail by (intro ext) (simp add: copy_store_def add.assoc circ_at_mod)
  have M: "M = fold (copy_store r ?p (FromMem frame)) [0..<?n] m"
    by (simp add: M_def store)
  note rd = CopyIntoStorage_read [where source = "FromMem frame" and n = ?n and p = ?p and m = m,
      OF ring_invD(1) [OF inv] apart n, folded M, simplified]
  have queued: "circ_read r M (unat (head_offset r)) (unat (used_bytes r)) =
      circ_read r m (unat (head_offset r)) (unat (used_bytes r))"
    using rd(2) [of "unat (head_offset r)" "unat (used_bytes r) + 16" 0 "unat (used_bytes r)"] fit by simp
  then show "ring_inv M r q"
    using inv by (simp add: ring_inv_def ring_holds_def)
  show "reserved_frame M r = mem_read m frame ?n"
    using rd(1) unfolding reserved_frame_def tail circ_read_mod_add by (simp add: add.assoc)
  show "\<And>a. \<not> in_storage r a \<Longrightarrow> M a = m a"
    by (rule rd(3))
qed

lemma reserved_ring_fields [simp]:
  "storage (reserved_ring r n) = storage r" "capacity_bytes (reserved_ring r n) = capacity_bytes r"
  "tail_offset (reserved_ring r n) = tail_offset r" "producer_frame_size (reserved_ring r n) = n"
  "producer_reservation_id (reserved_ring r n) = next_reservation_id r"
  "producer_copy_active (reserved_ring r n) = 1" "producer_abort_requested (reserved_ring r n) = 0"
  "next_sequence (reserved_ring r n) = next_sequence r" "sequence_exhausted (reserved_ring r n) = sequence_exhausted r"
  by (simp_all add: reserved_ring_def)

lemma reserved_frame_offset:
  assumes "ring_inv m r q" and "off = AdvanceOffset (tail_offset r) 16 (capacity_bytes r)"
  shows "off < capacity_bytes r" and "copy_store r (unat off) source = copy_store r (unat (tail_offset r) + 16) source"
proof -
  have lay: "tail_offset r < capacity_bytes r" "16 \<le> capacity_bytes r"
    using ring_invD(5) [OF assms(1)] by (simp_all add: layout_valid_def word_less_nat_alt word_le_nat_alt)
  from AdvanceOffset_mod [OF lay] show "off < capacity_bytes r"
    and "copy_store r (unat off) source = copy_store r (unat (tail_offset r) + 16) source"
    by (simp_all add: assms(2) copy_store_mod)
qed

lemma PrepareEnqueue_cases:
  assumes inv: "ring_inv m r q"
  obtains (failed) res where "MessageRingPrepareEnqueue m (Some r) frame n rules count = Some (res, m, Some r)"
      and "enq_status res \<noteq> RingOk" and "\<not> (PreparePreflight m (Some r) frame n rules count = None \<and> accepts r n)"
  | (prepared) m' r' where
      "MessageRingPrepareEnqueue m (Some r) frame n rules count =
        Some (\<lparr>enq_status = RingOk, enq_reservation_id = next_reservation_id r, enq_sequence = 0,
               enq_message_error = MsgOk, enq_payload_error = PayOk\<rparr>, m', Some r')"
      and "PreparePreflight m (Some r) frame n rules count = None" and "accepts r n"
      and "r' = (reserved_ring r n)\<lparr>producer_copy_active := 0\<rparr>" and "ring_inv m' r' q"
      and "reserved_frame m' r' = mem_read m frame (unat n)" and "\<And>a. \<not> in_storage r a \<Longrightarrow> m' a = m a"
proof (cases "PreparePreflight m (Some r) frame n rules count")
  case (Some failure)
  have "enq_status failure \<noteq> RingOk"
    using Some by (auto simp: PreparePreflight_def EnqueueFailure_def Let_def split: if_split_asm prod.split_asm)
  then show ?thesis
    using Some by (intro failed) (simp_all add: MessageRingPrepareEnqueue_def)
next
  case None
  note pre = PreparePreflight_None [OF None]
  show ?thesis
  proof (cases "accepts r n")
    case False
    from PrepareReserve_accepts(2) [OF inv this] obtain st where
      "st \<noteq> RingOk" "PrepareReserve r n = ((st, 0, 0), r)" by blast
    with None False show ?thesis
      by (intro failed [of "EnqueueFailure st MsgOk PayOk"]) (auto simp: MessageRingPrepareEnqueue_def EnqueueFailure_def)
  next
    case acc: True
    define r1 off where "r1 = reserved_ring r n" and off: "off = AdvanceOffset (tail_offset r) 16 (capacity_bytes r)"
    define rid where "rid = next_reservation_id r"
    note res = PrepareReserve_accepts(1) [OF inv acc, folded r1_def off rid_def]
    have room: "16 + n \<le> capacity_bytes r - used_bytes r"
      using acc by (simp add: accepts_def)
    have inv1: "ring_inv m r1 q"
      unfolding r1_def using inv pre(4,5) room by (rule reserved_ring_inv)
    have rid: "producer_reservation_id r1 \<noteq> 0"
      using ring_invD(10) [OF inv] by (simp add: r1_def)
    have "storage_ok r1"
      using inv1 by (rule ring_invD)
    then have apart: "source_apart r1 (FromMem frame) (unat (producer_frame_size r1))"
      using pre(1,2) no_overlap_apart [of frame n r1] by (simp add: r1_def)
    define m' where "m' = fold (copy_store r1 (unat (tail_offset r1) + 16) (FromMem frame)) [0..<unat n] m"
    note rc = reserved_copy [OF inv1 rid apart, unfolded r1_def reserved_ring_fields, folded r1_def,
        folded m'_def [unfolded r1_def reserved_ring_fields, folded r1_def]]
    have "CopyIntoStorage r1 m off (FromMem frame) n = Some m'"
      using CopyIntoStorage_stores [OF \<open>storage_ok r1\<close>, of off m "FromMem frame" n]
        reserved_frame_offset [OF inv1, of off] off by (simp add: m'_def r1_def)
    moreover have "PrepareFinish r1 rid = (RingOk, r1\<lparr>producer_copy_active := 0\<rparr>)"
      using ring_invD(2) [OF inv1] by (simp add: PrepareFinish_def r1_def rid_def Let_def)
    ultimately have ret: "MessageRingPrepareEnqueue m (Some r) frame n rules count =
        Some (\<lparr>enq_status = RingOk, enq_reservation_id = next_reservation_id r, enq_sequence = 0,
               enq_message_error = MsgOk, enq_payload_error = PayOk\<rparr>, m', Some (r1\<lparr>producer_copy_active := 0\<rparr>))"
      using None res by (simp add: MessageRingPrepareEnqueue_def rid_def)
    have "\<not> in_storage r a \<Longrightarrow> m' a = m a" for a
      using rc(3) [of a] by (simp add: in_storage_def r1_def)
    moreover have "reserved_frame m' (r1\<lparr>producer_copy_active := 0\<rparr>) = mem_read m frame (unat n)"
      using rc(2) by (simp add: reserved_frame_def circ_read_def circ_at_def r1_def)
    ultimately show ?thesis
      using prepared [OF ret None acc] producer_flags_inv(2) [OF rc(1) rid, of 0] by (simp add: r1_def)
  qed
qed

text \<open>
  C17. On a well-formed ring the synchronous enqueue always returns, and it succeeds exactly when
  the preflight passes, no producer holds a reservation, neither counter is exhausted and the
  record fits into the free bytes. When it succeeds the
  frame is a valid message, the call reports the ring's next sequence number, the queue grows by
  exactly that sequence number with the frame's bytes at the end, and no byte outside the
  storage changes; when it fails it leaves the ring object and all memory exactly as they were.
\<close>

theorem message_ring_enqueue_correct:
  assumes inv: "ring_inv m r q"
  shows "\<exists>res m' r'. MessageRingEnqueue m (Some r) frame n rules count = Some (res, m', Some r') \<and>
    (enq_status res = RingOk \<longleftrightarrow> PreparePreflight m (Some r) frame n rules count = None \<and> accepts r n) \<and>
    (if enq_status res = RingOk
     then ring_inv m' r' (q @ [(next_sequence r, mem_read m frame (unat n))]) \<and>
          message_wf (mem_read m frame (unat n)) \<and> enq_sequence res = next_sequence r \<and>
          (\<forall>a. \<not> in_storage r a \<longrightarrow> m' a = m a)
     else m' = m \<and> r' = r)"
proof (rule PrepareEnqueue_cases [OF inv, of frame n rules count])
  fix res assume "MessageRingPrepareEnqueue m (Some r) frame n rules count = Some (res, m, Some r)"
    and "enq_status res \<noteq> RingOk" and "\<not> (PreparePreflight m (Some r) frame n rules count = None \<and> accepts r n)"
  then show ?thesis
    by (simp add: MessageRingEnqueue_def)
next
  fix m1 r1 assume prep: "MessageRingPrepareEnqueue m (Some r) frame n rules count =
      Some (\<lparr>enq_status = RingOk, enq_reservation_id = next_reservation_id r, enq_sequence = 0,
             enq_message_error = MsgOk, enq_payload_error = PayOk\<rparr>, m1, Some r1)"
    and pre: "PreparePreflight m (Some r) frame n rules count = None" and acc: "accepts r n"
    and r1: "r1 = (reserved_ring r n)\<lparr>producer_copy_active := 0\<rparr>" and inv1: "ring_inv m1 r1 q"
    and frame: "reserved_frame m1 r1 = mem_read m frame (unat n)" and out: "\<And>a. \<not> in_storage r a \<Longrightarrow> m1 a = m a"
  let ?rid = "next_reservation_id r"
  have rid: "?rid \<noteq> 0" "producer_reservation_id r1 = ?rid"
    using ring_invD(10) [OF inv] by (simp_all add: r1)
  have pub: "PublishLocked m1 r1 ?rid = Some (RingOk, next_sequence r, published_mem m1 r1, published_ring r1)"
    using PublishLocked_eq [OF inv1 rid(1)] rid(2) acc by (simp add: r1 accepts_def)
  have inv2: "ring_inv (published_mem m1 r1) (published_ring r1) (q @ [(next_sequence r, mem_read m frame (unat n))])"
    using published_ring_inv [OF inv1] rid frame by (simp add: r1)
  have "published_mem m1 r1 a = m a" if "\<not> in_storage r a" for a
    using published_mem_read(4) [OF inv1, of a] rid out [OF that] that by (simp add: in_storage_def r1)
  then show ?thesis
    using inv2 PreparePreflight_None(3) [OF pre] pre acc rid ring_invD(4) [OF inv1]
    by (simp add: MessageRingEnqueue_def prep MessageRingPublishEnqueue_def pub)
qed

section \<open>Copy out\<close>

lemma ring_inv_mem:
  assumes inv: "ring_inv m r q" and same: "\<And>a. in_storage r a \<Longrightarrow> m' a = m a"
  shows "ring_inv m' r q"
proof -
  have "circ_read r m' p n = circ_read r m p n" for p n
    using same circ_at_in_storage [OF ring_invD(1) [OF inv]] by (intro circ_read_cong) simp
  then show ?thesis
    using inv by (simp add: ring_inv_def ring_holds_def)
qed

lemma destination_apart:
  assumes "PointerRangeIsValid d n" and "storage_ok r"
    and "\<not> PointerRangesOverlap d n (storage r) (capacity_bytes r)" and "i < unat n"
    and "j < unat (capacity_bytes r)"
  shows "storage r + of_nat j \<noteq> d + of_nat i"
proof
  assume "storage r + of_nat j = d + of_nat i"
  moreover have "in_storage r (storage r + of_nat j)"
    unfolding in_storage_def using assms(2,5)
    by (intro in_range_offset) (simp_all add: storage_ok_def PointerRangeIsValid_unat)
  ultimately show False
    using no_overlap_apart [OF assms(1-4)] by simp
qed

lemma copy_spans:
  assumes inv: "ring_inv m r ((s, f) # q)" and d: "PointerRangeIsValid d n"
    and apart: "\<not> PointerRangesOverlap d n (storage r) (capacity_bytes r)" and fits: "length f \<le> unat n"
  defines "spans \<equiv> head_spans r (length f)"
  defines "m1 \<equiv> CopyBytes m d (spans_first spans) (spans_first_size spans)"
  shows "(if spans_second_size spans \<noteq> 0
          then CopyBytes m1 (d + ucast (spans_first_size spans)) (spans_second spans) (spans_second_size spans)
          else m1) = mem_write m d f"
proof -
  let ?c = "unat (capacity_bytes r)"
  define p where "p = (unat (head_offset r) + 16) mod ?c"
  define k where "k = min (length f) (?c - p)"
  have c: "unat (head_offset r) < ?c" "length f \<le> ?c"
    using ring_invD(5) [OF inv] ring_holds_head(3) [OF ring_invD(8) [OF inv]] by (auto simp: layout_valid_def)
  then have p: "p < ?c"
    by (simp add: p_def)
  have len: "length f < 4294967296"
    using c(2) u32_lt [of "capacity_bytes r"] by linarith
  have k: "k \<le> length f" "p + k \<le> ?c" "unat (of_nat k :: u32) = k" "unat (of_nat (length f - k) :: u32) = length f - k"
    using len p by (simp_all add: k_def del: of_nat_diff)
  have sp: "spans_first spans = storage r + of_nat p" "spans_first_size spans = of_nat k"
      "spans_second spans = (if length f = k then 0 else storage r)" "spans_second_size spans = of_nat (length f - k)"
    unfolding spans_def head_spans_def Let_def p_def [symmetric] k_def [symmetric] by simp_all
  have ne: "storage r + of_nat j \<noteq> d + of_nat i" if "i < length f" "j < ?c" for i j
    using destination_apart [OF d ring_invD(1) [OF inv] apart] that fits by simp
  define A where "A = mem_read m (storage r + of_nat p) k"
  define B where "B = mem_read m (storage r) (length f - k)"
  have m1: "m1 = mem_write m d A"
    unfolding m1_def sp A_def
    using CopyBytes_mem_write [of "of_nat k" "storage r + of_nat p" d m] k ne
    by (simp add: add.assoc flip: of_nat_add)
  have f: "A @ B = f"
    using head_spans_bytes(1) [OF inv, folded spans_def] k(3,4)
    unfolding spans_bytes_def sp A_def B_def by (cases "length f = k") (simp_all add: mem_read_def)
  show ?thesis
  proof (cases "length f = k")
    case True
    then show ?thesis
      using f k m1 by (simp add: sp B_def mem_read_def)
  next
    case False
    have same: "mem_read m1 (storage r) (length f - k) = B"
      unfolding B_def m1
    proof (rule mem_read_cong)
      fix j assume j: "j < length f - k"
      show "mem_write m d A (storage r + of_nat j) = m (storage r + of_nat j)"
      proof (rule ccontr)
        assume "\<not> ?thesis"
        then have lt: "unat (storage r + of_nat j - d) < k"
          by (auto simp: mem_write_def A_def split: if_split_asm)
        have "storage r + of_nat j = d + of_nat (unat (storage r + of_nat j - d))"
          by simp
        moreover have "j < ?c" "unat (storage r + of_nat j - d) < length f"
          using lt k(1) j c(2) by linarith+
        ultimately show False
          using ne by blast
      qed
    qed
    have ne2: "storage r + of_nat i \<noteq> d + of_nat k + of_nat j" if "i < length f - k" "j < length f - k" for i j
    proof -
      have "k + j < length f" "i < ?c"
        using that c(2) by linarith+
      from ne [OF this] show ?thesis
        by (simp add: add.assoc)
    qed
    have "CopyBytes m1 (d + of_nat k) (storage r) (of_nat (length f - k)) = mem_write m1 (d + of_nat k) B"
      using CopyBytes_mem_write [of "of_nat (length f - k)" "storage r" "d + of_nat k" m1, unfolded k(4) same, OF ne2] .
    also have "\<dots> = mem_write m d (A @ B)"
      using mem_write_append [of A B m d] False k len by (auto simp: m1 A_def B_def mem_read_def)
    finally show ?thesis
      using False k f by (simp add: sp ucast_u32_of_nat word_unat_eq_iff del: of_nat_diff)
  qed
qed

lemma BeginCopyOut_local:
  assumes "ring_inv m r q" and "sequence \<noteq> 0" and "lease \<noteq> 0"
  shows "MessageRingBeginCopyOut m (Some r) sequence lease OutLocal =
    Some (if receive_sequence r \<noteq> sequence then (RingStaleSequence, Some zero_spans, Some r)
     else if receive_lease_id r \<noteq> lease then (RingStaleReceiveLease, Some zero_spans, Some r)
     else if receive_copy_id r \<noteq> 0 then (RingBusy, Some zero_spans, Some r)
     else if copy_id_exhausted r \<noteq> 0 then (RingCopyIdExhausted, Some zero_spans, Some r)
     else (RingOk, Some (head_spans r (unat (receive_frame_size r))), Some (copying_ring r)))"
  using assms BeginCopyOutLocked_eq [OF assms(1,2), of lease] ring_invD(4) [OF assms(1)]
  by (simp add: MessageRingBeginCopyOut_def)

definition copied_ring :: "MessageRing \<Rightarrow> bool \<Rightarrow> MessageRing" where
  "copied_ring r ok = (copying_ring r)\<lparr>receive_copy_id := 0,
     receive_copy_succeeded_id := (if ok then next_copy_id r else 0)\<rparr>"

lemma EndCopyOut_copying:
  assumes inv: "ring_inv m r q" and "receive_sequence r = sequence" and "receive_lease_id r = lease"
    and "sequence \<noteq> 0" and "lease \<noteq> 0"
  shows "MessageRingEndCopyOut (Some (copying_ring r)) sequence lease (next_copy_id r) ok =
      (RingOk, Some (copied_ring r ok))"
    and "ring_inv m (copied_ring r ok) q"
proof -
  have id: "next_copy_id r \<noteq> 0"
    using ring_invD(6) [OF inv] by (simp add: receiver_valid_def)
  have inv1: "ring_inv m (copying_ring r) q"
    using assms by (intro copying_ring_inv) simp_all
  show eq: "MessageRingEndCopyOut (Some (copying_ring r)) sequence lease (next_copy_id r) ok =
      (RingOk, Some (copied_ring r ok))"
    using assms id ring_invD(2,4) [OF inv1]
    by (simp add: MessageRingEndCopyOut_def copied_ring_def copying_ring_def)
  show "ring_inv m (copied_ring r ok) q"
    using EndCopyOut_inv [OF inv1, of sequence lease "next_copy_id r" ok] by (simp add: eq)
qed

lemma CopyOutTransfer_cases:
  assumes inv: "ring_inv m r q" and z: "sequence \<noteq> 0" "lease \<noteq> 0" and d: "PointerRangeIsValid d n"
    "\<not> PointerRangesOverlap d n (storage r) (capacity_bytes r)"
  obtains (refused) st where "CopyOutTransfer m (Some r) sequence lease d n zeroed = Some (st, zeroed, m, Some r)"
      and "st \<noteq> RingOk"
  | (short) "CopyOutTransfer m (Some r) sequence lease d n zeroed =
        Some (RingBufferTooSmall, zeroed, m, Some (copied_ring r False))"
      and "receive_sequence r = sequence" and "receive_lease_id r = lease"
  | (copied) f q' where "q = (sequence, f) # q'" and "receive_sequence r = sequence" and "receive_lease_id r = lease"
      and "length f \<le> unat n"
      and "CopyOutTransfer m (Some r) sequence lease d n zeroed =
        Some (RingOk, if zeroed \<noteq> None then Some (of_nat (length f)) else zeroed, mem_write m d f,
              Some (copied_ring r True))"
proof (cases "receive_sequence r = sequence \<and> receive_lease_id r = lease \<and> receive_copy_id r = 0 \<and>
    copy_id_exhausted r = 0")
  case False
  then have "\<exists>st. CopyOutTransfer m (Some r) sequence lease d n zeroed = Some (st, zeroed, m, Some r) \<and> st \<noteq> RingOk"
    unfolding CopyOutTransfer_def BeginCopyOut_local [OF inv z] by auto
  with refused show ?thesis
    by blast
next
  case True
  then have rs: "receive_sequence r = sequence" "receive_lease_id r = lease"
    by simp_all
  with z have "receive_sequence r \<noteq> 0" by simp
  from lease_head [OF inv this] rs obtain f q' where q: "q = (sequence, f) # q'"
      "unat (receive_frame_size r) = length f"
    by metis
  define spans where "spans = head_spans r (length f)"
  have inv': "ring_inv m r ((sequence, f) # q')"
    using inv q(1) by simp
  have lenf: "length f < 4294967296"
    using u32_lt [of "receive_frame_size r"] q(2) by simp
  have "unat (spans_first_size spans + spans_second_size spans) = length f"
    using head_spans_bytes(2) [OF inv', folded spans_def] lenf by (subst unat_add_lt) simp_all
  then have req: "spans_first_size spans + spans_second_size spans = of_nat (length f)"
    using lenf by (simp add: word_unat_eq_iff)
  have id: "spans_copy_id spans = next_copy_id r"
    by (simp add: spans_def head_spans_def Let_def)
  note fin = EndCopyOut_copying(1) [OF inv rs z]
  have started: "MessageRingBeginCopyOut m (Some r) sequence lease OutLocal = Some (RingOk, Some spans, Some (copying_ring r))"
    unfolding BeginCopyOut_local [OF inv z] using True q(2) by (simp add: spans_def)
  show ?thesis
  proof (cases "n < of_nat (length f)")
    case True
    then show ?thesis
      using short rs unfolding CopyOutTransfer_def started by (simp add: id fin Let_def req)
  next
    case False
    then have fits: "length f \<le> unat n"
      using lenf by (simp add: word_less_nat_alt)
    note cs = copy_spans [OF inv' d fits, folded spans_def]
    have "CopyOutTransfer m (Some r) sequence lease d n zeroed =
        Some (RingOk, if zeroed \<noteq> None then Some (of_nat (length f)) else zeroed, mem_write m d f,
              Some (copied_ring r True))"
      unfolding CopyOutTransfer_def started using False cs req
      by (cases "spans_second_size spans = 0") (simp_all add: id fin Let_def)
    with copied q(1) rs fits show ?thesis
      by blast
  qed
qed

lemma CopyOut_preflight:
  assumes "RingIsReady (Some r)"
  obtains (refused) st copied where
      "MessageRingCopyOut m (Some r) sequence lease d n out = Some (st, copied, m, Some r)" and "st \<noteq> RingOk"
  | (go) "MessageRingCopyOut m (Some r) sequence lease d n out =
        CopyOutTransfer m (Some r) sequence lease d n (if is_null_out out then None else Some 0)"
      and "sequence \<noteq> 0" and "lease \<noteq> 0" and "PointerRangeIsValid d n"
      and "\<not> PointerRangesOverlap d n (storage r) (capacity_bytes r)"
proof -
  let ?zeroed = "if is_null_out out then None else Some (0 :: u32)"
  have "(\<exists>st copied. MessageRingCopyOut m (Some r) sequence lease d n out = Some (st, copied, m, Some r) \<and> st \<noteq> RingOk) \<or>
      MessageRingCopyOut m (Some r) sequence lease d n out = CopyOutTransfer m (Some r) sequence lease d n ?zeroed \<and>
      sequence \<noteq> 0 \<and> lease \<noteq> 0 \<and> PointerRangeIsValid d n \<and>
      \<not> PointerRangesOverlap d n (storage r) (capacity_bytes r)"
    using assms unfolding MessageRingCopyOut_def Let_def by simp
  with refused go show ?thesis
    by blast
qed

lemma copied_ring_fields [simp]:
  "receive_sequence (copied_ring r ok) = receive_sequence r" "receive_lease_id (copied_ring r ok) = receive_lease_id r"
  "receive_copy_succeeded_id (copied_ring r ok) = (if ok then next_copy_id r else 0)"
  "in_storage (copied_ring r ok) a = in_storage r a"
  by (simp_all add: copied_ring_def copying_ring_def in_storage_def)

lemma mem_write_destination_apart:
  assumes "PointerRangeIsValid d n" and "storage_ok r" and "\<not> PointerRangesOverlap d n (storage r) (capacity_bytes r)"
    and "length f \<le> unat n" and a: "in_storage r a"
  shows "mem_write m d f a = m a"
proof (rule mem_write_outside)
  have d: "d \<noteq> 0" "storage r \<noteq> 0" "unat d + unat n \<le> 18446744073709551616"
    using assms(1,2) by (simp_all add: PointerRangeIsValid_unat storage_ok_def)
  then show "unat d + length f \<le> 18446744073709551616"
    using assms(4) by simp
  show "\<not> in_range a d (length f)"
    using PointerRangesOverlap_iff [OF d(1,2)] assms(3,4) a by (fastforce simp: in_storage_def in_range_def)
qed

text \<open>
  C25. On a well-formed ring the copy-out of a leased frame always returns and never changes the
  queue. When it succeeds, the queue's head is the requested sequence number, the destination
  holds exactly the bytes of that frame, no other byte of memory has changed, the byte count
  reported is the frame's length, and the lease is marked as copied. When it fails, for any of
  its reasons, no byte of memory has changed and the ring holds the same lease.
\<close>

theorem message_ring_copy_out_correct:
  assumes inv: "ring_inv m r q"
  shows "\<exists>st copied m' r'. MessageRingCopyOut m (Some r) sequence lease d n out = Some (st, copied, m', Some r') \<and>
    ring_inv m' r' q \<and> receive_sequence r' = receive_sequence r \<and> receive_lease_id r' = receive_lease_id r \<and>
    (if st = RingOk
     then \<exists>f q'. q = (sequence, f) # q' \<and> lease = receive_lease_id r \<and> m' = mem_write m d f \<and>
            mem_read m' d (length f) = f \<and> copied = (if is_null_out out then None else Some (of_nat (length f))) \<and>
            receive_copy_succeeded_id r' \<noteq> 0
     else m' = m)"
proof (rule CopyOut_preflight [OF ring_invD(4) [OF inv], of m sequence lease d n out])
  fix st copied assume "MessageRingCopyOut m (Some r) sequence lease d n out = Some (st, copied, m, Some r)" "st \<noteq> RingOk"
  then show ?thesis
    using inv by auto
next
  let ?zeroed = "if is_null_out out then None else Some (0 :: u32)"
  assume go: "MessageRingCopyOut m (Some r) sequence lease d n out = CopyOutTransfer m (Some r) sequence lease d n ?zeroed"
    and z: "sequence \<noteq> 0" "lease \<noteq> 0" and d: "PointerRangeIsValid d n"
      "\<not> PointerRangesOverlap d n (storage r) (capacity_bytes r)"
  show ?thesis
  proof (rule CopyOutTransfer_cases [OF inv z d, of ?zeroed])
    fix st assume "CopyOutTransfer m (Some r) sequence lease d n ?zeroed = Some (st, ?zeroed, m, Some r)" "st \<noteq> RingOk"
    then show ?thesis
      using inv unfolding go by auto
  next
    assume "CopyOutTransfer m (Some r) sequence lease d n ?zeroed =
        Some (RingBufferTooSmall, ?zeroed, m, Some (copied_ring r False))"
      and "receive_sequence r = sequence" and "receive_lease_id r = lease"
    then show ?thesis
      using EndCopyOut_copying(2) [OF inv _ _ z] unfolding go by auto
  next
    fix f q' assume q: "q = (sequence, f) # q'" "receive_sequence r = sequence" "receive_lease_id r = lease"
      and fits: "length f \<le> unat n"
      and ok: "CopyOutTransfer m (Some r) sequence lease d n ?zeroed =
        Some (RingOk, if ?zeroed \<noteq> None then Some (of_nat (length f)) else ?zeroed, mem_write m d f,
              Some (copied_ring r True))"
    have "ring_inv (mem_write m d f) (copied_ring r True) q"
      using mem_write_destination_apart [OF d(1) ring_invD(1) [OF inv] d(2) fits]
      by (intro ring_inv_mem [OF EndCopyOut_copying(2) [OF inv q(2,3) z]]) simp
    moreover have "mem_read (mem_write m d f) d (length f) = f"
      using fits u32_lt [of n] by (intro mem_read_write_same) simp
    moreover have "next_copy_id r \<noteq> 0"
      using ring_invD(6) [OF inv] by (simp add: receiver_valid_def)
    ultimately show ?thesis
      using ok q unfolding go by auto
  qed
qed

section \<open>Initialization\<close>

definition initial_ring :: "MessageRing \<Rightarrow> u64 \<Rightarrow> u32 \<Rightarrow> u64 \<Rightarrow> MessageRing" where
  "initial_ring r p n first =
    \<lparr>ring_self = ring_self r, storage = p, capacity_bytes = n, head_offset = 0, tail_offset = 0,
     used_bytes = 0, queued_frames = 0, initialized = kRingStateReady, next_sequence = first,
     sequence_exhausted = 0, next_reservation_id = 1, reservation_exhausted = 0,
     producer_reservation_id = 0, producer_tail_offset = 0, producer_record_bytes = 0,
     producer_frame_size = 0, producer_copy_active = 0, producer_abort_requested = 0,
     next_receive_lease_id = 1, receive_lease_exhausted = 0, receive_sequence = 0,
     receive_lease_id = 0, receive_frame_size = 0, next_copy_id = 1, copy_id_exhausted = 0,
     receive_copy_id = 0, receive_copy_succeeded_id = 0\<rparr>"

definition initial_args_ok :: "MessageRing \<Rightarrow> u64 \<Rightarrow> u32 \<Rightarrow> u64 \<Rightarrow> bool" where
  "initial_args_ok r p n first \<longleftrightarrow> first \<noteq> 0 \<and> 48 \<le> n \<and> PointerRangeIsValid p n \<and>
     \<not> PointerRangesOverlap (ring_self r) sizeof_MessageRing p n"

lemma MessageRingInitialize_eq:
  "MessageRingInitialize (Some r) p n first =
    (if \<not> initial_args_ok r p n first then (RingInvalidArgument, Some r)
     else if initialized r \<noteq> 0 then (RingAlreadyInitialized, Some r)
     else (RingOk, Some (initial_ring r p n first)))"
proof -
  have min: "n < kMessageRingMinimumStorageBytes \<longleftrightarrow> \<not> 48 \<le> n"
    by (simp add: kdefs not_le)
  show ?thesis
    unfolding MessageRingInitialize_def on_ptr_Some min initial_args_ok_def
    by (simp add: kRingStateUninitialized_def Let_def initial_ring_def ClearProducer_def ClearReceiver_def)
qed

lemma initial_ring_inv:
  assumes "initial_args_ok r p n first"
  shows "ring_inv m (initial_ring r p n first) []"
proof -
  have n: "48 \<le> unat n" "p \<noteq> 0"
    using assms by (simp_all add: initial_args_ok_def word_le_nat_alt PointerRangeIsValid_unat)
  then have "n \<noteq> 0"
    by auto
  with n assms show ?thesis
    by (simp add: ring_inv_def StateIsValid_iff storage_ok_def layout_valid_def receiver_valid_def
        producer_valid_def ring_holds_def lease_ok_def initial_ring_def initial_args_ok_def)
qed

text \<open>
  C26. Initialization is one-shot. It succeeds exactly when the arguments pass the preflight and
  the object is still uninitialized; it then yields an empty well-formed ring over the given
  storage and first sequence number, whatever the storage contains, and every later attempt to
  initialize that object is refused and leaves it as it is. A failed attempt changes nothing.
\<close>

theorem message_ring_initialize_once:
  "\<exists>st r'. MessageRingInitialize (Some r) p n first = (st, Some r') \<and>
    (st = RingOk \<longleftrightarrow> initial_args_ok r p n first \<and> initialized r = 0) \<and>
    (if st = RingOk
     then (\<forall>m. ring_inv m r' []) \<and> storage r' = p \<and> capacity_bytes r' = n \<and> next_sequence r' = first \<and>
          (\<forall>p' n' first'. snd (MessageRingInitialize (Some r') p' n' first') = Some r' \<and>
             fst (MessageRingInitialize (Some r') p' n' first') \<in> {RingInvalidArgument, RingAlreadyInitialized})
     else r' = r)"
proof -
  have ready: "initialized (initial_ring r p n first) \<noteq> 0"
    by (simp add: initial_ring_def kRingStateReady_def)
  have fields: "storage (initial_ring r p n first) = p" "capacity_bytes (initial_ring r p n first) = n"
      "next_sequence (initial_ring r p n first) = first"
    by (simp_all add: initial_ring_def)
  show ?thesis
    using ready fields initial_ring_inv [of r p n first] by (auto simp: MessageRingInitialize_eq)
qed

section \<open>A concrete ring\<close>

definition blank_ring :: MessageRing where
  "blank_ring =
    \<lparr>ring_self = 32768, storage = 0, capacity_bytes = 0, head_offset = 0, tail_offset = 0,
     used_bytes = 0, queued_frames = 0, initialized = 0, next_sequence = 0,
     sequence_exhausted = 0, next_reservation_id = 0, reservation_exhausted = 0,
     producer_reservation_id = 0, producer_tail_offset = 0, producer_record_bytes = 0,
     producer_frame_size = 0, producer_copy_active = 0, producer_abort_requested = 0,
     next_receive_lease_id = 0, receive_lease_exhausted = 0, receive_sequence = 0,
     receive_lease_id = 0, receive_frame_size = 0, next_copy_id = 0, copy_id_exhausted = 0,
     receive_copy_id = 0, receive_copy_succeeded_id = 0\<rparr>"

definition sample_ring :: MessageRing where
  "sample_ring = initial_ring blank_ring 65536 256 1"

definition sample_header :: MessageHeaderV1 where
  "sample_header = \<lparr>hdr_kind = 1, hdr_flags = 0, hdr_service_id = 7, hdr_method_id = 9, hdr_request_id = 5\<rparr>"

definition sample_frame :: "u8 list" where
  "sample_frame = header_bytes 32 sample_header"

definition sample_frame_mem :: mem where
  "sample_frame_mem = mem_write (\<lambda>_. 0) 4096 sample_frame"

lemma sample_ring_inv: "ring_inv m sample_ring []"
  unfolding sample_ring_def
  by (rule initial_ring_inv)
     (simp add: initial_args_ok_def blank_ring_def PointerRangeIsValid_def PointerRangesOverlap_def kdefs)

lemma sample_frame_read: "mem_read sample_frame_mem 4096 32 = sample_frame"
  using mem_read_write_same [of sample_frame "\<lambda>_. 0" 4096]
  by (simp add: sample_frame_mem_def sample_frame_def)

lemma sample_preflight: "PreparePreflight sample_frame_mem (Some sample_ring) 4096 32 0 0 = None"
proof -
  have wf: "message_wf sample_frame"
    using message_wf_header_bytes [of 32 "[]" sample_header]
    by (simp add: sample_frame_def sample_header_def message_semantics_ok_def kdefs)
  have ok: "fst (MessageValidate sample_frame_mem 4096 32 OutLocal) = MsgOk"
    unfolding MessageValidate_Ok_iff using wf sample_frame_read by simp
  then have "snd (MessageValidate sample_frame_mem 4096 32 OutLocal) = Some (message_view sample_frame)"
    using sample_frame_read by (simp add: MessageValidate_stored)
  moreover have "view_payload_size (message_view sample_frame) = 0"
    using message_view_header_bytes [of 32 "[]" sample_header] by (simp add: sample_frame_def)
  moreover from ok calculation(1) have
    "MessageValidate sample_frame_mem 4096 32 OutLocal = (MsgOk, Some (message_view sample_frame))"
    by (simp add: prod_eq_iff)
  ultimately show ?thesis
    by (simp add: PreparePreflight_def sample_ring_def initial_ring_def blank_ring_def RingIsReady_def kdefs
        PointerRangeIsValid_def PointerRangesOverlap_def Let_def)
qed

theorem message_ring_enqueue_correct_witness:
  "\<exists>res m' r'. MessageRingEnqueue sample_frame_mem (Some sample_ring) 4096 32 0 0 = Some (res, m', Some r') \<and>
     enq_status res = RingOk \<and> enq_sequence res = 1 \<and> ring_inv m' r' [(1, sample_frame)]"
proof -
  have "accepts sample_ring 32"
    by (simp add: accepts_def sample_ring_def initial_ring_def)
  moreover have "next_sequence sample_ring = 1"
    by (simp add: sample_ring_def initial_ring_def)
  ultimately show ?thesis
    using message_ring_enqueue_correct [OF sample_ring_inv, of sample_frame_mem 4096 32 0 0]
      sample_preflight sample_frame_read by auto
qed

text \<open>The same ring with one frame queued and leased to a receiver.\<close>

definition leased_ring :: MessageRing where
  "leased_ring = sample_ring\<lparr>tail_offset := 48, used_bytes := 48, queued_frames := 1, next_sequence := 2,
     next_receive_lease_id := 2, receive_sequence := 1, receive_lease_id := 1, receive_frame_size := 32\<rparr>"

definition leased_mem :: mem where
  "leased_mem = mem_write (\<lambda>_. 0) 65536 (record_bytes (1, sample_frame))"

lemma leased_ring_inv: "ring_inv leased_mem leased_ring [(1, sample_frame)]"
proof -
  have len: "length sample_frame = 32"
    by (simp add: sample_frame_def)
  have cap: "capacity_bytes leased_ring = 256" "storage leased_ring = 65536"
    by (simp_all add: leased_ring_def sample_ring_def initial_ring_def)
  have "circ_read leased_ring leased_mem 0 48 = mem_read leased_mem 65536 48"
    using circ_read_spans [of 0 leased_ring 48 leased_mem] by (simp add: cap mem_read_def)
  also have "\<dots> = record_bytes (1, sample_frame)"
    using mem_read_write_same [of "record_bytes (1, sample_frame)" "\<lambda>_. 0" 65536] len
    by (simp add: leased_mem_def)
  finally have "ring_holds leased_mem leased_ring [(1, sample_frame)]"
    using len by (simp add: ring_holds_def leased_ring_def sample_ring_def initial_ring_def entry_ok_def)
  then show ?thesis
    using len sample_ring_inv [of leased_mem]
    by (simp add: ring_inv_def StateIsValid_iff storage_ok_def layout_valid_def receiver_valid_def
        producer_valid_def lease_ok_def leased_ring_def sample_ring_def initial_ring_def)
qed

lemma leased_copy_out_status:
  "fst (the (MessageRingCopyOut leased_mem (Some leased_ring) 1 1 16384 64 OutNull)) = RingOk"
proof -
  have d: "PointerRangeIsValid 16384 64" "\<not> PointerRangesOverlap 16384 64 (storage leased_ring) (capacity_bytes leased_ring)"
    by (simp_all add: PointerRangeIsValid_def PointerRangesOverlap_def leased_ring_def sample_ring_def
        initial_ring_def kdefs)
  have go: "MessageRingCopyOut leased_mem (Some leased_ring) 1 1 16384 64 OutNull =
      CopyOutTransfer leased_mem (Some leased_ring) 1 1 16384 64 None"
    using d by (simp add: MessageRingCopyOut_def Let_def RingIsReady_def leased_ring_def sample_ring_def
        initial_ring_def blank_ring_def PointerRangesOverlap_def kdefs)
  have lease: "receive_sequence leased_ring = 1" "receive_lease_id leased_ring = 1"
      "receive_copy_id leased_ring = 0" "copy_id_exhausted leased_ring = 0" "unat (receive_frame_size leased_ring) = 32"
    by (simp_all add: leased_ring_def sample_ring_def initial_ring_def)
  have spans: "spans_first_size (head_spans leased_ring 32) = 32" "spans_second_size (head_spans leased_ring 32) = 0"
      "spans_copy_id (head_spans leased_ring 32) = next_copy_id leased_ring"
    by (simp_all add: head_spans_def Let_def leased_ring_def sample_ring_def initial_ring_def)
  have started: "MessageRingBeginCopyOut leased_mem (Some leased_ring) 1 1 OutLocal =
      Some (RingOk, Some (head_spans leased_ring 32), Some (copying_ring leased_ring))"
    using BeginCopyOut_local [OF leased_ring_inv, of 1 1] lease by simp
  show ?thesis
    using EndCopyOut_copying(1) [OF leased_ring_inv lease(1,2), of True]
    unfolding go CopyOutTransfer_def started by (simp add: spans Let_def)
qed

theorem message_ring_copy_out_correct_witness:
  "\<exists>m' r'. MessageRingCopyOut leased_mem (Some leased_ring) 1 1 16384 64 OutNull = Some (RingOk, None, m', Some r') \<and>
     mem_read m' 16384 32 = sample_frame \<and> ring_inv m' r' [(1, sample_frame)]"
  using message_ring_copy_out_correct [OF leased_ring_inv, of 1 1 16384 64 OutNull] leased_copy_out_status
  by (auto simp: sample_frame_def)

end
