(* ===== verification/MessageRingSystem.thy ===== *)
theory MessageRingSystem
  imports MessageRingOps
begin

text \<open>
  The message ring under concurrency. A system state holds the memory, the ring object and the
  producer threads that are between their reservation and the end of their copy; a step is one
  locked section of one call with arbitrary arguments, one byte store of an unlocked copy, or a
  change of memory outside the storage and the frames in flight. Auxiliary fields record which
  frame was prepared under which reservation, what was published, what was retired, and what each
  receive lease was granted on.
\<close>

section \<open>Outcomes of the calls\<close>

lemma PublishEnqueue_cases:
  assumes inv: "ring_inv m r q"
    and pub: "MessageRingPublishEnqueue m (Some r) rid out = Some (st, s, m', ring')"
  obtains (published) r' where "st = RingOk" and "ring' = Some r'" and "rid \<noteq> 0" and "producer_reservation_id r = rid"
      and "producer_copy_active r = 0" and "sequence_exhausted r = 0"
      and "m' = published_mem m r" and "r' = published_ring r"
  | (cleared) "st \<noteq> RingOk" and "st \<noteq> RingCorruptState" and "producer_copy_active r = 0" and "m' = m"
      and "ring' = Some (ClearProducer r)"
  | (refused) "st \<noteq> RingOk" and "st \<noteq> RingCorruptState" and "m' = m" and "ring' = Some r"
proof (cases "rid = 0")
  case True
  then have "st \<noteq> RingOk \<and> st \<noteq> RingCorruptState \<and> m' = m \<and> ring' = Some r"
    using pub by (auto simp: MessageRingPublishEnqueue_def Let_def split: if_split_asm)
  with refused show ?thesis by blast
next
  case False
  have "st \<noteq> RingOk \<and> st \<noteq> RingCorruptState \<and> m' = m \<and> ring' = Some r \<or>
      st \<noteq> RingOk \<and> st \<noteq> RingCorruptState \<and> m' = m \<and> ring' = Some (ClearProducer r) \<and> producer_copy_active r = 0 \<or>
      st = RingOk \<and> producer_reservation_id r = rid \<and> producer_copy_active r = 0 \<and> sequence_exhausted r = 0 \<and>
      m' = published_mem m r \<and> ring' = Some (published_ring r)"
    using pub False ring_invD(4) [OF inv]
    by (auto simp: MessageRingPublishEnqueue_def Let_def PublishLocked_eq [OF inv False] split: if_split_asm)
  with False published cleared refused show ?thesis by blast
qed

lemma AbortEnqueue_cases:
  assumes inv: "ring_inv m r q" and abort: "MessageRingAbortEnqueue (Some r) rid = (st, ring')"
  obtains (cleared) "st = RingOk" and "producer_copy_active r = 0" and "ring' = Some (ClearProducer r)"
  | (requested) "st = RingOk" and "rid \<noteq> 0" and "producer_reservation_id r = rid" and "producer_copy_active r \<noteq> 0"
      and "ring' = Some (r\<lparr>producer_abort_requested := 1\<rparr>)"
  | (refused) "st \<noteq> RingOk" and "st \<noteq> RingCorruptState" and "ring' = Some r"
proof -
  have "st \<noteq> RingOk \<and> st \<noteq> RingCorruptState \<and> ring' = Some r \<or>
      st = RingOk \<and> producer_copy_active r = 0 \<and> ring' = Some (ClearProducer r) \<or>
      st = RingOk \<and> rid \<noteq> 0 \<and> producer_reservation_id r = rid \<and> producer_copy_active r \<noteq> 0 \<and>
      ring' = Some (r\<lparr>producer_abort_requested := 1\<rparr>)"
    using abort ring_invD(2,4) [OF inv] by (auto simp: MessageRingAbortEnqueue_def split: if_split_asm)
  with cleared requested refused show ?thesis by blast
qed

lemma Peek_cases:
  assumes inv: "ring_inv m r q" and peek: "MessageRingPeek m (Some r) out = Some (st, view, ring')"
  obtains (leased) e q' where "st = RingOk" and "q = e # q'" and "ring' = Some (peeked_ring r e)"
      and "receive_sequence r = 0" and "receive_lease_exhausted r = 0"
      and "view = Some \<lparr>peek_sequence = fst e, peek_receive_lease_id = next_receive_lease_id r,
             peek_frame_size = of_nat (length (snd e))\<rparr>"
  | (refused) "st \<noteq> RingOk" and "st \<noteq> RingCorruptState" and "ring' = Some r"
proof -
  have "st \<noteq> RingOk \<and> st \<noteq> RingCorruptState \<and> ring' = Some r \<or>
      (\<exists>e q'. st = RingOk \<and> q = e # q' \<and> ring' = Some (peeked_ring r e) \<and> receive_sequence r = 0 \<and>
        receive_lease_exhausted r = 0 \<and>
        view = Some \<lparr>peek_sequence = fst e, peek_receive_lease_id = next_receive_lease_id r,
             peek_frame_size = of_nat (length (snd e))\<rparr>)"
    using peek ring_invD(4) [OF inv]
    by (auto simp: MessageRingPeek_def PeekLocked_eq [OF inv] split: if_split_asm list.split_asm)
  with leased refused show ?thesis by blast
qed

lemma BeginCopyOut_cases:
  assumes inv: "ring_inv m r q"
    and started: "MessageRingBeginCopyOut m (Some r) sequence lease out = Some (st, spans, ring')"
  obtains (begun) "st = RingOk" and "sequence \<noteq> 0" and "lease \<noteq> 0" and "receive_sequence r = sequence"
      and "receive_lease_id r = lease" and "ring' = Some (copying_ring r)"
      and "spans = Some (head_spans r (unat (receive_frame_size r)))"
  | (refused) "st \<noteq> RingOk" and "st \<noteq> RingCorruptState" and "ring' = Some r"
proof (cases "sequence = 0")
  case True
  then have "st \<noteq> RingOk \<and> st \<noteq> RingCorruptState \<and> ring' = Some r"
    using started by (auto simp: MessageRingBeginCopyOut_def split: if_split_asm)
  with refused show ?thesis by blast
next
  case False
  have "st \<noteq> RingOk \<and> st \<noteq> RingCorruptState \<and> ring' = Some r \<or>
      st = RingOk \<and> lease \<noteq> 0 \<and> receive_sequence r = sequence \<and> receive_lease_id r = lease \<and>
      ring' = Some (copying_ring r) \<and> spans = Some (head_spans r (unat (receive_frame_size r)))"
    using started ring_invD(4) [OF inv]
    by (auto simp: MessageRingBeginCopyOut_def BeginCopyOutLocked_eq [OF inv False] split: if_split_asm)
  with False begun refused show ?thesis by blast
qed

lemma EndCopyOut_cases:
  assumes inv: "ring_inv m r q"
    and ended: "MessageRingEndCopyOut (Some r) sequence lease copy_id ok = (st, ring')"
  obtains (finished) "st = RingOk" and "receive_sequence r = sequence" and "sequence \<noteq> 0"
      and "ring' = Some (r\<lparr>receive_copy_id := 0, receive_copy_succeeded_id := (if ok then copy_id else 0)\<rparr>)"
  | (refused) "st \<noteq> RingOk" and "st \<noteq> RingCorruptState" and "ring' = Some r"
proof -
  have "st \<noteq> RingOk \<and> st \<noteq> RingCorruptState \<and> ring' = Some r \<or>
      st = RingOk \<and> receive_sequence r = sequence \<and> sequence \<noteq> 0 \<and>
      ring' = Some (r\<lparr>receive_copy_id := 0, receive_copy_succeeded_id := (if ok then copy_id else 0)\<rparr>)"
    using ended ring_invD(2,4) [OF inv] by (auto simp: MessageRingEndCopyOut_def split: if_split_asm)
  with that show ?thesis by blast
qed

lemma Commit_cases:
  assumes inv: "ring_inv m r q" and commit: "MessageRingCommit m (Some r) sequence lease = Some (st, ring')"
  obtains (committed) "st = RingOk" and "sequence \<noteq> 0" and "receive_sequence r = sequence"
      and "receive_lease_id r = lease" and "receive_copy_succeeded_id r \<noteq> 0" and "ring' = Some (committed_ring r)"
  | (refused) "st \<noteq> RingOk" and "st \<noteq> RingCorruptState" and "ring' = Some r"
proof (cases "sequence = 0")
  case True
  then have "st \<noteq> RingOk \<and> st \<noteq> RingCorruptState \<and> ring' = Some r"
    using commit by (auto simp: MessageRingCommit_def)
  with refused show ?thesis by blast
next
  case False
  have "st \<noteq> RingOk \<and> st \<noteq> RingCorruptState \<and> ring' = Some r \<or>
      st = RingOk \<and> receive_sequence r = sequence \<and> receive_lease_id r = lease \<and>
      receive_copy_succeeded_id r \<noteq> 0 \<and> ring' = Some (committed_ring r)"
    using commit ring_invD(4) [OF inv]
    by (auto simp: MessageRingCommit_def CommitLocked_eq [OF inv False] split: if_split_asm)
  with False committed refused show ?thesis by blast
qed

lemma CancelReceive_cases:
  assumes inv: "ring_inv m r q" and cancel: "MessageRingCancelReceive (Some r) sequence lease = (st, ring')"
  obtains (cancelled) "st = RingOk" and "ring' = Some (ClearReceiver r)"
  | (refused) "st \<noteq> RingOk" and "st \<noteq> RingCorruptState" and "ring' = Some r"
proof -
  have "st \<noteq> RingOk \<and> st \<noteq> RingCorruptState \<and> ring' = Some r \<or> st = RingOk \<and> ring' = Some (ClearReceiver r)"
    using cancel ring_invD(2,4) [OF inv] by (auto simp: MessageRingCancelReceive_def split: if_split_asm)
  with that show ?thesis by blast
qed

section \<open>System states and steps\<close>

record copier =
  cp_reservation :: u64
  cp_frame :: u64
  cp_bytes :: u32
  cp_offset :: u32
  cp_done :: nat

record ring_system =
  sys_mem :: mem
  sys_ring :: MessageRing
  sys_copiers :: "copier list"
  sys_prepared :: "u64 \<Rightarrow> u8 list"
  sys_published :: "entry list"
  sys_retired :: "entry list"
  sys_leases :: "u64 \<Rightarrow> entry option"

definition head_bytes :: "mem \<Rightarrow> MessageRing \<Rightarrow> u8 list" where
  "head_bytes m r = spans_bytes m (head_spans r (unat (receive_frame_size r)))"

inductive ring_step :: "ring_system \<Rightarrow> ring_system \<Rightarrow> bool" where
  reserve: "PreparePreflight (sys_mem s) (Some (sys_ring s)) frame n rules count = None \<Longrightarrow>
    PrepareReserve (sys_ring s) n = ((RingOk, rid, off), r') \<Longrightarrow>
    ring_step s (s\<lparr>sys_ring := r',
      sys_copiers := sys_copiers s @ [\<lparr>cp_reservation = rid, cp_frame = frame, cp_bytes = n, cp_offset = off, cp_done = 0\<rparr>],
      sys_prepared := (sys_prepared s)(rid := mem_read (sys_mem s) frame (unat n))\<rparr>)"
| reserve_refused: "PrepareReserve (sys_ring s) n = ((st, rid, off), r') \<Longrightarrow> st \<noteq> RingOk \<Longrightarrow>
    ring_step s (s\<lparr>sys_ring := r'\<rparr>)"
| copy_byte: "i < length (sys_copiers s) \<Longrightarrow> c = sys_copiers s ! i \<Longrightarrow> cp_done c < unat (cp_bytes c) \<Longrightarrow>
    ring_step s (s\<lparr>sys_mem := copy_store (sys_ring s) (unat (cp_offset c)) (FromMem (cp_frame c)) (cp_done c) (sys_mem s),
      sys_copiers := (sys_copiers s)[i := c\<lparr>cp_done := cp_done c + 1\<rparr>]\<rparr>)"
| finish: "i < length (sys_copiers s) \<Longrightarrow> c = sys_copiers s ! i \<Longrightarrow> cp_done c = unat (cp_bytes c) \<Longrightarrow>
    PrepareFinish (sys_ring s) (cp_reservation c) = (st, r') \<Longrightarrow>
    ring_step s (s\<lparr>sys_ring := r', sys_copiers := take i (sys_copiers s) @ drop (Suc i) (sys_copiers s)\<rparr>)"
| publish: "MessageRingPublishEnqueue (sys_mem s) (Some (sys_ring s)) rid out = Some (st, sequence, m', Some r') \<Longrightarrow>
    ring_step s (s\<lparr>sys_mem := m', sys_ring := r',
      sys_published := sys_published s @
        (if st = RingOk then [(next_sequence (sys_ring s), sys_prepared s rid)] else [])\<rparr>)"
| abort: "MessageRingAbortEnqueue (Some (sys_ring s)) rid = (st, Some r') \<Longrightarrow> ring_step s (s\<lparr>sys_ring := r'\<rparr>)"
| peek: "MessageRingPeek (sys_mem s) (Some (sys_ring s)) out = Some (st, view, Some r') \<Longrightarrow>
    ring_step s (s\<lparr>sys_ring := r',
      sys_leases := (if st = RingOk
        then (sys_leases s)(receive_lease_id r' \<mapsto> (receive_sequence r', head_bytes (sys_mem s) r'))
        else sys_leases s)\<rparr>)"
| begin_copy: "MessageRingBeginCopyOut (sys_mem s) (Some (sys_ring s)) sequence lease out = Some (st, spans, Some r') \<Longrightarrow>
    ring_step s (s\<lparr>sys_ring := r'\<rparr>)"
| end_copy: "MessageRingEndCopyOut (Some (sys_ring s)) sequence lease copy_id ok = (st, Some r') \<Longrightarrow>
    ring_step s (s\<lparr>sys_ring := r'\<rparr>)"
| commit: "MessageRingCommit (sys_mem s) (Some (sys_ring s)) sequence lease = Some (st, Some r') \<Longrightarrow>
    ring_step s (s\<lparr>sys_ring := r',
      sys_retired := sys_retired s @
        (if st = RingOk then [(sequence, head_bytes (sys_mem s) (sys_ring s))] else [])\<rparr>)"
| cancel: "MessageRingCancelReceive (Some (sys_ring s)) sequence lease = (st, Some r') \<Longrightarrow>
    ring_step s (s\<lparr>sys_ring := r'\<rparr>)"
| environment: "(\<And>a. in_storage (sys_ring s) a \<Longrightarrow> m' a = sys_mem s a) \<Longrightarrow>
    (\<And>c. c \<in> set (sys_copiers s) \<Longrightarrow>
       mem_read m' (cp_frame c) (unat (cp_bytes c)) = mem_read (sys_mem s) (cp_frame c) (unat (cp_bytes c))) \<Longrightarrow>
    ring_step s (s\<lparr>sys_mem := m'\<rparr>)"

definition ring_system_init :: "u64 \<Rightarrow> ring_system \<Rightarrow> bool" where
  "ring_system_init first s \<longleftrightarrow>
     (\<exists>r p n. MessageRingInitialize (Some r) p n first = (RingOk, Some (sys_ring s))) \<and>
     sys_copiers s = [] \<and> sys_published s = [] \<and> sys_retired s = [] \<and> sys_leases s = Map.empty"

section \<open>Invariants\<close>

text \<open>The producer: at most one copy is in progress, and it fills the reserved range.\<close>

definition copier_ok :: "mem \<Rightarrow> MessageRing \<Rightarrow> u8 list \<Rightarrow> copier \<Rightarrow> bool" where
  "copier_ok m r f c \<longleftrightarrow> cp_reservation c = producer_reservation_id r \<and> cp_bytes c = producer_frame_size r \<and>
     cp_offset c = AdvanceOffset (tail_offset r) 16 (capacity_bytes r) \<and> cp_done c \<le> unat (cp_bytes c) \<and>
     source_apart r (FromMem (cp_frame c)) (unat (cp_bytes c)) \<and> mem_read m (cp_frame c) (unat (cp_bytes c)) = f \<and>
     circ_read r m (unat (tail_offset r) + 16) (cp_done c) = take (cp_done c) f"

definition producer_inv :: "mem \<Rightarrow> MessageRing \<Rightarrow> (u64 \<Rightarrow> u8 list) \<Rightarrow> copier list \<Rightarrow> bool" where
  "producer_inv m r prepared cs \<longleftrightarrow>
     (if producer_copy_active r = 0
      then cs = [] \<and> (producer_reservation_id r \<noteq> 0 \<longrightarrow> reserved_frame m r = prepared (producer_reservation_id r))
      else \<exists>c. cs = [c] \<and> copier_ok m r (prepared (producer_reservation_id r)) c)"

text \<open>Sequence numbers count up from the first one without a gap, and run out at the maximum.\<close>

definition sequence_inv :: "u64 \<Rightarrow> MessageRing \<Rightarrow> entry list \<Rightarrow> bool" where
  "sequence_inv first r published \<longleftrightarrow>
     (\<forall>i < length published. unat (fst (published ! i)) = unat first + i) \<and>
     unat first + length published = (if sequence_exhausted r = 0 then unat (next_sequence r) else 2 ^ 64)"

text \<open>
  Leases are granted on the head of the queue and their ids are never reused.
\<close>

definition lease_inv :: "MessageRing \<Rightarrow> entry list \<Rightarrow> (u64 \<Rightarrow> entry option) \<Rightarrow> bool" where
  "lease_inv r q leases \<longleftrightarrow>
     (receive_sequence r \<noteq> 0 \<longrightarrow> q \<noteq> [] \<and> leases (receive_lease_id r) = Some (hd q)) \<and>
     (\<forall>l e. leases l = Some e \<longrightarrow> l \<noteq> 0 \<and> (receive_lease_exhausted r = 0 \<longrightarrow> l < next_receive_lease_id r))"

definition system_inv :: "u64 \<Rightarrow> ring_system \<Rightarrow> bool" where
  "system_inv first s \<longleftrightarrow> (\<exists>q. ring_inv (sys_mem s) (sys_ring s) q \<and> sys_published s = sys_retired s @ q \<and>
     producer_inv (sys_mem s) (sys_ring s) (sys_prepared s) (sys_copiers s) \<and>
     sequence_inv first (sys_ring s) (sys_published s) \<and> lease_inv (sys_ring s) q (sys_leases s))"

lemma system_inv_init:
  assumes "ring_system_init first s"
  shows "system_inv first s"
proof -
  obtain r p n where args: "initial_args_ok r p n first" and ring: "sys_ring s = initial_ring r p n first"
    using assms by (auto simp: ring_system_init_def MessageRingInitialize_eq split: if_split_asm)
  have "producer_inv (sys_mem s) (sys_ring s) (sys_prepared s) (sys_copiers s)"
      "sequence_inv first (sys_ring s) (sys_published s)" "lease_inv (sys_ring s) [] (sys_leases s)"
    using assms
    by (simp_all add: ring ring_system_init_def producer_inv_def sequence_inv_def lease_inv_def initial_ring_def)
  moreover have "sys_published s = sys_retired s @ []"
    using assms by (simp add: ring_system_init_def)
  ultimately show ?thesis
    using initial_ring_inv [OF args] unfolding system_inv_def ring by blast
qed

section \<open>Steps keep the invariants\<close>

definition same_place :: "MessageRing \<Rightarrow> MessageRing \<Rightarrow> bool" where
  "same_place r r' \<longleftrightarrow> storage r' = storage r \<and> capacity_bytes r' = capacity_bytes r \<and> tail_offset r' = tail_offset r"

lemma in_storage_cong: "same_place r r' \<Longrightarrow> in_storage r' a = in_storage r a"
  by (simp add: same_place_def in_storage_def)

lemma producer_inv_cong:
  assumes "same_producer r r'" and "same_place r r'"
  shows "producer_inv m r' prepared cs = producer_inv m r prepared cs"
proof -
  have "circ_read r' m p n = circ_read r m p n" for p n
    using assms(2) by (intro circ_read_ring_cong) (simp_all add: same_place_def)
  moreover have "copier_ok m r' f c = copier_ok m r f c" for f c
    using assms calculation in_storage_cong [OF assms(2)]
    by (simp add: copier_ok_def same_producer_def same_place_def)
  ultimately show ?thesis
    using assms by (simp add: producer_inv_def reserved_frame_def same_producer_def same_place_def)
qed

lemma producer_inv_idle:
  "producer_copy_active r = 0 \<Longrightarrow> producer_reservation_id r = 0 \<Longrightarrow> producer_inv m r prepared []"
  by (simp add: producer_inv_def)

lemma producer_inv_cleared:
  assumes "producer_inv m r prepared cs" and "producer_copy_active r = 0"
  shows "producer_inv m (ClearProducer r) prepared cs"
  using assms by (simp add: producer_inv_def ClearProducer_def)

lemma sequence_inv_cong:
  "sequence_exhausted r' = sequence_exhausted r \<Longrightarrow> next_sequence r' = next_sequence r \<Longrightarrow>
    sequence_inv first r' published = sequence_inv first r published"
  by (simp add: sequence_inv_def)

lemma lease_inv_cong:
  assumes "same_receiver r r'"
  shows "lease_inv r' q leases = lease_inv r q leases"
  using assms by (simp add: lease_inv_def same_receiver_def)

lemma lease_inv_dropped:
  assumes "lease_inv r q leases" and "receive_sequence r' = 0"
    and "receive_lease_exhausted r' = receive_lease_exhausted r" and "next_receive_lease_id r' = next_receive_lease_id r"
  shows "lease_inv r' q' leases"
  using assms by (simp add: lease_inv_def)

text \<open>One byte store into the reserved range.\<close>

lemma reserved_position:
  assumes inv: "ring_inv m r q" and "producer_reservation_id r \<noteq> 0"
  shows "circ_at r (unat (tail_offset r) + (16 + d)) =
      circ_at r (unat (head_offset r) + (unat (used_bytes r) + 16 + d))"
proof -
  have "unat (tail_offset r) = (unat (head_offset r) + unat (used_bytes r)) mod unat (capacity_bytes r)"
    using ring_invD(8) [OF inv] by (simp add: ring_holds_def)
  then show ?thesis
    by (simp add: circ_at_mod add.assoc)
qed

lemma store_queue:
  assumes inv: "ring_inv m r q" and rid: "producer_reservation_id r \<noteq> 0" and d: "d < unat (producer_frame_size r)"
  shows "ring_inv (m(circ_at r (unat (tail_offset r) + (16 + d)) := b)) r q"
proof -
  let ?M = "m(circ_at r (unat (tail_offset r) + (16 + d)) := b)"
  let ?h = "unat (head_offset r)" and ?u = "unat (used_bytes r)"
  have fit: "?u + (16 + unat (producer_frame_size r)) \<le> unat (capacity_bytes r)"
    using inv rid by (rule reservation_fits)
  have "circ_read r ?M ?h ?u = circ_read r m ?h ?u"
  proof (rule circ_read_cong)
    fix i assume i: "i < ?u"
    then have "circ_at r (?h + i) \<noteq> circ_at r (?h + (?u + 16 + d))"
      using circ_window [OF ring_invD(1) [OF inv], of i "?u + 16 + d" ?h] fit d by simp
    then show "?M (circ_at r (?h + i)) = m (circ_at r (?h + i))"
      by (simp add: reserved_position [OF inv rid])
  qed
  then show ?thesis
    using inv by (simp add: ring_inv_def ring_holds_def)
qed

lemma store_next:
  assumes "storage_ok r" and "d < unat (capacity_bytes r)"
  shows "circ_read r (m(circ_at r (p + d) := b)) p (d + 1) = circ_read r m p d @ [b]"
proof -
  have "circ_read r (m(circ_at r (p + d) := b)) p d = circ_read r m p d"
    using circ_window [OF assms(1), of _ d p] assms(2) by (intro circ_read_cong) simp
  then show ?thesis
    unfolding circ_read_append by (simp add: circ_read_def)
qed

lemma store_source:
  assumes "source_apart r (FromMem f) n" and "storage_ok r"
  shows "mem_read (m(circ_at r p := b)) f n = mem_read m f n"
proof (rule mem_read_cong)
  fix i assume "i < n"
  with assms circ_at_in_storage [OF assms(2), of p] show "(m(circ_at r p := b)) (f + of_nat i) = m (f + of_nat i)"
    by auto
qed

lemma producer_active:
  assumes "ring_inv m r q" and "producer_copy_active r \<noteq> 0"
  shows "producer_reservation_id r \<noteq> 0"
  using ring_invD(7) [OF assms(1)] assms(2) by (auto simp: producer_valid_def)

lemma copy_byte_inv:
  assumes inv: "ring_inv m r q" and prod: "producer_inv m r prepared cs"
    and c: "i < length cs" "c = cs ! i" "cp_done c < unat (cp_bytes c)"
  defines "m' \<equiv> copy_store r (unat (cp_offset c)) (FromMem (cp_frame c)) (cp_done c) m"
  shows "ring_inv m' r q" and "producer_inv m' r prepared (cs[i := c\<lparr>cp_done := cp_done c + 1\<rparr>])"
proof -
  from prod c have active: "producer_copy_active r \<noteq> 0" and cs: "cs = [c]" "i = 0"
      and ok: "copier_ok m r (prepared (producer_reservation_id r)) c"
    by (auto simp: producer_inv_def split: if_split_asm)
  note rid = producer_active [OF inv active] and st = ring_invD(1) [OF inv]
  let ?p = "unat (tail_offset r) + 16" and ?d = "cp_done c" and ?f = "prepared (producer_reservation_id r)"
  define b where "b = ?f ! ?d"
  have n: "cp_bytes c = producer_frame_size r" and apart: "source_apart r (FromMem (cp_frame c)) (unat (cp_bytes c))"
      and src: "mem_read m (cp_frame c) (unat (cp_bytes c)) = ?f"
      and sofar: "circ_read r m ?p ?d = take ?d ?f"
    using ok unfolding copier_ok_def by blast+
  have d: "?d < unat (producer_frame_size r)" "?d < 4294967296" "?d < unat (capacity_bytes r)"
    using c(3) n u32_lt [of "producer_frame_size r"] reservation_fits [OF inv rid] by simp_all
  have "m (cp_frame c + of_nat ?d) = b"
    unfolding b_def src [symmetric] using c(3) by simp
  then have m': "m' = m(circ_at r (?p + ?d) := b)"
    using reserved_frame_offset(2) [OF inv, of "cp_offset c"] ok d(2)
    by (simp add: m'_def copier_ok_def copy_store_def ucast_u32_of_nat)
  show "ring_inv m' r q"
    unfolding m' using store_queue [OF inv rid d(1), of b] by (simp add: add.assoc)
  have len: "length ?f = unat (cp_bytes c)"
    using src length_mem_read by metis
  have "copier_ok m' r ?f (c\<lparr>cp_done := ?d + 1\<rparr>)"
    using ok store_source [OF apart st] store_next [OF st d(3), of m ?p b] sofar src c(3) len
    by (simp add: copier_ok_def m' b_def take_Suc_conv_app_nth)
  then show "producer_inv m' r prepared (cs[i := c\<lparr>cp_done := cp_done c + 1\<rparr>])"
    using active cs by (simp add: producer_inv_def)
qed

lemma reserve_inv:
  assumes inv: "ring_inv m r q" and prod: "producer_inv m r prepared cs"
    and pre: "PreparePreflight m (Some r) frame n rules count = None"
    and res: "PrepareReserve r n = ((RingOk, rid, off), r')"
  shows "ring_inv m r' q" and "same_receiver r r'" and "sequence_exhausted r' = sequence_exhausted r"
    and "next_sequence r' = next_sequence r"
    and "producer_inv m r' (prepared(rid := mem_read m frame (unat n)))
      (cs @ [\<lparr>cp_reservation = rid, cp_frame = frame, cp_bytes = n, cp_offset = off, cp_done = 0\<rparr>])"
proof -
  note args = PreparePreflight_None [OF pre]
  have acc: "accepts r n"
    using PrepareReserve_accepts(2) [OF inv, of n] res by (cases "accepts r n") auto
  with res PrepareReserve_accepts(1) [OF inv acc] have r': "r' = reserved_ring r n" "rid = next_reservation_id r"
      "off = AdvanceOffset (tail_offset r) 16 (capacity_bytes r)"
    by simp_all
  from acc have idle: "producer_reservation_id r = 0" and room: "16 + n \<le> capacity_bytes r - used_bytes r"
    by (simp_all add: accepts_def)
  then have cs: "cs = []"
    using prod ring_invD(7) [OF inv] by (simp add: producer_inv_def producer_valid_def)
  show "ring_inv m r' q"
    unfolding r' using inv args(4,5) room by (rule reserved_ring_inv)
  show "same_receiver r r'" "sequence_exhausted r' = sequence_exhausted r" "next_sequence r' = next_sequence r"
    by (simp_all add: same_receiver_def r' reserved_ring_def)
  have "\<not> in_storage r' (frame + of_nat i)" if "i < unat n" for i
    using no_overlap_apart [OF args(1) ring_invD(1) [OF inv] args(2) that] by (simp add: in_storage_def r')
  then show "producer_inv m r' (prepared(rid := mem_read m frame (unat n)))
      (cs @ [\<lparr>cp_reservation = rid, cp_frame = frame, cp_bytes = n, cp_offset = off, cp_done = 0\<rparr>])"
    by (simp add: producer_inv_def copier_ok_def cs r')
qed

lemma finish_inv:
  assumes inv: "ring_inv m r q" and prod: "producer_inv m r prepared cs"
    and c: "i < length cs" "c = cs ! i" "cp_done c = unat (cp_bytes c)"
    and fin: "PrepareFinish r (cp_reservation c) = (st, r')"
  shows "ring_inv m r' q" and "same_receiver r r'" and "sequence_exhausted r' = sequence_exhausted r"
    and "next_sequence r' = next_sequence r" and "st \<noteq> RingCorruptState"
    and "producer_inv m r' prepared (take i cs @ drop (Suc i) cs)"
proof -
  from prod c have active: "producer_copy_active r \<noteq> 0" and cs: "cs = [c]" "i = 0"
      and ok: "copier_ok m r (prepared (producer_reservation_id r)) c"
    by (auto simp: producer_inv_def split: if_split_asm)
  have rid: "cp_reservation c = producer_reservation_id r"
    using ok by (simp add: copier_ok_def)
  have r': "r' = ClearProducer (r\<lparr>producer_copy_active := 0\<rparr>) \<or> r' = r\<lparr>producer_copy_active := 0\<rparr>"
      "st \<noteq> RingCorruptState"
    using fin active rid ring_invD(2) [OF inv] by (auto simp: PrepareFinish_def Let_def split: if_split_asm)
  show "ring_inv m r' q"
    using PrepareFinish_inv [OF inv, of "cp_reservation c"] fin by simp
  show "same_receiver r r'" "sequence_exhausted r' = sequence_exhausted r" "next_sequence r' = next_sequence r"
    using r'(1) by (auto simp: same_receiver_def ClearProducer_def)
  show "st \<noteq> RingCorruptState"
    by (rule r'(2))
  have bytes: "cp_bytes c = producer_frame_size r" "mem_read m (cp_frame c) (unat (cp_bytes c)) = prepared (producer_reservation_id r)"
      "circ_read r m (unat (tail_offset r) + 16) (cp_done c) = take (cp_done c) (prepared (producer_reservation_id r))"
    using ok unfolding copier_ok_def by blast+
  then have "length (prepared (producer_reservation_id r)) = unat (cp_bytes c)"
    using length_mem_read by metis
  with bytes c(3) have "reserved_frame m r = prepared (producer_reservation_id r)"
    by (simp add: reserved_frame_def)
  moreover have "reserved_frame m (r\<lparr>producer_copy_active := 0\<rparr>) = reserved_frame m r"
    by (simp add: reserved_frame_def circ_read_def circ_at_def)
  ultimately show "producer_inv m r' prepared (take i cs @ drop (Suc i) cs)"
    using r'(1) cs by (auto simp: producer_inv_def ClearProducer_def)
qed

lemma published_ring_fields:
  "same_receiver r (published_ring r)" "producer_copy_active (published_ring r) = 0"
  "producer_reservation_id (published_ring r) = 0"
  "sequence_exhausted (published_ring r) = (if next_sequence r = kU64Max then 1 else sequence_exhausted r)"
  "next_sequence (published_ring r) = (if next_sequence r = kU64Max then next_sequence r else next_sequence r + 1)"
  by (simp_all add: published_ring_def Let_def ClearProducer_def same_receiver_def)

lemma sequence_inv_published:
  assumes "sequence_inv first r published" and "sequence_exhausted r = 0"
  shows "sequence_inv first (published_ring r) (published @ [(next_sequence r, f)])"
proof -
  have len: "unat first + length published = unat (next_sequence r)"
    using assms by (simp add: sequence_inv_def)
  have seqs: "unat (fst ((published @ [(next_sequence r, f)]) ! i)) = unat first + i"
    if "i < length (published @ [(next_sequence r, f)])" for i
    using that assms(1) len by (cases "i < length published") (auto simp: sequence_inv_def nth_append)
  have "unat first + length (published @ [(next_sequence r, f)]) =
      (if sequence_exhausted (published_ring r) = 0 then unat (next_sequence (published_ring r)) else 2 ^ 64)"
  proof (cases "next_sequence r = kU64Max")
    case True
    then show ?thesis
      using len by (simp add: published_ring_fields kU64Max_unat)
  next
    case False
    then show ?thesis
      using len assms(2) by (simp add: published_ring_fields u64_succ_unat)
  qed
  with seqs show ?thesis
    unfolding sequence_inv_def by blast
qed

lemma head_bytes_leased:
  assumes inv: "ring_inv m r (e # q)" and size: "unat (receive_frame_size r) = length (snd e)"
  shows "head_bytes m r = snd e"
  using head_spans_bytes(1) [of m r "fst e" "snd e" q] assms by (simp add: head_bytes_def)

lemma leased_size:
  assumes "ring_inv m r (e # q)" and "receive_sequence r \<noteq> 0"
  shows "receive_sequence r = fst e" and "unat (receive_frame_size r) = length (snd e)"
  using ring_invD(9) [OF assms(1)] assms(2) by (auto simp: lease_ok_def)

lemma peek_inv:
  assumes inv: "ring_inv m r q" and leases: "lease_inv r q leases"
    and peek: "MessageRingPeek m (Some r) out = Some (st, view, Some r')"
  shows "ring_inv m r' q" and "same_producer r r'" and "same_place r r'"
    and "sequence_exhausted r' = sequence_exhausted r" and "next_sequence r' = next_sequence r"
    and "lease_inv r' q (if st = RingOk then leases(receive_lease_id r' \<mapsto> (receive_sequence r', head_bytes m r')) else leases)"
proof -
  have *: "ring_inv m r' q \<and> same_producer r r' \<and> same_place r r' \<and>
      sequence_exhausted r' = sequence_exhausted r \<and> next_sequence r' = next_sequence r \<and>
      lease_inv r' q (if st = RingOk then leases(receive_lease_id r' \<mapsto> (receive_sequence r', head_bytes m r')) else leases)"
  proof (rule Peek_cases [OF inv peek])
    fix e q' assume st: "st = RingOk" and q: "q = e # q'" and r': "Some r' = Some (peeked_ring r e)"
      and free: "receive_sequence r = 0" "receive_lease_exhausted r = 0"
    from r' have r': "r' = peeked_ring r e"
      by simp
    have inv': "ring_inv m r' (e # q')"
      unfolding r' using inv q by (intro peeked_ring_inv) simp
    have fields: "receive_sequence r' = fst e" "receive_lease_id r' = next_receive_lease_id r"
        "unat (receive_frame_size r') = length (snd e)"
      using entry_size [OF ring_invD(8) [OF inv']] by (simp_all add: r' peeked_ring_def)
    have "head_bytes m r' = snd e"
      using inv' fields(3) by (rule head_bytes_leased)
    moreover have "next_receive_lease_id r \<noteq> 0"
      using ring_invD(6) [OF inv] by (simp add: receiver_valid_def)
    moreover have "receive_lease_exhausted r' = 0 \<longrightarrow> next_receive_lease_id r < next_receive_lease_id r'"
      using u64_succ_gt [of "next_receive_lease_id r"] by (simp add: r' peeked_ring_def)
    moreover have "l < next_receive_lease_id r" if "leases l = Some x" for l x
      using leases that free by (auto simp: lease_inv_def)
    ultimately have "lease_inv r' q (leases(receive_lease_id r' \<mapsto> (receive_sequence r', head_bytes m r')))"
      using leases unfolding lease_inv_def fields q by (auto dest: order.strict_trans)
    then show ?thesis
      using inv' st q by (simp add: same_producer_def same_place_def r' peeked_ring_def)
  next
    assume "st \<noteq> RingOk" "Some r' = Some r"
    then show ?thesis
      using inv leases by (simp add: same_producer_def same_place_def)
  qed
  then show "ring_inv m r' q" "same_producer r r'" "same_place r r'"
    "sequence_exhausted r' = sequence_exhausted r" "next_sequence r' = next_sequence r"
    "lease_inv r' q (if st = RingOk then leases(receive_lease_id r' \<mapsto> (receive_sequence r', head_bytes m r')) else leases)"
    by blast+
qed

lemma commit_inv:
  assumes inv: "ring_inv m r q" and leases: "lease_inv r q leases"
    and commit: "MessageRingCommit m (Some r) sequence lease = Some (st, Some r')"
  shows "\<exists>q'. q = (if st = RingOk then [(sequence, head_bytes m r)] else []) @ q' \<and> ring_inv m r' q' \<and>
    lease_inv r' q' leases" and "same_producer r r'" and "same_place r r'"
    and "sequence_exhausted r' = sequence_exhausted r" and "next_sequence r' = next_sequence r"
proof -
  have *: "(\<exists>q'. q = (if st = RingOk then [(sequence, head_bytes m r)] else []) @ q' \<and> ring_inv m r' q' \<and>
      lease_inv r' q' leases) \<and> same_producer r r' \<and> same_place r r' \<and>
      sequence_exhausted r' = sequence_exhausted r \<and> next_sequence r' = next_sequence r"
  proof (rule Commit_cases [OF inv commit])
    assume st: "st = RingOk" and seq: "sequence \<noteq> 0" "receive_sequence r = sequence"
      and "Some r' = Some (committed_ring r)"
    then have r': "r' = committed_ring r"
      by simp
    from committed_ring_inv [OF inv] seq have com: "ring_inv m r' (tl q)" "q \<noteq> []"
      by (simp_all add: r')
    then obtain e q' where q: "q = e # q'"
      by (cases q) auto
    have e: "sequence = fst e" "unat (receive_frame_size r) = length (snd e)"
      using leased_size [of m r e q'] inv q seq by simp_all
    then have "head_bytes m r = snd e"
      using head_bytes_leased [of m r e q'] inv q by simp
    then have "q = [(sequence, head_bytes m r)] @ q'"
      using q e by simp
    moreover have fields: "receive_sequence r' = 0" "receive_lease_exhausted r' = receive_lease_exhausted r"
        "next_receive_lease_id r' = next_receive_lease_id r"
      by (simp_all add: r' committed_ring_def Let_def ClearReceiver_def)
    moreover have "lease_inv r' q' leases"
      using lease_inv_dropped [OF leases fields] .
    ultimately show ?thesis
      using st com(1) q
      by (auto simp: same_producer_def same_place_def r' committed_ring_def Let_def ClearReceiver_def)
  next
    assume "st \<noteq> RingOk" "Some r' = Some r"
    then show ?thesis
      using inv leases by (simp add: same_producer_def same_place_def)
  qed
  then show "\<exists>q'. q = (if st = RingOk then [(sequence, head_bytes m r)] else []) @ q' \<and> ring_inv m r' q' \<and>
    lease_inv r' q' leases" "same_producer r r'" "same_place r r'"
    "sequence_exhausted r' = sequence_exhausted r" "next_sequence r' = next_sequence r"
    by blast+
qed

text \<open>The other receiver calls change neither the queue nor the granted leases.\<close>

lemma receiver_call_inv:
  assumes inv: "ring_inv m r q" and leases: "lease_inv r q leases"
    and call: "MessageRingBeginCopyOut m (Some r) sequence lease out = Some (st, spans, Some r') \<or>
      MessageRingEndCopyOut (Some r) sequence lease copy_id ok = (st, Some r') \<or>
      MessageRingCancelReceive (Some r) sequence lease = (st, Some r')"
  shows "ring_inv m r' q \<and> lease_inv r' q leases \<and> same_producer r r' \<and> same_place r r' \<and>
    sequence_exhausted r' = sequence_exhausted r \<and> next_sequence r' = next_sequence r"
  using call
proof (elim disjE)
  assume started: "MessageRingBeginCopyOut m (Some r) sequence lease out = Some (st, spans, Some r')"
  show ?thesis
    by (rule BeginCopyOut_cases [OF inv started])
      (use inv leases copying_ring_inv [OF inv] in
        \<open>simp_all add: same_producer_def same_place_def lease_inv_def copying_ring_def\<close>)
next
  assume ended: "MessageRingEndCopyOut (Some r) sequence lease copy_id ok = (st, Some r')"
  have inv': "ring_inv m r' q"
    using EndCopyOut_inv [OF inv, of sequence lease copy_id ok] ended by simp
  show ?thesis
    by (rule EndCopyOut_cases [OF inv ended])
      (use leases inv' in \<open>simp_all add: same_producer_def same_place_def lease_inv_def\<close>)
next
  assume cancel: "MessageRingCancelReceive (Some r) sequence lease = (st, Some r')"
  have inv': "ring_inv m r' q"
    using CancelReceive_inv [OF inv, of sequence lease] cancel by simp
  show ?thesis
    by (rule CancelReceive_cases [OF inv cancel])
      (use leases inv' in \<open>simp_all add: same_producer_def same_place_def lease_inv_def ClearReceiver_def\<close>)
qed

lemma ClearProducer_fields:
  "same_receiver r (ClearProducer r)" "sequence_exhausted (ClearProducer r) = sequence_exhausted r"
  "next_sequence (ClearProducer r) = next_sequence r"
  by (simp_all add: ClearProducer_def same_receiver_def)

lemma publish_inv:
  assumes inv: "ring_inv m r q" and prod: "producer_inv m r prepared cs"
    and seq: "sequence_inv first r published" and leases: "lease_inv r q leases"
    and pub: "MessageRingPublishEnqueue m (Some r) rid out = Some (st, sequence, m', Some r')"
  defines "new \<equiv> if st = RingOk then [(next_sequence r, prepared rid)] else []"
  shows "ring_inv m' r' (q @ new) \<and> producer_inv m' r' prepared cs \<and>
    sequence_inv first r' (published @ new) \<and> lease_inv r' (q @ new) leases"
proof (rule PublishEnqueue_cases [OF inv pub])
  fix ra assume st: "st = RingOk" and "Some r' = Some ra" "ra = published_ring r"
    and rid: "rid \<noteq> 0" "producer_reservation_id r = rid" and idle: "producer_copy_active r = 0"
    and ex: "sequence_exhausted r = 0" and m': "m' = published_mem m r"
  then have r': "r' = published_ring r"
    by simp
  have new: "new = [(next_sequence r, reserved_frame m r)]" and cs: "cs = []"
    using prod idle rid st by (simp_all add: producer_inv_def new_def)
  have "ring_inv m' r' (q @ new)"
    unfolding m' r' new using rid by (intro published_ring_inv [OF inv]) simp
  moreover have "producer_inv m' r' prepared cs"
    unfolding cs r' by (rule producer_inv_idle) (simp_all add: published_ring_fields)
  moreover have "sequence_inv first r' (published @ new)"
    unfolding new r' by (rule sequence_inv_published [OF seq ex])
  moreover have "lease_inv r' (q @ new) leases"
    using leases unfolding r' lease_inv_cong [OF published_ring_fields(1)] by (auto simp: lease_inv_def)
  ultimately show ?thesis
    by blast
next
  assume "st \<noteq> RingOk" "m' = m" "Some r' = Some (ClearProducer r)" "producer_copy_active r = 0"
  then show ?thesis
    using ClearProducer_inv [OF inv] producer_inv_cleared [OF prod] seq leases
      lease_inv_cong [OF ClearProducer_fields(1)] sequence_inv_cong [OF ClearProducer_fields(2,3)]
    by (simp add: new_def)
next
  assume "st \<noteq> RingOk" "m' = m" "Some r' = Some r"
  then show ?thesis
    using inv prod seq leases by (simp add: new_def)
qed

lemma abort_inv:
  assumes inv: "ring_inv m r q" and prod: "producer_inv m r prepared cs"
    and abort: "MessageRingAbortEnqueue (Some r) rid = (st, Some r')"
  shows "ring_inv m r' q \<and> producer_inv m r' prepared cs \<and> same_receiver r r' \<and>
    sequence_exhausted r' = sequence_exhausted r \<and> next_sequence r' = next_sequence r"
proof -
  have inv': "ring_inv m r' q"
    using AbortEnqueue_inv [OF inv, of rid] abort by simp
  show ?thesis
  proof (rule AbortEnqueue_cases [OF inv abort])
    assume "producer_copy_active r = 0" "Some r' = Some (ClearProducer r)"
    then show ?thesis
      using inv' producer_inv_cleared [OF prod] ClearProducer_fields by simp
  next
    assume "producer_copy_active r \<noteq> 0" "Some r' = Some (r\<lparr>producer_abort_requested := 1\<rparr>)"
    then show ?thesis
      using inv' prod
      by (auto simp: producer_inv_def copier_ok_def same_receiver_def circ_read_def circ_at_def in_storage_def)
  next
    assume "Some r' = Some r"
    then show ?thesis
      using inv prod by (simp add: same_receiver_def)
  qed
qed

lemma environment_inv:
  assumes inv: "ring_inv m r q" and prod: "producer_inv m r prepared cs"
    and same: "\<And>a. in_storage r a \<Longrightarrow> m' a = m a"
    and frames: "\<And>c. c \<in> set cs \<Longrightarrow> mem_read m' (cp_frame c) (unat (cp_bytes c)) = mem_read m (cp_frame c) (unat (cp_bytes c))"
  shows "ring_inv m' r q" and "producer_inv m' r prepared cs"
proof -
  show "ring_inv m' r q"
    using inv same by (rule ring_inv_mem)
  have "circ_read r m' p n = circ_read r m p n" for p n
    using same circ_at_in_storage [OF ring_invD(1) [OF inv]] by (intro circ_read_cong) simp
  then show "producer_inv m' r prepared cs"
    using prod frames by (auto simp: producer_inv_def copier_ok_def reserved_frame_def split: if_split_asm)
qed

lemma system_inv_step:
  assumes "ring_step s t" and "system_inv first s"
  shows "system_inv first t"
proof -
  obtain q where inv: "ring_inv (sys_mem s) (sys_ring s) q" and hist: "sys_published s = sys_retired s @ q"
    and prod: "producer_inv (sys_mem s) (sys_ring s) (sys_prepared s) (sys_copiers s)"
    and seq: "sequence_inv first (sys_ring s) (sys_published s)" and leases: "lease_inv (sys_ring s) q (sys_leases s)"
    using assms(2) by (auto simp: system_inv_def)
  have keep: "system_inv first t" if "ring_inv (sys_mem t) (sys_ring t) q" "sys_published t = sys_published s"
      "sys_retired t = sys_retired s" "producer_inv (sys_mem t) (sys_ring t) (sys_prepared t) (sys_copiers t)"
      "sequence_exhausted (sys_ring t) = sequence_exhausted (sys_ring s)"
      "next_sequence (sys_ring t) = next_sequence (sys_ring s)" "lease_inv (sys_ring t) q (sys_leases t)" for t
    using that hist seq sequence_inv_cong [of "sys_ring t" "sys_ring s"] by (auto simp: system_inv_def)
  from assms(1) show ?thesis
  proof cases
    case (reserve frame n rules count rid off r')
    note r = reserve_inv [OF inv prod reserve(2,3)]
    show ?thesis
      unfolding reserve(1) by (rule keep) (use r leases lease_inv_cong [OF r(2)] in simp_all)
  next
    case (reserve_refused n st rid off r')
    then have "r' = sys_ring s"
      unfolding PrepareReserve_eq [OF inv] by (simp split: if_split_asm)
    then show ?thesis
      unfolding reserve_refused(1) by (intro keep) (use inv prod leases in simp_all)
  next
    case (copy_byte i c)
    show ?thesis
      unfolding copy_byte(1)
      by (rule keep) (use copy_byte_inv [OF inv prod copy_byte(2-4)] leases in simp_all)
  next
    case (finish i c st r')
    note r = finish_inv [OF inv prod finish(2-5)]
    show ?thesis
      unfolding finish(1) by (rule keep) (use r leases lease_inv_cong [OF r(2)] in simp_all)
  next
    case (publish rid out st sequence m' r')
    show ?thesis
      using publish_inv [OF inv prod seq leases publish(2)] hist unfolding publish(1) system_inv_def
      by (intro exI [of _ "q @ (if st = RingOk then [(next_sequence (sys_ring s), sys_prepared s rid)] else [])"]) simp
  next
    case (abort rid st r')
    note r = abort_inv [OF inv prod abort(2)]
    show ?thesis
      unfolding abort(1) by (rule keep) (use r leases lease_inv_cong [of "sys_ring s" r'] in simp_all)
  next
    case (peek out st view r')
    note r = peek_inv [OF inv leases peek(2)]
    show ?thesis
      unfolding peek(1) by (rule keep) (use r prod producer_inv_cong [OF r(2,3)] in simp_all)
  next
    case (begin_copy sequence lease out st spans r')
    note r = receiver_call_inv [OF inv leases disjI1 [OF begin_copy(2)]]
    show ?thesis
      unfolding begin_copy(1) by (rule keep) (use r prod producer_inv_cong [of "sys_ring s" r'] in simp_all)
  next
    case (end_copy sequence lease copy_id ok st r')
    note r = receiver_call_inv [OF inv leases disjI2 [OF disjI1 [OF end_copy(2)]]]
    show ?thesis
      unfolding end_copy(1) by (rule keep) (use r prod producer_inv_cong [of "sys_ring s" r'] in simp_all)
  next
    case (commit sequence lease st r')
    note r = commit_inv [OF inv leases commit(2)]
    from r(1) obtain q' where "q = (if st = RingOk then [(sequence, head_bytes (sys_mem s) (sys_ring s))] else []) @ q'"
        "ring_inv (sys_mem s) r' q'" "lease_inv r' q' (sys_leases s)"
      by blast
    then show ?thesis
      using hist prod seq producer_inv_cong [OF r(2,3)] sequence_inv_cong [OF r(4,5)]
      unfolding commit(1) system_inv_def by (intro exI [of _ q']) simp
  next
    case (cancel sequence lease st r')
    note r = receiver_call_inv [OF inv leases disjI2 [OF disjI2 [OF cancel(2)]]]
    show ?thesis
      unfolding cancel(1) by (rule keep) (use r prod producer_inv_cong [of "sys_ring s" r'] in simp_all)
  next
    case (environment m')
    show ?thesis
      unfolding environment(1)
      by (rule keep) (use environment_inv [OF inv prod environment(2,3)] leases in simp_all)
  qed
qed

interpretation ring_ts: transition_system "ring_system_init first" ring_step "system_inv first"
  by unfold_locales (auto intro: system_inv_init system_inv_step)

section \<open>What every run guarantees\<close>

lemma step_lease:
  assumes "ring_step s t" and "system_inv first s"
  shows "storage (sys_ring t) = storage (sys_ring s) \<and> capacity_bytes (sys_ring t) = capacity_bytes (sys_ring s) \<and>
    (receive_lease_id (sys_ring t) = 0 \<or> sys_leases s (receive_lease_id (sys_ring t)) = None \<or>
     receive_lease_id (sys_ring t) = receive_lease_id (sys_ring s) \<and> head_offset (sys_ring t) = head_offset (sys_ring s)) \<and>
    (\<forall>l e. sys_leases s l = Some e \<longrightarrow> sys_leases t l = Some e)"
proof -
  obtain q where inv: "ring_inv (sys_mem s) (sys_ring s) q"
    and prod: "producer_inv (sys_mem s) (sys_ring s) (sys_prepared s) (sys_copiers s)"
    and leases: "lease_inv (sys_ring s) q (sys_leases s)"
    using assms(2) by (auto simp: system_inv_def)
  from assms(1) show ?thesis
  proof cases
    case (reserve frame n rules count rid off r')
    then show ?thesis
      unfolding PrepareReserve_eq [OF inv] by (auto simp: reserved_ring_def split: if_split_asm)
  next
    case (reserve_refused n st rid off r')
    then show ?thesis
      unfolding PrepareReserve_eq [OF inv] by (auto split: if_split_asm)
  next
    case (finish i c st r')
    then show ?thesis
      by (auto simp: PrepareFinish_def Let_def ClearProducer_def split: if_split_asm)
  next
    case (publish rid out st sequence m' r')
    show ?thesis
      unfolding publish(1)
      by (rule PublishEnqueue_cases [OF inv publish(2)]) (auto simp: published_ring_def Let_def ClearProducer_def)
  next
    case (abort rid st r')
    show ?thesis
      unfolding abort(1) by (rule AbortEnqueue_cases [OF inv abort(2)]) (auto simp: ClearProducer_def)
  next
    case (peek out st view r')
    have fresh: "sys_leases s (next_receive_lease_id (sys_ring s)) = None" if "receive_lease_exhausted (sys_ring s) = 0"
      using leases that by (cases "sys_leases s (next_receive_lease_id (sys_ring s))") (auto simp: lease_inv_def)
    show ?thesis
      unfolding peek(1) by (rule Peek_cases [OF inv peek(2)]) (use fresh in \<open>auto simp: peeked_ring_def\<close>)
  next
    case (begin_copy sequence lease out st spans r')
    show ?thesis
      unfolding begin_copy(1) by (rule BeginCopyOut_cases [OF inv begin_copy(2)]) (auto simp: copying_ring_def)
  next
    case (end_copy sequence lease copy_id ok st r')
    show ?thesis
      unfolding end_copy(1) by (rule EndCopyOut_cases [OF inv end_copy(2)]) auto
  next
    case (commit sequence lease st r')
    show ?thesis
      unfolding commit(1)
      by (rule Commit_cases [OF inv commit(2)]) (auto simp: committed_ring_def Let_def ClearReceiver_def)
  next
    case (cancel sequence lease st r')
    show ?thesis
      unfolding cancel(1) by (rule CancelReceive_cases [OF inv cancel(2)]) (auto simp: ClearReceiver_def)
  qed auto
qed

lemma run_lease:
  assumes "ring_step\<^sup>*\<^sup>* s t" and "system_inv first s" and "sys_leases s lease = Some e" and "lease \<noteq> 0"
    and "receive_lease_id (sys_ring s) = lease"
  shows "system_inv first t \<and> sys_leases t lease = Some e \<and>
    storage (sys_ring t) = storage (sys_ring s) \<and> capacity_bytes (sys_ring t) = capacity_bytes (sys_ring s) \<and>
    (receive_lease_id (sys_ring t) = lease \<longrightarrow> head_offset (sys_ring t) = head_offset (sys_ring s))"
  using assms(1)
proof (induction rule: rtranclp_induct)
  case base
  then show ?case
    using assms by simp
next
  case (step t u)
  then have IH: "system_inv first t" "sys_leases t lease = Some e"
    by simp_all
  note next_state = step_lease [OF step.hyps(2) IH(1)]
  then have "sys_leases u lease = Some e"
    using IH(2) by blast
  moreover have "system_inv first u"
    using step.hyps(2) IH(1) by (rule system_inv_step)
  ultimately show ?case
    using next_state step.IH assms(4) by (metis option.distinct(1))
qed

lemma spans_bytes_moved:
  assumes "head_offset r' = head_offset r" and "storage r' = storage r" and "capacity_bytes r' = capacity_bytes r"
  shows "spans_bytes m (head_spans r' n) = spans_bytes m (head_spans r n)"
  using assms by (simp add: spans_bytes_def head_spans_def Let_def)

lemma leased_head:
  assumes "system_inv first t" and "receive_lease_id (sys_ring t) = lease" and "lease \<noteq> 0"
    and "sys_leases t lease = Some e"
  shows "head_bytes (sys_mem t) (sys_ring t) = snd e" and "unat (receive_frame_size (sys_ring t)) = length (snd e)"
    and "receive_sequence (sys_ring t) = fst e" and "e \<in> set (sys_published t)"
proof -
  obtain q where inv: "ring_inv (sys_mem t) (sys_ring t) q" and leases: "lease_inv (sys_ring t) q (sys_leases t)"
      and hist: "sys_published t = sys_retired t @ q"
    using assms(1) by (auto simp: system_inv_def)
  have seq: "receive_sequence (sys_ring t) \<noteq> 0"
    using ring_invD(6) [OF inv] assms(2,3) by (auto simp: receiver_valid_def)
  then obtain q' where q: "q = e # q'"
    using leases assms(2,4) by (cases q) (auto simp: lease_inv_def)
  with inv have inv': "ring_inv (sys_mem t) (sys_ring t) (e # q')"
    by simp
  from leased_size [OF inv' seq] show "unat (receive_frame_size (sys_ring t)) = length (snd e)"
    "receive_sequence (sys_ring t) = fst e" by simp_all
  then show "head_bytes (sys_mem t) (sys_ring t) = snd e"
    using head_bytes_leased [OF inv'] by simp
  show "e \<in> set (sys_published t)"
    using hist q by simp
qed

text \<open>
  C3. No message is lost, duplicated, reordered or corrupted. In every state that any
  interleaving of producers, receivers and unlocked byte copies can reach from a freshly
  initialized ring, the frames published so far are exactly the frames retired so far followed by
  the frames that the bytes of the storage encode, where a published frame is the frame its
  producer presented at reservation and a retired frame is the bytes the receiver's spans held at
  commit; and the published frames carry consecutive sequence numbers from the first one.
\<close>

theorem message_ring_fifo:
  assumes "ring_system_init first s\<^sub>0" and "ring_step\<^sup>*\<^sup>* s\<^sub>0 s"
  shows "\<exists>q. ring_inv (sys_mem s) (sys_ring s) q \<and> sys_published s = sys_retired s @ q \<and>
    (\<forall>i < length (sys_published s). unat (fst (sys_published s ! i)) = unat first + i)"
  using ring_ts.reachable_inv [OF assms] by (auto simp: system_inv_def sequence_inv_def)

text \<open>
  C27. A pinned frame is stable. Once a receiver holds copy spans for a sequence number under a
  lease, the bytes of those spans are the published frame of that sequence number in every later
  state in which the lease is still held, whatever producers and other callers do meanwhile.
\<close>

theorem message_ring_spans_stable:
  assumes "ring_system_init first s\<^sub>0" and "ring_step\<^sup>*\<^sup>* s\<^sub>0 s"
    and "MessageRingBeginCopyOut (sys_mem s) (Some (sys_ring s)) sequence lease OutLocal = Some (RingOk, Some spans, ring')"
  shows "\<exists>f. (sequence, f) \<in> set (sys_published s) \<and>
    (\<forall>t. ring_step\<^sup>*\<^sup>* s t \<and> receive_lease_id (sys_ring t) = lease \<longrightarrow> spans_bytes (sys_mem t) spans = f)"
proof -
  have sys: "system_inv first s"
    using assms(1,2) by (rule ring_ts.reachable_inv)
  then obtain q where inv: "ring_inv (sys_mem s) (sys_ring s) q" and leases: "lease_inv (sys_ring s) q (sys_leases s)"
    by (auto simp: system_inv_def)
  have lease: "lease \<noteq> 0" "receive_lease_id (sys_ring s) = lease" "receive_sequence (sys_ring s) = sequence" "sequence \<noteq> 0"
      and spans: "spans = head_spans (sys_ring s) (unat (receive_frame_size (sys_ring s)))"
    by (rule BeginCopyOut_cases [OF inv assms(3)]; simp)+
  then obtain e where e: "sys_leases s lease = Some e"
    using leases by (auto simp: lease_inv_def)
  note here = leased_head [OF sys lease(2,1) e]
  have "spans_bytes (sys_mem t) spans = snd e" if "ring_step\<^sup>*\<^sup>* s t" "receive_lease_id (sys_ring t) = lease" for t
  proof -
    note later = run_lease [OF that(1) sys e lease(1,2)]
    then have "head_bytes (sys_mem t) (sys_ring t) = snd e" "unat (receive_frame_size (sys_ring t)) = length (snd e)"
      using leased_head [of first t lease e] lease(1) that(2) by simp_all
    moreover have "spans_bytes (sys_mem t) spans = spans_bytes (sys_mem t) (head_spans (sys_ring t) (length (snd e)))"
      unfolding spans here(2) using later that(2) by (intro spans_bytes_moved) simp_all
    ultimately show ?thesis
      by (simp add: head_bytes_def)
  qed
  then show ?thesis
    using here(3,4) lease(3) by (metis prod.collapse)
qed

section \<open>Calls return\<close>

lemma ring_calls_return:
  assumes inv: "ring_inv m r q"
  shows "\<exists>st x m' r'. MessageRingPublishEnqueue m (Some r) rid out = Some (st, x, m', Some r') \<and> st \<noteq> RingCorruptState"
    and "\<exists>st x r'. MessageRingPeek m (Some r) out = Some (st, x, Some r') \<and> st \<noteq> RingCorruptState"
    and "\<exists>st x r'. MessageRingBeginCopyOut m (Some r) sequence lease out = Some (st, x, Some r') \<and> st \<noteq> RingCorruptState"
    and "\<exists>st r'. MessageRingCommit m (Some r) sequence lease = Some (st, Some r') \<and> st \<noteq> RingCorruptState"
    and "\<exists>st x r'. PrepareReserve r n = ((st, x), r') \<and> st \<noteq> RingCorruptState"
proof -
  note ready = ring_invD(4) [OF inv]
  show "\<exists>st x m' r'. MessageRingPublishEnqueue m (Some r) rid out = Some (st, x, m', Some r') \<and> st \<noteq> RingCorruptState"
    using ready PublishLocked_eq [OF inv, of rid] by (cases "rid = 0") (auto simp: MessageRingPublishEnqueue_def Let_def)
  show "\<exists>st x r'. MessageRingPeek m (Some r) out = Some (st, x, Some r') \<and> st \<noteq> RingCorruptState"
    using ready by (auto simp: MessageRingPeek_def PeekLocked_eq [OF inv] split: list.split)
  show "\<exists>st x r'. MessageRingBeginCopyOut m (Some r) sequence lease out = Some (st, x, Some r') \<and> st \<noteq> RingCorruptState"
    using ready BeginCopyOutLocked_eq [OF inv, of sequence lease]
    by (cases "sequence = 0") (auto simp: MessageRingBeginCopyOut_def)
  show "\<exists>st r'. MessageRingCommit m (Some r) sequence lease = Some (st, Some r') \<and> st \<noteq> RingCorruptState"
    using ready CommitLocked_eq [OF inv, of sequence lease] by (cases "sequence = 0") (auto simp: MessageRingCommit_def)
  show "\<exists>st x r'. PrepareReserve r n = ((st, x), r') \<and> st \<noteq> RingCorruptState"
    unfolding PrepareReserve_eq [OF inv] by auto
qed

text \<open>
  C9. In every reachable state every call returns, with whatever arguments, and none of them
  finds the ring corrupt: the copy loops under the lock end, the record at the head always reads
  back, and the state checks always pass, also in the end of a copy that is in flight.
\<close>

theorem message_ring_never_corrupt:
  assumes "ring_system_init first s\<^sub>0" and "ring_step\<^sup>*\<^sup>* s\<^sub>0 s"
  shows "StateIsValid (sys_ring s) \<and>
    (\<forall>rid out. \<exists>st x m' r'. MessageRingPublishEnqueue (sys_mem s) (Some (sys_ring s)) rid out =
       Some (st, x, m', Some r') \<and> st \<noteq> RingCorruptState) \<and>
    (\<forall>out. \<exists>st x r'. MessageRingPeek (sys_mem s) (Some (sys_ring s)) out =
       Some (st, x, Some r') \<and> st \<noteq> RingCorruptState) \<and>
    (\<forall>sequence lease out. \<exists>st x r'. MessageRingBeginCopyOut (sys_mem s) (Some (sys_ring s)) sequence lease out =
       Some (st, x, Some r') \<and> st \<noteq> RingCorruptState) \<and>
    (\<forall>sequence lease. \<exists>st r'. MessageRingCommit (sys_mem s) (Some (sys_ring s)) sequence lease =
       Some (st, Some r') \<and> st \<noteq> RingCorruptState) \<and>
    (\<forall>n. \<exists>st x r'. PrepareReserve (sys_ring s) n = ((st, x), r') \<and> st \<noteq> RingCorruptState) \<and>
    (\<forall>i. i < length (sys_copiers s) \<and> cp_done (sys_copiers s ! i) = unat (cp_bytes (sys_copiers s ! i)) \<longrightarrow>
       fst (PrepareFinish (sys_ring s) (cp_reservation (sys_copiers s ! i))) \<noteq> RingCorruptState)"
proof -
  obtain q where inv: "ring_inv (sys_mem s) (sys_ring s) q"
      and prod: "producer_inv (sys_mem s) (sys_ring s) (sys_prepared s) (sys_copiers s)"
    using ring_ts.reachable_inv [OF assms] by (auto simp: system_inv_def)
  have fin: "fst (PrepareFinish (sys_ring s) (cp_reservation (sys_copiers s ! i))) \<noteq> RingCorruptState"
    if "i < length (sys_copiers s)" "cp_done (sys_copiers s ! i) = unat (cp_bytes (sys_copiers s ! i))" for i
    using finish_inv(5) [OF inv prod that(1) refl that(2)] by (metis prod.collapse)
  show ?thesis
    by (intro conjI allI impI ring_calls_return [OF inv] ring_invD(2) [OF inv]) (use fin in blast)
qed

section \<open>A run\<close>

lemma run_copy:
  assumes "sys_copiers s = [c]" and "cp_done c = 0" and "d \<le> unat (cp_bytes c)"
  shows "\<exists>m'. ring_step\<^sup>*\<^sup>* s (s\<lparr>sys_mem := m', sys_copiers := [c\<lparr>cp_done := d\<rparr>]\<rparr>)"
  using assms(3)
proof (induction d)
  case 0
  have "s\<lparr>sys_mem := sys_mem s, sys_copiers := [c\<lparr>cp_done := 0\<rparr>]\<rparr> = s"
    using assms(1,2) by simp
  then show ?case
    by (metis rtranclp.rtrancl_refl)
next
  case (Suc d)
  then obtain m' where run: "ring_step\<^sup>*\<^sup>* s (s\<lparr>sys_mem := m', sys_copiers := [c\<lparr>cp_done := d\<rparr>]\<rparr>)"
    by auto
  let ?t = "s\<lparr>sys_mem := m', sys_copiers := [c\<lparr>cp_done := d\<rparr>]\<rparr>"
  define m'' where "m'' = copy_store (sys_ring s) (unat (cp_offset c)) (FromMem (cp_frame c)) d m'"
  have "ring_step ?t (s\<lparr>sys_mem := m'', sys_copiers := [c\<lparr>cp_done := Suc d\<rparr>]\<rparr>)"
    using ring_step.copy_byte [of 0 ?t "c\<lparr>cp_done := d\<rparr>"] Suc.prems by (simp add: m''_def)
  with run show ?case
    by (meson rtranclp.rtrancl_into_rtrancl)
qed

lemma run_enqueue:
  assumes inv: "ring_inv (sys_mem s) (sys_ring s) q" and "sys_copiers s = []"
    and pre: "PreparePreflight (sys_mem s) (Some (sys_ring s)) frame n rules count = None"
    and acc: "accepts (sys_ring s) n" and sys: "system_inv first s"
  shows "\<exists>t. ring_step\<^sup>*\<^sup>* s t \<and> sys_copiers t = [] \<and> same_receiver (sys_ring s) (sys_ring t) \<and> sys_retired t = sys_retired s \<and>
    sys_published t = sys_published s @ [(next_sequence (sys_ring s), mem_read (sys_mem s) frame (unat n))]"
proof -
  let ?r = "sys_ring s" and ?f = "mem_read (sys_mem s) frame (unat n)"
  define r1 where "r1 = reserved_ring ?r n"
  define c where "c = \<lparr>cp_reservation = next_reservation_id ?r, cp_frame = frame, cp_bytes = n,
    cp_offset = AdvanceOffset (tail_offset ?r) 16 (capacity_bytes ?r), cp_done = 0\<rparr>"
  define s1 where "s1 = s\<lparr>sys_ring := r1, sys_copiers := [c], sys_prepared := (sys_prepared s)(next_reservation_id ?r := ?f)\<rparr>"
  have step1: "ring_step s s1"
    using ring_step.reserve [OF pre PrepareReserve_accepts(1) [OF inv acc]] assms(2) by (simp add: s1_def c_def r1_def)
  obtain m' where run: "ring_step\<^sup>*\<^sup>* s1 (s1\<lparr>sys_mem := m', sys_copiers := [c\<lparr>cp_done := unat n\<rparr>]\<rparr>)"
    using run_copy [of s1 c "unat n"] by (auto simp: s1_def c_def)
  let ?s2 = "s1\<lparr>sys_mem := m', sys_copiers := [c\<lparr>cp_done := unat n\<rparr>]\<rparr>"
  have "system_inv first ?s2"
    using ring_ts.run_inv [OF run] system_inv_step [OF step1 sys] by simp
  then obtain q2 where inv2: "ring_inv m' r1 q2"
    by (auto simp: system_inv_def s1_def)
  define r2 where "r2 = r1\<lparr>producer_copy_active := 0\<rparr>"
  have "PrepareFinish r1 (next_reservation_id ?r) = (RingOk, r2)"
    using ring_invD(2) [OF inv2] by (simp add: PrepareFinish_def Let_def r1_def r2_def)
  then have step3: "ring_step ?s2 (?s2\<lparr>sys_ring := r2, sys_copiers := []\<rparr>)" (is "ring_step _ ?s3")
    using ring_step.finish [of 0 ?s2 "c\<lparr>cp_done := unat n\<rparr>" RingOk r2] by (simp add: s1_def c_def)
  have rid: "next_reservation_id ?r \<noteq> 0"
    using inv by (rule ring_invD)
  have inv3: "ring_inv m' r2 q2"
    unfolding r2_def using producer_flags_inv(2) [OF inv2] rid by (simp add: r1_def)
  have "PublishLocked m' r2 (next_reservation_id ?r) =
      Some (RingOk, next_sequence ?r, published_mem m' r2, published_ring r2)"
    using PublishLocked_eq [OF inv3 rid] acc by (simp add: r2_def r1_def accepts_def)
  then have pub: "MessageRingPublishEnqueue m' (Some r2) (next_reservation_id ?r) OutNull =
      Some (RingOk, None, published_mem m' r2, Some (published_ring r2))"
    using ring_invD(4) [OF inv3] rid by (simp add: MessageRingPublishEnqueue_def)
  define t where "t = ?s3\<lparr>sys_mem := published_mem m' r2, sys_ring := published_ring r2,
    sys_published := sys_published s @ [(next_sequence ?r, ?f)]\<rparr>"
  have "ring_step ?s3 t"
    using ring_step.publish [of ?s3 "next_reservation_id ?r" OutNull] pub
    by (simp add: t_def s1_def r2_def r1_def)
  then have "ring_step\<^sup>*\<^sup>* s t"
    using step1 run step3 by (meson converse_rtranclp_into_rtranclp rtranclp.rtrancl_into_rtrancl)
  moreover have "same_receiver ?r (published_ring r2)"
    using published_ring_fields(1) [of r2] by (simp add: same_receiver_def r2_def r1_def reserved_ring_def)
  ultimately show ?thesis
    by (intro exI [of _ t]) (simp add: t_def s1_def)
qed

definition sample_system :: ring_system where
  "sample_system = \<lparr>sys_mem = sample_frame_mem, sys_ring = sample_ring, sys_copiers = [],
     sys_prepared = (\<lambda>_. []), sys_published = [], sys_retired = [], sys_leases = Map.empty\<rparr>"

lemma sample_system_init: "ring_system_init 1 sample_system"
proof -
  have "MessageRingInitialize (Some blank_ring) 65536 256 1 = (RingOk, Some sample_ring)"
    unfolding MessageRingInitialize_eq sample_ring_def
    by (simp add: initial_args_ok_def blank_ring_def PointerRangeIsValid_def PointerRangesOverlap_def kdefs)
  then show ?thesis
    unfolding ring_system_init_def by (auto simp: sample_system_def)
qed

lemma sample_system_run:
  obtains s where "ring_step\<^sup>*\<^sup>* sample_system s" and "sys_published s = [(1, sample_frame)]"
    and "sys_retired s = []" and "same_receiver sample_ring (sys_ring s)"
proof -
  have "next_sequence sample_ring = 1" "accepts sample_ring 32"
    by (simp_all add: accepts_def sample_ring_def initial_ring_def)
  then have "\<exists>t. ring_step\<^sup>*\<^sup>* sample_system t \<and> sys_copiers t = [] \<and> same_receiver sample_ring (sys_ring t) \<and>
      sys_retired t = [] \<and> sys_published t = [(1, sample_frame)]"
    using run_enqueue [of sample_system "[]" 4096 32 0 0 1] sample_ring_inv sample_preflight sample_frame_read
      system_inv_init [OF sample_system_init]
    by (simp add: sample_system_def)
  with that show ?thesis by blast
qed

lemma sample_system_leased:
  obtains s spans where "ring_step\<^sup>*\<^sup>* sample_system s"
    and "MessageRingBeginCopyOut (sys_mem s) (Some (sys_ring s)) 1 1 OutLocal =
      Some (RingOk, Some spans, Some (copying_ring (sys_ring s)))"
    and "receive_lease_id (sys_ring s) = 1" and "sys_published s = [(1, sample_frame)]"
proof -
  obtain s where run: "ring_step\<^sup>*\<^sup>* sample_system s" and pub: "sys_published s = [(1, sample_frame)]"
      "sys_retired s = []" and recv: "same_receiver sample_ring (sys_ring s)"
    by (rule sample_system_run)
  have sys: "system_inv 1 s"
    using sample_system_init run by (rule ring_ts.reachable_inv)
  then have inv: "ring_inv (sys_mem s) (sys_ring s) [(1, sample_frame)]"
    using pub by (auto simp: system_inv_def)
  define r where "r = peeked_ring (sys_ring s) (1, sample_frame)"
  have free: "receive_sequence (sys_ring s) = 0" "receive_lease_exhausted (sys_ring s) = 0"
      "next_receive_lease_id (sys_ring s) = 1" "copy_id_exhausted (sys_ring s) = 0"
    using recv by (simp_all add: same_receiver_def sample_ring_def initial_ring_def)
  have "\<exists>v. MessageRingPeek (sys_mem s) (Some (sys_ring s)) OutLocal = Some (RingOk, v, Some r)"
    using ring_invD(4) [OF inv] free by (simp add: MessageRingPeek_def PeekLocked_eq [OF inv] r_def)
  then obtain v where peek: "MessageRingPeek (sys_mem s) (Some (sys_ring s)) OutLocal = Some (RingOk, v, Some r)" ..
  let ?t = "s\<lparr>sys_ring := r, sys_leases := (sys_leases s)(receive_lease_id r \<mapsto> (receive_sequence r, head_bytes (sys_mem s) r))\<rparr>"
  have "ring_step s ?t"
    using ring_step.peek [OF peek] by simp
  with run have "ring_step\<^sup>*\<^sup>* sample_system ?t"
    by (rule rtranclp.rtrancl_into_rtrancl)
  moreover have "ring_inv (sys_mem s) r [(1, sample_frame)]"
    unfolding r_def using inv by (rule peeked_ring_inv)
  then have "MessageRingBeginCopyOut (sys_mem s) (Some r) 1 1 OutLocal =
      Some (RingOk, Some (head_spans r (unat (receive_frame_size r))), Some (copying_ring r))"
    using BeginCopyOut_local [of "sys_mem s" r _ 1 1] free by (simp add: r_def peeked_ring_def)
  moreover have "receive_lease_id r = 1"
    using free by (simp add: r_def peeked_ring_def)
  ultimately show ?thesis
    using that [of ?t "head_spans r (unat (receive_frame_size r))"] pub by simp
qed

theorem message_ring_fifo_witness:
  "\<exists>s q. ring_step\<^sup>*\<^sup>* sample_system s \<and> sys_published s = [(1, sample_frame)] \<and>
     ring_inv (sys_mem s) (sys_ring s) q \<and> sys_published s = sys_retired s @ q"
proof -
  obtain s where run: "ring_step\<^sup>*\<^sup>* sample_system s" and pub: "sys_published s = [(1, sample_frame)]"
    by (rule sample_system_run)
  from message_ring_fifo [OF sample_system_init run] run pub show ?thesis
    by blast
qed

theorem message_ring_spans_stable_witness:
  "\<exists>s spans. ring_step\<^sup>*\<^sup>* sample_system s \<and> receive_lease_id (sys_ring s) = 1 \<and>
     spans_bytes (sys_mem s) spans = sample_frame"
proof -
  obtain s spans where run: "ring_step\<^sup>*\<^sup>* sample_system s"
      and started: "MessageRingBeginCopyOut (sys_mem s) (Some (sys_ring s)) 1 1 OutLocal =
        Some (RingOk, Some spans, Some (copying_ring (sys_ring s)))"
      and lease: "receive_lease_id (sys_ring s) = 1" and pub: "sys_published s = [(1, sample_frame)]"
    by (rule sample_system_leased)
  from message_ring_spans_stable [OF sample_system_init run started] run lease pub show ?thesis
    by auto
qed

theorem message_ring_never_corrupt_witness:
  "\<exists>s. ring_step\<^sup>*\<^sup>* sample_system s \<and> queued_frames (sys_ring s) \<noteq> 0 \<and> StateIsValid (sys_ring s)"
proof -
  obtain s where run: "ring_step\<^sup>*\<^sup>* sample_system s" and pub: "sys_published s = [(1, sample_frame)]" "sys_retired s = []"
    by (rule sample_system_run)
  then have "ring_inv (sys_mem s) (sys_ring s) [(1, sample_frame)]"
    using ring_ts.reachable_inv [OF sample_system_init run] by (auto simp: system_inv_def)
  then have "queued_frames (sys_ring s) \<noteq> 0"
    using queued_frames_empty ring_invD(8) by blast
  with message_ring_never_corrupt [OF sample_system_init run] run show ?thesis
    by blast
qed

text \<open>The guards at the end of a copy, in their order. The statuses decide each case: the rings need not
  be compared.\<close>

lemma EndCopyOut_stale:
  assumes inv: "ring_inv m r q" and args: "sequence \<noteq> 0" "lease \<noteq> 0" "copy_id \<noteq> 0"
  shows "receive_sequence r \<noteq> sequence \<Longrightarrow>
      MessageRingEndCopyOut (Some r) sequence lease copy_id ok = (RingStaleSequence, Some r)"
    and "receive_sequence r = sequence \<Longrightarrow> receive_lease_id r \<noteq> lease \<Longrightarrow>
      MessageRingEndCopyOut (Some r) sequence lease copy_id ok = (RingStaleReceiveLease, Some r)"
    and "receive_sequence r = sequence \<Longrightarrow> receive_lease_id r = lease \<Longrightarrow> receive_copy_id r = 0 \<Longrightarrow>
      MessageRingEndCopyOut (Some r) sequence lease copy_id ok = (RingCopyNotActive, Some r)"
    and "receive_sequence r = sequence \<Longrightarrow> receive_lease_id r = lease \<Longrightarrow> receive_copy_id r \<noteq> 0 \<Longrightarrow>
      receive_copy_id r \<noteq> copy_id \<Longrightarrow>
      MessageRingEndCopyOut (Some r) sequence lease copy_id ok = (RingStaleCopyAttempt, Some r)"
  using args ring_invD(2,4) [OF inv]
  by (simp_all only: MessageRingEndCopyOut_def on_ptr_Some if_True if_False simp_thms fst_conv snd_conv)

text \<open>
  C28. Stale tokens have no effect. On a well-formed ring, publishing or aborting under a
  reservation id that is not the current one, beginning, ending, committing or cancelling a receive
  under a sequence number or a lease that is not the current one (whatever the copy id), and ending
  a copy under the current sequence and lease when no copy is active or another copy is, each
  return the status that names what is stale and change neither the ring nor memory.
\<close>

theorem message_ring_stale_tokens:
  assumes inv: "ring_inv m r q"
  shows "(rid \<noteq> 0 \<and> rid \<noteq> producer_reservation_id r \<longrightarrow>
      MessageRingPublishEnqueue m (Some r) rid OutNull = Some (RingStaleReservation, None, m, Some r) \<and>
      MessageRingAbortEnqueue (Some r) rid = (RingStaleReservation, Some r)) \<and>
    (sequence \<noteq> 0 \<and> lease \<noteq> 0 \<and> sequence \<noteq> receive_sequence r \<longrightarrow>
      MessageRingBeginCopyOut m (Some r) sequence lease OutLocal = Some (RingStaleSequence, Some zero_spans, Some r) \<and>
      (copy_id \<noteq> 0 \<longrightarrow> MessageRingEndCopyOut (Some r) sequence lease copy_id ok = (RingStaleSequence, Some r)) \<and>
      MessageRingCommit m (Some r) sequence lease = Some (RingStaleSequence, Some r) \<and>
      MessageRingCancelReceive (Some r) sequence lease = (RingStaleSequence, Some r)) \<and>
    (sequence \<noteq> 0 \<and> lease \<noteq> 0 \<and> sequence = receive_sequence r \<and> lease \<noteq> receive_lease_id r \<longrightarrow>
      MessageRingBeginCopyOut m (Some r) sequence lease OutLocal = Some (RingStaleReceiveLease, Some zero_spans, Some r) \<and>
      (copy_id \<noteq> 0 \<longrightarrow> MessageRingEndCopyOut (Some r) sequence lease copy_id ok = (RingStaleReceiveLease, Some r)) \<and>
      MessageRingCommit m (Some r) sequence lease = Some (RingStaleReceiveLease, Some r) \<and>
      MessageRingCancelReceive (Some r) sequence lease = (RingStaleReceiveLease, Some r)) \<and>
    (copy_id \<noteq> 0 \<and> receive_sequence r \<noteq> 0 \<and> receive_copy_id r \<noteq> copy_id \<longrightarrow>
      MessageRingEndCopyOut (Some r) (receive_sequence r) (receive_lease_id r) copy_id ok =
        (if receive_copy_id r = 0 then RingCopyNotActive else RingStaleCopyAttempt, Some r))"
proof (intro conjI impI; (elim conjE)?)
  assume "sequence \<noteq> 0" "lease \<noteq> 0" "sequence \<noteq> receive_sequence r" "copy_id \<noteq> 0"
  then show "MessageRingEndCopyOut (Some r) sequence lease copy_id ok = (RingStaleSequence, Some r)"
    using EndCopyOut_stale(1) [OF inv] by blast
next
  assume "sequence \<noteq> 0" "lease \<noteq> 0" "sequence = receive_sequence r" "lease \<noteq> receive_lease_id r" "copy_id \<noteq> 0"
  then show "MessageRingEndCopyOut (Some r) sequence lease copy_id ok = (RingStaleReceiveLease, Some r)"
    using EndCopyOut_stale(2) [OF inv] by blast
next
  assume "copy_id \<noteq> 0" "receive_sequence r \<noteq> 0" "receive_copy_id r \<noteq> copy_id"
  moreover from this have "receive_lease_id r \<noteq> 0"
    using ring_invD(6) [OF inv] by (simp add: receiver_valid_def)
  ultimately show "MessageRingEndCopyOut (Some r) (receive_sequence r) (receive_lease_id r) copy_id ok =
      (if receive_copy_id r = 0 then RingCopyNotActive else RingStaleCopyAttempt, Some r)"
    using EndCopyOut_stale(3,4) [OF inv] by simp
qed (use ring_invD(2,4) [OF inv] in
    \<open>simp_all add: MessageRingPublishEnqueue_def PublishLocked_eq [OF inv] MessageRingAbortEnqueue_def
      BeginCopyOut_local [OF inv] MessageRingCommit_def CommitLocked_eq [OF inv] MessageRingCancelReceive_def\<close>)

text \<open>On a ring whose frame is being copied out, under copy id 1: the current copy can be ended, and no
  token but the current ones can end it, commit the receive or abort an enqueue.\<close>

theorem message_ring_stale_tokens_witness:
  "ring_inv leased_mem (copying_ring leased_ring) [(1, sample_frame)] \<and>
   fst (MessageRingEndCopyOut (Some (copying_ring leased_ring)) 1 1 1 True) = RingOk \<and>
   MessageRingEndCopyOut (Some (copying_ring leased_ring)) 2 1 1 True = (RingStaleSequence, Some (copying_ring leased_ring)) \<and>
   MessageRingEndCopyOut (Some (copying_ring leased_ring)) 1 9 1 True = (RingStaleReceiveLease, Some (copying_ring leased_ring)) \<and>
   MessageRingEndCopyOut (Some (copying_ring leased_ring)) 1 1 7 True = (RingStaleCopyAttempt, Some (copying_ring leased_ring)) \<and>
   MessageRingCommit leased_mem (Some (copying_ring leased_ring)) 1 9 =
     Some (RingStaleReceiveLease, Some (copying_ring leased_ring)) \<and>
   MessageRingAbortEnqueue (Some (copying_ring leased_ring)) 5 = (RingStaleReservation, Some (copying_ring leased_ring))"
proof -
  let ?r = "copying_ring leased_ring"
  have now: "receive_sequence ?r = 1" "receive_lease_id ?r = 1" "receive_copy_id ?r = 1" "producer_reservation_id ?r = 0"
    by (simp_all add: copying_ring_def leased_ring_def sample_ring_def initial_ring_def)
  have inv: "ring_inv leased_mem ?r [(1, sample_frame)]"
    by (rule copying_ring_inv [OF leased_ring_inv]) (simp add: leased_ring_def)
  have "fst (MessageRingEndCopyOut (Some ?r) 1 1 1 True) = RingOk"
    using ring_invD(2,4) [OF inv] now by (simp add: MessageRingEndCopyOut_def)
  with now inv message_ring_stale_tokens [OF inv, of 5 2 1 1 True] message_ring_stale_tokens [OF inv, of 5 1 9 1 True]
    message_ring_stale_tokens [OF inv, of 5 1 9 7 True] show ?thesis
    by simp
qed

end
