(* ===== verification/RequestLedger.thy ===== *)
theory RequestLedger
  imports Prelude
begin

text \<open>
  The per-endpoint request ledger (\<^verbatim>\<open>kernel/ipc/endpoint_request_ledger.{h,cpp}\<close>): 32 slots that
  track reserved and committed requests of one endpoint epoch. The direction of an identity is
  decoded from a sender's key and can hold any 64-bit value, so it is a \<^typ>\<open>u64\<close> with named
  values; the slot and ledger states are written by the ledger only and are datatypes. A slot
  index that the source keeps in a \<^verbatim>\<open>u32\<close> is a natural number below the capacity, or the capacity
  for "no slot".
\<close>

section \<open>Data\<close>

definition kEndpointRequestEpochInvalid :: u64 where [kdefs]: "kEndpointRequestEpochInvalid = 0"
definition kEndpointRequestEpochMaximum :: u64 where [kdefs]: "kEndpointRequestEpochMaximum = 0xFFFFFFFFFFFFFFFF"
definition kEndpointRequestIdInvalid :: u64 where [kdefs]: "kEndpointRequestIdInvalid = 0"
definition kEndpointRequestIdMaximum :: u64 where [kdefs]: "kEndpointRequestIdMaximum = 0xFFFFFFFFFFFFFFFF"
definition kEndpointRequestLedgerCapacity :: u32 where [kdefs]: "kEndpointRequestLedgerCapacity = 32"
definition kNoEndpointRequestSlot :: nat where [kdefs]: "kNoEndpointRequestSlot = 32"

type_synonym EndpointRequestDirection = u64

definition DirectionInvalid :: EndpointRequestDirection where [kdefs]: "DirectionInvalid = 0"
definition InitiatorToAcceptor :: EndpointRequestDirection where [kdefs]: "InitiatorToAcceptor = 1"
definition AcceptorToInitiator :: EndpointRequestDirection where [kdefs]: "AcceptorToInitiator = 2"

record EndpointRequestLedgerIdentity =
  endpoint_epoch :: u64
  direction :: EndpointRequestDirection

definition kInvalidEndpointRequestLedgerIdentity :: EndpointRequestLedgerIdentity where
  "kInvalidEndpointRequestLedgerIdentity =
    \<lparr>endpoint_epoch = kEndpointRequestEpochInvalid, direction = DirectionInvalid\<rparr>"

definition EndpointRequestDirectionIsValid :: "EndpointRequestDirection \<Rightarrow> bool" where
  "EndpointRequestDirectionIsValid dir \<longleftrightarrow> dir = InitiatorToAcceptor \<or> dir = AcceptorToInitiator"

definition EndpointRequestLedgerIdentityIsValid :: "EndpointRequestLedgerIdentity \<Rightarrow> bool" where
  "EndpointRequestLedgerIdentityIsValid identity \<longleftrightarrow>
     endpoint_epoch identity \<noteq> kEndpointRequestEpochInvalid \<and> EndpointRequestDirectionIsValid (direction identity)"

record EndpointRequestKey =
  ledger_identity :: EndpointRequestLedgerIdentity
  request_id :: u64

definition kInvalidEndpointRequestKey :: EndpointRequestKey where
  "kInvalidEndpointRequestKey =
    \<lparr>ledger_identity = kInvalidEndpointRequestLedgerIdentity, request_id = kEndpointRequestIdInvalid\<rparr>"

definition EndpointRequestKeyIsValid :: "EndpointRequestKey \<Rightarrow> bool" where
  "EndpointRequestKeyIsValid key \<longleftrightarrow>
     EndpointRequestLedgerIdentityIsValid (ledger_identity key) \<and> request_id key \<noteq> kEndpointRequestIdInvalid"

record EndpointRequestCompletionAuthority =
  authority_key :: EndpointRequestKey

definition kInvalidEndpointRequestCompletionAuthority :: EndpointRequestCompletionAuthority where
  "kInvalidEndpointRequestCompletionAuthority = \<lparr>authority_key = kInvalidEndpointRequestKey\<rparr>"

definition EndpointRequestCompletionAuthorityIsValid :: "EndpointRequestCompletionAuthority \<Rightarrow> bool" where
  "EndpointRequestCompletionAuthorityIsValid authority \<longleftrightarrow> EndpointRequestKeyIsValid (authority_key authority)"

datatype EndpointRequestSlotState = SlotFree | SlotReserved | SlotCommitted

datatype EndpointRequestLedgerState =
  LedgerUninitialized | LedgerOpen | LedgerSequenceRetired | LedgerDraining

datatype EndpointRequestLedgerStatus =
    LedgerOk | LedgerInvalidArgument | LedgerNotInitialized | LedgerAlreadyInitialized
  | LedgerResetNotDrained | LedgerIdentityExhausted | LedgerCorruptState | LedgerIsDraining
  | LedgerSequenceExhausted | LedgerFull | LedgerStaleIdentity | LedgerOutOfOrder
  | LedgerReplayRejected | LedgerNotFound | LedgerNotCommitted

record EndpointRequestCommitResult =
  commit_status :: EndpointRequestLedgerStatus
  completion_authority :: EndpointRequestCompletionAuthority

text \<open>The first \<^verbatim>\<open>detached_count\<close> entries of the key array of a drain result.\<close>

record EndpointRequestDrainResult =
  drain_status :: EndpointRequestLedgerStatus
  detached_keys :: "EndpointRequestKey list"

record EndpointRequestSlot =
  slot_key :: EndpointRequestKey
  slot_state :: EndpointRequestSlotState

record EndpointRequestLedger =
  slots :: "EndpointRequestSlot list"
  ledger_id :: EndpointRequestLedgerIdentity
  next_request_id :: u64
  active_count :: u32
  next_free_hint :: u32
  ledger_state :: EndpointRequestLedgerState

section \<open>Helpers\<close>

definition clear_slot :: EndpointRequestSlot where
  "clear_slot = \<lparr>slot_key = kInvalidEndpointRequestKey, slot_state = SlotFree\<rparr>"

definition SlotIsClear :: "EndpointRequestSlot \<Rightarrow> bool" where
  "SlotIsClear slot \<longleftrightarrow> slot_state slot = SlotFree \<and> slot_key slot = kInvalidEndpointRequestKey"

definition first_index :: "(nat \<Rightarrow> bool) \<Rightarrow> nat list \<Rightarrow> nat" where
  "first_index P indices = (case find P indices of Some index \<Rightarrow> index | None \<Rightarrow> kNoEndpointRequestSlot)"

definition FindLiveSlot :: "EndpointRequestLedger \<Rightarrow> EndpointRequestKey \<Rightarrow> nat" where
  "FindLiveSlot ledger key =
    first_index (\<lambda>index. slot_state (slots ledger ! index) \<noteq> SlotFree \<and> slot_key (slots ledger ! index) = key)
      [0..<unat kEndpointRequestLedgerCapacity]"

definition FindFreeSlot :: "EndpointRequestLedger \<Rightarrow> nat" where
  "FindFreeSlot ledger =
    first_index (\<lambda>index. slot_state (slots ledger ! index) = SlotFree)
      (map (\<lambda>offset. unat ((next_free_hint ledger + of_nat offset) mod kEndpointRequestLedgerCapacity))
        [0..<unat kEndpointRequestLedgerCapacity])"

definition ConsumeSlot :: "EndpointRequestLedger \<Rightarrow> nat \<Rightarrow> EndpointRequestLedger" where
  "ConsumeSlot ledger index = ledger\<lparr>slots := (slots ledger)[index := clear_slot],
     active_count := active_count ledger - 1, next_free_hint := of_nat index\<rparr>"

fun canonical_scan :: "EndpointRequestLedger \<Rightarrow> nat list \<Rightarrow> u32 \<Rightarrow> bool" where
  "canonical_scan ledger [] observed_active = (observed_active = active_count ledger)"
| "canonical_scan ledger (index # rest) observed_active =
    (let slot = slots ledger ! index
     in if slot_state slot = SlotFree
        then (if \<not> SlotIsClear slot then False else canonical_scan ledger rest observed_active)
        else if ledger_state ledger = LedgerDraining \<or>
                (slot_state slot \<noteq> SlotReserved \<and> slot_state slot \<noteq> SlotCommitted) \<or>
                \<not> EndpointRequestKeyIsValid (slot_key slot) \<or> ledger_identity (slot_key slot) \<noteq> ledger_id ledger
        then False
        else if ledger_state ledger = LedgerOpen \<and> request_id (slot_key slot) \<ge> next_request_id ledger then False
        else if list_ex (\<lambda>previous. slot_state (slots ledger ! previous) \<noteq> SlotFree \<and>
                  slot_key (slots ledger ! previous) = slot_key slot) [0..<index]
        then False
        else canonical_scan ledger rest (observed_active + 1))"

definition EndpointRequestLedgerIsCanonical :: "EndpointRequestLedger \<Rightarrow> bool" where
  "EndpointRequestLedgerIsCanonical ledger =
    (if next_free_hint ledger \<ge> kEndpointRequestLedgerCapacity \<or> active_count ledger > kEndpointRequestLedgerCapacity
     then False
     else if ledger_state ledger = LedgerUninitialized
     then (if ledger_id ledger \<noteq> kInvalidEndpointRequestLedgerIdentity \<or>
              next_request_id ledger \<noteq> kEndpointRequestIdInvalid \<or> active_count ledger \<noteq> 0 \<or>
              next_free_hint ledger \<noteq> 0
           then False
           else list_all (\<lambda>index. SlotIsClear (slots ledger ! index)) [0..<unat kEndpointRequestLedgerCapacity])
     else if \<not> EndpointRequestLedgerIdentityIsValid (ledger_id ledger) then False
     else if (if ledger_state ledger = LedgerOpen then next_request_id ledger = kEndpointRequestIdInvalid
              else if ledger_state ledger = LedgerSequenceRetired
              then next_request_id ledger \<noteq> kEndpointRequestIdInvalid
              else if ledger_state ledger = LedgerDraining
              then next_request_id ledger \<noteq> kEndpointRequestIdInvalid \<or> active_count ledger \<noteq> 0
              else True)
     then False
     else canonical_scan ledger [0..<unat kEndpointRequestLedgerCapacity] 0)"

definition ValidateLedger :: "EndpointRequestLedger option \<Rightarrow> EndpointRequestLedgerStatus" where
  "ValidateLedger ledger =
    (case ledger of None \<Rightarrow> LedgerInvalidArgument
     | Some l \<Rightarrow> if \<not> EndpointRequestLedgerIsCanonical l then LedgerCorruptState
         else if ledger_state l = LedgerUninitialized then LedgerNotInitialized else LedgerOk)"

definition ValidateKeyForLedger :: "EndpointRequestLedger \<Rightarrow> EndpointRequestKey \<Rightarrow> EndpointRequestLedgerStatus" where
  "ValidateKeyForLedger ledger key =
    (if \<not> EndpointRequestKeyIsValid key then LedgerInvalidArgument
     else if ledger_identity key \<noteq> ledger_id ledger then LedgerStaleIdentity
     else LedgerOk)"

definition CommitFailure :: "EndpointRequestLedgerStatus \<Rightarrow> EndpointRequestCommitResult" where
  "CommitFailure status =
    \<lparr>commit_status = status, completion_authority = kInvalidEndpointRequestCompletionAuthority\<rparr>"

definition DrainFailure :: "EndpointRequestLedgerStatus \<Rightarrow> EndpointRequestDrainResult" where
  "DrainFailure status = \<lparr>drain_status = status, detached_keys = []\<rparr>"

definition ClassifyMissingKey :: "EndpointRequestLedger \<Rightarrow> EndpointRequestKey \<Rightarrow> EndpointRequestLedgerStatus" where
  "ClassifyMissingKey ledger key =
    (if ledger_state ledger = LedgerDraining then LedgerIsDraining
     else if ledger_state ledger = LedgerSequenceRetired then LedgerReplayRejected
     else if request_id key < next_request_id ledger then LedgerReplayRejected
     else if request_id key > next_request_id ledger then LedgerOutOfOrder
     else LedgerNotFound)"

section \<open>Operations\<close>

definition EndpointRequestLedgerInitialize ::
    "EndpointRequestLedger option \<Rightarrow> EndpointRequestLedgerIdentity \<Rightarrow> u64 \<Rightarrow>
      EndpointRequestLedgerStatus \<times> EndpointRequestLedger option" where
  "EndpointRequestLedgerInitialize ledger identity first_request_id =
    on_ptr ledger LedgerInvalidArgument (\<lambda>l.
      if \<not> EndpointRequestLedgerIsCanonical l then (LedgerCorruptState, l)
      else if ledger_state l \<noteq> LedgerUninitialized then (LedgerAlreadyInitialized, l)
      else if \<not> EndpointRequestLedgerIdentityIsValid identity \<or> first_request_id = kEndpointRequestIdInvalid
      then (LedgerInvalidArgument, l)
      else (LedgerOk, l\<lparr>ledger_id := identity, next_request_id := first_request_id, ledger_state := LedgerOpen\<rparr>))"

definition EndpointRequestLedgerReset ::
    "EndpointRequestLedger option \<Rightarrow> EndpointRequestLedgerIdentity \<Rightarrow> u64 \<Rightarrow>
      EndpointRequestLedgerStatus \<times> EndpointRequestLedger option" where
  "EndpointRequestLedgerReset ledger next_identity first_request_id =
    on_ptr ledger LedgerInvalidArgument (\<lambda>l.
      if \<not> EndpointRequestLedgerIsCanonical l then (LedgerCorruptState, l)
      else if ledger_state l = LedgerUninitialized then (LedgerNotInitialized, l)
      else if ledger_state l \<noteq> LedgerDraining then (LedgerResetNotDrained, l)
      else if \<not> EndpointRequestLedgerIdentityIsValid next_identity \<or>
              first_request_id = kEndpointRequestIdInvalid \<or> direction next_identity \<noteq> direction (ledger_id l)
      then (LedgerInvalidArgument, l)
      else if endpoint_epoch (ledger_id l) = kEndpointRequestEpochMaximum then (LedgerIdentityExhausted, l)
      else if endpoint_epoch next_identity \<le> endpoint_epoch (ledger_id l) then (LedgerStaleIdentity, l)
      else (LedgerOk, l\<lparr>ledger_id := next_identity, next_request_id := first_request_id, active_count := 0,
                        next_free_hint := 0, ledger_state := LedgerOpen\<rparr>))"

definition EndpointRequestLedgerReserve ::
    "EndpointRequestLedger option \<Rightarrow> EndpointRequestKey \<Rightarrow>
      EndpointRequestLedgerStatus \<times> EndpointRequestLedger option" where
  "EndpointRequestLedgerReserve ledger key =
    on_ptr ledger LedgerInvalidArgument (\<lambda>l.
      if ValidateLedger (Some l) \<noteq> LedgerOk then (ValidateLedger (Some l), l)
      else if ValidateKeyForLedger l key \<noteq> LedgerOk then (ValidateKeyForLedger l key, l)
      else if ledger_state l = LedgerDraining then (LedgerIsDraining, l)
      else if ledger_state l = LedgerSequenceRetired then (LedgerSequenceExhausted, l)
      else if request_id key < next_request_id l then (LedgerReplayRejected, l)
      else if request_id key > next_request_id l then (LedgerOutOfOrder, l)
      else
        let slot_index = FindFreeSlot l
        in if slot_index = kNoEndpointRequestSlot then (LedgerFull, l)
           else
             let l = l\<lparr>slots := (slots l)[slot_index := \<lparr>slot_key = key, slot_state = SlotReserved\<rparr>],
                       active_count := active_count l + 1,
                       next_free_hint := (of_nat slot_index + 1) mod kEndpointRequestLedgerCapacity\<rparr>
             in (LedgerOk,
                 if request_id key = kEndpointRequestIdMaximum
                 then l\<lparr>next_request_id := kEndpointRequestIdInvalid, ledger_state := LedgerSequenceRetired\<rparr>
                 else l\<lparr>next_request_id := request_id key + 1\<rparr>))"

definition EndpointRequestLedgerCommit ::
    "EndpointRequestLedger option \<Rightarrow> EndpointRequestKey \<Rightarrow>
      EndpointRequestCommitResult \<times> EndpointRequestLedger option" where
  "EndpointRequestLedgerCommit ledger key =
    on_ptr ledger (CommitFailure LedgerInvalidArgument) (\<lambda>l.
      if ValidateLedger (Some l) \<noteq> LedgerOk then (CommitFailure (ValidateLedger (Some l)), l)
      else if ValidateKeyForLedger l key \<noteq> LedgerOk then (CommitFailure (ValidateKeyForLedger l key), l)
      else if ledger_state l = LedgerDraining then (CommitFailure LedgerIsDraining, l)
      else
        let slot_index = FindLiveSlot l key
        in if slot_index = kNoEndpointRequestSlot then (CommitFailure (ClassifyMissingKey l key), l)
           else
             let slot = slots l ! slot_index
             in if slot_state slot \<noteq> SlotReserved then (CommitFailure LedgerReplayRejected, l)
                else (\<lparr>commit_status = LedgerOk, completion_authority = \<lparr>authority_key = key\<rparr>\<rparr>,
                      l\<lparr>slots := (slots l)[slot_index := slot\<lparr>slot_state := SlotCommitted\<rparr>]\<rparr>))"

definition EndpointRequestLedgerCancel ::
    "EndpointRequestLedger option \<Rightarrow> EndpointRequestKey \<Rightarrow>
      EndpointRequestLedgerStatus \<times> EndpointRequestLedger option" where
  "EndpointRequestLedgerCancel ledger key =
    on_ptr ledger LedgerInvalidArgument (\<lambda>l.
      if ValidateLedger (Some l) \<noteq> LedgerOk then (ValidateLedger (Some l), l)
      else if ValidateKeyForLedger l key \<noteq> LedgerOk then (ValidateKeyForLedger l key, l)
      else if ledger_state l = LedgerDraining then (LedgerIsDraining, l)
      else
        let slot_index = FindLiveSlot l key
        in if slot_index = kNoEndpointRequestSlot then (ClassifyMissingKey l key, l)
           else (LedgerOk, ConsumeSlot l slot_index))"

definition EndpointRequestLedgerComplete ::
    "EndpointRequestLedger option \<Rightarrow> EndpointRequestCompletionAuthority \<Rightarrow>
      EndpointRequestLedgerStatus \<times> EndpointRequestLedger option" where
  "EndpointRequestLedgerComplete ledger authority =
    on_ptr ledger LedgerInvalidArgument (\<lambda>l.
      if ValidateLedger (Some l) \<noteq> LedgerOk then (ValidateLedger (Some l), l)
      else if \<not> EndpointRequestCompletionAuthorityIsValid authority then (LedgerInvalidArgument, l)
      else
        let key = authority_key authority
        in if ValidateKeyForLedger l key \<noteq> LedgerOk then (ValidateKeyForLedger l key, l)
           else if ledger_state l = LedgerDraining then (LedgerIsDraining, l)
           else
             let slot_index = FindLiveSlot l key
             in if slot_index = kNoEndpointRequestSlot then (ClassifyMissingKey l key, l)
                else if slot_state (slots l ! slot_index) \<noteq> SlotCommitted then (LedgerNotCommitted, l)
                else (LedgerOk, ConsumeSlot l slot_index))"

definition drain_slot ::
    "nat \<Rightarrow> EndpointRequestLedger \<times> EndpointRequestKey list \<Rightarrow> EndpointRequestLedger \<times> EndpointRequestKey list" where
  "drain_slot index acc =
    (case acc of (l, detached) \<Rightarrow>
      (l\<lparr>slots := (slots l)[index := clear_slot]\<rparr>,
       if slot_state (slots l ! index) \<noteq> SlotFree then detached @ [slot_key (slots l ! index)] else detached))"

definition EndpointRequestLedgerDrain ::
    "EndpointRequestLedger option \<Rightarrow> EndpointRequestDrainResult \<times> EndpointRequestLedger option" where
  "EndpointRequestLedgerDrain ledger =
    on_ptr ledger (DrainFailure LedgerInvalidArgument) (\<lambda>l.
      if ValidateLedger (Some l) \<noteq> LedgerOk then (DrainFailure (ValidateLedger (Some l)), l)
      else if ledger_state l = LedgerDraining then (DrainFailure LedgerOk, l)
      else
        (case fold drain_slot [0..<unat kEndpointRequestLedgerCapacity] (l, []) of (l, detached) \<Rightarrow>
          (\<lparr>drain_status = LedgerOk, detached_keys = detached\<rparr>,
           l\<lparr>next_request_id := kEndpointRequestIdInvalid, active_count := 0, next_free_hint := 0,
             ledger_state := LedgerDraining\<rparr>)))"

definition EndpointRequestLedgerStatusName :: "EndpointRequestLedgerStatus \<Rightarrow> string" where
  "EndpointRequestLedgerStatusName status = (case status of
     LedgerOk \<Rightarrow> ''ok''
   | LedgerInvalidArgument \<Rightarrow> ''invalid-argument''
   | LedgerNotInitialized \<Rightarrow> ''not-initialized''
   | LedgerAlreadyInitialized \<Rightarrow> ''already-initialized''
   | LedgerResetNotDrained \<Rightarrow> ''reset-not-drained''
   | LedgerIdentityExhausted \<Rightarrow> ''identity-exhausted''
   | LedgerCorruptState \<Rightarrow> ''corrupt-state''
   | LedgerIsDraining \<Rightarrow> ''draining''
   | LedgerSequenceExhausted \<Rightarrow> ''sequence-exhausted''
   | LedgerFull \<Rightarrow> ''full''
   | LedgerStaleIdentity \<Rightarrow> ''stale-identity''
   | LedgerOutOfOrder \<Rightarrow> ''out-of-order''
   | LedgerReplayRejected \<Rightarrow> ''replay-rejected''
   | LedgerNotFound \<Rightarrow> ''not-found''
   | LedgerNotCommitted \<Rightarrow> ''not-committed'')"

end
