(* ===== verification/RequestLedgerInv.thy ===== *)
theory RequestLedgerInv
  imports RequestLedger
begin

text \<open>
  What a canonical request ledger is, stated on its slots: the scan of
  \<^verbatim>\<open>EndpointRequestLedgerIsCanonical\<close> as a conjunction of independent facts, the table of live
  requests that the slots represent, and the effect of one slot update on it.
\<close>

section \<open>The canonical form\<close>

definition slot_live :: "EndpointRequestSlot \<Rightarrow> bool" where
  "slot_live slot \<longleftrightarrow> slot_state slot \<noteq> SlotFree"

definition live_count :: "EndpointRequestLedger \<Rightarrow> nat" where
  "live_count l = length (filter slot_live (slots l))"

definition key_fits :: "EndpointRequestLedger \<Rightarrow> EndpointRequestKey \<Rightarrow> bool" where
  "key_fits l key \<longleftrightarrow> EndpointRequestKeyIsValid key \<and> ledger_identity key = ledger_id l \<and>
     (ledger_state l = LedgerOpen \<longrightarrow> request_id key < next_request_id l) \<and>
     (ledger_state l = LedgerOpen \<or> ledger_state l = LedgerSequenceRetired)"

definition slots_wf :: "EndpointRequestLedger \<Rightarrow> bool" where
  "slots_wf l \<longleftrightarrow> length (slots l) = 32 \<and>
     (\<forall>i<32. if slot_live (slots l ! i) then key_fits l (slot_key (slots l ! i)) else slots l ! i = clear_slot) \<and>
     (\<forall>i<32. \<forall>j<32. slot_live (slots l ! i) \<longrightarrow> slot_live (slots l ! j) \<longrightarrow>
        slot_key (slots l ! i) = slot_key (slots l ! j) \<longrightarrow> i = j)"

definition header_wf :: "EndpointRequestLedger \<Rightarrow> bool" where
  "header_wf l \<longleftrightarrow> unat (next_free_hint l) < 32 \<and>
     (ledger_state l = LedgerUninitialized \<longrightarrow>
        ledger_id l = kInvalidEndpointRequestLedgerIdentity \<and> next_free_hint l = 0) \<and>
     (ledger_state l \<noteq> LedgerUninitialized \<longrightarrow> EndpointRequestLedgerIdentityIsValid (ledger_id l)) \<and>
     (ledger_state l = LedgerOpen \<longleftrightarrow> next_request_id l \<noteq> 0)"

definition ledger_inv :: "EndpointRequestLedger \<Rightarrow> bool" where
  "ledger_inv l \<longleftrightarrow> slots_wf l \<and> header_wf l \<and> unat (active_count l) = live_count l"

lemma SlotIsClear_iff: "SlotIsClear slot \<longleftrightarrow> slot = clear_slot"
  by (auto simp: SlotIsClear_def clear_slot_def)

lemma clear_slot_dead [simp]: "\<not> slot_live clear_slot"
  by (simp add: clear_slot_def slot_live_def)

lemma live_count_indices:
  assumes "length (slots l) = n"
  shows "live_count l = length (filter (\<lambda>i. slot_live (slots l ! i)) [0..<n])"
proof -
  have "slots l = map (\<lambda>i. slots l ! i) [0..<n]"
    using assms by (metis map_nth)
  then have "filter slot_live (slots l) = map (\<lambda>i. slots l ! i) (filter (\<lambda>i. slot_live (slots l ! i)) [0..<n])"
    by (metis (mono_tags, lifting) filter_map comp_apply filter_cong)
  then show ?thesis
    by (simp add: live_count_def)
qed

text \<open>One round of the scan accepts a slot on this condition.\<close>

definition scan_ok :: "EndpointRequestLedger \<Rightarrow> nat \<Rightarrow> bool" where
  "scan_ok l i \<longleftrightarrow>
    (if slot_live (slots l ! i)
     then ledger_state l \<noteq> LedgerDraining \<and> EndpointRequestKeyIsValid (slot_key (slots l ! i)) \<and>
          ledger_identity (slot_key (slots l ! i)) = ledger_id l \<and>
          (ledger_state l = LedgerOpen \<longrightarrow> request_id (slot_key (slots l ! i)) < next_request_id l) \<and>
          (\<forall>p<i. slot_live (slots l ! p) \<longrightarrow> slot_key (slots l ! p) \<noteq> slot_key (slots l ! i))
     else slots l ! i = clear_slot)"

lemma canonical_scan_Cons:
  "canonical_scan l (i # rest) c \<longleftrightarrow> scan_ok l i \<and>
     canonical_scan l rest (if slot_live (slots l ! i) then c + 1 else c)"
  by (cases "slot_state (slots l ! i)")
     (auto simp: scan_ok_def slot_live_def SlotIsClear_iff Let_def list_ex_iff not_le)

lemma canonical_scan_iff:
  "canonical_scan l is c \<longleftrightarrow> (\<forall>i\<in>set is. scan_ok l i) \<and>
     c + of_nat (length (filter (\<lambda>i. slot_live (slots l ! i)) is)) = active_count l"
  by (induction "is" arbitrary: c)
     (auto simp: canonical_scan_Cons algebra_simps simp del: canonical_scan.simps(2))

lemma live_count_le: "length (slots l) = 32 \<Longrightarrow> live_count l \<le> 32"
  using length_filter_le [of slot_live "slots l"] by (simp add: live_count_def)

lemma scan_count:
  assumes "length (slots l) = 32"
  shows "0 + of_nat (length (filter (\<lambda>i. slot_live (slots l ! i)) [0..<32])) = active_count l \<longleftrightarrow>
    unat (active_count l) = live_count l"
proof -
  have "live_count l < 2 ^ 32"
    using live_count_le [OF assms] by simp
  then have "unat (of_nat (live_count l) :: u32) = live_count l"
    by (simp add: unat_of_nat_u32)
  then show ?thesis
    unfolding live_count_indices [OF assms, symmetric] add_0 by (metis word_unat_eq_iff)
qed

lemma scan_ok_all:
  assumes "length (slots l) = 32" and "ledger_state l \<noteq> LedgerUninitialized"
  shows "(\<forall>i\<in>set [0..<32]. scan_ok l i) \<longleftrightarrow> slots_wf l"
proof
  assume ok: "\<forall>i\<in>set [0..<32]. scan_ok l i"
  then have "if slot_live (slots l ! i) then key_fits l (slot_key (slots l ! i)) else slots l ! i = clear_slot"
    if "i < 32" for i
    using that assms(2) by (cases "ledger_state l") (force simp: scan_ok_def key_fits_def)+
  moreover have "i = j" if "i < 32" "j < 32" "slot_live (slots l ! i)" "slot_live (slots l ! j)"
    "slot_key (slots l ! i) = slot_key (slots l ! j)" for i j
  proof (rule ccontr)
    assume "i \<noteq> j"
    then consider "i < j" | "j < i" by linarith
    then show False
      using ok that by cases (force simp: scan_ok_def)+
  qed
  ultimately show "slots_wf l"
    using assms(1) by (simp add: slots_wf_def)
next
  assume wf: "slots_wf l"
  show "\<forall>i\<in>set [0..<32]. scan_ok l i"
  proof
    fix i assume "i \<in> set [0..<32]"
    then have i: "i < 32" by simp
    have "slot_key (slots l ! p) \<noteq> slot_key (slots l ! i)"
      if "p < i" "slot_live (slots l ! p)" "slot_live (slots l ! i)" for p
    proof -
      from i that(1) have "p < 32" "p \<noteq> i" by simp_all
      then show ?thesis using wf i that unfolding slots_wf_def by blast
    qed
    then show "scan_ok l i"
      using wf i by (auto simp: scan_ok_def slots_wf_def key_fits_def split: if_splits)
  qed
qed

lemma slots_wf_dead:
  assumes "length (slots l) = 32" and "ledger_state l = LedgerUninitialized \<or> ledger_state l = LedgerDraining"
  shows "slots_wf l \<longleftrightarrow> (\<forall>i<32. slots l ! i = clear_slot)"
  using assms by (auto simp: slots_wf_def key_fits_def split: if_splits)

lemma live_count_dead:
  assumes "length (slots l) = 32" and "\<forall>i<32. slots l ! i = clear_slot"
  shows "live_count l = 0"
  using assms by (auto simp: live_count_def filter_empty_conv in_set_conv_nth)

lemma capacity_unat [simp]: "unat kEndpointRequestLedgerCapacity = 32"
  by (simp add: kdefs)

lemma canonical_uninitialized:
  assumes "length (slots l) = 32" and "ledger_state l = LedgerUninitialized"
  shows "EndpointRequestLedgerIsCanonical l \<longleftrightarrow> ledger_inv l"
proof -
  have "slots_wf l \<and> unat (active_count l) = live_count l \<longleftrightarrow>
      (\<forall>i<32. slots l ! i = clear_slot) \<and> active_count l = 0"
    using assms live_count_dead by (auto simp: slots_wf_dead unat_eq_0)
  then show ?thesis
    using assms(2)
    by (auto simp: EndpointRequestLedgerIsCanonical_def ledger_inv_def header_wf_def list_all_iff
        SlotIsClear_iff word_le_nat_alt word_less_nat_alt not_le not_less kdefs)
qed

lemma canonical_initialized:
  assumes "length (slots l) = 32" and "ledger_state l \<noteq> LedgerUninitialized"
  shows "EndpointRequestLedgerIsCanonical l \<longleftrightarrow> ledger_inv l"
proof -
  have count: "active_count l \<le> 32" if "unat (active_count l) = live_count l"
    using live_count_le [OF assms(1)] that by (simp add: word_le_nat_alt)
  have drained: "active_count l = 0" if "ledger_state l = LedgerDraining" "slots_wf l"
      "unat (active_count l) = live_count l"
    using that assms(1) live_count_dead by (simp add: slots_wf_dead unat_eq_0)
  have scan: "canonical_scan l [0..<32] 0 \<longleftrightarrow> slots_wf l \<and> unat (active_count l) = live_count l"
    by (simp only: canonical_scan_iff scan_ok_all [OF assms] scan_count [OF assms(1)])
  show ?thesis
    unfolding EndpointRequestLedgerIsCanonical_def capacity_unat scan
    using assms(2) count drained
    by (cases "ledger_state l")
       (auto simp: ledger_inv_def header_wf_def word_le_nat_alt word_less_nat_alt kdefs)
qed

lemma canonical_iff:
  "length (slots l) = 32 \<Longrightarrow> EndpointRequestLedgerIsCanonical l \<longleftrightarrow> ledger_inv l"
  using canonical_uninitialized canonical_initialized by blast

lemma ledger_inv_length [simp]: "ledger_inv l \<Longrightarrow> length (slots l) = 32"
  by (simp add: ledger_inv_def slots_wf_def)

lemma ledger_inv_canonical [simp]: "ledger_inv l \<Longrightarrow> EndpointRequestLedgerIsCanonical l"
  by (simp add: canonical_iff)

section \<open>The table of live requests\<close>

definition rows :: "EndpointRequestLedger \<Rightarrow> EndpointRequestKey \<rightharpoonup> EndpointRequestSlotState" where
  "rows l key = (let i = FindLiveSlot l key
     in if i = kNoEndpointRequestSlot then None else Some (slot_state (slots l ! i)))"

lemma first_index_none:
  "set is \<subseteq> {..<32} \<Longrightarrow> first_index P is = kNoEndpointRequestSlot \<longleftrightarrow> (\<forall>i\<in>set is. \<not> P i)"
  by (auto simp: first_index_def kdefs find_None_iff find_Some_iff split: option.splits
      dest!: nth_mem dest: subsetD)

lemma first_index_some:
  "first_index P is = i \<Longrightarrow> i \<noteq> kNoEndpointRequestSlot \<Longrightarrow> i \<in> set is \<and> P i"
  by (auto simp: first_index_def find_Some_iff split: option.splits)

lemma FindLiveSlot_none:
  "FindLiveSlot l k = kNoEndpointRequestSlot \<longleftrightarrow> (\<forall>i<32. slot_live (slots l ! i) \<longrightarrow> slot_key (slots l ! i) \<noteq> k)"
  unfolding FindLiveSlot_def capacity_unat
  by (subst first_index_none) (auto simp: slot_live_def)

lemma FindLiveSlot_some:
  "FindLiveSlot l k = i \<Longrightarrow> i \<noteq> kNoEndpointRequestSlot \<Longrightarrow>
    i < 32 \<and> slot_live (slots l ! i) \<and> slot_key (slots l ! i) = k"
  unfolding FindLiveSlot_def capacity_unat
  by (drule first_index_some) (auto simp: slot_live_def)

lemma rows_None: "rows l k = None \<longleftrightarrow> (\<forall>i<32. slot_live (slots l ! i) \<longrightarrow> slot_key (slots l ! i) \<noteq> k)"
  by (simp add: rows_def Let_def flip: FindLiveSlot_none)

lemma rows_Some:
  assumes "slots_wf l"
  shows "rows l k = Some s \<longleftrightarrow>
    (\<exists>i<32. slot_live (slots l ! i) \<and> slot_key (slots l ! i) = k \<and> slot_state (slots l ! i) = s)"
    (is "_ \<longleftrightarrow> ?R")
proof
  assume "rows l k = Some s"
  then have "FindLiveSlot l k \<noteq> kNoEndpointRequestSlot" "slot_state (slots l ! FindLiveSlot l k) = s"
    by (auto simp: rows_def Let_def split: if_splits)
  with FindLiveSlot_some show ?R by blast
next
  assume ?R
  then obtain i where i: "i < 32" "slot_live (slots l ! i)" "slot_key (slots l ! i) = k" "slot_state (slots l ! i) = s"
    by blast
  then have ne: "FindLiveSlot l k \<noteq> kNoEndpointRequestSlot"
    using FindLiveSlot_none by blast
  from FindLiveSlot_some [OF refl this] i assms have "FindLiveSlot l k = i"
    unfolding slots_wf_def by blast
  with ne i(4) show "rows l k = Some s"
    by (simp add: rows_def)
qed

lemma rows_live_index:
  assumes "slots_wf l" and "i < 32" and "slot_live (slots l ! i)"
  shows "rows l (slot_key (slots l ! i)) = Some (slot_state (slots l ! i))"
  using assms by (subst rows_Some) auto

lemma rows_not_free: "slots_wf l \<Longrightarrow> rows l k \<noteq> Some SlotFree"
  by (auto simp: rows_Some slot_live_def)

lemma rows_fit:
  assumes "slots_wf l" and "rows l k = Some s"
  shows "key_fits l k"
proof -
  from assms rows_Some obtain i where "i < 32" "slot_live (slots l ! i)" "slot_key (slots l ! i) = k"
    by blast
  with assms(1) show ?thesis
    unfolding slots_wf_def by metis
qed

lemma dom_rows:
  "slots_wf l \<Longrightarrow> dom (rows l) = (\<lambda>i. slot_key (slots l ! i)) ` {i. i < 32 \<and> slot_live (slots l ! i)}"
  by (auto simp: dom_def rows_None simp flip: not_None_eq)

lemma card_rows:
  assumes "slots_wf l"
  shows "card (dom (rows l)) = live_count l"
proof -
  let ?I = "{i. i < 32 \<and> slot_live (slots l ! i)}"
  have inj: "inj_on (\<lambda>i. slot_key (slots l ! i)) ?I"
    using assms unfolding slots_wf_def inj_on_def by blast
  have "?I = set (filter (\<lambda>i. slot_live (slots l ! i)) [0..<32])"
    by auto
  then have "card ?I = length (filter (\<lambda>i. slot_live (slots l ! i)) [0..<32])"
    by (metis distinct_card distinct_filter distinct_upt)
  also have "\<dots> = live_count l"
    using assms by (simp add: live_count_indices slots_wf_def)
  finally show ?thesis
    by (simp add: dom_rows [OF assms] card_image [OF inj])
qed

lemma rows_empty: "(\<forall>i<32. slots l ! i = clear_slot) \<Longrightarrow> rows l = Map.empty"
  by (auto simp: fun_eq_iff rows_None)

lemma rows_slots: "slots l = slots l' \<Longrightarrow> rows l = rows l'"
  by (simp add: rows_def FindLiveSlot_def fun_eq_iff Let_def)

section \<open>Slot updates\<close>

lemma FindFreeSlot_indices:
  assumes "unat (h :: u32) < 32"
  shows "set (map (\<lambda>offset. unat ((h + of_nat offset) mod 32)) [0..<32]) = {..<32}"
proof -
  have step: "unat ((h + of_nat k) mod 32) = (unat h + k) mod 32" if "k < 32" for k
  proof -
    have k: "unat (of_nat k :: u32) = k"
      using that by (simp add: unat_of_nat_u32)
    have "unat (h + of_nat k) = unat h + k"
      using assms that k by (subst unat_add_lt) simp_all
    then show ?thesis
      by (simp add: unat_mod)
  qed
  have "t \<in> (\<lambda>k. (unat h + k) mod 32) ` {0..<32}" if "t < 32" for t
  proof
    show "t = (unat h + (t + 32 - unat h) mod 32) mod 32"
      using that assms by (simp add: mod_simps)
  qed simp
  then show ?thesis
    using step by (auto simp: image_iff Ball_def)
qed

lemma FindFreeSlot_full:
  assumes "slots_wf l" and "unat (next_free_hint l) < 32"
  shows "FindFreeSlot l = kNoEndpointRequestSlot \<longleftrightarrow> card (dom (rows l)) = 32"
proof -
  have len: "length (slots l) = 32"
    using assms(1) by (simp add: slots_wf_def)
  have "FindFreeSlot l = kNoEndpointRequestSlot \<longleftrightarrow> (\<forall>i<32. slot_live (slots l ! i))"
    unfolding FindFreeSlot_def capacity_unat
    using FindFreeSlot_indices [OF assms(2)]
    by (simp only: first_index_none kEndpointRequestLedgerCapacity_def order_refl) (auto simp: slot_live_def)
  also have "\<dots> \<longleftrightarrow> filter slot_live (slots l) = slots l"
    using len by (simp add: filter_id_conv all_set_conv_all_nth)
  also have "\<dots> \<longleftrightarrow> live_count l = 32"
    using len by (metis filter_True length_filter_less live_count_def filter_id_conv order_less_irrefl)
  finally show ?thesis
    by (simp add: card_rows assms(1))
qed

lemma FindFreeSlot_some:
  assumes "unat (next_free_hint l) < 32" and "FindFreeSlot l \<noteq> kNoEndpointRequestSlot"
  shows "FindFreeSlot l < 32" and "\<not> slot_live (slots l ! FindFreeSlot l)"
proof -
  from first_index_some [OF FindFreeSlot_def [symmetric, of l] assms(2)]
  have "FindFreeSlot l \<in> {..<32}" "slot_state (slots l ! FindFreeSlot l) = SlotFree"
    unfolding capacity_unat
    by (simp_all only: kEndpointRequestLedgerCapacity_def FindFreeSlot_indices [OF assms(1)])
  then show "FindFreeSlot l < 32" "\<not> slot_live (slots l ! FindFreeSlot l)"
    by (simp_all add: slot_live_def)
qed

lemma option_ext: "(\<And>s. x = Some s \<longleftrightarrow> y = Some s) \<Longrightarrow> x = y"
  by (metis not_None_eq)

lemma rows_update_other:
  assumes "length (slots l) = 32" and "i < 32" and "slots l' = (slots l)[i := new]"
    and "slot_live (slots l ! i) \<Longrightarrow> slot_key (slots l ! i) \<noteq> k" and "slot_live new \<Longrightarrow> slot_key new \<noteq> k"
    and "slots_wf l" and "slots_wf l'"
  shows "rows l' k = rows l k"
proof -
  have "slot_live (slots l' ! j) \<and> slot_key (slots l' ! j) = k \<and> slot_state (slots l' ! j) = s \<longleftrightarrow>
      slot_live (slots l ! j) \<and> slot_key (slots l ! j) = k \<and> slot_state (slots l ! j) = s" for j s
  proof (cases "j = i")
    case True
    then have "slots l' ! j = new" using assms(1-3) by simp
    with True assms(4,5) show ?thesis by blast
  next
    case False
    then have "slots l' ! j = slots l ! j" using assms(3) by simp
    then show ?thesis by simp
  qed
  then have "rows l' k = Some s \<longleftrightarrow> rows l k = Some s" for s
    unfolding rows_Some [OF assms(6)] rows_Some [OF assms(7)] by blast
  then show ?thesis
    by (rule option_ext)
qed

lemma rows_update_live:
  assumes wf: "slots_wf l" and i: "i < 32" and new: "slot_live new" and s': "slots l' = (slots l)[i := new]"
    and here: "slot_live (slots l ! i) \<Longrightarrow> slot_key (slots l ! i) = slot_key new"
    and wf': "slots_wf l'"
  shows "rows l' = (rows l)(slot_key new \<mapsto> slot_state new)"
proof
  fix k
  have len: "length (slots l) = 32" using wf by (simp add: slots_wf_def)
  show "rows l' k = ((rows l)(slot_key new \<mapsto> slot_state new)) k"
  proof (cases "k = slot_key new")
    case True
    have "slots l' ! i = new" using s' i len by simp
    then have "rows l' k = Some (slot_state new)"
      unfolding rows_Some [OF wf'] using True i new by blast
    with True show ?thesis by simp
  next
    case False
    with rows_update_other [OF len i s' _ _ wf wf', of k] here show ?thesis by auto
  qed
qed

lemma rows_update_dead:
  assumes wf: "slots_wf l" and i: "i < 32" and s': "slots l' = (slots l)[i := clear_slot]"
    and live: "slot_live (slots l ! i)" and wf': "slots_wf l'"
  shows "rows l' = (rows l)(slot_key (slots l ! i) := None)"
proof
  fix k
  have len: "length (slots l) = 32" using wf by (simp add: slots_wf_def)
  show "rows l' k = ((rows l)(slot_key (slots l ! i) := None)) k"
  proof (cases "k = slot_key (slots l ! i)")
    case True
    have "slot_key (slots l' ! j) \<noteq> k" if "j < 32" "slot_live (slots l' ! j)" for j
    proof -
      have "j \<noteq> i" using that(2) len i s' by auto
      then have same: "slots l' ! j = slots l ! j" using s' by simp
      with that(2) have "slot_live (slots l ! j)" by simp
      with wf i live that(1) \<open>j \<noteq> i\<close> have "slot_key (slots l ! j) \<noteq> slot_key (slots l ! i)"
        unfolding slots_wf_def by blast
      with True same show ?thesis by simp
    qed
    then have "rows l' k = None"
      by (simp add: rows_None)
    with True show ?thesis by simp
  next
    case False
    with rows_update_other [OF len i s' _ _ wf wf', of k] show ?thesis by auto
  qed
qed

end
