(* ===== verification/RequestLedgerOps.thy ===== *)
theory RequestLedgerOps
  imports RequestLedgerInv
begin

text \<open>
  The request ledger as an implementation of a finite table of live requests. \<open>request_table\<close> is
  what the ledger promises, with no slots, hints or counters; each operation of
  \<^verbatim>\<open>kernel/ipc/endpoint_request_ledger.cpp\<close> refines the operation on the table, status codes
  included. On top of it, the life of a request over every sequence of operations.
\<close>

section \<open>The abstract table\<close>

record request_table =
  table_id :: EndpointRequestLedgerIdentity
  table_state :: EndpointRequestLedgerState
  table_next :: u64
  table_rows :: "EndpointRequestKey \<rightharpoonup> EndpointRequestSlotState"

definition ledger_abs :: "EndpointRequestLedger \<Rightarrow> request_table" where
  "ledger_abs l = \<lparr>table_id = ledger_id l, table_state = ledger_state l, table_next = next_request_id l,
     table_rows = rows l\<rparr>"

lemma ledger_abs_sel [simp]:
  "table_id (ledger_abs l) = ledger_id l" "table_state (ledger_abs l) = ledger_state l"
  "table_next (ledger_abs l) = next_request_id l" "table_rows (ledger_abs l) = rows l"
  by (simp_all add: ledger_abs_def)

definition table_initialize ::
    "EndpointRequestLedgerIdentity \<Rightarrow> u64 \<Rightarrow> request_table \<Rightarrow> EndpointRequestLedgerStatus \<times> request_table" where
  "table_initialize ident first t =
    (if table_state t \<noteq> LedgerUninitialized then (LedgerAlreadyInitialized, t)
     else if \<not> EndpointRequestLedgerIdentityIsValid ident \<or> first = 0 then (LedgerInvalidArgument, t)
     else (LedgerOk, t\<lparr>table_id := ident, table_next := first, table_state := LedgerOpen\<rparr>))"

definition table_reset ::
    "EndpointRequestLedgerIdentity \<Rightarrow> u64 \<Rightarrow> request_table \<Rightarrow> EndpointRequestLedgerStatus \<times> request_table" where
  "table_reset ident first t =
    (if table_state t = LedgerUninitialized then (LedgerNotInitialized, t)
     else if table_state t \<noteq> LedgerDraining then (LedgerResetNotDrained, t)
     else if \<not> EndpointRequestLedgerIdentityIsValid ident \<or> first = 0 \<or> direction ident \<noteq> direction (table_id t)
     then (LedgerInvalidArgument, t)
     else if endpoint_epoch (table_id t) = kU64Max then (LedgerIdentityExhausted, t)
     else if endpoint_epoch ident \<le> endpoint_epoch (table_id t) then (LedgerStaleIdentity, t)
     else (LedgerOk, t\<lparr>table_id := ident, table_next := first, table_state := LedgerOpen\<rparr>))"

text \<open>The checks that every operation on a key makes first.\<close>

definition table_gate :: "EndpointRequestKey \<Rightarrow> request_table \<Rightarrow> EndpointRequestLedgerStatus" where
  "table_gate key t =
    (if table_state t = LedgerUninitialized then LedgerNotInitialized
     else if \<not> EndpointRequestKeyIsValid key then LedgerInvalidArgument
     else if ledger_identity key \<noteq> table_id t then LedgerStaleIdentity
     else if table_state t = LedgerDraining then LedgerIsDraining
     else LedgerOk)"

definition table_missing :: "EndpointRequestKey \<Rightarrow> request_table \<Rightarrow> EndpointRequestLedgerStatus" where
  "table_missing key t =
    (if table_state t = LedgerSequenceRetired \<or> request_id key < table_next t then LedgerReplayRejected
     else if request_id key > table_next t then LedgerOutOfOrder
     else LedgerNotFound)"

definition table_reserve ::
    "EndpointRequestKey \<Rightarrow> request_table \<Rightarrow> EndpointRequestLedgerStatus \<times> request_table" where
  "table_reserve key t =
    (if table_gate key t \<noteq> LedgerOk then (table_gate key t, t)
     else if table_state t = LedgerSequenceRetired then (LedgerSequenceExhausted, t)
     else if request_id key < table_next t then (LedgerReplayRejected, t)
     else if request_id key > table_next t then (LedgerOutOfOrder, t)
     else if card (dom (table_rows t)) = 32 then (LedgerFull, t)
     else (LedgerOk, t\<lparr>table_rows := (table_rows t)(key \<mapsto> SlotReserved),
       table_state := (if request_id key = kU64Max then LedgerSequenceRetired else LedgerOpen),
       table_next := request_id key + 1\<rparr>))"

definition table_commit ::
    "EndpointRequestKey \<Rightarrow> request_table \<Rightarrow> EndpointRequestCommitResult \<times> request_table" where
  "table_commit key t =
    (if table_gate key t \<noteq> LedgerOk then (CommitFailure (table_gate key t), t)
     else case table_rows t key of
       None \<Rightarrow> (CommitFailure (table_missing key t), t)
     | Some s \<Rightarrow>
         if s = SlotReserved
         then (\<lparr>commit_status = LedgerOk, completion_authority = \<lparr>authority_key = key\<rparr>\<rparr>,
               t\<lparr>table_rows := (table_rows t)(key \<mapsto> SlotCommitted)\<rparr>)
         else (CommitFailure LedgerReplayRejected, t))"

definition table_cancel ::
    "EndpointRequestKey \<Rightarrow> request_table \<Rightarrow> EndpointRequestLedgerStatus \<times> request_table" where
  "table_cancel key t =
    (if table_gate key t \<noteq> LedgerOk then (table_gate key t, t)
     else case table_rows t key of
       None \<Rightarrow> (table_missing key t, t)
     | Some s \<Rightarrow> (LedgerOk, t\<lparr>table_rows := (table_rows t)(key := None)\<rparr>))"

definition table_complete ::
    "EndpointRequestKey \<Rightarrow> request_table \<Rightarrow> EndpointRequestLedgerStatus \<times> request_table" where
  "table_complete key t =
    (if table_gate key t \<noteq> LedgerOk then (table_gate key t, t)
     else case table_rows t key of
       None \<Rightarrow> (table_missing key t, t)
     | Some s \<Rightarrow>
         if s = SlotCommitted then (LedgerOk, t\<lparr>table_rows := (table_rows t)(key := None)\<rparr>)
         else (LedgerNotCommitted, t))"

definition table_drain ::
    "request_table \<Rightarrow> (EndpointRequestLedgerStatus \<times> EndpointRequestKey set) \<times> request_table" where
  "table_drain t =
    (if table_state t = LedgerUninitialized then ((LedgerNotInitialized, {}), t)
     else if table_state t = LedgerDraining then ((LedgerOk, {}), t)
     else ((LedgerOk, dom (table_rows t)),
       t\<lparr>table_rows := Map.empty, table_state := LedgerDraining, table_next := 0\<rparr>))"

section \<open>Refinement\<close>

definition ledger_refines ::
    "(EndpointRequestLedger option \<Rightarrow> 'r \<times> EndpointRequestLedger option) \<Rightarrow> ('r \<Rightarrow> 's) \<Rightarrow>
      (request_table \<Rightarrow> 's \<times> request_table) \<Rightarrow> bool" where
  "ledger_refines f res g \<longleftrightarrow> (\<forall>l. ledger_inv l \<longrightarrow>
     (\<exists>r l'. f (Some l) = (r, Some l') \<and> ledger_inv l' \<and> g (ledger_abs l) = (res r, ledger_abs l')))"

lemma ledger_refinesI:
  assumes "\<And>l. ledger_inv l \<Longrightarrow>
    (\<exists>r l'. f (Some l) = (r, Some l') \<and> ledger_inv l' \<and> g (ledger_abs l) = (res r, ledger_abs l'))"
  shows "ledger_refines f res g"
  using assms by (simp add: ledger_refines_def)

lemma ledger_refinesD:
  assumes "ledger_refines f res g" and "ledger_inv l" and "f (Some l) = (r, Some l')"
  shows "ledger_inv l' \<and> g (ledger_abs l) = (res r, ledger_abs l')"
  using assms by (auto simp: ledger_refines_def)

lemma ledger_inv_slots_wf [simp]: "ledger_inv l \<Longrightarrow> slots_wf l"
  by (simp add: ledger_inv_def)

lemma ledger_inv_header: "ledger_inv l \<Longrightarrow> header_wf l"
  by (simp add: ledger_inv_def)

lemma ledger_inv_active: "ledger_inv l \<Longrightarrow> unat (active_count l) = live_count l \<and> live_count l \<le> 32"
  unfolding ledger_inv_def slots_wf_def using live_count_le by blast

lemma ledger_inv_hint [simp]: "ledger_inv l \<Longrightarrow> unat (next_free_hint l) < 32"
  using ledger_inv_header header_wf_def by blast

lemma ValidateLedger_inv:
  "ledger_inv l \<Longrightarrow> ValidateLedger (Some l) =
    (if ledger_state l = LedgerUninitialized then LedgerNotInitialized else LedgerOk)"
  by (simp add: ValidateLedger_def)

lemma table_gate_abs:
  "table_gate key (ledger_abs l) =
    (if ledger_state l = LedgerUninitialized then LedgerNotInitialized
     else if ValidateKeyForLedger l key \<noteq> LedgerOk then ValidateKeyForLedger l key
     else if ledger_state l = LedgerDraining then LedgerIsDraining
     else LedgerOk)"
  by (simp add: table_gate_def ValidateKeyForLedger_def)

lemma table_missing_abs:
  "ledger_state l \<noteq> LedgerDraining \<Longrightarrow> table_missing key (ledger_abs l) = ClassifyMissingKey l key"
  by (simp add: table_missing_def ClassifyMissingKey_def)

text \<open>The invariant after a slot is rewritten, with the header fields that change along with it.\<close>

lemma slots_wf_update:
  assumes wf: "slots_wf l" and s': "slots l' = (slots l)[i := new]" and i: "i < 32"
    and fits: "\<And>k. key_fits l k \<Longrightarrow> key_fits l' k"
    and new: "if slot_live new then key_fits l' (slot_key new) else new = clear_slot"
    and fresh: "\<And>j. slot_live new \<Longrightarrow> j < 32 \<Longrightarrow> j \<noteq> i \<Longrightarrow> slot_live (slots l ! j) \<Longrightarrow>
      slot_key (slots l ! j) \<noteq> slot_key new"
  shows "slots_wf l'"
proof -
  have len: "length (slots l) = 32" using wf by (simp add: slots_wf_def)
  have at_i: "slots l' ! i = new" using s' i len by simp
  have at_j: "slots l' ! j = slots l ! j" if "j \<noteq> i" for j using s' that by simp
  have "if slot_live (slots l' ! j) then key_fits l' (slot_key (slots l' ! j)) else slots l' ! j = clear_slot"
    if "j < 32" for j
  proof (cases "j = i")
    case True
    with at_i new show ?thesis by simp
  next
    case False
    with wf that fits show ?thesis by (simp add: slots_wf_def at_j split: if_splits)
  qed
  moreover have "j = k" if "j < 32" "k < 32" "slot_live (slots l' ! j)" "slot_live (slots l' ! k)"
    "slot_key (slots l' ! j) = slot_key (slots l' ! k)" for j k
  proof (rule ccontr)
    assume "j \<noteq> k"
    then consider "j = i" "k \<noteq> i" | "j \<noteq> i" "k = i" | "j \<noteq> i" "k \<noteq> i" by blast
    then show False
    proof cases
      case 1
      with that at_i at_j [of k] fresh [of k] show ?thesis by simp
    next
      case 2
      with that at_i at_j [of j] fresh [of j] show ?thesis by simp
    next
      case 3
      with that at_j have "slot_live (slots l ! j)" "slot_live (slots l ! k)"
        "slot_key (slots l ! j) = slot_key (slots l ! k)" by simp_all
      with wf that(1,2) \<open>j \<noteq> k\<close> show ?thesis unfolding slots_wf_def by blast
    qed
  qed
  moreover have "length (slots l') = 32"
    using s' len by simp
  ultimately show ?thesis
    unfolding slots_wf_def by blast
qed

lemma count_update:
  assumes "length (slots l) = 32" and "i < 32" and "slots l' = (slots l)[i := new]"
  shows "\<not> slot_live (slots l ! i) \<Longrightarrow> slot_live new \<Longrightarrow> live_count l' = Suc (live_count l)"
    and "slot_live (slots l ! i) \<Longrightarrow> \<not> slot_live new \<Longrightarrow> live_count l = Suc (live_count l')"
    and "slot_live (slots l ! i) = slot_live new \<Longrightarrow> live_count l' = live_count l"
proof -
  have i: "i < length (slots l)" using assms by simp
  show "\<not> slot_live (slots l ! i) \<Longrightarrow> slot_live new \<Longrightarrow> live_count l' = Suc (live_count l)"
    unfolding live_count_def assms(3) by (rule filter_update_add [OF i])
  show "slot_live (slots l ! i) \<Longrightarrow> \<not> slot_live new \<Longrightarrow> live_count l = Suc (live_count l')"
    unfolding live_count_def assms(3) by (rule filter_update_remove [OF i])
  show "slot_live (slots l ! i) = slot_live new \<Longrightarrow> live_count l' = live_count l"
    unfolding live_count_def assms(3) by (rule filter_update_same [OF i])
qed


lemma capacity_word [simp]: "kEndpointRequestLedgerCapacity = 32"
  by (simp add: kdefs)

lemma hint_next: "i < 32 \<Longrightarrow> unat ((of_nat i + 1 :: u32) mod 32) < 32"
  by (simp add: unat_mod)

lemma kU64Max_succ [simp]: "kU64Max + 1 = 0"
  by (simp add: kU64Max_def)

text \<open>Reserve.\<close>

definition reserved_ledger :: "EndpointRequestLedger \<Rightarrow> EndpointRequestKey \<Rightarrow> nat \<Rightarrow> EndpointRequestLedger" where
  "reserved_ledger l key i = l\<lparr>slots := (slots l)[i := \<lparr>slot_key = key, slot_state = SlotReserved\<rparr>],
     active_count := active_count l + 1, next_free_hint := (of_nat i + 1) mod 32,
     next_request_id := request_id key + 1,
     ledger_state := (if request_id key = kU64Max then LedgerSequenceRetired else LedgerOpen)\<rparr>"

lemma reserve_eq:
  assumes "ledger_inv l"
  shows "EndpointRequestLedgerReserve (Some l) key =
    (if table_gate key (ledger_abs l) \<noteq> LedgerOk then (table_gate key (ledger_abs l), Some l)
     else if ledger_state l = LedgerSequenceRetired then (LedgerSequenceExhausted, Some l)
     else if request_id key < next_request_id l then (LedgerReplayRejected, Some l)
     else if request_id key > next_request_id l then (LedgerOutOfOrder, Some l)
     else if card (dom (rows l)) = 32 then (LedgerFull, Some l)
     else (LedgerOk, Some (reserved_ledger l key (FindFreeSlot l))))"
proof (cases "table_gate key (ledger_abs l) = LedgerOk")
  case False
  then show ?thesis
    using assms by (auto simp: EndpointRequestLedgerReserve_def ValidateLedger_inv table_gate_abs split: if_splits)
next
  case True
  then have ok: "ledger_state l \<noteq> LedgerUninitialized" "ValidateKeyForLedger l key = LedgerOk"
    "ledger_state l \<noteq> LedgerDraining"
    by (auto simp: table_gate_abs split: if_splits)
  then have "ledger_state l = LedgerSequenceRetired \<or> ledger_state l = LedgerOpen"
    by (cases "ledger_state l") simp_all
  with ok show ?thesis
    using True assms FindFreeSlot_full [of l]
    by (auto simp: EndpointRequestLedgerReserve_def ValidateLedger_inv reserved_ledger_def Let_def kdefs)
qed

lemma open_key_fits:
  assumes "ledger_inv l" and "table_gate key (ledger_abs l) = LedgerOk"
  shows "EndpointRequestKeyIsValid key" and "ledger_identity key = ledger_id l"
    and "ledger_state l = LedgerOpen \<or> ledger_state l = LedgerSequenceRetired"
  using assms by (cases "ledger_state l"; auto simp: table_gate_def split: if_splits)+

lemma reserved_inv:
  assumes inv: "ledger_inv l" and gate: "table_gate key (ledger_abs l) = LedgerOk"
    and st: "ledger_state l \<noteq> LedgerSequenceRetired" and id: "request_id key = next_request_id l"
    and room: "card (dom (rows l)) \<noteq> 32"
  shows "ledger_inv (reserved_ledger l key (FindFreeSlot l)) \<and>
    rows (reserved_ledger l key (FindFreeSlot l)) = (rows l)(key \<mapsto> SlotReserved)"
proof -
  let ?i = "FindFreeSlot l" and ?new = "\<lparr>slot_key = key, slot_state = SlotReserved\<rparr>"
  let ?l = "reserved_ledger l key ?i"
  note wf = ledger_inv_slots_wf [OF inv]
  from room FindFreeSlot_full [OF wf ledger_inv_hint [OF inv]] have "?i \<noteq> kNoEndpointRequestSlot" by simp
  note i = FindFreeSlot_some [OF ledger_inv_hint [OF inv] this]
  have open_l: "ledger_state l = LedgerOpen"
    using open_key_fits(3) [OF inv gate] st by simp
  have slots': "slots ?l = (slots l)[?i := ?new]"
    by (simp add: reserved_ledger_def)
  have fits: "key_fits ?l k" if "key_fits l k" for k
    using that open_l id u64_succ_gt [of "request_id key"]
    by (auto simp: key_fits_def reserved_ledger_def)
  have new: "key_fits ?l key"
    using open_key_fits [OF inv gate] u64_succ_gt [of "request_id key"]
    by (auto simp: key_fits_def reserved_ledger_def)
  have other: "slot_key (slots l ! j) \<noteq> key" if "j < 32" "slot_live (slots l ! j)" for j
  proof -
    from wf that have "key_fits l (slot_key (slots l ! j))" by (simp add: slots_wf_def)
    with open_l id show ?thesis by (auto simp: key_fits_def)
  qed
  have wf': "slots_wf ?l"
    using other new by (intro slots_wf_update [OF wf slots' i(1) fits]) (auto simp: slot_live_def)
  have count: "live_count ?l = Suc (live_count l)"
    using i by (intro count_update(1) [OF _ i(1) slots']) (simp_all add: inv slot_live_def)
  have active: "unat (active_count ?l) = live_count ?l"
    using count ledger_inv_active [OF inv] by (simp add: reserved_ledger_def unat_word_ariths)
  have valid: "EndpointRequestLedgerIdentityIsValid (ledger_id l)"
    using ledger_inv_header [OF inv] open_l by (simp add: header_wf_def)
  have "header_wf ?l"
    unfolding header_wf_def reserved_ledger_def
    using valid hint_next [OF i(1)] u64_succ_nonzero [of "request_id key"] kU64Max_succ by simp
  with wf' active have "ledger_inv ?l"
    unfolding ledger_inv_def by blast
  moreover have "rows ?l = (rows l)(key \<mapsto> SlotReserved)"
    using rows_update_live [OF wf i(1) _ slots' _ wf'] i(2) by (simp add: slot_live_def)
  ultimately show ?thesis by blast
qed

lemma reserve_refines:
  "ledger_refines (\<lambda>l. EndpointRequestLedgerReserve l key) id (table_reserve key)"
proof (rule ledger_refinesI)
  fix l assume inv: "ledger_inv l"
  show "\<exists>r l'. EndpointRequestLedgerReserve (Some l) key = (r, Some l') \<and> ledger_inv l' \<and>
    table_reserve key (ledger_abs l) = (id r, ledger_abs l')"
  proof (cases "table_gate key (ledger_abs l) = LedgerOk \<and> ledger_state l \<noteq> LedgerSequenceRetired \<and>
      request_id key = next_request_id l \<and> card (dom (rows l)) \<noteq> 32")
    case True
    with reserved_inv [OF inv] inv show ?thesis
      by (simp add: reserve_eq table_reserve_def ledger_abs_def reserved_ledger_def)
  next
    case False
    with inv show ?thesis
      by (auto simp: reserve_eq table_reserve_def)
  qed
qed

text \<open>The operations on a live row.\<close>

lemma row_slot:
  assumes "rows l key = Some s"
  shows "FindLiveSlot l key \<noteq> kNoEndpointRequestSlot" and "FindLiveSlot l key < 32"
    and "slot_live (slots l ! FindLiveSlot l key)" and "slot_key (slots l ! FindLiveSlot l key) = key"
    and "slot_state (slots l ! FindLiveSlot l key) = s"
proof -
  show ne: "FindLiveSlot l key \<noteq> kNoEndpointRequestSlot" and "slot_state (slots l ! FindLiveSlot l key) = s"
    using assms by (auto simp: rows_def Let_def split: if_splits)
  from FindLiveSlot_some [OF refl ne] show "FindLiveSlot l key < 32"
    "slot_live (slots l ! FindLiveSlot l key)" "slot_key (slots l ! FindLiveSlot l key) = key"
    by simp_all
qed

lemma row_missing: "rows l key = None \<longleftrightarrow> FindLiveSlot l key = kNoEndpointRequestSlot"
  by (simp add: rows_def Let_def)

lemma ConsumeSlot_inv:
  assumes inv: "ledger_inv l" and row: "rows l key = Some s"
  shows "ledger_inv (ConsumeSlot l (FindLiveSlot l key)) \<and>
    ledger_abs (ConsumeSlot l (FindLiveSlot l key)) = (ledger_abs l)\<lparr>table_rows := (rows l)(key := None)\<rparr>"
proof -
  let ?i = "FindLiveSlot l key"
  let ?l = "ConsumeSlot l ?i"
  note wf = ledger_inv_slots_wf [OF inv] and slot = row_slot [OF row]
  have slots': "slots ?l = (slots l)[?i := clear_slot]"
    by (simp add: ConsumeSlot_def)
  have wf': "slots_wf ?l"
    by (rule slots_wf_update [OF wf slots' slot(2)]) (auto simp: key_fits_def ConsumeSlot_def)
  have count: "live_count l = Suc (live_count ?l)"
    using slot by (intro count_update(2) [OF _ slot(2) slots']) (simp_all add: inv)
  have "1 \<le> active_count l"
    using count ledger_inv_active [OF inv] by (simp add: word_le_nat_alt)
  then have active: "unat (active_count ?l) = live_count ?l"
    using count ledger_inv_active [OF inv] by (simp add: ConsumeSlot_def unat_sub_ge)
  have "key_fits l key"
    by (rule rows_fit [OF wf row])
  then have st: "ledger_state l \<noteq> LedgerUninitialized"
    by (auto simp: key_fits_def)
  have "header_wf ?l"
    using ledger_inv_header [OF inv] st slot(2)
    by (simp add: header_wf_def ConsumeSlot_def unat_of_nat_u32)
  with wf' active have "ledger_inv ?l"
    unfolding ledger_inv_def by blast
  moreover have "rows ?l = (rows l)(key := None)"
    using rows_update_dead [OF wf slot(2) slots' slot(3) wf'] slot(4) by simp
  ultimately show ?thesis
    by (simp add: ledger_abs_def ConsumeSlot_def)
qed

lemma committed_inv:
  assumes inv: "ledger_inv l" and row: "rows l key = Some SlotReserved"
  defines "i \<equiv> FindLiveSlot l key"
  defines "l' \<equiv> l\<lparr>slots := (slots l)[i := (slots l ! i)\<lparr>slot_state := SlotCommitted\<rparr>]\<rparr>"
  shows "ledger_inv l' \<and> ledger_abs l' = (ledger_abs l)\<lparr>table_rows := (rows l)(key \<mapsto> SlotCommitted)\<rparr>"
proof -
  let ?new = "(slots l ! i)\<lparr>slot_state := SlotCommitted\<rparr>"
  note wf = ledger_inv_slots_wf [OF inv] and slot = row_slot [OF row, folded i_def]
  have slots': "slots l' = (slots l)[i := ?new]"
    by (simp add: l'_def)
  have new: "slot_live ?new" "slot_key ?new = key"
    using slot(4) by (simp_all add: slot_live_def)
  have fits: "key_fits l' k = key_fits l k" for k
    by (simp add: key_fits_def l'_def)
  have other: "slot_key (slots l ! j) \<noteq> key" if "j < 32" "j \<noteq> i" "slot_live (slots l ! j)" for j
    using wf that slot unfolding slots_wf_def by metis
  have wf': "slots_wf l'"
    using slots_wf_update [OF wf slots' slot(2)] fits new other rows_fit [OF wf row] by simp
  have "live_count l' = live_count l"
    using slot(3) new(1) by (intro count_update(3) [OF _ slot(2) slots']) (simp_all add: inv)
  moreover have "header_wf l' = header_wf l" "active_count l' = active_count l"
    by (simp_all add: header_wf_def l'_def)
  ultimately have "ledger_inv l'"
    using wf' ledger_inv_header [OF inv] ledger_inv_active [OF inv] unfolding ledger_inv_def by simp
  moreover have "rows l' = (rows l)(key \<mapsto> SlotCommitted)"
    using rows_update_live [OF wf slot(2) new(1) slots' _ wf'] new(2) slot(4) by simp
  ultimately show ?thesis
    by (simp add: ledger_abs_def l'_def)
qed

lemma commit_eq:
  assumes "ledger_inv l"
  shows "EndpointRequestLedgerCommit (Some l) key =
    (if table_gate key (ledger_abs l) \<noteq> LedgerOk then (CommitFailure (table_gate key (ledger_abs l)), Some l)
     else case rows l key of
       None \<Rightarrow> (CommitFailure (table_missing key (ledger_abs l)), Some l)
     | Some s \<Rightarrow>
         if s = SlotReserved
         then (\<lparr>commit_status = LedgerOk, completion_authority = \<lparr>authority_key = key\<rparr>\<rparr>,
               Some (l\<lparr>slots := (slots l)[FindLiveSlot l key :=
                 (slots l ! FindLiveSlot l key)\<lparr>slot_state := SlotCommitted\<rparr>]\<rparr>))
         else (CommitFailure LedgerReplayRejected, Some l))"
  using assms row_slot [of l key]
  by (cases "rows l key")
     (auto simp: EndpointRequestLedgerCommit_def ValidateLedger_inv table_gate_abs table_missing_abs row_missing [symmetric] Let_def)

lemma cancel_eq:
  assumes "ledger_inv l"
  shows "EndpointRequestLedgerCancel (Some l) key =
    (if table_gate key (ledger_abs l) \<noteq> LedgerOk then (table_gate key (ledger_abs l), Some l)
     else case rows l key of
       None \<Rightarrow> (table_missing key (ledger_abs l), Some l)
     | Some s \<Rightarrow> (LedgerOk, Some (ConsumeSlot l (FindLiveSlot l key))))"
  using assms row_slot [of l key]
  by (cases "rows l key")
     (auto simp: EndpointRequestLedgerCancel_def ValidateLedger_inv table_gate_abs table_missing_abs row_missing [symmetric] Let_def)

lemma complete_eq:
  assumes "ledger_inv l"
  shows "EndpointRequestLedgerComplete (Some l) authority =
    (let key = authority_key authority in
     if table_gate key (ledger_abs l) \<noteq> LedgerOk then (table_gate key (ledger_abs l), Some l)
     else case rows l key of
       None \<Rightarrow> (table_missing key (ledger_abs l), Some l)
     | Some s \<Rightarrow>
         if s = SlotCommitted then (LedgerOk, Some (ConsumeSlot l (FindLiveSlot l key)))
         else (LedgerNotCommitted, Some l))"
  using assms row_slot [of l "authority_key authority"]
  by (cases "rows l (authority_key authority)")
     (auto simp: EndpointRequestLedgerComplete_def ValidateLedger_inv table_gate_abs table_missing_abs row_missing [symmetric]
       Let_def EndpointRequestCompletionAuthorityIsValid_def ValidateKeyForLedger_def)

lemma commit_refines:
  "ledger_refines (\<lambda>l. EndpointRequestLedgerCommit l key) id (table_commit key)"
proof (rule ledger_refinesI)
  fix l assume inv: "ledger_inv l"
  show "\<exists>r l'. EndpointRequestLedgerCommit (Some l) key = (r, Some l') \<and> ledger_inv l' \<and>
    table_commit key (ledger_abs l) = (id r, ledger_abs l')"
  proof (cases "rows l key = Some SlotReserved")
    case True
    with committed_inv [OF inv True] inv show ?thesis
      by (simp add: commit_eq table_commit_def)
  next
    case False
    with inv show ?thesis
      by (auto simp: commit_eq table_commit_def split: option.splits)
  qed
qed

lemma cancel_refines:
  "ledger_refines (\<lambda>l. EndpointRequestLedgerCancel l key) id (table_cancel key)"
  using ConsumeSlot_inv
  by (intro ledger_refinesI) (auto simp: cancel_eq table_cancel_def split: option.splits)

lemma complete_refines:
  "ledger_refines (\<lambda>l. EndpointRequestLedgerComplete l authority) id (table_complete (authority_key authority))"
  using ConsumeSlot_inv
  by (intro ledger_refinesI) (auto simp: complete_eq table_complete_def Let_def split: option.splits)

text \<open>Drain detaches the live keys in slot order and leaves every slot clear.\<close>

lemma drain_fold:
  assumes "n \<le> length (slots l)"
  shows "fold drain_slot [0..<n] (l, []) =
    (l\<lparr>slots := replicate n clear_slot @ drop n (slots l)\<rparr>, map slot_key (filter slot_live (take n (slots l))))"
  using assms
proof (induction n)
  case 0
  then show ?case by simp
next
  case (Suc n)
  then have n: "n < length (slots l)" by simp
  have drop: "drop n (slots l) = slots l ! n # drop (Suc n) (slots l)"
    using n by (simp add: Cons_nth_drop_Suc)
  have at: "(replicate n clear_slot @ drop n (slots l)) ! n = slots l ! n"
    using n by (simp add: nth_append)
  have upd: "(replicate n clear_slot @ drop n (slots l))[n := clear_slot] =
      replicate (Suc n) clear_slot @ drop (Suc n) (slots l)"
    by (simp add: drop list_update_append replicate_append_same)
  show ?case
    using Suc.IH n
    by (simp add: drain_slot_def at upd take_Suc_conv_app_nth slot_live_def del: replicate_Suc)
qed

definition drained_ledger :: "EndpointRequestLedger \<Rightarrow> EndpointRequestLedger" where
  "drained_ledger l = l\<lparr>slots := replicate 32 clear_slot, next_request_id := 0, active_count := 0,
     next_free_hint := 0, ledger_state := LedgerDraining\<rparr>"

definition live_keys :: "EndpointRequestLedger \<Rightarrow> EndpointRequestKey list" where
  "live_keys l = map slot_key (filter slot_live (slots l))"

lemma live_keys_rows:
  assumes "slots_wf l"
  shows "set (live_keys l) = dom (rows l)" and "distinct (live_keys l)"
proof -
  have len: "length (slots l) = 32" using assms by (simp add: slots_wf_def)
  show set: "set (live_keys l) = dom (rows l)"
    unfolding dom_rows [OF assms] live_keys_def using len by (force simp: in_set_conv_nth)
  show "distinct (live_keys l)"
  proof (rule card_distinct)
    show "card (set (live_keys l)) = length (live_keys l)"
      unfolding set card_rows [OF assms] by (simp add: live_count_def live_keys_def)
  qed
qed

lemma drain_eq:
  assumes "ledger_inv l"
  shows "EndpointRequestLedgerDrain (Some l) =
    (if ledger_state l = LedgerUninitialized then (DrainFailure LedgerNotInitialized, Some l)
     else if ledger_state l = LedgerDraining then (DrainFailure LedgerOk, Some l)
     else (\<lparr>drain_status = LedgerOk, detached_keys = live_keys l\<rparr>, Some (drained_ledger l)))"
  using assms drain_fold [of 32 l]
  by (simp add: EndpointRequestLedgerDrain_def ValidateLedger_inv drained_ledger_def live_keys_def kdefs)

lemma cleared_wf: "slots l = replicate 32 clear_slot \<Longrightarrow> slots_wf l \<and> live_count l = 0 \<and> rows l = Map.empty"
  by (auto simp: slots_wf_def live_count_def intro: rows_empty)

lemma dead_rows:
  assumes "ledger_inv l" and "ledger_state l = LedgerUninitialized \<or> ledger_state l = LedgerDraining"
  shows "rows l = Map.empty" and "active_count l = 0" and "slots l = replicate 32 clear_slot"
proof -
  have clear: "\<forall>i<32. slots l ! i = clear_slot"
    using assms slots_wf_dead [of l] by simp
  then show "rows l = Map.empty" by (rule rows_empty)
  show "slots l = replicate 32 clear_slot"
    using assms(1) clear by (auto intro: nth_equalityI)
  show "active_count l = 0"
    using live_count_dead [OF ledger_inv_length [OF assms(1)] clear] ledger_inv_active [OF assms(1)]
    by (metis unat_eq_zero)
qed

lemma drained_inv:
  assumes "ledger_inv l" and "ledger_state l \<noteq> LedgerUninitialized"
  shows "ledger_inv (drained_ledger l)"
  unfolding ledger_inv_def header_wf_def
  using ledger_inv_header [OF assms(1), unfolded header_wf_def] assms(2) cleared_wf [of "drained_ledger l"]
  by (simp add: drained_ledger_def)

lemma drain_refines:
  "ledger_refines EndpointRequestLedgerDrain (\<lambda>r. (drain_status r, set (detached_keys r))) table_drain"
proof (rule ledger_refinesI)
  fix l assume inv: "ledger_inv l"
  have "rows (drained_ledger l) = Map.empty"
    using cleared_wf [of "drained_ledger l"] by (simp add: drained_ledger_def)
  then have "ledger_abs (drained_ledger l) =
      (ledger_abs l)\<lparr>table_rows := Map.empty, table_state := LedgerDraining, table_next := 0\<rparr>"
    by (simp add: ledger_abs_def drained_ledger_def)
  then show "\<exists>r l'. EndpointRequestLedgerDrain (Some l) = (r, Some l') \<and> ledger_inv l' \<and>
    table_drain (ledger_abs l) = ((drain_status r, set (detached_keys r)), ledger_abs l')"
    using inv drained_inv [OF inv] live_keys_rows(1) [OF ledger_inv_slots_wf [OF inv]]
    by (simp add: drain_eq table_drain_def DrainFailure_def)
qed

text \<open>Initialization and reset open an empty table under the given identity.\<close>

definition opened_ledger ::
    "EndpointRequestLedger \<Rightarrow> EndpointRequestLedgerIdentity \<Rightarrow> u64 \<Rightarrow> EndpointRequestLedger" where
  "opened_ledger l ident first = l\<lparr>ledger_id := ident, next_request_id := first, active_count := 0,
     next_free_hint := 0, ledger_state := LedgerOpen\<rparr>"

lemma opened_inv:
  assumes "ledger_inv l" and "ledger_state l = LedgerUninitialized \<or> ledger_state l = LedgerDraining"
    and "EndpointRequestLedgerIdentityIsValid ident" and "first \<noteq> 0"
  shows "ledger_inv (opened_ledger l ident first) \<and> ledger_abs (opened_ledger l ident first) =
    (ledger_abs l)\<lparr>table_id := ident, table_next := first, table_state := LedgerOpen\<rparr>"
proof -
  have "slots (opened_ledger l ident first) = replicate 32 clear_slot"
    using dead_rows(3) [OF assms(1,2)] by (simp add: opened_ledger_def)
  note wf = cleared_wf [OF this]
  have "ledger_inv (opened_ledger l ident first)"
    unfolding ledger_inv_def header_wf_def using wf assms(3,4) by (simp add: opened_ledger_def)
  with wf dead_rows(1) [OF assms(1,2)] show ?thesis
    by (simp add: ledger_abs_def opened_ledger_def)
qed

lemma initialize_eq:
  assumes "ledger_inv l"
  shows "EndpointRequestLedgerInitialize (Some l) ident first =
    (if ledger_state l \<noteq> LedgerUninitialized then (LedgerAlreadyInitialized, Some l)
     else if \<not> EndpointRequestLedgerIdentityIsValid ident \<or> first = 0 then (LedgerInvalidArgument, Some l)
     else (LedgerOk, Some (opened_ledger l ident first)))"
proof -
  have "l = l\<lparr>active_count := 0, next_free_hint := 0\<rparr>" if "ledger_state l = LedgerUninitialized"
    using dead_rows(2) [OF assms] ledger_inv_header [OF assms] that by (simp add: header_wf_def)
  then show ?thesis
    using assms
    by (cases l) (auto simp: EndpointRequestLedgerInitialize_def opened_ledger_def kEndpointRequestIdInvalid_def)
qed

lemma initialize_refines:
  "ledger_refines (\<lambda>l. EndpointRequestLedgerInitialize l ident first) id (table_initialize ident first)"
  using opened_inv by (intro ledger_refinesI) (auto simp: initialize_eq table_initialize_def)

lemma reset_eq:
  assumes "ledger_inv l"
  shows "EndpointRequestLedgerReset (Some l) ident first =
    (if ledger_state l = LedgerUninitialized then (LedgerNotInitialized, Some l)
     else if ledger_state l \<noteq> LedgerDraining then (LedgerResetNotDrained, Some l)
     else if \<not> EndpointRequestLedgerIdentityIsValid ident \<or> first = 0 \<or> direction ident \<noteq> direction (ledger_id l)
     then (LedgerInvalidArgument, Some l)
     else if endpoint_epoch (ledger_id l) = kU64Max then (LedgerIdentityExhausted, Some l)
     else if endpoint_epoch ident \<le> endpoint_epoch (ledger_id l) then (LedgerStaleIdentity, Some l)
     else (LedgerOk, Some (opened_ledger l ident first)))"
  using assms by (simp add: EndpointRequestLedgerReset_def opened_ledger_def kU64Max_def
      kEndpointRequestEpochMaximum_def kEndpointRequestIdInvalid_def)

lemma reset_refines:
  "ledger_refines (\<lambda>l. EndpointRequestLedgerReset l ident first) id (table_reset ident first)"
  using opened_inv by (intro ledger_refinesI) (auto simp: reset_eq table_reset_def)

end
