(* ===== verification/RequestLedgerSystem.thy ===== *)
theory RequestLedgerSystem
  imports RequestLedgerOps
begin

text \<open>
  The life of a request over every sequence of ledger operations, resets to later epochs
  included. The step relation records each successful transition of a key in a history; the
  history of a key is always one pass through reserve, commit and a single end.
\<close>

section \<open>Histories\<close>

datatype ledger_event =
    LReserved (event_key: EndpointRequestKey)
  | LCommitted (event_key: EndpointRequestKey)
  | LCompleted (event_key: EndpointRequestKey)
  | LCancelled (event_key: EndpointRequestKey)
  | LDetached (event_key: EndpointRequestKey)

type_synonym ledger_run = "EndpointRequestLedger \<times> ledger_event list"

definition zero_ledger :: EndpointRequestLedger where
  "zero_ledger = \<lparr>slots = replicate 32 clear_slot, ledger_id = kInvalidEndpointRequestLedgerIdentity,
     next_request_id = kEndpointRequestIdInvalid, active_count = 0, next_free_hint = 0,
     ledger_state = LedgerUninitialized\<rparr>"

inductive ledger_step :: "ledger_run \<Rightarrow> ledger_run \<Rightarrow> bool" where
  initialize: "EndpointRequestLedgerInitialize (Some l) ident first = (st, Some l') \<Longrightarrow>
    ledger_step (l, h) (l', h)"
| reset: "EndpointRequestLedgerReset (Some l) ident first = (st, Some l') \<Longrightarrow>
    ledger_step (l, h) (l', h)"
| reserve: "EndpointRequestLedgerReserve (Some l) key = (st, Some l') \<Longrightarrow>
    ledger_step (l, h) (l', h @ (if st = LedgerOk then [LReserved key] else []))"
| commit: "EndpointRequestLedgerCommit (Some l) key = (r, Some l') \<Longrightarrow>
    ledger_step (l, h) (l', h @ (if commit_status r = LedgerOk then [LCommitted key] else []))"
| cancel: "EndpointRequestLedgerCancel (Some l) key = (st, Some l') \<Longrightarrow>
    ledger_step (l, h) (l', h @ (if st = LedgerOk then [LCancelled key] else []))"
| complete: "EndpointRequestLedgerComplete (Some l) authority = (st, Some l') \<Longrightarrow>
    ledger_step (l, h) (l', h @ (if st = LedgerOk then [LCompleted (authority_key authority)] else []))"
| drain: "EndpointRequestLedgerDrain (Some l) = (r, Some l') \<Longrightarrow>
    ledger_step (l, h) (l', h @ map LDetached (detached_keys r))"

definition key_events :: "ledger_event list \<Rightarrow> EndpointRequestKey \<Rightarrow> ledger_event list" where
  "key_events h k = filter (\<lambda>e. event_key e = k) h"

fun reserved_keys :: "ledger_event list \<Rightarrow> EndpointRequestKey list" where
  "reserved_keys [] = []"
| "reserved_keys (e # h) = (case e of LReserved k \<Rightarrow> k # reserved_keys h | _ \<Rightarrow> reserved_keys h)"

definition key_before :: "EndpointRequestKey \<Rightarrow> EndpointRequestKey \<Rightarrow> bool" where
  "key_before a b \<longleftrightarrow>
    endpoint_epoch (ledger_identity a) < endpoint_epoch (ledger_identity b) \<or>
    endpoint_epoch (ledger_identity a) = endpoint_epoch (ledger_identity b) \<and> request_id a < request_id b"

text \<open>The histories a key can have, by its row in the table.\<close>

definition lifecycle :: "EndpointRequestKey \<Rightarrow> EndpointRequestSlotState option \<Rightarrow> ledger_event list set" where
  "lifecycle k row = (case row of
     None \<Rightarrow> {[], [LReserved k, LCancelled k], [LReserved k, LDetached k],
       [LReserved k, LCommitted k, LCompleted k], [LReserved k, LCommitted k, LCancelled k],
       [LReserved k, LCommitted k, LDetached k]}
   | Some SlotReserved \<Rightarrow> {[LReserved k]}
   | Some SlotCommitted \<Rightarrow> {[LReserved k, LCommitted k]}
   | Some SlotFree \<Rightarrow> {})"

definition issued :: "request_table \<Rightarrow> EndpointRequestKey \<Rightarrow> bool" where
  "issued t k \<longleftrightarrow> table_state t \<noteq> LedgerUninitialized \<and>
     (endpoint_epoch (ledger_identity k) < endpoint_epoch (table_id t) \<or>
      endpoint_epoch (ledger_identity k) = endpoint_epoch (table_id t) \<and>
        (table_state t = LedgerOpen \<longrightarrow> request_id k < table_next t))"

definition history_inv :: "request_table \<Rightarrow> ledger_event list \<Rightarrow> bool" where
  "history_inv t h \<longleftrightarrow> (\<forall>k. key_events h k \<in> lifecycle k (table_rows t k)) \<and>
     (\<forall>k. key_events h k \<noteq> [] \<longrightarrow> issued t k) \<and> sorted_wrt key_before (reserved_keys h)"

section \<open>Steps on the table keep the histories\<close>

lemma key_events_append [simp]: "key_events (h @ g) k = key_events h k @ key_events g k"
  by (simp add: key_events_def)

lemma key_events_single [simp]: "key_events [e] k = (if event_key e = k then [e] else [])"
  by (simp add: key_events_def)

lemma key_events_Nil [simp]: "key_events [] k = []"
  by (simp add: key_events_def)

lemma key_events_detached:
  "distinct ks \<Longrightarrow> key_events (map LDetached ks) k = (if k \<in> set ks then [LDetached k] else [])"
  by (induction ks) (auto simp: key_events_def)

lemma reserved_keys_append [simp]: "reserved_keys (h @ g) = reserved_keys h @ reserved_keys g"
  by (induction h) (auto split: ledger_event.splits)

lemma reserved_keys_detached [simp]: "reserved_keys (map LDetached ks) = []"
  by (induction ks) auto

lemma reserved_key_events: "k \<in> set (reserved_keys h) \<Longrightarrow> key_events h k \<noteq> []"
  by (induction h) (auto simp: key_events_def split: ledger_event.splits)

lemma lifecycle_frozen: "[] \<in> lifecycle k row \<longleftrightarrow> row = None"
  by (auto simp: lifecycle_def split: option.splits EndpointRequestSlotState.splits)

text \<open>An event on one key moves that key's row; the other keys keep theirs.\<close>

lemma history_inv_event:
  assumes inv: "history_inv t h" and e: "event_key e = k" "reserved_keys [e] = []"
    and rows: "table_rows t' = (table_rows t)(k := row)"
    and same: "table_id t' = table_id t" "table_state t' = table_state t" "table_next t' = table_next t"
    and live: "table_rows t k \<noteq> None"
    and step: "\<And>g. g \<in> lifecycle k (table_rows t k) \<Longrightarrow> g @ [e] \<in> lifecycle k row"
  shows "history_inv t' (h @ [e])"
proof -
  have events: "key_events h j \<in> lifecycle j (table_rows t j)" for j
    using inv by (simp add: history_inv_def)
  have "key_events h k \<noteq> []"
    using events [of k] live by (metis lifecycle_frozen)
  moreover have "issued t' = issued t"
    by (simp add: issued_def fun_eq_iff same)
  ultimately have "issued t' j" if "key_events (h @ [e]) j \<noteq> []" for j
    using that inv e(1) by (cases "j = k") (auto simp: history_inv_def)
  moreover have "key_events (h @ [e]) j \<in> lifecycle j (table_rows t' j)" for j
    using events [of j] step e(1) by (auto simp: rows)
  moreover have "sorted_wrt key_before (reserved_keys (h @ [e]))"
    using inv e(2) by (simp only: history_inv_def reserved_keys_append append_Nil2)
  ultimately show ?thesis
    by (simp only: history_inv_def) blast
qed

lemma history_inv_reserve:
  assumes inv: "history_inv t h" and op: "table_reserve key t = (st, t')"
  shows "history_inv t' (h @ (if st = LedgerOk then [LReserved key] else []))"
proof (cases "st = LedgerOk")
  case False
  with op have "t' = t" by (auto simp: table_reserve_def split: if_splits)
  with False inv show ?thesis by simp
next
  case True
  with op have gate: "table_gate key t = LedgerOk" and st: "table_state t \<noteq> LedgerSequenceRetired"
    and id: "request_id key = table_next t"
    and t': "t' = t\<lparr>table_rows := (table_rows t)(key \<mapsto> SlotReserved),
       table_state := (if request_id key = kU64Max then LedgerSequenceRetired else LedgerOpen),
       table_next := request_id key + 1\<rparr>"
    by (auto simp: table_reserve_def split: if_splits)
  from gate st have open_t: "table_state t = LedgerOpen" and key_id: "ledger_identity key = table_id t"
    by (cases "table_state t"; auto simp: table_gate_def split: if_splits)+
  have "\<not> issued t key"
    using open_t key_id id by (simp add: issued_def)
  with inv have fresh: "key_events h key = []"
    by (auto simp: history_inv_def)
  have succ: "x < request_id key + 1" if "x < request_id key" "request_id key \<noteq> kU64Max" for x
    using u64_succ_gt [OF that(2)] that(1) by simp
  have old: "issued t' k" if "issued t k" for k
    using that succ open_t id by (auto simp: issued_def t')
  have new: "issued t' key"
    using key_id u64_succ_gt [of "request_id key"] by (auto simp: issued_def t')
  have before: "key_before k key" if "issued t k" for k
    using that open_t key_id id by (auto simp: issued_def key_before_def)
  have "sorted_wrt key_before (reserved_keys h)" "\<forall>k\<in>set (reserved_keys h). key_before k key"
    using inv before reserved_key_events by (auto simp: history_inv_def)
  then have "sorted_wrt key_before (reserved_keys (h @ [LReserved key]))"
    by (simp add: sorted_wrt_append)
  moreover have "key_events (h @ [LReserved key]) k \<in> lifecycle k (table_rows t' k)" for k
    using inv fresh by (auto simp: history_inv_def t' lifecycle_def)
  moreover have "issued t' k" if "key_events (h @ [LReserved key]) k \<noteq> []" for k
    using that inv old new by (cases "k = key") (auto simp: history_inv_def)
  ultimately have "history_inv t' (h @ [LReserved key])"
    unfolding history_inv_def by blast
  with True show ?thesis by simp
qed

lemma history_inv_commit:
  assumes inv: "history_inv t h" and op: "table_commit key t = (r, t')"
  shows "history_inv t' (h @ (if commit_status r = LedgerOk then [LCommitted key] else []))"
proof (cases "commit_status r = LedgerOk")
  case False
  with op have "t' = t" by (auto simp: table_commit_def split: if_splits option.splits)
  with False inv show ?thesis by simp
next
  case True
  with op have "table_rows t key = Some SlotReserved" "t' = t\<lparr>table_rows := (table_rows t)(key \<mapsto> SlotCommitted)\<rparr>"
    by (auto simp: table_commit_def CommitFailure_def table_missing_def split: if_splits option.splits)
  then have "history_inv t' (h @ [LCommitted key])"
    by (intro history_inv_event [OF inv]) (auto simp: lifecycle_def)
  with True show ?thesis by simp
qed

lemma table_missing_not_ok [simp]: "table_missing key t \<noteq> LedgerOk"
  by (simp add: table_missing_def)

lemma history_inv_cancel:
  assumes inv: "history_inv t h" and op: "table_cancel key t = (st, t')"
  shows "history_inv t' (h @ (if st = LedgerOk then [LCancelled key] else []))"
proof (cases "st = LedgerOk")
  case False
  with op have "t' = t" by (auto simp: table_cancel_def split: if_splits option.splits)
  with False inv show ?thesis by simp
next
  case True
  with op have "table_rows t key \<noteq> None" "t' = t\<lparr>table_rows := (table_rows t)(key := None)\<rparr>"
    by (auto simp: table_cancel_def split: if_splits option.splits)
  then have "history_inv t' (h @ [LCancelled key])"
    by (intro history_inv_event [OF inv])
       (auto simp: lifecycle_def split: option.splits EndpointRequestSlotState.splits)
  with True show ?thesis by simp
qed

lemma history_inv_complete:
  assumes inv: "history_inv t h" and op: "table_complete key t = (st, t')"
  shows "history_inv t' (h @ (if st = LedgerOk then [LCompleted key] else []))"
proof (cases "st = LedgerOk")
  case False
  with op have "t' = t" by (auto simp: table_complete_def split: if_splits option.splits)
  with False inv show ?thesis by simp
next
  case True
  with op have "table_rows t key = Some SlotCommitted" "t' = t\<lparr>table_rows := (table_rows t)(key := None)\<rparr>"
    by (auto simp: table_complete_def split: if_splits option.splits)
  then have "history_inv t' (h @ [LCompleted key])"
    by (intro history_inv_event [OF inv]) (auto simp: lifecycle_def)
  with True show ?thesis by simp
qed

lemma history_inv_detach:
  assumes inv: "history_inv t h" and ks: "distinct ks" "set ks = dom (table_rows t)"
    and t': "table_rows t' = Map.empty" "table_id t' = table_id t" "table_state t' = LedgerDraining"
    and st: "table_state t \<noteq> LedgerUninitialized"
  shows "history_inv t' (h @ map LDetached ks)"
proof -
  have events: "key_events h k \<in> lifecycle k (table_rows t k)" for k
    using inv by (simp add: history_inv_def)
  have "key_events (h @ map LDetached ks) k \<in> lifecycle k (table_rows t' k)" for k
    using events [of k] ks
    by (cases "table_rows t k")
       (auto simp: key_events_detached t' lifecycle_def dom_def split: EndpointRequestSlotState.splits)
  moreover have "issued t' k" if "key_events (h @ map LDetached ks) k \<noteq> []" for k
  proof -
    have "key_events h k \<noteq> []"
    proof (cases "k \<in> set ks")
      case True
      then have "table_rows t k \<noteq> None" using ks by auto
      with events [of k] show ?thesis by (metis lifecycle_frozen)
    next
      case False
      with that ks show ?thesis by (simp add: key_events_detached)
    qed
    with inv have "issued t k" by (simp add: history_inv_def)
    with t' st show ?thesis by (auto simp: issued_def)
  qed
  ultimately show ?thesis
    using inv by (simp add: history_inv_def)
qed

lemma history_inv_open:
  assumes inv: "history_inv t h"
    and t': "table_rows t' = table_rows t" "table_state t' = LedgerOpen"
    and later: "table_state t \<noteq> LedgerUninitialized \<Longrightarrow> endpoint_epoch (table_id t) < endpoint_epoch (table_id t')"
  shows "history_inv t' h"
proof -
  have "issued t' k" if "issued t k" for k
    using that later t' by (auto simp: issued_def dest: order_less_trans)
  then show ?thesis
    using inv t'(1) by (simp add: history_inv_def)
qed

section \<open>The transition system\<close>

definition ledger_run_inv :: "ledger_run \<Rightarrow> bool" where
  "ledger_run_inv s \<longleftrightarrow> ledger_inv (fst s) \<and> history_inv (ledger_abs (fst s)) (snd s)"

lemma drain_history:
  assumes "ledger_inv l" and "history_inv (ledger_abs l) h" and "EndpointRequestLedgerDrain (Some l) = (r, Some l')"
  shows "history_inv (ledger_abs l') (h @ map LDetached (detached_keys r))"
proof (cases "ledger_state l = LedgerUninitialized \<or> ledger_state l = LedgerDraining")
  case True
  with assms have "l' = l" "detached_keys r = []"
    by (auto simp: drain_eq DrainFailure_def split: if_splits)
  with assms(2) show ?thesis by simp
next
  case False
  with assms have r: "detached_keys r = live_keys l" and l': "l' = drained_ledger l"
    by (auto simp: drain_eq)
  have "rows l' = Map.empty"
    using cleared_wf [of l'] by (simp add: l' drained_ledger_def)
  with False show ?thesis
    using live_keys_rows [OF ledger_inv_slots_wf [OF assms(1)]]
    by (intro history_inv_detach [OF assms(2)]) (simp_all add: r, simp_all add: l' drained_ledger_def)
qed

lemma open_history:
  assumes "history_inv (ledger_abs l) h"
  shows "table_initialize ident first (ledger_abs l) = (st, ledger_abs l') \<Longrightarrow> history_inv (ledger_abs l') h"
    and "table_reset ident first (ledger_abs l) = (st, ledger_abs l') \<Longrightarrow> history_inv (ledger_abs l') h"
proof -
  let ?t = "(ledger_abs l)\<lparr>table_id := ident, table_next := first, table_state := LedgerOpen\<rparr>"
  show "history_inv (ledger_abs l') h" if "table_initialize ident first (ledger_abs l) = (st, ledger_abs l')"
  proof (cases "st = LedgerOk")
    case True
    with that have "ledger_state l = LedgerUninitialized" "ledger_abs l' = ?t"
      by (auto simp: table_initialize_def split: if_splits)
    with assms show ?thesis by (auto intro: history_inv_open)
  next
    case False
    with that assms show ?thesis by (auto simp: table_initialize_def split: if_splits)
  qed
  show "history_inv (ledger_abs l') h" if "table_reset ident first (ledger_abs l) = (st, ledger_abs l')"
  proof (cases "st = LedgerOk")
    case True
    with that have "endpoint_epoch (ledger_id l) < endpoint_epoch ident" "ledger_abs l' = ?t"
      by (auto simp: table_reset_def not_le split: if_splits)
    with assms show ?thesis by (auto intro: history_inv_open)
  next
    case False
    with that assms show ?thesis by (auto simp: table_reset_def split: if_splits)
  qed
qed

lemma ledger_step_inv:
  assumes "ledger_run_inv s" and "ledger_step s s'"
  shows "ledger_run_inv s'"
  using assms(2,1)
proof (cases rule: ledger_step.cases)
  case (initialize l ident first st l' h)
  with assms(1) ledger_refinesD [OF initialize_refines, of l ident first st l'] show ?thesis
    by (auto simp: ledger_run_inv_def intro: open_history)
next
  case (reset l ident first st l' h)
  with assms(1) ledger_refinesD [OF reset_refines, of l ident first st l'] show ?thesis
    by (auto simp: ledger_run_inv_def intro: open_history)
next
  case (reserve l key st l' h)
  with assms(1) ledger_refinesD [OF reserve_refines, of l key st l'] history_inv_reserve show ?thesis
    by (fastforce simp: ledger_run_inv_def)
next
  case (commit l key r l' h)
  with assms(1) ledger_refinesD [OF commit_refines, of l key r l'] history_inv_commit show ?thesis
    by (fastforce simp: ledger_run_inv_def)
next
  case (cancel l key st l' h)
  with assms(1) ledger_refinesD [OF cancel_refines, of l key st l'] history_inv_cancel show ?thesis
    by (fastforce simp: ledger_run_inv_def)
next
  case (complete l authority st l' h)
  with assms(1) ledger_refinesD [OF complete_refines, of l authority st l'] history_inv_complete show ?thesis
    by (fastforce simp: ledger_run_inv_def)
next
  case (drain l r l' h)
  with assms(1) ledger_refinesD [OF drain_refines, of l r l'] drain_history [of l h r l'] show ?thesis
    by (simp add: ledger_run_inv_def)
qed

lemma zero_ledger_inv: "ledger_inv zero_ledger"
  unfolding ledger_inv_def header_wf_def
  using cleared_wf [of zero_ledger] by (simp add: zero_ledger_def kdefs)

interpretation ledger_ts: transition_system "\<lambda>s. s = (zero_ledger, [])" ledger_step ledger_run_inv
proof
  show "ledger_run_inv s" if "s = (zero_ledger, [])" for s
    using that zero_ledger_inv cleared_wf [of zero_ledger]
    by (simp add: ledger_run_inv_def history_inv_def lifecycle_frozen zero_ledger_def)
qed (rule ledger_step_inv)


lemma invalid_authority:
  "\<not> EndpointRequestCompletionAuthorityIsValid kInvalidEndpointRequestCompletionAuthority"
  by code_simp

lemma drain_outcome:
  assumes inv: "ledger_inv l" and st: "ledger_state l \<noteq> LedgerUninitialized"
  obtains r l1 where "EndpointRequestLedgerDrain (Some l) = (r, Some l1)" "drain_status r = LedgerOk"
    "set (detached_keys r) = dom (rows l)" "distinct (detached_keys r)"
    "ledger_inv l1" "ledger_state l1 = LedgerDraining" "ledger_id l1 = ledger_id l"
proof (cases "ledger_state l = LedgerDraining")
  case True
  with inv dead_rows(1) [OF inv] show ?thesis
    by (intro that [of "DrainFailure LedgerOk" l]) (simp_all add: drain_eq DrainFailure_def)
next
  case False
  with inv st drained_inv [OF inv st] live_keys_rows [OF ledger_inv_slots_wf [OF inv]] show ?thesis
    by (intro that [of "\<lparr>drain_status = LedgerOk, detached_keys = live_keys l\<rparr>" "drained_ledger l"])
       (simp_all add: drain_eq drained_ledger_def)
qed

lemma reserve_first:
  assumes "ledger_inv l" "ledger_state l = LedgerDraining" "EndpointRequestLedgerIdentityIsValid ident" "first \<noteq> 0"
  shows "\<exists>l'. EndpointRequestLedgerReserve (Some (opened_ledger l ident first))
    \<lparr>ledger_identity = ident, request_id = first\<rparr> = (LedgerOk, Some l')"
proof -
  let ?l = "opened_ledger l ident first"
  have inv: "ledger_inv ?l" and abs: "ledger_abs ?l =
      (ledger_abs l)\<lparr>table_id := ident, table_next := first, table_state := LedgerOpen\<rparr>"
    using opened_inv [OF assms(1) _ assms(3,4)] assms(2) by simp_all
  have "rows ?l = Map.empty"
    using dead_rows(1) [OF assms(1)] assms(2) rows_slots [of ?l l] by (simp add: opened_ledger_def)
  then show ?thesis
    using assms(3,4) unfolding reserve_eq [OF inv] abs
    by (simp add: table_gate_def EndpointRequestKeyIsValid_def opened_ledger_def kdefs)
qed

section \<open>Properties\<close>

definition sample_identity :: EndpointRequestLedgerIdentity where
  "sample_identity = \<lparr>endpoint_epoch = 7, direction = InitiatorToAcceptor\<rparr>"

definition sample_key :: EndpointRequestKey where
  "sample_key = \<lparr>ledger_identity = sample_identity, request_id = 1\<rparr>"

definition open_ledger :: EndpointRequestLedger where
  "open_ledger = opened_ledger zero_ledger sample_identity 1"

definition busy_ledger :: EndpointRequestLedger where
  "busy_ledger = reserved_ledger open_ledger sample_key 0"

lemma sample_initialize:
  "EndpointRequestLedgerInitialize (Some zero_ledger) sample_identity 1 = (LedgerOk, Some open_ledger)"
  by code_simp

lemma sample_reserve: "EndpointRequestLedgerReserve (Some open_ledger) sample_key = (LedgerOk, Some busy_ledger)"
  by code_simp


definition committed_ledger :: EndpointRequestLedger where
  "committed_ledger = busy_ledger\<lparr>slots := (slots busy_ledger)[0 := \<lparr>slot_key = sample_key, slot_state = SlotCommitted\<rparr>]\<rparr>"

lemma sample_commit:
  "EndpointRequestLedgerCommit (Some busy_ledger) sample_key =
    (\<lparr>commit_status = LedgerOk, completion_authority = \<lparr>authority_key = sample_key\<rparr>\<rparr>, Some committed_ledger)"
  by code_simp

lemma sample_run: "ledger_step\<^sup>*\<^sup>* (zero_ledger, []) (committed_ledger, [LReserved sample_key, LCommitted sample_key])"
proof -
  have "ledger_step (zero_ledger, []) (open_ledger, [])"
    by (rule ledger_step.initialize [OF sample_initialize])
  moreover have "ledger_step (open_ledger, []) (busy_ledger, [LReserved sample_key])"
    using ledger_step.reserve [OF sample_reserve, of "[]"] by simp
  moreover have "ledger_step (busy_ledger, [LReserved sample_key])
      (committed_ledger, [LReserved sample_key, LCommitted sample_key])"
    using ledger_step.commit [OF sample_commit, of "[LReserved sample_key]"] by simp
  ultimately show ?thesis
    by (meson converse_rtranclp_into_rtranclp rtranclp.rtrancl_refl)
qed

text \<open>
  C4. Every ledger operation implements the operation on the abstract table of live requests:
  from a canonical ledger it returns the status the table gives, detaches exactly the table's
  keys on a drain, leaves a ledger that is canonical again and stands for the new table. Slot
  search, free hint, active counter and the canonical scan are invisible.
\<close>

theorem request_ledger_refines_table:
  "ledger_refines (\<lambda>l. EndpointRequestLedgerInitialize l ident first) id (table_initialize ident first) \<and>
   ledger_refines (\<lambda>l. EndpointRequestLedgerReset l ident first) id (table_reset ident first) \<and>
   ledger_refines (\<lambda>l. EndpointRequestLedgerReserve l key) id (table_reserve key) \<and>
   ledger_refines (\<lambda>l. EndpointRequestLedgerCommit l key) id (table_commit key) \<and>
   ledger_refines (\<lambda>l. EndpointRequestLedgerCancel l key) id (table_cancel key) \<and>
   ledger_refines (\<lambda>l. EndpointRequestLedgerComplete l authority) id (table_complete (authority_key authority)) \<and>
   ledger_refines EndpointRequestLedgerDrain (\<lambda>r. (drain_status r, set (detached_keys r))) table_drain"
  by (intro conjI initialize_refines reset_refines reserve_refines commit_refines cancel_refines
      complete_refines drain_refines)

text \<open>
  C10. Over every sequence of operations from the zero-initialized ledger, resets to new epochs
  included, the ledger stays canonical and each key goes through its life once: reserved at most
  once, committed at most once and only after it was reserved, then ended by exactly one of
  completion (only after a commit), cancellation or detachment. Its slot is live exactly until
  then, and keys are reserved in strictly increasing order of epoch and request id.
\<close>

theorem request_ledger_lifecycle:
  assumes "ledger_step\<^sup>*\<^sup>* (zero_ledger, []) (l, h)"
  shows "EndpointRequestLedgerIsCanonical l \<and>
    (\<forall>key. key_events h key \<in> lifecycle key (rows l key)) \<and> sorted_wrt key_before (reserved_keys h)"
proof -
  have "ledger_run_inv (l, h)"
    using ledger_ts.reachable_inv [OF refl assms] .
  then show ?thesis
    by (simp add: ledger_run_inv_def history_inv_def)
qed

theorem request_ledger_lifecycle_witness:
  "EndpointRequestLedgerIsCanonical committed_ledger \<and> rows committed_ledger sample_key = Some SlotCommitted \<and>
   key_events [LReserved sample_key, LCommitted sample_key] sample_key \<in> lifecycle sample_key (Some SlotCommitted)"
proof -
  have row: "rows committed_ledger sample_key = Some SlotCommitted"
    by code_simp
  from request_ledger_lifecycle [OF sample_run]
  have canonical: "EndpointRequestLedgerIsCanonical committed_ledger"
    and events: "key_events [LReserved sample_key, LCommitted sample_key] sample_key \<in>
      lifecycle sample_key (rows committed_ledger sample_key)"
    by blast+
  from canonical row events [unfolded row] show ?thesis
    by blast
qed

text \<open>
  C29. An operation that does not succeed changes nothing: on any ledger whatever, corrupt ones
  included, each of the seven operations that returns another status than ok leaves every field
  and slot as it was, and a failed commit or drain hands out no authority and no keys.
\<close>

theorem request_ledger_failures_inert:
  "(EndpointRequestLedgerInitialize (Some l) ident first = (st, l') \<and> st \<noteq> LedgerOk \<longrightarrow> l' = Some l) \<and>
   (EndpointRequestLedgerReset (Some l) ident first = (st, l') \<and> st \<noteq> LedgerOk \<longrightarrow> l' = Some l) \<and>
   (EndpointRequestLedgerReserve (Some l) key = (st, l') \<and> st \<noteq> LedgerOk \<longrightarrow> l' = Some l) \<and>
   (EndpointRequestLedgerCommit (Some l) key = (r, l') \<and> commit_status r \<noteq> LedgerOk \<longrightarrow>
      l' = Some l \<and> \<not> EndpointRequestCompletionAuthorityIsValid (completion_authority r)) \<and>
   (EndpointRequestLedgerCancel (Some l) key = (st, l') \<and> st \<noteq> LedgerOk \<longrightarrow> l' = Some l) \<and>
   (EndpointRequestLedgerComplete (Some l) authority = (st, l') \<and> st \<noteq> LedgerOk \<longrightarrow> l' = Some l) \<and>
   (EndpointRequestLedgerDrain (Some l) = (d, l') \<and> drain_status d \<noteq> LedgerOk \<longrightarrow>
      l' = Some l \<and> detached_keys d = [])"
proof (intro conjI impI)
  assume "EndpointRequestLedgerInitialize (Some l) ident first = (st, l') \<and> st \<noteq> LedgerOk"
  then show "l' = Some l"
    by (auto simp: EndpointRequestLedgerInitialize_def split: if_splits)
next
  assume "EndpointRequestLedgerReset (Some l) ident first = (st, l') \<and> st \<noteq> LedgerOk"
  then show "l' = Some l"
    by (auto simp: EndpointRequestLedgerReset_def split: if_splits)
next
  assume "EndpointRequestLedgerReserve (Some l) key = (st, l') \<and> st \<noteq> LedgerOk"
  then show "l' = Some l"
    by (auto simp: EndpointRequestLedgerReserve_def Let_def split: if_splits)
next
  assume "EndpointRequestLedgerCommit (Some l) key = (r, l') \<and> commit_status r \<noteq> LedgerOk"
  then show "l' = Some l" and "\<not> EndpointRequestCompletionAuthorityIsValid (completion_authority r)"
    by (auto simp: EndpointRequestLedgerCommit_def CommitFailure_def Let_def invalid_authority split: if_splits)
next
  assume "EndpointRequestLedgerCancel (Some l) key = (st, l') \<and> st \<noteq> LedgerOk"
  then show "l' = Some l"
    by (auto simp: EndpointRequestLedgerCancel_def Let_def split: if_splits)
next
  assume "EndpointRequestLedgerComplete (Some l) authority = (st, l') \<and> st \<noteq> LedgerOk"
  then show "l' = Some l"
    by (auto simp: EndpointRequestLedgerComplete_def Let_def split: if_splits)
next
  assume "EndpointRequestLedgerDrain (Some l) = (d, l') \<and> drain_status d \<noteq> LedgerOk"
  then show "l' = Some l" and "detached_keys d = []"
    by (auto simp: EndpointRequestLedgerDrain_def DrainFailure_def split: if_splits prod.splits)
qed

theorem request_ledger_failures_inert_witness:
  "EndpointRequestLedgerReserve (Some busy_ledger) sample_key = (LedgerReplayRejected, Some busy_ledger)"
proof -
  have "fst (EndpointRequestLedgerReserve (Some busy_ledger) sample_key) = LedgerReplayRejected"
    by code_simp
  then obtain l' where op: "EndpointRequestLedgerReserve (Some busy_ledger) sample_key = (LedgerReplayRejected, l')"
    by (cases "EndpointRequestLedgerReserve (Some busy_ledger) sample_key") auto
  with request_ledger_failures_inert [where l = busy_ledger and key = sample_key and
      st = LedgerReplayRejected and l' = l', THEN conjunct2, THEN conjunct2, THEN conjunct1]
  show ?thesis by simp
qed

text \<open>
  C30. A ledger never wedges: from every reachable initialized state a drain succeeds and hands
  over exactly the live keys, each once; after it, as long as a later epoch exists, a reset to
  that epoch succeeds and the first request of the new epoch can be reserved.
\<close>

theorem request_ledger_recovers:
  assumes run: "ledger_step\<^sup>*\<^sup>* (zero_ledger, []) (l, h)" and st: "ledger_state l \<noteq> LedgerUninitialized"
    and ident: "EndpointRequestLedgerIdentityIsValid ident" "direction ident = direction (ledger_id l)"
      "endpoint_epoch (ledger_id l) < endpoint_epoch ident"
    and first: "first \<noteq> 0"
  shows "\<exists>r l1 l2 l3. EndpointRequestLedgerDrain (Some l) = (r, Some l1) \<and> drain_status r = LedgerOk \<and>
    set (detached_keys r) = dom (rows l) \<and> distinct (detached_keys r) \<and>
    EndpointRequestLedgerReset (Some l1) ident first = (LedgerOk, Some l2) \<and>
    EndpointRequestLedgerReserve (Some l2) \<lparr>ledger_identity = ident, request_id = first\<rparr> = (LedgerOk, Some l3)"
proof -
  have inv: "ledger_inv l"
    using ledger_ts.reachable_inv [OF refl run] by (simp add: ledger_run_inv_def)
  obtain r l1 where drain: "EndpointRequestLedgerDrain (Some l) = (r, Some l1)" "drain_status r = LedgerOk"
    "set (detached_keys r) = dom (rows l)" "distinct (detached_keys r)"
    and l1: "ledger_inv l1" "ledger_state l1 = LedgerDraining" "ledger_id l1 = ledger_id l"
    by (rule drain_outcome [OF inv st])
  have "endpoint_epoch (ledger_id l) \<noteq> kU64Max"
    using ident(3) u64_le_max [of "endpoint_epoch ident"] by auto
  then have reset: "EndpointRequestLedgerReset (Some l1) ident first = (LedgerOk, Some (opened_ledger l1 ident first))"
    using ident first l1 by (simp add: reset_eq not_le)
  have "\<exists>l3. EndpointRequestLedgerReserve (Some (opened_ledger l1 ident first))
      \<lparr>ledger_identity = ident, request_id = first\<rparr> = (LedgerOk, Some l3)"
    using l1 ident(1) first by (intro reserve_first) auto
  with drain reset show ?thesis by blast
qed

theorem request_ledger_recovers_witness:
  "\<exists>r l1 l2 l3. EndpointRequestLedgerDrain (Some committed_ledger) = (r, Some l1) \<and> drain_status r = LedgerOk \<and>
    set (detached_keys r) = dom (rows committed_ledger) \<and> distinct (detached_keys r) \<and>
    EndpointRequestLedgerReset (Some l1) (sample_identity\<lparr>endpoint_epoch := 8\<rparr>) 1 = (LedgerOk, Some l2) \<and>
    EndpointRequestLedgerReserve (Some l2) \<lparr>ledger_identity = sample_identity\<lparr>endpoint_epoch := 8\<rparr>, request_id = 1\<rparr> =
      (LedgerOk, Some l3)"
proof (rule request_ledger_recovers [OF sample_run])
  show "ledger_state committed_ledger \<noteq> LedgerUninitialized" by code_simp
  show "EndpointRequestLedgerIdentityIsValid (sample_identity\<lparr>endpoint_epoch := 8\<rparr>)" by code_simp
  show "direction (sample_identity\<lparr>endpoint_epoch := 8\<rparr>) = direction (ledger_id committed_ledger)" by code_simp
  show "endpoint_epoch (ledger_id committed_ledger) < endpoint_epoch (sample_identity\<lparr>endpoint_epoch := 8\<rparr>)"
    by code_simp
  show "(1 :: u64) \<noteq> 0" by simp
qed

end
