(* ===== verification/ResourceDomain.thy ===== *)
theory ResourceDomain
  imports Prelude
begin

text \<open>
  Resource domains (\<^verbatim>\<open>kernel/proc/resource_domain.{h,cpp}\<close>): 64 generation-keyed domain rows that
  account for the Sections and ChannelCores of a process tree, and the tables of exact charges.
  The three global arrays are one record; every entry point runs under one lock and is one
  atomic function of it. An in-out pointer to a key is an option: \<open>None\<close> is the null pointer,
  \<open>Some k\<close> the key stored there, before the call as argument and after it as result.
\<close>

section \<open>Data\<close>

definition kResourceDomainCapacity :: u32 where [kdefs]: "kResourceDomainCapacity = 64"
definition kResourceSectionChargeCapacity :: u32 where [kdefs]: "kResourceSectionChargeCapacity = 8"
definition kResourceChannelChargeCapacity :: u32 where [kdefs]: "kResourceChannelChargeCapacity = 64"
definition kSandboxSectionObjectLimit :: u32 where [kdefs]: "kSandboxSectionObjectLimit = 2"
definition kSandboxSectionPageLimitMaximum :: u32 where [kdefs]: "kSandboxSectionPageLimitMaximum = 8"
definition kTrustedSectionObjectLimit :: u32 where [kdefs]: "kTrustedSectionObjectLimit = 2"
definition kTrustedSectionPageLimit :: u32 where [kdefs]: "kTrustedSectionPageLimit = 1024"
definition kAuthenticatedServiceSectionObjectLimit :: u32 where [kdefs]: "kAuthenticatedServiceSectionObjectLimit = 4"
definition kAuthenticatedServiceSectionPageLimit :: u32 where [kdefs]: "kAuthenticatedServiceSectionPageLimit = 2048"
definition kSandboxChannelObjectLimit :: u32 where [kdefs]: "kSandboxChannelObjectLimit = 2"
definition kSandboxChannelByteLimit :: u64 where [kdefs]: "kSandboxChannelByteLimit = 16 * 1024"
definition kTrustedChannelObjectLimit :: u32 where [kdefs]: "kTrustedChannelObjectLimit = 8"
definition kTrustedChannelByteLimit :: u64 where [kdefs]: "kTrustedChannelByteLimit = 64 * 1024"
definition kAuthenticatedServiceChannelObjectLimit :: u32 where [kdefs]: "kAuthenticatedServiceChannelObjectLimit = 32"
definition kAuthenticatedServiceChannelByteLimit :: u64 where [kdefs]: "kAuthenticatedServiceChannelByteLimit = 256 * 1024"
definition kResourceDomainGenerationMaximum :: u64 where [kdefs]: "kResourceDomainGenerationMaximum = 0x7FFFFFFFFFFFF"
definition kResourceSectionChargeGenerationMaximum :: u64 where
  [kdefs]: "kResourceSectionChargeGenerationMaximum = 0x7FFFFFFFFFFFF"
definition kResourceChannelChargeGenerationMaximum :: u64 where
  [kdefs]: "kResourceChannelChargeGenerationMaximum = 0x7FFFFFFFFFFFF"

record ResourceDomainKey =
  dk_slot :: u32
  dk_generation :: u64

definition kInvalidResourceDomainKey :: ResourceDomainKey where
  "kInvalidResourceDomainKey = \<lparr>dk_slot = kResourceDomainCapacity, dk_generation = 0\<rparr>"

definition ResourceDomainKeyIsValid :: "ResourceDomainKey \<Rightarrow> bool" where
  "ResourceDomainKeyIsValid key \<longleftrightarrow> dk_slot key < kResourceDomainCapacity \<and> dk_generation key \<noteq> 0 \<and>
     dk_generation key \<le> kResourceDomainGenerationMaximum"

record ResourceSectionChargeKey =
  sk_slot :: u32
  sk_generation :: u64

definition kInvalidResourceSectionChargeKey :: ResourceSectionChargeKey where
  "kInvalidResourceSectionChargeKey = \<lparr>sk_slot = kResourceSectionChargeCapacity, sk_generation = 0\<rparr>"

definition ResourceSectionChargeKeyIsValid :: "ResourceSectionChargeKey \<Rightarrow> bool" where
  "ResourceSectionChargeKeyIsValid key \<longleftrightarrow> sk_slot key < kResourceSectionChargeCapacity \<and> sk_generation key \<noteq> 0 \<and>
     sk_generation key \<le> kResourceSectionChargeGenerationMaximum"

record ResourceChannelChargeKey =
  ck_slot :: u32
  ck_generation :: u64

definition kInvalidResourceChannelChargeKey :: ResourceChannelChargeKey where
  "kInvalidResourceChannelChargeKey = \<lparr>ck_slot = kResourceChannelChargeCapacity, ck_generation = 0\<rparr>"

definition ResourceChannelChargeKeyIsValid :: "ResourceChannelChargeKey \<Rightarrow> bool" where
  "ResourceChannelChargeKeyIsValid key \<longleftrightarrow> ck_slot key < kResourceChannelChargeCapacity \<and> ck_generation key \<noteq> 0 \<and>
     ck_generation key \<le> kResourceChannelChargeGenerationMaximum"

datatype ResourceDomainProfile = ProfileSandbox | ProfileTrusted | ProfileAuthenticatedService
datatype ResourceDomainState = DomainRetired | DomainLive | DomainClosing
datatype ResourceSectionPoolClass = PoolOrdinary | PoolAuthenticatedService
datatype ResourceSectionChargeState = SectionChargeRetired | SectionChargeLive
datatype ResourceChannelChargeState = ChannelChargeRetired | ChannelChargeLive

record ResourceDomainSnapshot =
  snap_state :: ResourceDomainState
  snap_profile :: ResourceDomainProfile
  snap_section_pool_class :: ResourceSectionPoolClass
  snap_owner_references :: u32
  snap_section_objects :: u32
  snap_section_pages :: u32
  snap_channel_objects :: u32
  snap_channel_bytes :: u64
  snap_section_object_limit :: u32
  snap_section_page_limit :: u32
  snap_channel_object_limit :: u32
  snap_channel_byte_limit :: u64

record ResourceDomainRow =
  domain_state :: ResourceDomainState
  profile :: ResourceDomainProfile
  section_pool_class :: ResourceSectionPoolClass
  domain_generation :: u64
  owner_references :: u32
  section_objects :: u32
  section_pages :: u32
  channel_objects :: u32
  channel_bytes :: u64
  section_object_limit :: u32
  section_page_limit :: u32
  channel_object_limit :: u32
  channel_byte_limit :: u64

record ResourceSectionChargeRow =
  section_charge_state :: ResourceSectionChargeState
  section_generation :: u64
  section_domain :: ResourceDomainKey
  charge_pages :: u32

record ResourceChannelChargeRow =
  channel_charge_state :: ResourceChannelChargeState
  channel_generation :: u64
  channel_domain :: ResourceDomainKey
  queued_buffer_bytes :: u64

record ResourceService =
  g_resource_domains :: "ResourceDomainRow list"
  g_section_charges :: "ResourceSectionChargeRow list"
  g_channel_charges :: "ResourceChannelChargeRow list"

section \<open>Helpers under the lock\<close>

text \<open>A resolved row is its index; the source returns the address of that array element.\<close>

definition ResolveDomainExactLocked :: "ResourceService \<Rightarrow> ResourceDomainKey \<Rightarrow> nat option" where
  "ResolveDomainExactLocked g key =
    (if \<not> ResourceDomainKeyIsValid key then None
     else if domain_generation (g_resource_domains g ! unat (dk_slot key)) = dk_generation key
     then Some (unat (dk_slot key)) else None)"

definition ResolveSectionChargeExactLocked :: "ResourceService \<Rightarrow> ResourceSectionChargeKey \<Rightarrow> nat option" where
  "ResolveSectionChargeExactLocked g key =
    (if \<not> ResourceSectionChargeKeyIsValid key then None
     else if section_generation (g_section_charges g ! unat (sk_slot key)) = sk_generation key
     then Some (unat (sk_slot key)) else None)"

definition ResolveChannelChargeExactLocked :: "ResourceService \<Rightarrow> ResourceChannelChargeKey \<Rightarrow> nat option" where
  "ResolveChannelChargeExactLocked g key =
    (if \<not> ResourceChannelChargeKeyIsValid key then None
     else if channel_generation (g_channel_charges g ! unat (ck_slot key)) = ck_generation key
     then Some (unat (ck_slot key)) else None)"

definition RetireDomainLocked :: "ResourceDomainRow \<Rightarrow> ResourceDomainRow" where
  "RetireDomainLocked row = row\<lparr>owner_references := 0, section_objects := 0, section_pages := 0,
     channel_objects := 0, channel_bytes := 0, domain_state := DomainRetired\<rparr>"

definition CreateDomain ::
    "ResourceDomainProfile \<Rightarrow> ResourceSectionPoolClass \<Rightarrow> u32 \<Rightarrow> u32 \<Rightarrow> u32 \<Rightarrow> u64 \<Rightarrow>
      ResourceDomainKey option \<Rightarrow> ResourceService \<Rightarrow> (bool \<times> ResourceDomainKey option) \<times> ResourceService" where
  "CreateDomain prof pool_class object_limit page_limit ch_object_limit ch_byte_limit out_key g =
    (if out_key = None \<or> object_limit = 0 \<or> page_limit = 0 \<or> ch_object_limit = 0 \<or> ch_byte_limit = 0
     then ((False, out_key), g)
     else case find (\<lambda>slot. \<not> (domain_state (g_resource_domains g ! slot) \<noteq> DomainRetired \<or>
              domain_generation (g_resource_domains g ! slot) \<ge> kResourceDomainGenerationMaximum))
            [0..<unat kResourceDomainCapacity] of
       None \<Rightarrow> ((False, Some kInvalidResourceDomainKey), g)
     | Some slot \<Rightarrow>
         let row = g_resource_domains g ! slot;
             row = row\<lparr>domain_generation := domain_generation row + 1, profile := prof,
               section_pool_class := pool_class, owner_references := 1, section_objects := 0, section_pages := 0,
               channel_objects := 0, channel_bytes := 0, section_object_limit := object_limit,
               section_page_limit := page_limit, channel_object_limit := ch_object_limit,
               channel_byte_limit := ch_byte_limit, domain_state := DomainLive\<rparr>
         in ((True, Some \<lparr>dk_slot = of_nat slot, dk_generation = domain_generation row\<rparr>),
             g\<lparr>g_resource_domains := (g_resource_domains g)[slot := row]\<rparr>))"

definition SnapshotMatches ::
    "ResourceDomainSnapshot \<Rightarrow> ResourceDomainState \<Rightarrow> ResourceDomainProfile \<Rightarrow> ResourceSectionPoolClass \<Rightarrow>
      u32 \<Rightarrow> u32 \<Rightarrow> u32 \<Rightarrow> u32 \<Rightarrow> u32 \<Rightarrow> u32 \<Rightarrow> u64 \<Rightarrow> bool" where
  "SnapshotMatches snapshot st prof pool_class refs objects pages object_limit page_limit ch_object_limit ch_byte_limit \<longleftrightarrow>
     snap_state snapshot = st \<and> snap_profile snapshot = prof \<and> snap_section_pool_class snapshot = pool_class \<and>
     snap_owner_references snapshot = refs \<and> snap_section_objects snapshot = objects \<and>
     snap_section_pages snapshot = pages \<and> snap_channel_objects snapshot = 0 \<and> snap_channel_bytes snapshot = 0 \<and>
     snap_section_object_limit snapshot = object_limit \<and> snap_section_page_limit snapshot = page_limit \<and>
     snap_channel_object_limit snapshot = ch_object_limit \<and> snap_channel_byte_limit snapshot = ch_byte_limit"

section \<open>Entry points\<close>

definition ResourceDomainCreateSandbox ::
    "u64 \<Rightarrow> ResourceDomainKey option \<Rightarrow> ResourceService \<Rightarrow> (bool \<times> ResourceDomainKey option) \<times> ResourceService" where
  "ResourceDomainCreateSandbox frame_budget_pages out_key g =
    (if out_key = None then ((False, None), g)
     else if frame_budget_pages = 0 then ((False, Some kInvalidResourceDomainKey), g)
     else
       let page_limit = ucast (if frame_budget_pages < ucast kSandboxSectionPageLimitMaximum
             then frame_budget_pages else ucast kSandboxSectionPageLimitMaximum)
       in CreateDomain ProfileSandbox PoolOrdinary kSandboxSectionObjectLimit page_limit
            kSandboxChannelObjectLimit kSandboxChannelByteLimit (Some kInvalidResourceDomainKey) g)"

definition ResourceDomainCreateTrusted ::
    "ResourceDomainKey option \<Rightarrow> ResourceService \<Rightarrow> (bool \<times> ResourceDomainKey option) \<times> ResourceService" where
  "ResourceDomainCreateTrusted out_key g =
    CreateDomain ProfileTrusted PoolOrdinary kTrustedSectionObjectLimit kTrustedSectionPageLimit
      kTrustedChannelObjectLimit kTrustedChannelByteLimit out_key g"

definition ResourceDomainCreateBoundedAuthenticatedService ::
    "u32 \<Rightarrow> u32 \<Rightarrow> ResourceDomainKey option \<Rightarrow> ResourceService \<Rightarrow>
      (bool \<times> ResourceDomainKey option) \<times> ResourceService" where
  "ResourceDomainCreateBoundedAuthenticatedService requested_section_objects requested_section_pages out_key g =
    (if out_key = None then ((False, None), g)
     else if requested_section_objects = 0 \<or> requested_section_objects > kAuthenticatedServiceSectionObjectLimit \<or>
             requested_section_pages = 0 \<or> requested_section_pages > kAuthenticatedServiceSectionPageLimit
     then ((False, Some kInvalidResourceDomainKey), g)
     else CreateDomain ProfileAuthenticatedService PoolAuthenticatedService requested_section_objects
            requested_section_pages kAuthenticatedServiceChannelObjectLimit kAuthenticatedServiceChannelByteLimit
            (Some kInvalidResourceDomainKey) g)"

definition ResourceDomainCreateAuthenticatedService ::
    "ResourceDomainKey option \<Rightarrow> ResourceService \<Rightarrow> (bool \<times> ResourceDomainKey option) \<times> ResourceService" where
  "ResourceDomainCreateAuthenticatedService out_key g =
    ResourceDomainCreateBoundedAuthenticatedService kAuthenticatedServiceSectionObjectLimit
      kAuthenticatedServiceSectionPageLimit out_key g"

definition ResourceDomainRetain :: "ResourceDomainKey \<Rightarrow> ResourceService \<Rightarrow> bool \<times> ResourceService" where
  "ResourceDomainRetain key g =
    (case ResolveDomainExactLocked g key of
       None \<Rightarrow> (False, g)
     | Some d \<Rightarrow>
         let row = g_resource_domains g ! d
         in if domain_state row \<noteq> DomainLive \<or> owner_references row = 0 \<or> owner_references row = 0xFFFFFFFF
            then (False, g)
            else (True, g\<lparr>g_resource_domains := (g_resource_domains g)[d :=
                    row\<lparr>owner_references := owner_references row + 1\<rparr>]\<rparr>))"

definition ResourceDomainRelease :: "ResourceDomainKey \<Rightarrow> ResourceService \<Rightarrow> bool \<times> ResourceService" where
  "ResourceDomainRelease key g =
    (case ResolveDomainExactLocked g key of
       None \<Rightarrow> (False, g)
     | Some d \<Rightarrow>
         let row = g_resource_domains g ! d
         in if domain_state row \<noteq> DomainLive \<or> owner_references row = 0 then (False, g)
            else
              let row = row\<lparr>owner_references := owner_references row - 1\<rparr>;
                  row = (if owner_references row \<noteq> 0 then row
                         else if section_objects row \<noteq> 0 \<or> section_pages row \<noteq> 0 \<or> channel_objects row \<noteq> 0 \<or>
                                 channel_bytes row \<noteq> 0
                         then row\<lparr>domain_state := DomainClosing\<rparr>
                         else RetireDomainLocked row)
              in (True, g\<lparr>g_resource_domains := (g_resource_domains g)[d := row]\<rparr>))"

definition ResourceDomainTryChargeSection ::
    "ResourceDomainKey \<Rightarrow> u32 \<Rightarrow> ResourceSectionChargeKey option \<Rightarrow> ResourceSectionPoolClass option \<Rightarrow>
      ResourceService \<Rightarrow> (bool \<times> ResourceSectionChargeKey option \<times> ResourceSectionPoolClass option) \<times> ResourceService" where
  "ResourceDomainTryChargeSection domain num_pages out_charge out_pool_class g =
    (if out_charge = None then ((False, None, out_pool_class), g)
     else
       let failed = (False, Some kInvalidResourceSectionChargeKey, map_option (\<lambda>_. PoolOrdinary) out_pool_class)
       in if num_pages = 0 then (failed, g)
          else case ResolveDomainExactLocked g domain of
            None \<Rightarrow> (failed, g)
          | Some d \<Rightarrow>
              let domain_row = g_resource_domains g ! d
              in if domain_state domain_row \<noteq> DomainLive \<or> owner_references domain_row = 0 \<or>
                    section_objects domain_row \<ge> section_object_limit domain_row \<or>
                    section_pages domain_row > section_page_limit domain_row \<or>
                    num_pages > section_page_limit domain_row - section_pages domain_row
                 then (failed, g)
                 else case find (\<lambda>slot. \<not> (section_charge_state (g_section_charges g ! slot) \<noteq> SectionChargeRetired \<or>
                          section_generation (g_section_charges g ! slot) \<ge> kResourceSectionChargeGenerationMaximum))
                        [0..<unat kResourceSectionChargeCapacity] of
                   None \<Rightarrow> (failed, g)
                 | Some slot \<Rightarrow>
                     let charge = g_section_charges g ! slot;
                         charge = charge\<lparr>section_generation := section_generation charge + 1, section_domain := domain,
                           charge_pages := num_pages, section_charge_state := SectionChargeLive\<rparr>;
                         domain_row = domain_row\<lparr>section_objects := section_objects domain_row + 1,
                           section_pages := section_pages domain_row + num_pages\<rparr>
                     in ((True, Some \<lparr>sk_slot = of_nat slot, sk_generation = section_generation charge\<rparr>,
                          map_option (\<lambda>_. section_pool_class domain_row) out_pool_class),
                         g\<lparr>g_section_charges := (g_section_charges g)[slot := charge],
                           g_resource_domains := (g_resource_domains g)[d := domain_row]\<rparr>))"

text \<open>The test on the domain that both release paths end with.\<close>

definition retire_if_drained :: "ResourceDomainRow \<Rightarrow> ResourceDomainRow" where
  "retire_if_drained row =
    (if domain_state row = DomainClosing \<and> section_objects row = 0 \<and> section_pages row = 0 \<and>
        channel_objects row = 0 \<and> channel_bytes row = 0
     then RetireDomainLocked row else row)"

definition ResourceDomainReleaseSection ::
    "ResourceSectionChargeKey option \<Rightarrow> ResourceService \<Rightarrow>
      (bool \<times> ResourceSectionChargeKey option) \<times> ResourceService" where
  "ResourceDomainReleaseSection charge_key g =
    (case charge_key of
       None \<Rightarrow> ((False, None), g)
     | Some key \<Rightarrow>
         if \<not> ResourceSectionChargeKeyIsValid key then ((False, charge_key), g)
         else case ResolveSectionChargeExactLocked g key of
           None \<Rightarrow> ((False, charge_key), g)
         | Some c \<Rightarrow>
             let charge = g_section_charges g ! c
             in if section_charge_state charge \<noteq> SectionChargeLive \<or> charge_pages charge = 0
                then ((False, charge_key), g)
                else case ResolveDomainExactLocked g (section_domain charge) of
                  None \<Rightarrow> ((False, charge_key), g)
                | Some d \<Rightarrow>
                    let row = g_resource_domains g ! d
                    in if (domain_state row \<noteq> DomainLive \<and> domain_state row \<noteq> DomainClosing) \<or>
                          section_objects row = 0 \<or> section_pages row < charge_pages charge
                       then ((False, charge_key), g)
                       else
                         let row = row\<lparr>section_objects := section_objects row - 1,
                               section_pages := section_pages row - charge_pages charge\<rparr>;
                             charge = charge\<lparr>section_domain := kInvalidResourceDomainKey, charge_pages := 0,
                               section_charge_state := SectionChargeRetired\<rparr>
                         in ((True, Some kInvalidResourceSectionChargeKey),
                             g\<lparr>g_section_charges := (g_section_charges g)[c := charge],
                               g_resource_domains := (g_resource_domains g)[d := retire_if_drained row]\<rparr>))"

definition ResourceDomainTryChargeChannel ::
    "ResourceDomainKey \<Rightarrow> u64 \<Rightarrow> ResourceChannelChargeKey option \<Rightarrow> ResourceService \<Rightarrow>
      (bool \<times> ResourceChannelChargeKey option) \<times> ResourceService" where
  "ResourceDomainTryChargeChannel domain bytes out_charge g =
    (if out_charge = None then ((False, None), g)
     else
       let failed = (False, Some kInvalidResourceChannelChargeKey)
       in if bytes = 0 then (failed, g)
          else case ResolveDomainExactLocked g domain of
            None \<Rightarrow> (failed, g)
          | Some d \<Rightarrow>
              let domain_row = g_resource_domains g ! d
              in if domain_state domain_row \<noteq> DomainLive \<or> owner_references domain_row = 0 \<or>
                    channel_objects domain_row \<ge> channel_object_limit domain_row \<or>
                    channel_bytes domain_row > channel_byte_limit domain_row \<or>
                    bytes > channel_byte_limit domain_row - channel_bytes domain_row
                 then (failed, g)
                 else case find (\<lambda>slot. \<not> (channel_charge_state (g_channel_charges g ! slot) \<noteq> ChannelChargeRetired \<or>
                          channel_generation (g_channel_charges g ! slot) \<ge> kResourceChannelChargeGenerationMaximum))
                        [0..<unat kResourceChannelChargeCapacity] of
                   None \<Rightarrow> (failed, g)
                 | Some slot \<Rightarrow>
                     let charge = g_channel_charges g ! slot;
                         charge = charge\<lparr>channel_generation := channel_generation charge + 1, channel_domain := domain,
                           queued_buffer_bytes := bytes, channel_charge_state := ChannelChargeLive\<rparr>;
                         domain_row = domain_row\<lparr>channel_objects := channel_objects domain_row + 1,
                           channel_bytes := channel_bytes domain_row + bytes\<rparr>
                     in ((True, Some \<lparr>ck_slot = of_nat slot, ck_generation = channel_generation charge\<rparr>),
                         g\<lparr>g_channel_charges := (g_channel_charges g)[slot := charge],
                           g_resource_domains := (g_resource_domains g)[d := domain_row]\<rparr>))"

definition ResourceDomainReleaseChannel ::
    "ResourceChannelChargeKey option \<Rightarrow> ResourceService \<Rightarrow>
      (bool \<times> ResourceChannelChargeKey option) \<times> ResourceService" where
  "ResourceDomainReleaseChannel charge_key g =
    (case charge_key of
       None \<Rightarrow> ((False, None), g)
     | Some key \<Rightarrow>
         if \<not> ResourceChannelChargeKeyIsValid key then ((False, charge_key), g)
         else case ResolveChannelChargeExactLocked g key of
           None \<Rightarrow> ((False, charge_key), g)
         | Some c \<Rightarrow>
             let charge = g_channel_charges g ! c
             in if channel_charge_state charge \<noteq> ChannelChargeLive \<or> queued_buffer_bytes charge = 0
                then ((False, charge_key), g)
                else case ResolveDomainExactLocked g (channel_domain charge) of
                  None \<Rightarrow> ((False, charge_key), g)
                | Some d \<Rightarrow>
                    let row = g_resource_domains g ! d
                    in if (domain_state row \<noteq> DomainLive \<and> domain_state row \<noteq> DomainClosing) \<or>
                          channel_objects row = 0 \<or> channel_bytes row < queued_buffer_bytes charge
                       then ((False, charge_key), g)
                       else
                         let row = row\<lparr>channel_objects := channel_objects row - 1,
                               channel_bytes := channel_bytes row - queued_buffer_bytes charge\<rparr>;
                             charge = charge\<lparr>channel_domain := kInvalidResourceDomainKey, queued_buffer_bytes := 0,
                               channel_charge_state := ChannelChargeRetired\<rparr>
                         in ((True, Some kInvalidResourceChannelChargeKey),
                             g\<lparr>g_channel_charges := (g_channel_charges g)[c := charge],
                               g_resource_domains := (g_resource_domains g)[d := retire_if_drained row]\<rparr>))"

definition snapshot_of :: "ResourceDomainRow \<Rightarrow> ResourceDomainSnapshot" where
  "snapshot_of row = \<lparr>snap_state = domain_state row, snap_profile = profile row,
     snap_section_pool_class = section_pool_class row, snap_owner_references = owner_references row,
     snap_section_objects = section_objects row, snap_section_pages = section_pages row,
     snap_channel_objects = channel_objects row, snap_channel_bytes = channel_bytes row,
     snap_section_object_limit = section_object_limit row, snap_section_page_limit = section_page_limit row,
     snap_channel_object_limit = channel_object_limit row, snap_channel_byte_limit = channel_byte_limit row\<rparr>"

definition zero_domain_snapshot :: ResourceDomainSnapshot where
  "zero_domain_snapshot = \<lparr>snap_state = DomainRetired, snap_profile = ProfileSandbox,
     snap_section_pool_class = PoolOrdinary, snap_owner_references = 0, snap_section_objects = 0,
     snap_section_pages = 0, snap_channel_objects = 0, snap_channel_bytes = 0, snap_section_object_limit = 0,
     snap_section_page_limit = 0, snap_channel_object_limit = 0, snap_channel_byte_limit = 0\<rparr>"

definition ResourceDomainInspectExact ::
    "ResourceDomainKey \<Rightarrow> ResourceDomainSnapshot option \<Rightarrow> ResourceService \<Rightarrow> bool \<times> ResourceDomainSnapshot option" where
  "ResourceDomainInspectExact key out_snapshot g =
    (if out_snapshot = None then (False, None)
     else case ResolveDomainExactLocked g key of
       None \<Rightarrow> (False, Some zero_domain_snapshot)
     | Some d \<Rightarrow> (True, Some (snapshot_of (g_resource_domains g ! d))))"

text \<open>The arrays as the loader zero-initializes them.\<close>

definition zero_domain_row :: ResourceDomainRow where
  "zero_domain_row = \<lparr>domain_state = DomainRetired, profile = ProfileSandbox, section_pool_class = PoolOrdinary,
     domain_generation = 0, owner_references = 0, section_objects = 0, section_pages = 0, channel_objects = 0,
     channel_bytes = 0, section_object_limit = 0, section_page_limit = 0, channel_object_limit = 0,
     channel_byte_limit = 0\<rparr>"

definition zero_domain_key :: ResourceDomainKey where
  "zero_domain_key = \<lparr>dk_slot = 0, dk_generation = 0\<rparr>"

definition zero_service :: ResourceService where
  "zero_service = \<lparr>g_resource_domains = replicate 64 zero_domain_row,
     g_section_charges = replicate 8 \<lparr>section_charge_state = SectionChargeRetired, section_generation = 0,
       section_domain = zero_domain_key, charge_pages = 0\<rparr>,
     g_channel_charges = replicate 64 \<lparr>channel_charge_state = ChannelChargeRetired, channel_generation = 0,
       channel_domain = zero_domain_key, queued_buffer_bytes = 0\<rparr>\<rparr>"

end
