(* ===== verification/ChargeAccounting.thy ===== *)
theory ChargeAccounting
  imports ResourceDomain
begin

text \<open>
  The bookkeeping argument of the resource domains, for either class of charges. A charge row is
  seen as a triple: is it live, which domain key it debits, how much. A class of counters is
  exact when every domain row counts precisely the live charges that name its current generation.
\<close>

type_synonym charge = "bool \<times> ResourceDomainKey \<times> nat"

definition charged_objects :: "ResourceDomainKey \<Rightarrow> charge list \<Rightarrow> nat" where
  "charged_objects k V = length (filter (\<lambda>(live, owner, w). live \<and> owner = k) V)"

definition charged_weight :: "ResourceDomainKey \<Rightarrow> charge list \<Rightarrow> nat" where
  "charged_weight k V = sum_list (map (\<lambda>(live, owner, w). if live \<and> owner = k then w else 0) V)"

definition key_at :: "ResourceDomainRow list \<Rightarrow> nat \<Rightarrow> ResourceDomainKey" where
  "key_at D d = \<lparr>dk_slot = of_nat d, dk_generation = domain_generation (D ! d)\<rparr>"

definition owned :: "ResourceDomainRow list \<Rightarrow> ResourceDomainKey \<Rightarrow> bool" where
  "owned D k \<longleftrightarrow> ResourceDomainKeyIsValid k \<and>
     domain_generation (D ! unat (dk_slot k)) = dk_generation k \<and> domain_state (D ! unat (dk_slot k)) \<noteq> DomainRetired"

definition class_exact ::
    "(ResourceDomainRow \<Rightarrow> nat) \<Rightarrow> (ResourceDomainRow \<Rightarrow> nat) \<Rightarrow> ResourceDomainRow list \<Rightarrow> charge list \<Rightarrow> bool" where
  "class_exact objects weight D V \<longleftrightarrow>
     (\<forall>d<64. objects (D ! d) = charged_objects (key_at D d) V \<and> weight (D ! d) = charged_weight (key_at D d) V) \<and>
     (\<forall>owner w. (True, owner, w) \<in> set V \<longrightarrow> 0 < w \<and> owned D owner)"

section \<open>Counting\<close>

lemma charged_objects_zero: "charged_objects k V = 0 \<longleftrightarrow> (\<forall>w. (True, k, w) \<notin> set V)"
  by (auto simp: charged_objects_def filter_empty_conv)

lemma charged_weight_zero: "charged_objects k V = 0 \<Longrightarrow> charged_weight k V = 0"
  by (auto simp: charged_objects_zero charged_weight_def sum_list_eq_0_iff)

lemma charged_update_other:
  assumes "i < length V" and "\<And>w. V ! i \<noteq> (True, k, w)" and "\<And>w. e \<noteq> (True, k, w)"
  shows "charged_objects k (V[i := e]) = charged_objects k V \<and> charged_weight k (V[i := e]) = charged_weight k V"
proof -
  have dead: "\<not> (case V ! i of (live, owner, w) \<Rightarrow> live \<and> owner = k)" "\<not> (case e of (live, owner, w) \<Rightarrow> live \<and> owner = k)"
    using assms(2,3) by (cases "V ! i"; cases e; auto)+
  have "charged_objects k (V[i := e]) = charged_objects k V"
    unfolding charged_objects_def using assms(1) dead by (intro filter_update_same) blast+
  moreover have "charged_weight k (V[i := e]) = charged_weight k V"
    using sum_list_map_update [OF assms(1), of "\<lambda>(live, owner, w). if live \<and> owner = k then w else 0" e] dead
    by (auto simp: charged_weight_def split: prod.splits)
  ultimately show ?thesis ..
qed

lemma charged_update_add:
  assumes "i < length V" and "\<not> fst (V ! i)"
  shows "charged_objects k (V[i := (True, k, w)]) = Suc (charged_objects k V)"
    and "charged_weight k (V[i := (True, k, w)]) = charged_weight k V + w"
proof -
  have dead: "\<not> (case V ! i of (live, owner, w) \<Rightarrow> live \<and> owner = k)"
    using assms(2) by (cases "V ! i") auto
  show "charged_objects k (V[i := (True, k, w)]) = Suc (charged_objects k V)"
    unfolding charged_objects_def using assms(1) dead by (intro filter_update_add) auto
  show "charged_weight k (V[i := (True, k, w)]) = charged_weight k V + w"
    using sum_list_map_update [OF assms(1), of "\<lambda>(live, owner, w). if live \<and> owner = k then w else 0" "(True, k, w)"] dead
    by (auto simp: charged_weight_def split: prod.splits)
qed

lemma charged_update_remove:
  assumes "i < length V" and "V ! i = (True, k, w)" and "\<not> fst e"
  shows "charged_objects k V = Suc (charged_objects k (V[i := e]))"
    and "charged_weight k V = charged_weight k (V[i := e]) + w"
proof -
  have dead: "\<not> (case e of (live, owner, w) \<Rightarrow> live \<and> owner = k)"
    using assms(3) by (cases e) auto
  show "charged_objects k V = Suc (charged_objects k (V[i := e]))"
    unfolding charged_objects_def using assms(1,2) dead by (intro filter_update_remove) auto
  show "charged_weight k V = charged_weight k (V[i := e]) + w"
    using sum_list_map_update [OF assms(1), of "\<lambda>(live, owner, w). if live \<and> owner = k then w else 0" e] dead assms(2)
    by (auto simp: charged_weight_def split: prod.splits)
qed

lemma unat_slot: "d < 64 \<Longrightarrow> unat (of_nat d :: u32) = d"
  by (simp add: unat_of_nat_u32)

lemma owned_key_at: "owned D k \<Longrightarrow> k = key_at D (unat (dk_slot k)) \<and> unat (dk_slot k) < 64"
  by (auto simp: owned_def key_at_def ResourceDomainKeyIsValid_def kResourceDomainCapacity_def word_less_nat_alt)

lemma key_at_other: "d \<noteq> e \<Longrightarrow> key_at (D[d := row]) e = key_at D e"
  by (simp add: key_at_def)

lemma key_at_same: "length D = 64 \<Longrightarrow> d < 64 \<Longrightarrow> domain_generation row = domain_generation (D ! d) \<Longrightarrow>
  key_at (D[d := row]) e = key_at D e"
  by (cases "d = e") (simp_all add: key_at_def)

lemma key_at_inj: "d < 64 \<Longrightarrow> e < 64 \<Longrightarrow> key_at D d = key_at D' e \<Longrightarrow> d = e"
  by (metis ResourceDomainKey.ext_inject key_at_def unat_slot)

section \<open>Row updates keep a class exact\<close>

lemma class_exact_frame:
  assumes exact: "class_exact objects weight D V" and len: "length D = 64" and d: "d < 64"
    and gen: "domain_generation row = domain_generation (D ! d)"
    and same: "objects row = objects (D ! d)" "weight row = weight (D ! d)"
    and st: "domain_state (D ! d) \<noteq> DomainRetired \<Longrightarrow> domain_state row \<noteq> DomainRetired"
  shows "class_exact objects weight (D[d := row]) V"
proof -
  have "owned (D[d := row]) k" if "owned D k" for k
    using that gen st len d by (cases "unat (dk_slot k) = d") (auto simp: owned_def)
  then show ?thesis
    using exact same d len key_at_same [OF len d gen]
    by (auto simp: class_exact_def nth_list_update)
qed

lemma class_exact_fresh:
  assumes exact: "class_exact objects weight D V" and len: "length D = 64" and d: "d < 64"
    and zero: "objects (D ! d) = 0" and new: "objects row = 0" "weight row = 0"
  shows "class_exact objects weight (D[d := row]) V"
proof -
  have "charged_objects (key_at D d) V = 0"
    using exact d zero by (simp add: class_exact_def)
  then have none: "(True, key_at D d, w) \<notin> set V" for w
    by (simp add: charged_objects_zero)
  have away: "unat (dk_slot k) \<noteq> d" if "(True, k, w) \<in> set V" for k w
  proof
    assume eq: "unat (dk_slot k) = d"
    from exact that have "owned D k" by (simp add: class_exact_def)
    with eq owned_key_at have "k = key_at D d" by metis
    with none that show False by blast
  qed
  have "owned (D[d := row]) k \<and> 0 < w" if "(True, k, w) \<in> set V" for k w
    using exact that away [OF that] by (auto simp: class_exact_def owned_def)
  moreover have zero': "charged_objects (key_at (D[d := row]) d) V = 0"
    using away d by (fastforce simp: charged_objects_zero key_at_def unat_slot)
  ultimately show ?thesis
    using exact new d len charged_weight_zero [OF zero']
    by (auto simp: class_exact_def nth_list_update key_at_other)
qed

lemma class_exact_charge:
  assumes exact: "class_exact objects weight D V" and len: "length D = 64" and d: "d < 64"
    and i: "i < length V" "\<not> fst (V ! i)" and w: "0 < w" and k: "k = key_at D d" "ResourceDomainKeyIsValid k"
    and gen: "domain_generation row = domain_generation (D ! d)" and st: "domain_state row \<noteq> DomainRetired"
    and more: "objects row = Suc (objects (D ! d))" "weight row = weight (D ! d) + w"
  shows "class_exact objects weight (D[d := row]) (V[i := (True, k, w)])"
proof -
  note keys = key_at_same [OF len d gen]
  have owned_k: "owned (D[d := row]) k"
    using k d gen st len by (simp add: owned_def key_at_def unat_slot)
  have "owned (D[d := row]) owner \<and> 0 < v" if e: "(True, owner, v) \<in> set (V[i := (True, k, w)])" for owner v
  proof (cases "(True, owner, v) = (True, k, w)")
    case True
    with owned_k w show ?thesis by simp
  next
    case False
    with e have "(True, owner, v) \<in> set V" using set_update_subset_insert [of V i "(True, k, w)"] by blast
    with exact gen st d len show ?thesis
      by (cases "unat (dk_slot owner) = d") (auto simp: class_exact_def owned_def)
  qed
  moreover have "objects (D[d := row] ! e) = charged_objects (key_at (D[d := row]) e) (V[i := (True, k, w)]) \<and>
      weight (D[d := row] ! e) = charged_weight (key_at (D[d := row]) e) (V[i := (True, k, w)])" if "e < 64" for e
  proof (cases "e = d")
    case True
    with charged_update_add [OF i, of k w] exact more k d len show ?thesis
      by (simp add: keys class_exact_def)
  next
    case False
    then have "key_at D e \<noteq> k" using key_at_inj [OF that d, of D D] k(1) by blast
    with i have "charged_objects (key_at D e) (V[i := (True, k, w)]) = charged_objects (key_at D e) V \<and>
        charged_weight (key_at D e) (V[i := (True, k, w)]) = charged_weight (key_at D e) V"
      by (intro charged_update_other) auto
    with False exact that show ?thesis
      by (simp add: keys class_exact_def)
  qed
  ultimately show ?thesis
    by (simp add: class_exact_def)
qed

lemma class_exact_discharge:
  assumes exact: "class_exact objects weight D V" and len: "length D = 64" and d: "d < 64"
    and i: "i < length V" "V ! i = (True, key_at D d, w)" and e: "\<not> fst e"
    and gen: "domain_generation row = domain_generation (D ! d)" and st: "domain_state row \<noteq> DomainRetired"
    and less: "objects (D ! d) = Suc (objects row)" "weight (D ! d) = weight row + w"
  shows "class_exact objects weight (D[d := row]) (V[i := e])"
proof -
  note keys = key_at_same [OF len d gen]
  have "owned (D[d := row]) owner \<and> 0 < v" if "(True, owner, v) \<in> set (V[i := e])" for owner v
  proof -
    from that e have "(True, owner, v) \<in> set V"
      using set_update_subset_insert [of V i e] by auto
    with exact gen st d len show ?thesis
      by (cases "unat (dk_slot owner) = d") (auto simp: class_exact_def owned_def)
  qed
  moreover have "objects (D[d := row] ! j) = charged_objects (key_at (D[d := row]) j) (V[i := e]) \<and>
      weight (D[d := row] ! j) = charged_weight (key_at (D[d := row]) j) (V[i := e])" if "j < 64" for j
  proof (cases "j = d")
    case True
    with charged_update_remove [OF i e] exact less d len show ?thesis
      by (simp add: keys class_exact_def)
  next
    case False
    then have "key_at D j \<noteq> key_at D d" using key_at_inj [OF that d, of D D] by blast
    with i e have "charged_objects (key_at D j) (V[i := e]) = charged_objects (key_at D j) V \<and>
        charged_weight (key_at D j) (V[i := e]) = charged_weight (key_at D j) V"
      by (intro charged_update_other) auto
    with False exact that show ?thesis
      by (simp add: keys class_exact_def)
  qed
  ultimately show ?thesis
    by (simp add: class_exact_def)
qed

end
