(* ===== verification/ResourceDomainInv.thy ===== *)
theory ResourceDomainInv
  imports ChargeAccounting
begin

text \<open>
  The invariant of the resource-domain service and its preservation by every entry point of
  \<^verbatim>\<open>kernel/proc/resource_domain.cpp\<close>.
\<close>

section \<open>The invariant\<close>

definition section_view :: "ResourceSectionChargeRow \<Rightarrow> charge" where
  "section_view row = (section_charge_state row = SectionChargeLive, section_domain row, unat (charge_pages row))"

definition channel_view :: "ResourceChannelChargeRow \<Rightarrow> charge" where
  "channel_view row = (channel_charge_state row = ChannelChargeLive, channel_domain row, unat (queued_buffer_bytes row))"

fun profile_limits ::
    "ResourceDomainProfile \<Rightarrow> ResourceSectionPoolClass \<Rightarrow> u32 \<Rightarrow> u32 \<Rightarrow> u32 \<Rightarrow> u64 \<Rightarrow> bool" where
  "profile_limits ProfileSandbox pool objs pages chans bytes \<longleftrightarrow>
     pool = PoolOrdinary \<and> objs = 2 \<and> pages \<noteq> 0 \<and> pages \<le> 8 \<and> chans = 2 \<and> bytes = 16384"
| "profile_limits ProfileTrusted pool objs pages chans bytes \<longleftrightarrow>
     pool = PoolOrdinary \<and> objs = 2 \<and> pages = 1024 \<and> chans = 8 \<and> bytes = 65536"
| "profile_limits ProfileAuthenticatedService pool objs pages chans bytes \<longleftrightarrow>
     pool = PoolAuthenticatedService \<and> objs \<noteq> 0 \<and> objs \<le> 4 \<and> pages \<noteq> 0 \<and> pages \<le> 2048 \<and>
     chans = 32 \<and> bytes = 262144"

definition row_limits :: "ResourceDomainRow \<Rightarrow> bool" where
  "row_limits row \<longleftrightarrow> profile_limits (profile row) (section_pool_class row) (section_object_limit row)
     (section_page_limit row) (channel_object_limit row) (channel_byte_limit row)"

definition row_idle :: "ResourceDomainRow \<Rightarrow> bool" where
  "row_idle row \<longleftrightarrow> section_objects row = 0 \<and> section_pages row = 0 \<and> channel_objects row = 0 \<and> channel_bytes row = 0"

definition row_lifecycle :: "ResourceDomainRow \<Rightarrow> bool" where
  "row_lifecycle row \<longleftrightarrow> (case domain_state row of
     DomainRetired \<Rightarrow> owner_references row = 0 \<and> row_idle row
   | DomainLive \<Rightarrow> owner_references row \<noteq> 0 \<and> domain_generation row \<noteq> 0
   | DomainClosing \<Rightarrow> owner_references row = 0 \<and> domain_generation row \<noteq> 0 \<and> \<not> row_idle row)"

definition row_bounded :: "ResourceDomainRow \<Rightarrow> bool" where
  "row_bounded row \<longleftrightarrow> section_objects row \<le> section_object_limit row \<and> section_pages row \<le> section_page_limit row \<and>
     channel_objects row \<le> channel_object_limit row \<and> channel_bytes row \<le> channel_byte_limit row"

definition row_ok :: "ResourceDomainRow \<Rightarrow> bool" where
  "row_ok row \<longleftrightarrow> row_lifecycle row \<and> row_bounded row \<and>
     domain_generation row \<le> kResourceDomainGenerationMaximum \<and> (domain_generation row \<noteq> 0 \<longrightarrow> row_limits row)"

definition rd_inv :: "ResourceService \<Rightarrow> bool" where
  "rd_inv g \<longleftrightarrow> length (g_resource_domains g) = 64 \<and> length (g_section_charges g) = 8 \<and>
     length (g_channel_charges g) = 64 \<and> (\<forall>d<64. row_ok (g_resource_domains g ! d)) \<and>
     class_exact (unat \<circ> section_objects) (unat \<circ> section_pages) (g_resource_domains g)
       (map section_view (g_section_charges g)) \<and>
     class_exact (unat \<circ> channel_objects) (unat \<circ> channel_bytes) (g_resource_domains g)
       (map channel_view (g_channel_charges g))"

lemma rd_invD:
  assumes "rd_inv g"
  shows "length (g_resource_domains g) = 64" "length (g_section_charges g) = 8" "length (g_channel_charges g) = 64"
    and "d < 64 \<Longrightarrow> row_ok (g_resource_domains g ! d)"
    and "class_exact (unat \<circ> section_objects) (unat \<circ> section_pages) (g_resource_domains g)
       (map section_view (g_section_charges g))"
    and "class_exact (unat \<circ> channel_objects) (unat \<circ> channel_bytes) (g_resource_domains g)
       (map channel_view (g_channel_charges g))"
  using assms by (simp_all add: rd_inv_def)

lemma rd_invI:
  assumes "rd_inv g" and "d < 64" and "row_ok row" and "g_resource_domains g' = (g_resource_domains g)[d := row]"
    and "length (g_section_charges g') = 8" and "length (g_channel_charges g') = 64"
    and "class_exact (unat \<circ> section_objects) (unat \<circ> section_pages) ((g_resource_domains g)[d := row])
      (map section_view (g_section_charges g'))"
    and "class_exact (unat \<circ> channel_objects) (unat \<circ> channel_bytes) ((g_resource_domains g)[d := row])
      (map channel_view (g_channel_charges g'))"
  shows "rd_inv g'"
proof -
  have "row_ok ((g_resource_domains g)[d := row] ! e)" if "e < 64" for e
    using assms(1-3) that by (cases "e = d") (simp_all add: rd_inv_def)
  with assms show ?thesis
    by (simp add: rd_inv_def)
qed

lemma resolve_domain:
  "ResolveDomainExactLocked g key = Some d \<longleftrightarrow> ResourceDomainKeyIsValid key \<and> d < 64 \<and>
     key = key_at (g_resource_domains g) d"
proof
  assume "ResolveDomainExactLocked g key = Some d"
  then show "ResourceDomainKeyIsValid key \<and> d < 64 \<and> key = key_at (g_resource_domains g) d"
    by (auto simp: ResolveDomainExactLocked_def key_at_def ResourceDomainKeyIsValid_def word_less_nat_alt kdefs
        split: if_splits)
next
  assume "ResourceDomainKeyIsValid key \<and> d < 64 \<and> key = key_at (g_resource_domains g) d"
  then show "ResolveDomainExactLocked g key = Some d"
    by (auto simp: ResolveDomainExactLocked_def key_at_def unat_slot)
qed

lemma row_lifecycle_Live [simp]: "domain_state row = DomainLive \<Longrightarrow>
    row_lifecycle row \<longleftrightarrow> owner_references row \<noteq> 0 \<and> domain_generation row \<noteq> 0"
  by (simp add: row_lifecycle_def)

section \<open>Owners\<close>

definition new_domain_row ::
    "ResourceDomainProfile \<Rightarrow> ResourceSectionPoolClass \<Rightarrow> u32 \<Rightarrow> u32 \<Rightarrow> u32 \<Rightarrow> u64 \<Rightarrow> u64 \<Rightarrow> ResourceDomainRow" where
  "new_domain_row prof pool objs pages chans bytes generation =
    \<lparr>domain_state = DomainLive, profile = prof, section_pool_class = pool, domain_generation = generation,
     owner_references = 1, section_objects = 0, section_pages = 0, channel_objects = 0, channel_bytes = 0,
     section_object_limit = objs, section_page_limit = pages, channel_object_limit = chans,
     channel_byte_limit = bytes\<rparr>"

lemma new_domain_row_update:
  "row\<lparr>domain_generation := generation, profile := prof, section_pool_class := pool, owner_references := 1,
     section_objects := 0, section_pages := 0, channel_objects := 0, channel_bytes := 0, section_object_limit := objs,
     section_page_limit := pages, channel_object_limit := chans, channel_byte_limit := bytes,
     domain_state := DomainLive\<rparr> = new_domain_row prof pool objs pages chans bytes generation"
  by (cases row) (simp add: new_domain_row_def)

lemma create_cases:
  assumes "CreateDomain prof pool objs pages chans bytes out g = (r, g')"
  obtains (refused) "g' = g" "\<not> fst r"
  | (created) slot row where "slot < 64" "domain_state (g_resource_domains g ! slot) = DomainRetired"
      "domain_generation (g_resource_domains g ! slot) < kResourceDomainGenerationMaximum"
      "row = new_domain_row prof pool objs pages chans bytes (domain_generation (g_resource_domains g ! slot) + 1)"
      "g' = g\<lparr>g_resource_domains := (g_resource_domains g)[slot := row]\<rparr>"
      "r = (True, Some \<lparr>dk_slot = of_nat slot, dk_generation = domain_generation row\<rparr>)"
proof (cases "out = None \<or> objs = 0 \<or> pages = 0 \<or> chans = 0 \<or> bytes = 0")
  case True
  with assms show ?thesis
    by (intro refused) (auto simp: CreateDomain_def)
next
  case args: False
  let ?free = "\<lambda>slot. \<not> (domain_state (g_resource_domains g ! slot) \<noteq> DomainRetired \<or>
    domain_generation (g_resource_domains g ! slot) \<ge> kResourceDomainGenerationMaximum)"
  show ?thesis
  proof (cases "find ?free [0..<unat kResourceDomainCapacity]")
    case None
    with args assms show ?thesis
      by (intro refused) (simp_all only: CreateDomain_def if_False option.case prod.inject, auto)
  next
    case (Some slot)
    then have "slot < 64" "?free slot"
      using find_upt_Some [of ?free 64 slot] by (simp_all add: kResourceDomainCapacity_def)
    with args assms Some show ?thesis
      by (intro created [of slot, OF _ _ _ refl])
         (simp_all only: CreateDomain_def if_False option.case prod.inject Let_def not_not de_Morgan_disj not_le
          new_domain_row_update, auto simp: new_domain_row_def)
  qed
qed

lemma gen_succ:
  assumes "(x :: u64) < kResourceDomainGenerationMaximum"
  shows "x < x + 1" and "x + 1 \<le> kResourceDomainGenerationMaximum" and "x + 1 \<noteq> 0"
proof -
  have "unat x < 0x7FFFFFFFFFFFF"
    using assms by (simp add: word_less_nat_alt kResourceDomainGenerationMaximum_def)
  moreover from this have "unat (x + 1) = unat x + 1"
    by (simp add: unat_word_ariths)
  ultimately show "x < x + 1" "x + 1 \<le> kResourceDomainGenerationMaximum" "x + 1 \<noteq> 0"
    by (auto simp: word_less_nat_alt word_le_nat_alt kResourceDomainGenerationMaximum_def word_neq_0_pos)
qed

lemma retired_idle:
  assumes "rd_inv g" and "d < 64" and "domain_state (g_resource_domains g ! d) = DomainRetired"
  shows "row_idle (g_resource_domains g ! d)"
  using rd_invD(4) [OF assms(1,2)] assms(3) by (simp add: row_ok_def row_lifecycle_def)

lemma fresh_row_inv:
  assumes inv: "rd_inv g" and d: "d < 64" and idle: "row_idle (g_resource_domains g ! d)"
    and row: "row_ok row" "row_idle row"
  shows "rd_inv (g\<lparr>g_resource_domains := (g_resource_domains g)[d := row]\<rparr>)"
proof -
  note D = rd_invD [OF inv]
  have "class_exact (unat \<circ> section_objects) (unat \<circ> section_pages) ((g_resource_domains g)[d := row])
      (map section_view (g_section_charges g))"
    using idle row(2) by (intro class_exact_fresh [OF D(5,1) d]) (simp_all add: row_idle_def)
  moreover have "class_exact (unat \<circ> channel_objects) (unat \<circ> channel_bytes) ((g_resource_domains g)[d := row])
      (map channel_view (g_channel_charges g))"
    using idle row(2) by (intro class_exact_fresh [OF D(6,1) d]) (simp_all add: row_idle_def)
  ultimately show ?thesis
    by (intro rd_invI [OF inv d row(1)]) (simp_all add: D)
qed

lemma frame_row_inv:
  assumes inv: "rd_inv g" and d: "d < 64" and row: "row_ok row"
    and same: "domain_generation row = domain_generation (g_resource_domains g ! d)"
      "section_objects row = section_objects (g_resource_domains g ! d)"
      "section_pages row = section_pages (g_resource_domains g ! d)"
      "channel_objects row = channel_objects (g_resource_domains g ! d)"
      "channel_bytes row = channel_bytes (g_resource_domains g ! d)"
    and st: "domain_state row \<noteq> DomainRetired"
  shows "rd_inv (g\<lparr>g_resource_domains := (g_resource_domains g)[d := row]\<rparr>)"
proof -
  note D = rd_invD [OF inv]
  have "class_exact (unat \<circ> section_objects) (unat \<circ> section_pages) ((g_resource_domains g)[d := row])
      (map section_view (g_section_charges g))"
    using same st by (intro class_exact_frame [OF D(5,1) d]) simp_all
  moreover have "class_exact (unat \<circ> channel_objects) (unat \<circ> channel_bytes) ((g_resource_domains g)[d := row])
      (map channel_view (g_channel_charges g))"
    using same st by (intro class_exact_frame [OF D(6,1) d]) simp_all
  ultimately show ?thesis
    by (intro rd_invI [OF inv d row]) (simp_all add: D)
qed

lemma create_inv:
  assumes inv: "rd_inv g" and op: "CreateDomain prof pool objs pages chans bytes out g = (r, g')"
    and limits: "profile_limits prof pool objs pages chans bytes"
  shows "rd_inv g'"
  using op
proof (cases rule: create_cases)
  case refused
  with inv show ?thesis by simp
next
  case (created slot row)
  have "row_ok row" "row_idle row"
    using gen_succ [OF created(3)] limits
    by (simp_all add: created(4) row_ok_def row_bounded_def row_idle_def new_domain_row_def row_limits_def)
  with fresh_row_inv [OF inv created(1) retired_idle [OF inv created(1,2)]] created(5) show ?thesis
    by simp
qed

lemma create_sandbox_inv:
  assumes "rd_inv g" and "ResourceDomainCreateSandbox budget out g = (r, g')"
  shows "rd_inv g'"
proof (cases "out = None \<or> budget = 0")
  case True
  with assms show ?thesis by (auto simp: ResourceDomainCreateSandbox_def split: if_splits)
next
  case False
  define limit :: u32 where "limit = ucast (if budget < ucast kSandboxSectionPageLimitMaximum
    then budget else ucast kSandboxSectionPageLimitMaximum)"
  have "limit \<noteq> 0 \<and> limit \<le> 8"
  proof (cases "budget < 8")
    case True
    then have b: "unat budget < 8" by (simp add: word_less_nat_alt)
    have "unat (ucast budget :: u32) = unat budget"
      using b by (simp add: unsigned_ucast_eq take_bit_nat_eq_self)
    with True b False show ?thesis
      by (simp add: limit_def kdefs word_neq_0_pos word_le_nat_alt)
  next
    case nb: False
    then show ?thesis by (simp add: limit_def kdefs)
  qed
  with False assms(2) show ?thesis
    by (intro create_inv [OF assms(1)])
       (auto simp: ResourceDomainCreateSandbox_def limit_def Let_def kdefs)
qed

lemma create_trusted_inv:
  assumes "rd_inv g" and "ResourceDomainCreateTrusted out g = (r, g')"
  shows "rd_inv g'"
  using assms(2) unfolding ResourceDomainCreateTrusted_def
  by (rule create_inv [OF assms(1)]) (simp add: kdefs)

lemma create_service_inv:
  assumes "rd_inv g" and "ResourceDomainCreateBoundedAuthenticatedService objs pages out g = (r, g')"
  shows "rd_inv g'"
proof (cases "out = None \<or> objs = 0 \<or> objs > 4 \<or> pages = 0 \<or> pages > 2048")
  case True
  with assms show ?thesis
    by (auto simp: ResourceDomainCreateBoundedAuthenticatedService_def kdefs split: if_splits)
next
  case False
  then have "CreateDomain ProfileAuthenticatedService PoolAuthenticatedService objs pages
      kAuthenticatedServiceChannelObjectLimit kAuthenticatedServiceChannelByteLimit
      (Some kInvalidResourceDomainKey) g = (r, g')"
    using assms(2) by (auto simp: ResourceDomainCreateBoundedAuthenticatedService_def kdefs not_less split: if_splits)
  then show ?thesis
  proof (rule create_inv [OF assms(1)])
    show "profile_limits ProfileAuthenticatedService PoolAuthenticatedService objs pages
        kAuthenticatedServiceChannelObjectLimit kAuthenticatedServiceChannelByteLimit"
      using False by (simp add: kdefs not_less)
  qed
qed

lemma retain_inv:
  assumes inv: "rd_inv g" and op: "ResourceDomainRetain key g = (r, g')"
  shows "rd_inv g'"
proof (cases r)
  case False
  with op inv show ?thesis
    by (auto simp: ResourceDomainRetain_def Let_def split: option.splits if_splits)
next
  case True
  with op obtain d where d: "ResolveDomainExactLocked g key = Some d"
    and live: "domain_state (g_resource_domains g ! d) = DomainLive"
      "owner_references (g_resource_domains g ! d) \<noteq> 0xFFFFFFFF"
    and g': "g' = g\<lparr>g_resource_domains := (g_resource_domains g)[d := (g_resource_domains g ! d)
      \<lparr>owner_references := owner_references (g_resource_domains g ! d) + 1\<rparr>]\<rparr>"
    by (auto simp: ResourceDomainRetain_def Let_def split: option.splits if_splits)
  have "d < 64" using d by (simp add: resolve_domain)
  moreover have "row_ok (g_resource_domains g ! d)" using rd_invD(4) [OF inv \<open>d < 64\<close>] .
  moreover have "x + 1 \<noteq> 0" if "x \<noteq> 0xFFFFFFFF" for x :: u32
  proof
    assume "x + 1 = 0"
    then have "x = - 1" by (rule eq_neg_iff_add_eq_0 [THEN iffD2])
    with that show False by simp
  qed
  ultimately show ?thesis
    unfolding g' using live
    by (intro frame_row_inv [OF inv]) (auto simp: row_ok_def row_bounded_def row_limits_def)
qed

lemma release_inv:
  assumes inv: "rd_inv g" and op: "ResourceDomainRelease key g = (r, g')"
  shows "rd_inv g'"
proof (cases r)
  case False
  with op inv show ?thesis
    by (auto simp: ResourceDomainRelease_def Let_def split: option.splits if_splits)
next
  case True
  with op obtain d where d: "ResolveDomainExactLocked g key = Some d"
    and live: "domain_state (g_resource_domains g ! d) = DomainLive"
    by (auto simp: ResourceDomainRelease_def Let_def split: option.splits if_splits)
  let ?row = "g_resource_domains g ! d"
  let ?less = "?row\<lparr>owner_references := owner_references ?row - 1\<rparr>"
  have d64: "d < 64" using d by (simp add: resolve_domain)
  note ok = rd_invD(4) [OF inv d64]
  have g': "g' = g\<lparr>g_resource_domains := (g_resource_domains g)[d :=
      if owner_references ?less \<noteq> 0 then ?less
      else if \<not> row_idle ?less then ?less\<lparr>domain_state := DomainClosing\<rparr> else RetireDomainLocked ?less]\<rparr>"
    using op True d live by (auto simp: ResourceDomainRelease_def Let_def row_idle_def split: if_splits)
  consider "owner_references ?less \<noteq> 0" | "owner_references ?less = 0" "\<not> row_idle ?less"
    | "owner_references ?less = 0" "row_idle ?less" by blast
  then show ?thesis
  proof cases
    case 1
    then have "rd_inv (g\<lparr>g_resource_domains := (g_resource_domains g)[d := ?less]\<rparr>)"
      using live ok by (intro frame_row_inv [OF inv d64]) (simp_all add: row_ok_def row_bounded_def row_limits_def)
    with 1 show ?thesis by (simp add: g')
  next
    case 2
    then have "rd_inv (g\<lparr>g_resource_domains := (g_resource_domains g)[d := ?less\<lparr>domain_state := DomainClosing\<rparr>]\<rparr>)"
      using live ok by (intro frame_row_inv [OF inv d64])
        (simp_all add: row_ok_def row_bounded_def row_limits_def row_lifecycle_def row_idle_def)
    with 2 show ?thesis by (simp add: g')
  next
    case 3
    then have "rd_inv (g\<lparr>g_resource_domains := (g_resource_domains g)[d := RetireDomainLocked ?less]\<rparr>)"
      using live ok by (intro fresh_row_inv [OF inv d64]) (simp_all add: row_ok_def row_bounded_def row_limits_def
        row_lifecycle_def row_idle_def RetireDomainLocked_def)
    with 3 show ?thesis by (simp add: g')
  qed
qed

lemma retire_if_drained_exact:
  assumes exact: "class_exact objects weight (D[d := row]) V" and len: "length D = 64" and d: "d < 64"
    and zero: "row_idle row \<Longrightarrow> objects row = 0" "objects (RetireDomainLocked row) = 0" "weight (RetireDomainLocked row) = 0"
  shows "class_exact objects weight (D[d := retire_if_drained row]) V"
proof (cases "domain_state row = DomainClosing \<and> row_idle row")
  case True
  then have "class_exact objects weight ((D[d := row])[d := RetireDomainLocked row]) V"
    using len d zero by (intro class_exact_fresh [OF exact]) simp_all
  with True show ?thesis
    by (simp add: retire_if_drained_def row_idle_def)
next
  case False
  then have "retire_if_drained row = row"
    by (auto simp: retire_if_drained_def row_idle_def)
  with exact show ?thesis by simp
qed

lemma retire_if_drained_ok:
  assumes "row_bounded row" "domain_generation row \<noteq> 0" "domain_generation row \<le> kResourceDomainGenerationMaximum"
    and "row_limits row" and "domain_state row = DomainLive \<and> owner_references row \<noteq> 0 \<or>
      domain_state row = DomainClosing \<and> owner_references row = 0"
  shows "row_ok (retire_if_drained row)"
  using assms
  by (auto simp: row_ok_def retire_if_drained_def row_lifecycle_def row_idle_def row_bounded_def row_limits_def
      RetireDomainLocked_def)

lemma retire_if_drained_gen [simp]: "domain_generation (retire_if_drained row) = domain_generation row"
  by (simp add: retire_if_drained_def RetireDomainLocked_def)

section \<open>Section charges\<close>

lemma charge_section_cases:
  assumes op: "ResourceDomainTryChargeSection domain n out pool g = (r, g')"
  obtains (refused) "g' = g" "\<not> fst r"
  | (charged) d slot row charge where "ResolveDomainExactLocked g domain = Some d" "n \<noteq> 0"
      "row = g_resource_domains g ! d" "charge = g_section_charges g ! slot"
      "domain_state row = DomainLive" "section_objects row < section_object_limit row"
      "section_pages row \<le> section_page_limit row" "n \<le> section_page_limit row - section_pages row"
      "slot < 8" "section_charge_state charge = SectionChargeRetired"
      "section_generation charge < kResourceSectionChargeGenerationMaximum"
      "g' = g\<lparr>g_section_charges := (g_section_charges g)[slot := charge\<lparr>section_generation := section_generation charge + 1,
           section_domain := domain, charge_pages := n, section_charge_state := SectionChargeLive\<rparr>],
         g_resource_domains := (g_resource_domains g)[d := row\<lparr>section_objects := section_objects row + 1,
           section_pages := section_pages row + n\<rparr>]\<rparr>"
      "fst r" "fst (snd r) = Some \<lparr>sk_slot = of_nat slot, sk_generation = section_generation charge + 1\<rparr>"
proof (cases "fst r")
  case False
  with op have "g' = g"
    by (auto simp: ResourceDomainTryChargeSection_def Let_def split: option.splits if_splits)
  with False show ?thesis by (intro refused)
next
  case True
  let ?free = "\<lambda>slot. \<not> (section_charge_state (g_section_charges g ! slot) \<noteq> SectionChargeRetired \<or>
    section_generation (g_section_charges g ! slot) \<ge> kResourceSectionChargeGenerationMaximum)"
  from True op obtain d slot where d: "ResolveDomainExactLocked g domain = Some d"
    and slot: "find ?free [0..<unat kResourceSectionChargeCapacity] = Some slot"
    by (auto simp: ResourceDomainTryChargeSection_def Let_def split: option.splits if_splits)
  have "slot < 8" "?free slot"
    using find_upt_Some [OF slot] by (simp_all add: kResourceSectionChargeCapacity_def)
  then show ?thesis
    using True op d slot
    by (intro charged [OF d _ refl refl, of slot])
       (auto simp: ResourceDomainTryChargeSection_def Let_def not_le not_less split: if_splits)
qed

lemma unat_room:
  assumes "x \<le> limit" and "n \<le> limit - (x :: 'a :: len word)"
  shows "unat (x + n) = unat x + unat n" and "x + n \<le> limit"
proof -
  have "unat n \<le> unat limit - unat x" "unat x \<le> unat limit"
    using assms by (simp_all add: word_le_nat_alt unat_sub)
  moreover have "unat limit < 2 ^ LENGTH('a)"
    by simp
  ultimately show sum: "unat (x + n) = unat x + unat n"
    by (intro unat_add_lt) linarith
  with \<open>unat n \<le> unat limit - unat x\<close> \<open>unat x \<le> unat limit\<close> show "x + n \<le> limit"
    by (simp add: word_le_nat_alt)
qed

lemma unat_next:
  assumes "x < (limit :: 'a :: len word)"
  shows "unat (x + 1) = Suc (unat x)" and "x + 1 \<le> limit"
proof -
  have "unat x < unat limit" using assms by (simp add: word_less_nat_alt)
  moreover have "unat limit < 2 ^ LENGTH('a)" by simp
  ultimately have "unat x + unat (1 :: 'a word) < 2 ^ LENGTH('a)"
    unfolding unat_1 by linarith
  then show "unat (x + 1) = Suc (unat x)"
    by (simp add: unat_add_lt)
  with \<open>unat x < unat limit\<close> show "x + 1 \<le> limit"
    by (simp add: word_le_nat_alt)
qed

lemma charge_section_inv:
  assumes inv: "rd_inv g" and op: "ResourceDomainTryChargeSection domain n out pool g = (r, g')"
  shows "rd_inv g'"
  using op
proof (cases rule: charge_section_cases)
  case refused
  with inv show ?thesis by simp
next
  case (charged d slot row charge)
  note D = rd_invD [OF inv]
  have d: "d < 64" "domain = key_at (g_resource_domains g) d" "ResourceDomainKeyIsValid domain"
    using charged(1) unfolding resolve_domain by blast+
  let ?row = "row\<lparr>section_objects := section_objects row + 1, section_pages := section_pages row + n\<rparr>"
  let ?charge = "charge\<lparr>section_generation := section_generation charge + 1, section_domain := domain,
    charge_pages := n, section_charge_state := SectionChargeLive\<rparr>"
  note objects = unat_next [OF charged(6)] and pages = unat_room [OF charged(7,8)]
  have "row_ok row" using D(4) [OF d(1)] charged(3) by simp
  then have ok: "row_ok ?row"
    using objects(2) pages(2) charged(5) by (simp add: row_ok_def row_bounded_def row_limits_def)
  have view: "map section_view ((g_section_charges g)[slot := ?charge]) =
      (map section_view (g_section_charges g))[slot := (True, domain, unat n)]"
    by (simp add: map_update section_view_def)
  have "class_exact (unat \<circ> section_objects) (unat \<circ> section_pages) ((g_resource_domains g)[d := ?row])
      (map section_view ((g_section_charges g)[slot := ?charge]))"
    unfolding view using charged D d objects pages
    by (intro class_exact_charge [OF D(5,1) d(1)]) (simp_all add: section_view_def word_neq_0_pos)
  moreover have "class_exact (unat \<circ> channel_objects) (unat \<circ> channel_bytes) ((g_resource_domains g)[d := ?row])
      (map channel_view (g_channel_charges g))"
    using charged(3,5) by (intro class_exact_frame [OF D(6,1) d(1)]) simp_all
  ultimately show ?thesis
    unfolding charged(12) by (intro rd_invI [OF inv d(1) ok]) (simp_all add: D)
qed

lemma release_section_cases:
  assumes op: "ResourceDomainReleaseSection key g = (r, g')"
  obtains (refused) "g' = g" "\<not> fst r" "snd r = key"
  | (released) k c d row charge where "key = Some k" "ResolveSectionChargeExactLocked g k = Some c"
      "charge = g_section_charges g ! c" "section_charge_state charge = SectionChargeLive"
      "ResolveDomainExactLocked g (section_domain charge) = Some d" "row = g_resource_domains g ! d"
      "domain_state row = DomainLive \<or> domain_state row = DomainClosing"
      "section_objects row \<noteq> 0" "charge_pages charge \<le> section_pages row"
      "g' = g\<lparr>g_section_charges := (g_section_charges g)[c := charge\<lparr>section_domain := kInvalidResourceDomainKey,
           charge_pages := 0, section_charge_state := SectionChargeRetired\<rparr>],
         g_resource_domains := (g_resource_domains g)[d := retire_if_drained
           (row\<lparr>section_objects := section_objects row - 1, section_pages := section_pages row - charge_pages charge\<rparr>)]\<rparr>"
      "r = (True, Some kInvalidResourceSectionChargeKey)"
proof (cases "fst r")
  case False
  with op have "g' = g" "snd r = key"
    by (auto simp: ResourceDomainReleaseSection_def Let_def split: option.splits if_splits)
  with False show ?thesis by (intro refused)
next
  case True
  with op obtain k c d where k: "key = Some k" and c: "ResolveSectionChargeExactLocked g k = Some c"
    and d: "ResolveDomainExactLocked g (section_domain (g_section_charges g ! c)) = Some d"
    by (auto simp: ResourceDomainReleaseSection_def Let_def split: option.splits if_splits)
  then show ?thesis
    using True op
    by (intro released [OF k c refl _ d refl])
       (auto simp: ResourceDomainReleaseSection_def Let_def not_less split: if_splits)
qed

lemma live_section_owner:
  assumes "rd_inv g" and "c < 8" and "section_charge_state (g_section_charges g ! c) = SectionChargeLive"
    and "section_domain (g_section_charges g ! c) = key_at (g_resource_domains g) d" and "d < 64"
  shows "0 < unat (section_objects (g_resource_domains g ! d))"
    and "charge_pages (g_section_charges g ! c) \<le> section_pages (g_resource_domains g ! d)"
proof -
  note D = rd_invD [OF assms(1)]
  let ?V = "map section_view (g_section_charges g)" and ?k = "key_at (g_resource_domains g) d"
  have c: "c < length ?V" "?V ! c = (True, ?k, unat (charge_pages (g_section_charges g ! c)))"
    using D(2) assms(2-4) by (simp_all add: section_view_def)
  from charged_update_remove [OF c, of "(False, ?k, 0)"] D(5) assms(5)
  show "0 < unat (section_objects (g_resource_domains g ! d))"
    and "charge_pages (g_section_charges g ! c) \<le> section_pages (g_resource_domains g ! d)"
    by (simp_all add: class_exact_def word_le_nat_alt)
qed

lemma resolve_section:
  "ResolveSectionChargeExactLocked g k = Some c \<Longrightarrow> c < 8 \<and> c = unat (sk_slot k) \<and>
     section_generation (g_section_charges g ! c) = sk_generation k"
  by (auto simp: ResolveSectionChargeExactLocked_def ResourceSectionChargeKeyIsValid_def word_less_nat_alt kdefs
      split: if_splits)

lemma release_section_inv:
  assumes inv: "rd_inv g" and op: "ResourceDomainReleaseSection key g = (r, g')"
  shows "rd_inv g'"
  using op
proof (cases rule: release_section_cases)
  case refused
  with inv show ?thesis by simp
next
  case (released k c d row charge)
  note D = rd_invD [OF inv]
  have d: "d < 64" "section_domain charge = key_at (g_resource_domains g) d"
    using released(5) unfolding resolve_domain by blast+
  have c: "c < 8" using resolve_section [OF released(2)] by simp
  let ?row = "row\<lparr>section_objects := section_objects row - 1, section_pages := section_pages row - charge_pages charge\<rparr>"
  let ?charge = "charge\<lparr>section_domain := kInvalidResourceDomainKey, charge_pages := 0,
    section_charge_state := SectionChargeRetired\<rparr>"
  have ok: "row_ok row" using D(4) [OF d(1)] released(6) by simp
  have objects: "unat (section_objects row) = Suc (unat (section_objects row - 1))"
    using released(8) by (simp add: unat_sub word_le_nat_alt word_neq_0_pos)
  have pages: "unat (section_pages row) = unat (section_pages row - charge_pages charge) + unat (charge_pages charge)"
    using released(9) by (simp add: unat_sub word_le_nat_alt)
  have less: "section_objects row - 1 \<le> section_objects row" "section_pages row - charge_pages charge \<le> section_pages row"
    using objects pages by (simp_all add: word_le_nat_alt)
  have ok': "row_ok (retire_if_drained ?row)"
    using ok released(7) less
    by (intro retire_if_drained_ok) (auto simp: row_ok_def row_bounded_def row_limits_def row_lifecycle_def)
  have view: "map section_view ((g_section_charges g)[c := ?charge]) =
      (map section_view (g_section_charges g))[c := (False, kInvalidResourceDomainKey, 0)]"
    by (simp add: map_update section_view_def)
  have "class_exact (unat \<circ> section_objects) (unat \<circ> section_pages) ((g_resource_domains g)[d := ?row])
      ((map section_view (g_section_charges g))[c := (False, kInvalidResourceDomainKey, 0)])"
    using released D d c objects pages
    by (intro class_exact_discharge [OF D(5,1) d(1), where w = "unat (charge_pages charge)"])
       (auto simp: section_view_def)
  then have sections: "class_exact (unat \<circ> section_objects) (unat \<circ> section_pages)
      ((g_resource_domains g)[d := retire_if_drained ?row]) (map section_view ((g_section_charges g)[c := ?charge]))"
    unfolding view by (rule retire_if_drained_exact [OF _ D(1) d(1)]) (simp_all add: row_idle_def RetireDomainLocked_def)
  have "class_exact (unat \<circ> channel_objects) (unat \<circ> channel_bytes) ((g_resource_domains g)[d := ?row])
      (map channel_view (g_channel_charges g))"
    using released(6,7) by (intro class_exact_frame [OF D(6,1) d(1)]) auto
  then have "class_exact (unat \<circ> channel_objects) (unat \<circ> channel_bytes)
      ((g_resource_domains g)[d := retire_if_drained ?row]) (map channel_view (g_channel_charges g))"
    by (rule retire_if_drained_exact [OF _ D(1) d(1)]) (simp_all add: row_idle_def RetireDomainLocked_def)
  with sections show ?thesis
    unfolding released(10) by (intro rd_invI [OF inv d(1) ok']) (simp_all add: D)
qed

section \<open>Channel charges\<close>

lemma charge_channel_cases:
  assumes op: "ResourceDomainTryChargeChannel domain n out g = (r, g')"
  obtains (refused) "g' = g" "\<not> fst r"
  | (charged) d slot row charge where "ResolveDomainExactLocked g domain = Some d" "n \<noteq> 0"
      "row = g_resource_domains g ! d" "charge = g_channel_charges g ! slot"
      "domain_state row = DomainLive" "channel_objects row < channel_object_limit row"
      "channel_bytes row \<le> channel_byte_limit row" "n \<le> channel_byte_limit row - channel_bytes row"
      "slot < 64" "channel_charge_state charge = ChannelChargeRetired"
      "channel_generation charge < kResourceChannelChargeGenerationMaximum"
      "g' = g\<lparr>g_channel_charges := (g_channel_charges g)[slot := charge\<lparr>channel_generation := channel_generation charge + 1,
           channel_domain := domain, queued_buffer_bytes := n, channel_charge_state := ChannelChargeLive\<rparr>],
         g_resource_domains := (g_resource_domains g)[d := row\<lparr>channel_objects := channel_objects row + 1,
           channel_bytes := channel_bytes row + n\<rparr>]\<rparr>"
      "fst r" "snd r = Some \<lparr>ck_slot = of_nat slot, ck_generation = channel_generation charge + 1\<rparr>"
proof (cases "fst r")
  case False
  with op have "g' = g"
    by (auto simp: ResourceDomainTryChargeChannel_def Let_def split: option.splits if_splits)
  with False show ?thesis by (intro refused)
next
  case True
  let ?free = "\<lambda>slot. \<not> (channel_charge_state (g_channel_charges g ! slot) \<noteq> ChannelChargeRetired \<or>
    channel_generation (g_channel_charges g ! slot) \<ge> kResourceChannelChargeGenerationMaximum)"
  from True op obtain d slot where d: "ResolveDomainExactLocked g domain = Some d"
    and slot: "find ?free [0..<unat kResourceChannelChargeCapacity] = Some slot"
    by (auto simp: ResourceDomainTryChargeChannel_def Let_def split: option.splits if_splits)
  have "slot < 64" "?free slot"
    using find_upt_Some [OF slot] by (simp_all add: kResourceChannelChargeCapacity_def)
  then show ?thesis
    using True op d slot
    by (intro charged [OF d _ refl refl, of slot])
       (auto simp: ResourceDomainTryChargeChannel_def Let_def not_le not_less split: if_splits)
qed

lemma charge_channel_inv:
  assumes inv: "rd_inv g" and op: "ResourceDomainTryChargeChannel domain n out g = (r, g')"
  shows "rd_inv g'"
  using op
proof (cases rule: charge_channel_cases)
  case refused
  with inv show ?thesis by simp
next
  case (charged d slot row charge)
  note D = rd_invD [OF inv]
  have d: "d < 64" "domain = key_at (g_resource_domains g) d" "ResourceDomainKeyIsValid domain"
    using charged(1) unfolding resolve_domain by blast+
  let ?row = "row\<lparr>channel_objects := channel_objects row + 1, channel_bytes := channel_bytes row + n\<rparr>"
  let ?charge = "charge\<lparr>channel_generation := channel_generation charge + 1, channel_domain := domain,
    queued_buffer_bytes := n, channel_charge_state := ChannelChargeLive\<rparr>"
  note objects = unat_next [OF charged(6)] and pages = unat_room [OF charged(7,8)]
  have "row_ok row" using D(4) [OF d(1)] charged(3) by simp
  then have ok: "row_ok ?row"
    using objects(2) pages(2) charged(5) by (simp add: row_ok_def row_bounded_def row_limits_def)
  have view: "map channel_view ((g_channel_charges g)[slot := ?charge]) =
      (map channel_view (g_channel_charges g))[slot := (True, domain, unat n)]"
    by (simp add: map_update channel_view_def)
  have "class_exact (unat \<circ> channel_objects) (unat \<circ> channel_bytes) ((g_resource_domains g)[d := ?row])
      (map channel_view ((g_channel_charges g)[slot := ?charge]))"
    unfolding view using charged D d objects pages
    by (intro class_exact_charge [OF D(6,1) d(1)]) (simp_all add: channel_view_def word_neq_0_pos)
  moreover have "class_exact (unat \<circ> section_objects) (unat \<circ> section_pages) ((g_resource_domains g)[d := ?row])
      (map section_view (g_section_charges g))"
    using charged(3,5) by (intro class_exact_frame [OF D(5,1) d(1)]) simp_all
  ultimately show ?thesis
    unfolding charged(12) by (intro rd_invI [OF inv d(1) ok]) (simp_all add: D)
qed

lemma release_channel_cases:
  assumes op: "ResourceDomainReleaseChannel key g = (r, g')"
  obtains (refused) "g' = g" "\<not> fst r" "snd r = key"
  | (released) k c d row charge where "key = Some k" "ResolveChannelChargeExactLocked g k = Some c"
      "charge = g_channel_charges g ! c" "channel_charge_state charge = ChannelChargeLive"
      "ResolveDomainExactLocked g (channel_domain charge) = Some d" "row = g_resource_domains g ! d"
      "domain_state row = DomainLive \<or> domain_state row = DomainClosing"
      "channel_objects row \<noteq> 0" "queued_buffer_bytes charge \<le> channel_bytes row"
      "g' = g\<lparr>g_channel_charges := (g_channel_charges g)[c := charge\<lparr>channel_domain := kInvalidResourceDomainKey,
           queued_buffer_bytes := 0, channel_charge_state := ChannelChargeRetired\<rparr>],
         g_resource_domains := (g_resource_domains g)[d := retire_if_drained
           (row\<lparr>channel_objects := channel_objects row - 1, channel_bytes := channel_bytes row - queued_buffer_bytes charge\<rparr>)]\<rparr>"
      "r = (True, Some kInvalidResourceChannelChargeKey)"
proof (cases "fst r")
  case False
  with op have "g' = g" "snd r = key"
    by (auto simp: ResourceDomainReleaseChannel_def Let_def split: option.splits if_splits)
  with False show ?thesis by (intro refused)
next
  case True
  with op obtain k c d where k: "key = Some k" and c: "ResolveChannelChargeExactLocked g k = Some c"
    and d: "ResolveDomainExactLocked g (channel_domain (g_channel_charges g ! c)) = Some d"
    by (auto simp: ResourceDomainReleaseChannel_def Let_def split: option.splits if_splits)
  then show ?thesis
    using True op
    by (intro released [OF k c refl _ d refl])
       (auto simp: ResourceDomainReleaseChannel_def Let_def not_less split: if_splits)
qed

lemma live_channel_owner:
  assumes "rd_inv g" and "c < 64" and "channel_charge_state (g_channel_charges g ! c) = ChannelChargeLive"
    and "channel_domain (g_channel_charges g ! c) = key_at (g_resource_domains g) d" and "d < 64"
  shows "0 < unat (channel_objects (g_resource_domains g ! d))"
    and "queued_buffer_bytes (g_channel_charges g ! c) \<le> channel_bytes (g_resource_domains g ! d)"
proof -
  note D = rd_invD [OF assms(1)]
  let ?V = "map channel_view (g_channel_charges g)" and ?k = "key_at (g_resource_domains g) d"
  have c: "c < length ?V" "?V ! c = (True, ?k, unat (queued_buffer_bytes (g_channel_charges g ! c)))"
    using D(3) assms(2-4) by (simp_all add: channel_view_def)
  from charged_update_remove [OF c, of "(False, ?k, 0)"] D(6) assms(5)
  show "0 < unat (channel_objects (g_resource_domains g ! d))"
    and "queued_buffer_bytes (g_channel_charges g ! c) \<le> channel_bytes (g_resource_domains g ! d)"
    by (simp_all add: class_exact_def word_le_nat_alt)
qed

lemma resolve_channel:
  "ResolveChannelChargeExactLocked g k = Some c \<Longrightarrow> c < 64 \<and> c = unat (ck_slot k) \<and>
     channel_generation (g_channel_charges g ! c) = ck_generation k"
  by (auto simp: ResolveChannelChargeExactLocked_def ResourceChannelChargeKeyIsValid_def word_less_nat_alt kdefs
      split: if_splits)

lemma release_channel_inv:
  assumes inv: "rd_inv g" and op: "ResourceDomainReleaseChannel key g = (r, g')"
  shows "rd_inv g'"
  using op
proof (cases rule: release_channel_cases)
  case refused
  with inv show ?thesis by simp
next
  case (released k c d row charge)
  note D = rd_invD [OF inv]
  have d: "d < 64" "channel_domain charge = key_at (g_resource_domains g) d"
    using released(5) unfolding resolve_domain by blast+
  have c: "c < 64" using resolve_channel [OF released(2)] by simp
  let ?row = "row\<lparr>channel_objects := channel_objects row - 1, channel_bytes := channel_bytes row - queued_buffer_bytes charge\<rparr>"
  let ?charge = "charge\<lparr>channel_domain := kInvalidResourceDomainKey, queued_buffer_bytes := 0,
    channel_charge_state := ChannelChargeRetired\<rparr>"
  have ok: "row_ok row" using D(4) [OF d(1)] released(6) by simp
  have objects: "unat (channel_objects row) = Suc (unat (channel_objects row - 1))"
    using released(8) by (simp add: unat_sub word_le_nat_alt word_neq_0_pos)
  have pages: "unat (channel_bytes row) = unat (channel_bytes row - queued_buffer_bytes charge) + unat (queued_buffer_bytes charge)"
    using released(9) by (simp add: unat_sub word_le_nat_alt)
  have less: "channel_objects row - 1 \<le> channel_objects row" "channel_bytes row - queued_buffer_bytes charge \<le> channel_bytes row"
    using objects pages by (simp_all add: word_le_nat_alt)
  have ok': "row_ok (retire_if_drained ?row)"
    using ok released(7) less
    by (intro retire_if_drained_ok) (auto simp: row_ok_def row_bounded_def row_limits_def row_lifecycle_def)
  have view: "map channel_view ((g_channel_charges g)[c := ?charge]) =
      (map channel_view (g_channel_charges g))[c := (False, kInvalidResourceDomainKey, 0)]"
    by (simp add: map_update channel_view_def)
  have "class_exact (unat \<circ> channel_objects) (unat \<circ> channel_bytes) ((g_resource_domains g)[d := ?row])
      ((map channel_view (g_channel_charges g))[c := (False, kInvalidResourceDomainKey, 0)])"
    using released D d c objects pages
    by (intro class_exact_discharge [OF D(6,1) d(1), where w = "unat (queued_buffer_bytes charge)"])
       (auto simp: channel_view_def)
  then have channels: "class_exact (unat \<circ> channel_objects) (unat \<circ> channel_bytes)
      ((g_resource_domains g)[d := retire_if_drained ?row]) (map channel_view ((g_channel_charges g)[c := ?charge]))"
    unfolding view by (rule retire_if_drained_exact [OF _ D(1) d(1)]) (simp_all add: row_idle_def RetireDomainLocked_def)
  have "class_exact (unat \<circ> section_objects) (unat \<circ> section_pages) ((g_resource_domains g)[d := ?row])
      (map section_view (g_section_charges g))"
    using released(6,7) by (intro class_exact_frame [OF D(5,1) d(1)]) auto
  then have "class_exact (unat \<circ> section_objects) (unat \<circ> section_pages)
      ((g_resource_domains g)[d := retire_if_drained ?row]) (map section_view (g_section_charges g))"
    by (rule retire_if_drained_exact [OF _ D(1) d(1)]) (simp_all add: row_idle_def RetireDomainLocked_def)
  with channels show ?thesis
    unfolding released(10) by (intro rd_invI [OF inv d(1) ok']) (simp_all add: D)
qed

end
