(* ===== verification/ResourceDomainSystem.thy ===== *)
theory ResourceDomainSystem
  imports ResourceDomainInv
begin

text \<open>
  The resource-domain service over every sequence of calls with arbitrary arguments: accounting
  stays exact, limits hold, and keys that died never come back.
\<close>

section \<open>Steps\<close>

inductive service_step :: "ResourceService \<Rightarrow> ResourceService \<Rightarrow> bool" where
  create_sandbox: "ResourceDomainCreateSandbox budget out g = (r, g') \<Longrightarrow> service_step g g'"
| create_trusted: "ResourceDomainCreateTrusted out g = (r, g') \<Longrightarrow> service_step g g'"
| create_service: "ResourceDomainCreateBoundedAuthenticatedService objs pages out g = (r, g') \<Longrightarrow> service_step g g'"
| create_default_service: "ResourceDomainCreateAuthenticatedService out g = (r, g') \<Longrightarrow> service_step g g'"
| retain: "ResourceDomainRetain key g = (r, g') \<Longrightarrow> service_step g g'"
| release: "ResourceDomainRelease key g = (r, g') \<Longrightarrow> service_step g g'"
| charge_section: "ResourceDomainTryChargeSection domain n sout pool g = (rs, g') \<Longrightarrow> service_step g g'"
| release_section: "ResourceDomainReleaseSection skey g = (rr, g') \<Longrightarrow> service_step g g'"
| charge_channel: "ResourceDomainTryChargeChannel domain bytes cout g = (rc, g') \<Longrightarrow> service_step g g'"
| release_channel: "ResourceDomainReleaseChannel ckey g = (rcr, g') \<Longrightarrow> service_step g g'"

lemma service_step_inv:
  assumes "rd_inv g" and "service_step g g'"
  shows "rd_inv g'"
  using assms(2,1)
proof induction
  case (create_default_service out g r g')
  then show ?case
    unfolding ResourceDomainCreateAuthenticatedService_def by (blast intro: create_service_inv)
qed (blast intro: create_sandbox_inv create_trusted_inv create_service_inv retain_inv release_inv
    charge_section_inv release_section_inv charge_channel_inv release_channel_inv)+

lemma zero_service_inv: "rd_inv zero_service"
proof -
  have rows: "g_resource_domains zero_service ! d = zero_domain_row" if "d < 64" for d
    using that by (simp add: zero_service_def)
  have "row_ok zero_domain_row"
    by (simp add: row_ok_def row_lifecycle_def row_bounded_def row_idle_def zero_domain_row_def)
  moreover have "class_exact objects weight (g_resource_domains zero_service) (replicate n (False, k, w))"
    if "objects zero_domain_row = 0" "weight zero_domain_row = 0" for objects weight n k w
  proof -
    have zero: "charged_objects key (replicate n (False, k, w)) = 0" for key
      by (auto simp: charged_objects_zero)
    then show ?thesis
      using that rows by (simp add: class_exact_def charged_weight_zero)
  qed
  ultimately show ?thesis
    using rows by (simp add: rd_inv_def) (simp add: zero_service_def zero_domain_row_def section_view_def channel_view_def)
qed

interpretation service_ts: transition_system "\<lambda>g. g = zero_service" service_step rd_inv
  by unfold_locales (auto intro: service_step_inv zero_service_inv)

section \<open>Generations\<close>

definition domain_free :: "ResourceDomainRow \<Rightarrow> bool" where
  "domain_free row \<longleftrightarrow> domain_state row = DomainRetired"

definition section_free :: "ResourceSectionChargeRow \<Rightarrow> bool" where
  "section_free row \<longleftrightarrow> section_charge_state row = SectionChargeRetired"

definition channel_free :: "ResourceChannelChargeRow \<Rightarrow> bool" where
  "channel_free row \<longleftrightarrow> channel_charge_state row = ChannelChargeRetired"

definition tables_change :: "ResourceService \<Rightarrow> ResourceService \<Rightarrow> bool" where
  "tables_change g g' \<longleftrightarrow>
     rows_change domain_generation domain_free (g_resource_domains g) (g_resource_domains g') \<and>
     rows_change section_generation section_free (g_section_charges g) (g_section_charges g') \<and>
     rows_change channel_generation channel_free (g_channel_charges g) (g_channel_charges g')"

lemma create_change:
  assumes "rd_inv g" and "CreateDomain prof pool objs pages chans bytes out g = (r, g')"
  shows "tables_change g g'"
  using assms(2)
proof (cases rule: create_cases)
  case (created slot row)
  then show ?thesis
    using gen_succ [OF created(3)] rd_invD [OF assms(1)]
    by (auto simp: tables_change_def domain_free_def new_domain_row_def intro!: rows_change_new)
qed (simp add: tables_change_def)

lemma create_entry_change:
  assumes "rd_inv g"
  shows "ResourceDomainCreateSandbox budget out g = (r, g') \<Longrightarrow> tables_change g g'"
    and "ResourceDomainCreateTrusted out g = (r, g') \<Longrightarrow> tables_change g g'"
    and "ResourceDomainCreateBoundedAuthenticatedService objs pages out g = (r, g') \<Longrightarrow> tables_change g g'"
  using create_change [OF assms]
  by (auto simp: ResourceDomainCreateSandbox_def ResourceDomainCreateTrusted_def
      ResourceDomainCreateBoundedAuthenticatedService_def Let_def tables_change_def split: if_splits)

lemma retain_change:
  assumes "rd_inv g" and "ResourceDomainRetain key g = (r, g')"
  shows "tables_change g g'"
  using assms rd_invD(1) [OF assms(1)]
  by (auto simp: ResourceDomainRetain_def Let_def tables_change_def domain_free_def resolve_domain
      intro!: rows_change_keep split: option.splits if_splits)

lemma release_change:
  assumes "rd_inv g" and "ResourceDomainRelease key g = (r, g')"
  shows "tables_change g g'"
  using assms rd_invD(1) [OF assms(1)]
  by (auto simp: ResourceDomainRelease_def Let_def tables_change_def domain_free_def resolve_domain RetireDomainLocked_def
      intro!: rows_change_keep split: option.splits if_splits)

lemma charge_section_change:
  assumes "rd_inv g" and "ResourceDomainTryChargeSection domain n out pool g = (r, g')"
  shows "tables_change g g'"
  using assms(2)
proof (cases rule: charge_section_cases)
  case (charged d slot row charge)
  have d: "d < 64" using charged(1) unfolding resolve_domain by blast
  have "section_generation charge < section_generation charge + 1"
    using gen_succ(1) charged(11) by (simp add: kResourceSectionChargeGenerationMaximum_def kResourceDomainGenerationMaximum_def)
  then have "rows_change section_generation section_free (g_section_charges g) (g_section_charges g')"
    using charged rd_invD [OF assms(1)] unfolding charged(12)
    by (simp add: section_free_def rows_change_new)
  moreover have "rows_change domain_generation domain_free (g_resource_domains g) (g_resource_domains g')"
    using charged(3,5) d rd_invD(1) [OF assms(1)] unfolding charged(12)
    by (simp add: domain_free_def rows_change_keep)
  ultimately show ?thesis
    by (simp add: tables_change_def charged(12))
qed (simp add: tables_change_def)

lemma charge_channel_change:
  assumes "rd_inv g" and "ResourceDomainTryChargeChannel domain n out g = (r, g')"
  shows "tables_change g g'"
  using assms(2)
proof (cases rule: charge_channel_cases)
  case (charged d slot row charge)
  have d: "d < 64" using charged(1) unfolding resolve_domain by blast
  have "channel_generation charge < channel_generation charge + 1"
    using gen_succ(1) charged(11) by (simp add: kResourceChannelChargeGenerationMaximum_def kResourceDomainGenerationMaximum_def)
  then have "rows_change channel_generation channel_free (g_channel_charges g) (g_channel_charges g')"
    using charged rd_invD [OF assms(1)] unfolding charged(12)
    by (simp add: channel_free_def rows_change_new)
  moreover have "rows_change domain_generation domain_free (g_resource_domains g) (g_resource_domains g')"
    using charged(3,5) d rd_invD(1) [OF assms(1)] unfolding charged(12)
    by (simp add: domain_free_def rows_change_keep)
  ultimately show ?thesis
    by (simp add: tables_change_def charged(12))
qed (simp add: tables_change_def)

lemma release_section_change:
  assumes "rd_inv g" and "ResourceDomainReleaseSection key g = (r, g')"
  shows "tables_change g g'"
  using assms(2)
proof (cases rule: release_section_cases)
  case (released k c d row charge)
  have d: "d < 64" using released(5) unfolding resolve_domain by blast
  then show ?thesis
    using released(3,4,6,7,10) resolve_section [OF released(2)] rd_invD [OF assms(1)]
    by (auto simp: tables_change_def domain_free_def section_free_def intro!: rows_change_keep)
qed (simp add: tables_change_def)

lemma release_channel_change:
  assumes "rd_inv g" and "ResourceDomainReleaseChannel key g = (r, g')"
  shows "tables_change g g'"
  using assms(2)
proof (cases rule: release_channel_cases)
  case (released k c d row charge)
  have d: "d < 64" using released(5) unfolding resolve_domain by blast
  then show ?thesis
    using released(3,4,6,7,10) resolve_channel [OF released(2)] rd_invD [OF assms(1)]
    by (auto simp: tables_change_def domain_free_def channel_free_def intro!: rows_change_keep)
qed (simp add: tables_change_def)

lemma service_step_change:
  assumes "service_step g g'" and "rd_inv g"
  shows "tables_change g g'"
  using assms
proof induction
  case (create_default_service out g r g')
  then show ?case
    unfolding ResourceDomainCreateAuthenticatedService_def by (blast intro: create_entry_change)
qed (blast intro: create_entry_change retain_change release_change charge_section_change release_section_change
    charge_channel_change release_channel_change)+

text \<open>The step of one row of each table, as the reachable service makes it.\<close>

definition row_step_of :: "(ResourceService \<Rightarrow> 'r list) \<Rightarrow> 'r \<Rightarrow> 'r \<Rightarrow> bool" where
  "row_step_of tbl r r' \<longleftrightarrow> (\<exists>g g' i. rd_inv g \<and> service_step g g' \<and> r = tbl g ! i \<and> r' = tbl g' ! i)"

lemma row_run:
  assumes "service_step\<^sup>*\<^sup>* g g'" and "rd_inv g"
  shows "(row_step_of tbl)\<^sup>*\<^sup>* (tbl g ! i) (tbl g' ! i)"
  using assms(1)
proof (induction rule: rtranclp_induct)
  case base
  show ?case by simp
next
  case (step a b)
  then have "row_step_of tbl (tbl a ! i) (tbl b ! i)"
    using service_ts.run_inv [OF step.hyps(1) assms(2)] by (auto simp: row_step_of_def)
  with step.IH show ?case by (rule rtranclp.rtrancl_into_rtrancl)
qed

interpretation domain_rows: generation_rows domain_generation domain_free "row_step_of g_resource_domains"
proof
  show "domain_generation r' = domain_generation r \<and> (domain_free r \<longrightarrow> domain_free r') \<or>
      domain_free r \<and> domain_generation r < domain_generation r'" if "row_step_of g_resource_domains r r'" for r r'
    using that service_step_change unfolding row_step_of_def tables_change_def by (blast dest: rows_change_law)
qed

interpretation section_rows: generation_rows section_generation section_free "row_step_of g_section_charges"
proof
  show "section_generation r' = section_generation r \<and> (section_free r \<longrightarrow> section_free r') \<or>
      section_free r \<and> section_generation r < section_generation r'" if "row_step_of g_section_charges r r'" for r r'
    using that service_step_change unfolding row_step_of_def tables_change_def by (blast dest: rows_change_law)
qed

interpretation channel_rows: generation_rows channel_generation channel_free "row_step_of g_channel_charges"
proof
  show "channel_generation r' = channel_generation r \<and> (channel_free r \<longrightarrow> channel_free r') \<or>
      channel_free r \<and> channel_generation r < channel_generation r'" if "row_step_of g_channel_charges r r'" for r r'
    using that service_step_change unfolding row_step_of_def tables_change_def by (blast dest: rows_change_law)
qed

section \<open>Charges, both ways\<close>

text \<open>When a charge is admitted, in plain arithmetic.\<close>

definition section_admitted :: "ResourceService \<Rightarrow> ResourceDomainKey \<Rightarrow> u32 \<Rightarrow> bool" where
  "section_admitted g domain n \<longleftrightarrow> n \<noteq> 0 \<and> ResourceDomainKeyIsValid domain \<and>
     (\<exists>d<64. domain = key_at (g_resource_domains g) d \<and> domain_state (g_resource_domains g ! d) = DomainLive \<and>
       unat (section_objects (g_resource_domains g ! d)) < unat (section_object_limit (g_resource_domains g ! d)) \<and>
       unat (section_pages (g_resource_domains g ! d)) + unat n \<le> unat (section_page_limit (g_resource_domains g ! d))) \<and>
     (\<exists>c<8. section_free (g_section_charges g ! c) \<and>
       section_generation (g_section_charges g ! c) < kResourceSectionChargeGenerationMaximum)"

definition channel_admitted :: "ResourceService \<Rightarrow> ResourceDomainKey \<Rightarrow> u64 \<Rightarrow> bool" where
  "channel_admitted g domain n \<longleftrightarrow> n \<noteq> 0 \<and> ResourceDomainKeyIsValid domain \<and>
     (\<exists>d<64. domain = key_at (g_resource_domains g) d \<and> domain_state (g_resource_domains g ! d) = DomainLive \<and>
       unat (channel_objects (g_resource_domains g ! d)) < unat (channel_object_limit (g_resource_domains g ! d)) \<and>
       unat (channel_bytes (g_resource_domains g ! d)) + unat n \<le> unat (channel_byte_limit (g_resource_domains g ! d))) \<and>
     (\<exists>c<64. channel_free (g_channel_charges g ! c) \<and>
       channel_generation (g_channel_charges g ! c) < kResourceChannelChargeGenerationMaximum)"

lemma room_iff:
  assumes "x \<le> (limit :: 'a :: len word)"
  shows "n \<le> limit - x \<longleftrightarrow> unat x + unat n \<le> unat limit"
  using assms by (auto simp: word_le_nat_alt unat_sub)

lemma live_row_facts:
  assumes "rd_inv g" and "d < 64" and "domain_state (g_resource_domains g ! d) = DomainLive"
  shows "owner_references (g_resource_domains g ! d) \<noteq> 0"
    and "section_pages (g_resource_domains g ! d) \<le> section_page_limit (g_resource_domains g ! d)"
    and "channel_bytes (g_resource_domains g ! d) \<le> channel_byte_limit (g_resource_domains g ! d)"
  using rd_invD(4) [OF assms(1,2)] assms(3) by (simp_all add: row_ok_def row_bounded_def)

lemma charge_section_iff:
  assumes inv: "rd_inv g"
  shows "fst (fst (ResourceDomainTryChargeSection domain n (Some out) pool g)) \<longleftrightarrow> section_admitted g domain n"
proof
  assume ok: "fst (fst (ResourceDomainTryChargeSection domain n (Some out) pool g))"
  obtain r g' where op: "ResourceDomainTryChargeSection domain n (Some out) pool g = (r, g')"
    by fastforce
  then show "section_admitted g domain n"
  proof (cases rule: charge_section_cases)
    case refused
    with ok op show ?thesis by simp
  next
    case (charged d slot row charge)
    have "d < 64" "domain = key_at (g_resource_domains g) d" "ResourceDomainKeyIsValid domain"
      using charged(1) unfolding resolve_domain by blast+
    moreover have "unat (section_pages row) + unat n \<le> unat (section_page_limit row)"
      using room_iff [OF charged(7)] charged(8) by blast
    ultimately show ?thesis
      using charged(2-6,9-11) unfolding section_admitted_def section_free_def word_less_nat_alt by blast
  qed
next
  assume "section_admitted g domain n"
  then obtain d c where d: "d < 64" "domain = key_at (g_resource_domains g) d" "ResourceDomainKeyIsValid domain" "n \<noteq> 0"
    and live: "domain_state (g_resource_domains g ! d) = DomainLive"
    and room: "section_objects (g_resource_domains g ! d) < section_object_limit (g_resource_domains g ! d)"
      "unat (section_pages (g_resource_domains g ! d)) + unat n \<le> unat (section_page_limit (g_resource_domains g ! d))"
    and c: "c < 8" "section_charge_state (g_section_charges g ! c) = SectionChargeRetired"
      "section_generation (g_section_charges g ! c) < kResourceSectionChargeGenerationMaximum"
    unfolding section_admitted_def section_free_def word_less_nat_alt by blast
  have "ResolveDomainExactLocked g domain = Some d"
    unfolding resolve_domain using d by blast
  moreover obtain slot where "find (\<lambda>slot. \<not> (section_charge_state (g_section_charges g ! slot) \<noteq> SectionChargeRetired \<or>
      section_generation (g_section_charges g ! slot) \<ge> kResourceSectionChargeGenerationMaximum))
      [0..<unat kResourceSectionChargeCapacity] = Some slot"
    using c find_upt_None [of _ 8] by (fastforce simp: kResourceSectionChargeCapacity_def not_le)
  moreover have "n \<le> section_page_limit (g_resource_domains g ! d) - section_pages (g_resource_domains g ! d)"
    using room(2) room_iff [OF live_row_facts(2) [OF inv d(1) live]] by blast
  ultimately show "fst (fst (ResourceDomainTryChargeSection domain n (Some out) pool g))"
    using live_row_facts [OF inv d(1) live] live room(1) d(4)
    by (simp add: ResourceDomainTryChargeSection_def Let_def not_le not_less)
qed

lemma release_section_iff:
  assumes inv: "rd_inv g"
  shows "fst (fst (ResourceDomainReleaseSection (Some k) g)) \<longleftrightarrow>
    ResourceSectionChargeKeyIsValid k \<and> section_generation (g_section_charges g ! unat (sk_slot k)) = sk_generation k \<and>
    \<not> section_free (g_section_charges g ! unat (sk_slot k))"
proof
  assume ok: "fst (fst (ResourceDomainReleaseSection (Some k) g))"
  obtain r g' where op: "ResourceDomainReleaseSection (Some k) g = (r, g')"
    by fastforce
  then show "ResourceSectionChargeKeyIsValid k \<and> section_generation (g_section_charges g ! unat (sk_slot k)) = sk_generation k \<and>
      \<not> section_free (g_section_charges g ! unat (sk_slot k))"
  proof (cases rule: release_section_cases)
    case refused
    with ok op show ?thesis by simp
  next
    case (released k' c d row charge)
    then show ?thesis
      by (auto simp: ResolveSectionChargeExactLocked_def section_free_def split: if_splits)
  qed
next
  assume k: "ResourceSectionChargeKeyIsValid k \<and> section_generation (g_section_charges g ! unat (sk_slot k)) = sk_generation k \<and>
    \<not> section_free (g_section_charges g ! unat (sk_slot k))"
  let ?c = "unat (sk_slot k)"
  let ?charge = "g_section_charges g ! ?c"
  have c: "ResolveSectionChargeExactLocked g k = Some ?c" and c8: "?c < 8"
    using k by (auto simp: ResolveSectionChargeExactLocked_def ResourceSectionChargeKeyIsValid_def word_less_nat_alt kdefs)
  have live: "section_charge_state ?charge = SectionChargeLive"
    using k by (cases "section_charge_state ?charge") (simp_all add: section_free_def)
  have "(True, section_domain ?charge, unat (charge_pages ?charge)) \<in> set (map section_view (g_section_charges g))"
    using c8 live rd_invD(2) [OF inv] by (force simp: section_view_def in_set_conv_nth)
  then have w: "0 < unat (charge_pages ?charge)" and owner: "owned (g_resource_domains g) (section_domain ?charge)"
    using rd_invD(5) [OF inv] by (auto simp: class_exact_def)
  define d where "d = unat (dk_slot (section_domain ?charge))"
  have d: "section_domain ?charge = key_at (g_resource_domains g) d" "d < 64"
    using owned_key_at [OF owner] by (simp_all add: d_def)
  then have res: "ResolveDomainExactLocked g (section_domain ?charge) = Some d"
    using owner unfolding resolve_domain owned_def by blast
  have "domain_state (g_resource_domains g ! d) \<noteq> DomainRetired"
    using owner by (simp add: owned_def d_def)
  then have "domain_state (g_resource_domains g ! d) = DomainLive \<or> domain_state (g_resource_domains g ! d) = DomainClosing"
    by (cases "domain_state (g_resource_domains g ! d)") simp_all
  then show "fst (fst (ResourceDomainReleaseSection (Some k) g))"
    using c live w res k live_section_owner [OF inv c8 live d]
    by (simp add: ResourceDomainReleaseSection_def Let_def word_neq_0_pos not_less)
qed

lemma charge_channel_iff:
  assumes inv: "rd_inv g"
  shows "fst (fst (ResourceDomainTryChargeChannel domain n (Some out) g)) \<longleftrightarrow> channel_admitted g domain n"
proof
  assume ok: "fst (fst (ResourceDomainTryChargeChannel domain n (Some out) g))"
  obtain r g' where op: "ResourceDomainTryChargeChannel domain n (Some out) g = (r, g')"
    by fastforce
  then show "channel_admitted g domain n"
  proof (cases rule: charge_channel_cases)
    case refused
    with ok op show ?thesis by simp
  next
    case (charged d slot row charge)
    have "d < 64" "domain = key_at (g_resource_domains g) d" "ResourceDomainKeyIsValid domain"
      using charged(1) unfolding resolve_domain by blast+
    moreover have "unat (channel_bytes row) + unat n \<le> unat (channel_byte_limit row)"
      using room_iff [OF charged(7)] charged(8) by blast
    ultimately show ?thesis
      using charged(2-6,9-11) unfolding channel_admitted_def channel_free_def word_less_nat_alt by blast
  qed
next
  assume "channel_admitted g domain n"
  then obtain d c where d: "d < 64" "domain = key_at (g_resource_domains g) d" "ResourceDomainKeyIsValid domain" "n \<noteq> 0"
    and live: "domain_state (g_resource_domains g ! d) = DomainLive"
    and room: "channel_objects (g_resource_domains g ! d) < channel_object_limit (g_resource_domains g ! d)"
      "unat (channel_bytes (g_resource_domains g ! d)) + unat n \<le> unat (channel_byte_limit (g_resource_domains g ! d))"
    and c: "c < 64" "channel_charge_state (g_channel_charges g ! c) = ChannelChargeRetired"
      "channel_generation (g_channel_charges g ! c) < kResourceChannelChargeGenerationMaximum"
    unfolding channel_admitted_def channel_free_def word_less_nat_alt by blast
  have "ResolveDomainExactLocked g domain = Some d"
    unfolding resolve_domain using d by blast
  moreover obtain slot where "find (\<lambda>slot. \<not> (channel_charge_state (g_channel_charges g ! slot) \<noteq> ChannelChargeRetired \<or>
      channel_generation (g_channel_charges g ! slot) \<ge> kResourceChannelChargeGenerationMaximum))
      [0..<unat kResourceChannelChargeCapacity] = Some slot"
    using c find_upt_None [of _ 64] by (fastforce simp: kResourceChannelChargeCapacity_def not_le)
  moreover have "n \<le> channel_byte_limit (g_resource_domains g ! d) - channel_bytes (g_resource_domains g ! d)"
    using room(2) room_iff [OF live_row_facts(3) [OF inv d(1) live]] by blast
  ultimately show "fst (fst (ResourceDomainTryChargeChannel domain n (Some out) g))"
    using live_row_facts [OF inv d(1) live] live room(1) d(4)
    by (simp add: ResourceDomainTryChargeChannel_def Let_def not_le not_less)
qed

lemma release_channel_iff:
  assumes inv: "rd_inv g"
  shows "fst (fst (ResourceDomainReleaseChannel (Some k) g)) \<longleftrightarrow>
    ResourceChannelChargeKeyIsValid k \<and> channel_generation (g_channel_charges g ! unat (ck_slot k)) = ck_generation k \<and>
    \<not> channel_free (g_channel_charges g ! unat (ck_slot k))"
proof
  assume ok: "fst (fst (ResourceDomainReleaseChannel (Some k) g))"
  obtain r g' where op: "ResourceDomainReleaseChannel (Some k) g = (r, g')"
    by fastforce
  then show "ResourceChannelChargeKeyIsValid k \<and> channel_generation (g_channel_charges g ! unat (ck_slot k)) = ck_generation k \<and>
      \<not> channel_free (g_channel_charges g ! unat (ck_slot k))"
  proof (cases rule: release_channel_cases)
    case refused
    with ok op show ?thesis by simp
  next
    case (released k' c d row charge)
    then show ?thesis
      by (auto simp: ResolveChannelChargeExactLocked_def channel_free_def split: if_splits)
  qed
next
  assume k: "ResourceChannelChargeKeyIsValid k \<and> channel_generation (g_channel_charges g ! unat (ck_slot k)) = ck_generation k \<and>
    \<not> channel_free (g_channel_charges g ! unat (ck_slot k))"
  let ?c = "unat (ck_slot k)"
  let ?charge = "g_channel_charges g ! ?c"
  have c: "ResolveChannelChargeExactLocked g k = Some ?c" and c64: "?c < 64"
    using k by (auto simp: ResolveChannelChargeExactLocked_def ResourceChannelChargeKeyIsValid_def word_less_nat_alt kdefs)
  have live: "channel_charge_state ?charge = ChannelChargeLive"
    using k by (cases "channel_charge_state ?charge") (simp_all add: channel_free_def)
  have "(True, channel_domain ?charge, unat (queued_buffer_bytes ?charge)) \<in> set (map channel_view (g_channel_charges g))"
    using c64 live rd_invD(3) [OF inv] by (force simp: channel_view_def in_set_conv_nth)
  then have w: "0 < unat (queued_buffer_bytes ?charge)" and owner: "owned (g_resource_domains g) (channel_domain ?charge)"
    using rd_invD(6) [OF inv] by (auto simp: class_exact_def)
  define d where "d = unat (dk_slot (channel_domain ?charge))"
  have d: "channel_domain ?charge = key_at (g_resource_domains g) d" "d < 64"
    using owned_key_at [OF owner] by (simp_all add: d_def)
  then have res: "ResolveDomainExactLocked g (channel_domain ?charge) = Some d"
    using owner unfolding resolve_domain owned_def by blast
  have "domain_state (g_resource_domains g ! d) \<noteq> DomainRetired"
    using owner by (simp add: owned_def d_def)
  then have "domain_state (g_resource_domains g ! d) = DomainLive \<or> domain_state (g_resource_domains g ! d) = DomainClosing"
    by (cases "domain_state (g_resource_domains g ! d)") simp_all
  then show "fst (fst (ResourceDomainReleaseChannel (Some k) g))"
    using c live w res k live_channel_owner [OF inv c64 live d]
    by (simp add: ResourceDomainReleaseChannel_def Let_def word_neq_0_pos not_less)
qed


lemma section_key_valid:
  assumes "slot < 8" and "x < kResourceSectionChargeGenerationMaximum"
  shows "ResourceSectionChargeKeyIsValid \<lparr>sk_slot = of_nat slot, sk_generation = x + 1\<rparr>"
  using assms gen_succ [of x]
  by (simp add: ResourceSectionChargeKeyIsValid_def kResourceSectionChargeGenerationMaximum_def
      kResourceDomainGenerationMaximum_def kResourceSectionChargeCapacity_def word_less_nat_alt unat_of_nat_u32)

text \<open>Releasing a fresh charge takes both tables back, but for the spent generation.\<close>

lemma charge_release_section:
  assumes inv: "rd_inv g" and op: "ResourceDomainTryChargeSection domain n (Some out) pool g = ((True, Some k, p), g1)"
  shows "\<exists>g2. ResourceDomainReleaseSection (Some k) g1 = ((True, Some kInvalidResourceSectionChargeKey), g2) \<and>
    g_resource_domains g2 = g_resource_domains g \<and> g_channel_charges g2 = g_channel_charges g \<and>
    map section_free (g_section_charges g2) = map section_free (g_section_charges g)"
  using op
proof (cases rule: charge_section_cases)
  case refused
  then show ?thesis by simp
next
  case (charged d slot row charge)
  note D = rd_invD [OF inv]
  have d: "d < 64" using charged(1) unfolding resolve_domain by blast
  have k: "k = \<lparr>sk_slot = of_nat slot, sk_generation = section_generation charge + 1\<rparr>"
    using charged(14) by simp
  have kv: "ResourceSectionChargeKeyIsValid k"
    unfolding k by (rule section_key_valid [OF charged(9,11)])
  have slot: "unat (sk_slot k) = slot"
    using charged(9) by (simp add: k unat_of_nat_u32)
  have row: "retire_if_drained row = row"
    using charged(5) by (simp add: retire_if_drained_def)
  have "ResourceDomainReleaseSection (Some k) g1 = ((True, Some kInvalidResourceSectionChargeKey),
      g\<lparr>g_section_charges := (g_section_charges g)[slot := charge\<lparr>section_generation := section_generation charge + 1,
        section_domain := kInvalidResourceDomainKey, charge_pages := 0, section_charge_state := SectionChargeRetired\<rparr>]\<rparr>)"
    if g1: "ResolveDomainExactLocked g1 domain = Some d"
    using charged kv slot d D row unat_next(1) [OF charged(6)] unat_room(1) [OF charged(7,8)] g1
    by (simp add: ResourceDomainReleaseSection_def ResolveSectionChargeExactLocked_def Let_def k
        word_neq_0_pos word_less_nat_alt)
  moreover have "ResolveDomainExactLocked g1 domain = Some d"
    using charged(1,3) d D(1) unfolding charged(12) by (auto simp: resolve_domain key_at_def)
  moreover have "map section_free ((g_section_charges g)[slot := charge\<lparr>section_generation := section_generation charge + 1,
        section_domain := kInvalidResourceDomainKey, charge_pages := 0, section_charge_state := SectionChargeRetired\<rparr>]) =
      map section_free (g_section_charges g)"
    using charged(4,9,10) D(2) by (simp add: map_update section_free_def list_update_same_conv)
  ultimately show ?thesis by simp
qed

lemma dead_domain_refused:
  assumes "dk_generation key < domain_generation (g_resource_domains g ! unat (dk_slot key)) \<or>
      dk_generation key = domain_generation (g_resource_domains g ! unat (dk_slot key)) \<and>
      domain_free (g_resource_domains g ! unat (dk_slot key))"
  shows "ResourceDomainRetain key g = (False, g)" and "ResourceDomainRelease key g = (False, g)"
    and "\<not> fst (fst (ResourceDomainTryChargeSection key n sout pool g))"
    and "\<not> fst (fst (ResourceDomainTryChargeChannel key bytes cout g))"
  using assms
  by (auto simp: ResourceDomainRetain_def ResourceDomainRelease_def ResourceDomainTryChargeSection_def
      ResourceDomainTryChargeChannel_def ResolveDomainExactLocked_def domain_free_def Let_def)

lemma released_section_dead:
  assumes "ResourceDomainReleaseSection (Some k) g = ((True, res), g')" and "rd_inv g"
  shows "sk_generation k = section_generation (g_section_charges g' ! unat (sk_slot k)) \<and>
    section_free (g_section_charges g' ! unat (sk_slot k))"
  using assms(1)
proof (cases rule: release_section_cases)
  case refused
  then show ?thesis by simp
next
  case (released k' c d row charge)
  with resolve_section [OF released(2)] rd_invD(2) [OF assms(2)] show ?thesis
    by (auto simp: section_free_def)
qed

lemma released_channel_dead:
  assumes "ResourceDomainReleaseChannel (Some k) g = ((True, res), g')" and "rd_inv g"
  shows "ck_generation k = channel_generation (g_channel_charges g' ! unat (ck_slot k)) \<and>
    channel_free (g_channel_charges g' ! unat (ck_slot k))"
  using assms(1)
proof (cases rule: release_channel_cases)
  case refused
  then show ?thesis by simp
next
  case (released k' c d row charge)
  with resolve_channel [OF released(2)] rd_invD(3) [OF assms(2)] show ?thesis
    by (auto simp: channel_free_def)
qed

section \<open>Properties\<close>

definition sandbox_key :: ResourceDomainKey where
  "sandbox_key = \<lparr>dk_slot = 0, dk_generation = 1\<rparr>"

definition sandbox_service :: ResourceService where
  "sandbox_service = snd (ResourceDomainCreateSandbox 3 (Some kInvalidResourceDomainKey) zero_service)"

definition charged_service :: ResourceService where
  "charged_service = snd (ResourceDomainTryChargeSection sandbox_key 2 (Some kInvalidResourceSectionChargeKey) None sandbox_service)"

definition section_key :: ResourceSectionChargeKey where
  "section_key = \<lparr>sk_slot = 0, sk_generation = 1\<rparr>"

definition released_service :: ResourceService where
  "released_service = snd (ResourceDomainReleaseSection (Some section_key) charged_service)"

lemma sample_charge:
  "ResourceDomainTryChargeSection sandbox_key 2 (Some kInvalidResourceSectionChargeKey) None sandbox_service =
    ((True, Some section_key, None), charged_service)"
proof -
  have "fst (ResourceDomainTryChargeSection sandbox_key 2 (Some kInvalidResourceSectionChargeKey) None sandbox_service) =
      (True, Some section_key, None)"
    by code_simp
  then show ?thesis
    by (simp add: charged_service_def prod_eq_iff)
qed

lemma sample_sandbox_run: "service_step\<^sup>*\<^sup>* zero_service sandbox_service"
  unfolding sandbox_service_def by (rule r_into_rtranclp, rule service_step.create_sandbox, rule surjective_pairing)

lemma sample_service_run: "service_step\<^sup>*\<^sup>* zero_service charged_service"
proof -
  have "service_step sandbox_service charged_service"
    by (rule service_step.charge_section [OF sample_charge])
  with sample_sandbox_run show ?thesis by (rule rtranclp.rtrancl_into_rtrancl)
qed

text \<open>
  C5. Accounting is exact in every reachable state: each domain row counts precisely the live
  Section and channel charges that name its current generation and the sum of their pages and
  bytes, never exceeds the limits that its profile fixes, and a row is retired exactly when it
  has neither owners nor charges.
\<close>

theorem resource_accounting_exact:
  assumes "service_step\<^sup>*\<^sup>* zero_service g" and "d < 64"
  defines "row \<equiv> g_resource_domains g ! d" and "k \<equiv> key_at (g_resource_domains g) d"
  shows "unat (section_objects row) = charged_objects k (map section_view (g_section_charges g)) \<and>
    unat (section_pages row) = charged_weight k (map section_view (g_section_charges g)) \<and>
    unat (channel_objects row) = charged_objects k (map channel_view (g_channel_charges g)) \<and>
    unat (channel_bytes row) = charged_weight k (map channel_view (g_channel_charges g)) \<and>
    row_bounded row \<and> (domain_generation row \<noteq> 0 \<longrightarrow> row_limits row) \<and>
    (domain_state row = DomainRetired \<longleftrightarrow> owner_references row = 0 \<and>
      charged_objects k (map section_view (g_section_charges g)) = 0 \<and>
      charged_objects k (map channel_view (g_channel_charges g)) = 0)"
proof -
  have inv: "rd_inv g"
    using service_ts.reachable_inv [OF refl assms(1)] .
  note D = rd_invD [OF inv]
  have counts: "unat (section_objects row) = charged_objects k (map section_view (g_section_charges g))"
    "unat (section_pages row) = charged_weight k (map section_view (g_section_charges g))"
    "unat (channel_objects row) = charged_objects k (map channel_view (g_channel_charges g))"
    "unat (channel_bytes row) = charged_weight k (map channel_view (g_channel_charges g))"
    using D(5,6) assms(2) by (simp_all add: class_exact_def row_def k_def)
  have ok: "row_ok row"
    using D(4) [OF assms(2)] by (simp add: row_def)
  have zero: "charged_objects k (map section_view (g_section_charges g)) = 0 \<and>
      charged_objects k (map channel_view (g_channel_charges g)) = 0 \<longleftrightarrow> row_idle row"
    using counts charged_weight_zero [of k] by (auto simp: row_idle_def unat_eq_zero)
  have "domain_state row = DomainRetired \<longleftrightarrow> owner_references row = 0 \<and> row_idle row"
    using ok by (cases "domain_state row") (simp_all add: row_ok_def row_lifecycle_def)
  with counts ok zero show ?thesis
    by (simp add: row_ok_def)
qed

theorem resource_accounting_exact_witness:
  "unat (section_objects (g_resource_domains charged_service ! 0)) = 1 \<and>
   charged_objects (key_at (g_resource_domains charged_service) 0) (map section_view (g_section_charges charged_service)) = 1"
proof -
  have "unat (section_objects (g_resource_domains charged_service ! 0)) = 1"
    by code_simp
  with resource_accounting_exact [OF sample_service_run, of 0] show ?thesis
    by simp
qed

text \<open>
  C31. Keys do not come back to life. Once the row of a domain key is retired or carries a later
  generation, every later retain, release or charge through that key is refused without effect,
  whatever happens in between; and a charge key that was released once is refused from then on,
  so a replayed release never debits another owner.
\<close>

theorem resource_dead_keys_stay_dead:
  assumes "service_step\<^sup>*\<^sup>* zero_service g" and "service_step\<^sup>*\<^sup>* g g'"
  shows "(dk_generation key < domain_generation (g_resource_domains g ! unat (dk_slot key)) \<or>
      dk_generation key = domain_generation (g_resource_domains g ! unat (dk_slot key)) \<and>
      domain_state (g_resource_domains g ! unat (dk_slot key)) = DomainRetired \<longrightarrow>
      ResourceDomainRetain key g' = (False, g') \<and> ResourceDomainRelease key g' = (False, g') \<and>
      \<not> fst (fst (ResourceDomainTryChargeSection key n sout pool g')) \<and>
      \<not> fst (fst (ResourceDomainTryChargeChannel key bytes cout g'))) \<and>
    (ResourceDomainReleaseSection (Some skey) g0 = ((True, sres), g) \<and> service_step\<^sup>*\<^sup>* zero_service g0 \<longrightarrow>
      \<not> fst (fst (ResourceDomainReleaseSection (Some skey) g'))) \<and>
    (ResourceDomainReleaseChannel (Some ckey) g0 = ((True, cres), g) \<and> service_step\<^sup>*\<^sup>* zero_service g0 \<longrightarrow>
      \<not> fst (fst (ResourceDomainReleaseChannel (Some ckey) g')))"
proof (intro conjI impI)
  assume "dk_generation key < domain_generation (g_resource_domains g ! unat (dk_slot key)) \<or>
      dk_generation key = domain_generation (g_resource_domains g ! unat (dk_slot key)) \<and>
      domain_state (g_resource_domains g ! unat (dk_slot key)) = DomainRetired"
  then have "dk_generation key < domain_generation (g_resource_domains g' ! unat (dk_slot key)) \<or>
      dk_generation key = domain_generation (g_resource_domains g' ! unat (dk_slot key)) \<and>
      domain_free (g_resource_domains g' ! unat (dk_slot key))"
    using domain_rows.dead_run [OF row_run [OF assms(2) service_ts.reachable_inv [OF refl assms(1)],
      of g_resource_domains "unat (dk_slot key)"]]
    by (simp add: domain_free_def)
  note refused = dead_domain_refused [OF this]
  show "ResourceDomainRetain key g' = (False, g')" "ResourceDomainRelease key g' = (False, g')"
    "\<not> fst (fst (ResourceDomainTryChargeSection key n sout pool g'))"
    "\<not> fst (fst (ResourceDomainTryChargeChannel key bytes cout g'))"
    by (rule refused)+
next
  assume op: "ResourceDomainReleaseSection (Some skey) g0 = ((True, sres), g) \<and> service_step\<^sup>*\<^sup>* zero_service g0"
  have inv: "rd_inv g"
    using service_ts.reachable_inv [OF refl assms(1)] .
  have "sk_generation skey = section_generation (g_section_charges g ! unat (sk_slot skey)) \<and>
      section_free (g_section_charges g ! unat (sk_slot skey))"
    by (rule released_section_dead [OF conjunct1 [OF op] service_ts.reachable_inv [OF refl conjunct2 [OF op]]])
  from section_rows.dead_run [OF row_run [OF assms(2) inv], OF disjI2, OF this]
  show "\<not> fst (fst (ResourceDomainReleaseSection (Some skey) g'))"
    using release_section_iff [OF service_ts.run_inv [OF assms(2) inv], of skey] by auto
next
  assume op: "ResourceDomainReleaseChannel (Some ckey) g0 = ((True, cres), g) \<and> service_step\<^sup>*\<^sup>* zero_service g0"
  have inv: "rd_inv g"
    using service_ts.reachable_inv [OF refl assms(1)] .
  have "ck_generation ckey = channel_generation (g_channel_charges g ! unat (ck_slot ckey)) \<and>
      channel_free (g_channel_charges g ! unat (ck_slot ckey))"
    by (rule released_channel_dead [OF conjunct1 [OF op] service_ts.reachable_inv [OF refl conjunct2 [OF op]]])
  from channel_rows.dead_run [OF row_run [OF assms(2) inv], OF disjI2, OF this]
  show "\<not> fst (fst (ResourceDomainReleaseChannel (Some ckey) g'))"
    using release_channel_iff [OF service_ts.run_inv [OF assms(2) inv], of ckey] by auto
qed

theorem resource_dead_keys_stay_dead_witness:
  "fst (fst (ResourceDomainReleaseSection (Some section_key) charged_service)) \<and>
   \<not> fst (fst (ResourceDomainReleaseSection (Some section_key) released_service))"
proof -
  have ok: "fst (ResourceDomainReleaseSection (Some section_key) charged_service) =
      (True, Some kInvalidResourceSectionChargeKey)"
    by code_simp
  then have op: "ResourceDomainReleaseSection (Some section_key) charged_service =
      ((True, Some kInvalidResourceSectionChargeKey), released_service)"
    by (simp add: released_service_def prod_eq_iff)
  have run: "service_step\<^sup>*\<^sup>* zero_service released_service"
    using sample_service_run service_step.release_section [OF op] by (rule rtranclp.rtrancl_into_rtrancl)
  from resource_dead_keys_stay_dead [OF run rtranclp.rtrancl_refl, of _ _ _ _ _ _ section_key charged_service] op sample_service_run ok
  show ?thesis by simp
qed

text \<open>
  C32. Admission is decided by the limits alone. In every reachable state a Section charge
  succeeds exactly when the domain key names a live row, the object and page limits have room in
  unbounded arithmetic and a charge row is free, and likewise for channels; a release succeeds
  exactly when the key names a live charge, so capacity that was charged can always be given back.
\<close>

theorem resource_charge_admission:
  assumes "service_step\<^sup>*\<^sup>* zero_service g"
  shows "(fst (fst (ResourceDomainTryChargeSection domain n (Some sout) pool g)) \<longleftrightarrow> section_admitted g domain n) \<and>
    (fst (fst (ResourceDomainTryChargeChannel domain bytes (Some cout) g)) \<longleftrightarrow> channel_admitted g domain bytes) \<and>
    (fst (fst (ResourceDomainReleaseSection (Some sk) g)) \<longleftrightarrow> ResourceSectionChargeKeyIsValid sk \<and>
      section_generation (g_section_charges g ! unat (sk_slot sk)) = sk_generation sk \<and>
      section_charge_state (g_section_charges g ! unat (sk_slot sk)) \<noteq> SectionChargeRetired) \<and>
    (fst (fst (ResourceDomainReleaseChannel (Some ck) g)) \<longleftrightarrow> ResourceChannelChargeKeyIsValid ck \<and>
      channel_generation (g_channel_charges g ! unat (ck_slot ck)) = ck_generation ck \<and>
      channel_charge_state (g_channel_charges g ! unat (ck_slot ck)) \<noteq> ChannelChargeRetired)"
proof -
  have inv: "rd_inv g"
    using service_ts.reachable_inv [OF refl assms] .
  show ?thesis
    using charge_section_iff [OF inv] charge_channel_iff [OF inv] release_section_iff [OF inv, of sk]
      release_channel_iff [OF inv, of ck]
    by (simp add: section_free_def channel_free_def)
qed

theorem resource_charge_admission_witness:
  "section_admitted sandbox_service sandbox_key 2 \<and> \<not> section_admitted charged_service sandbox_key 2"
proof -
  have "fst (fst (ResourceDomainTryChargeSection sandbox_key 2 (Some kInvalidResourceSectionChargeKey) None charged_service)) = False"
    by code_simp
  then show ?thesis
    using resource_charge_admission [OF sample_sandbox_run, of sandbox_key 2 kInvalidResourceSectionChargeKey None]
      resource_charge_admission [OF sample_service_run, of sandbox_key 2 kInvalidResourceSectionChargeKey None]
    by (simp add: sample_charge)
qed

text \<open>
  C33. Charging and releasing cancel out: releasing a charge right after it was granted succeeds
  and puts every domain row, the channel charges and the set of free Section rows back to what
  they were; only the spent generation remains.
\<close>

theorem resource_charge_release_roundtrip:
  assumes "service_step\<^sup>*\<^sup>* zero_service g"
    and "ResourceDomainTryChargeSection domain n (Some out) pool g = ((True, Some k, p), g1)"
  shows "\<exists>g2. ResourceDomainReleaseSection (Some k) g1 = ((True, Some kInvalidResourceSectionChargeKey), g2) \<and>
    g_resource_domains g2 = g_resource_domains g \<and> g_channel_charges g2 = g_channel_charges g \<and>
    map section_free (g_section_charges g2) = map section_free (g_section_charges g)"
  using charge_release_section [OF service_ts.reachable_inv [OF refl assms(1)] assms(2)] .

theorem resource_charge_release_roundtrip_witness:
  "\<exists>g2. ResourceDomainReleaseSection (Some section_key) charged_service =
      ((True, Some kInvalidResourceSectionChargeKey), g2) \<and>
    g_resource_domains g2 = g_resource_domains sandbox_service \<and>
    g_channel_charges g2 = g_channel_charges sandbox_service \<and>
    map section_free (g_section_charges g2) = map section_free (g_section_charges sandbox_service)"
  by (rule resource_charge_release_roundtrip [OF sample_sandbox_run sample_charge])

end
