(* ===== verification/ResourceDomainTest.thy ===== *)
theory ResourceDomainTest
  imports ResourceDomain "HOL-Library.State_Monad"
begin

text \<open>
  \<^verbatim>\<open>ResourceDomainSelfTest\<close> of \<^verbatim>\<open>kernel/proc/resource_domain.cpp\<close>, block by block, in the state
  monad over the service. A line \<^verbatim>\<open>ok = f(...) && ok\<close> always calls \<^verbatim>\<open>f\<close>; within
  \<^verbatim>\<open>f(...) && g(...) && ok\<close> the second call happens only when the first returned true.
\<close>

type_synonym 'a service_prog = "(ResourceService, 'a) state"

definition inspect :: "ResourceDomainKey \<Rightarrow> (bool \<times> ResourceDomainSnapshot option) service_prog" where
  "inspect key = State (\<lambda>g. (ResourceDomainInspectExact key (Some zero_domain_snapshot) g, g))"

definition inspect_matches ::
    "ResourceDomainKey \<Rightarrow> (ResourceDomainSnapshot \<Rightarrow> bool) \<Rightarrow> bool service_prog" where
  "inspect_matches key test = do {
     (found, snapshot) \<leftarrow> inspect key;
     State_Monad.return (found \<and> (case snapshot of None \<Rightarrow> False | Some s \<Rightarrow> test s))
   }"

definition charge_section ::
    "ResourceDomainKey \<Rightarrow> u32 \<Rightarrow> ResourceSectionPoolClass option \<Rightarrow>
      (bool \<times> ResourceSectionChargeKey \<times> ResourceSectionPoolClass option) service_prog" where
  "charge_section domain num_pages pool = do {
     (charged, key, pool') \<leftarrow> State (ResourceDomainTryChargeSection domain num_pages
       (Some kInvalidResourceSectionChargeKey) pool);
     State_Monad.return (charged, the key, pool')
   }"

definition release_section :: "ResourceSectionChargeKey \<Rightarrow> bool service_prog" where
  "release_section key = do {
     (released, key') \<leftarrow> State (ResourceDomainReleaseSection (Some key));
     State_Monad.return released
   }"

definition release_if_valid :: "ResourceSectionChargeKey \<Rightarrow> bool service_prog" where
  "release_if_valid key =
    (if ResourceSectionChargeKeyIsValid key then release_section key else State_Monad.return True)"

definition SelfTestSandbox :: "bool service_prog" where
  "SelfTestSandbox = do {
     (created, out) \<leftarrow> State (ResourceDomainCreateSandbox 3 (Some kInvalidResourceDomainKey));
     let sandbox = the out;
     if \<not> ResourceDomainKeyIsValid sandbox then State_Monad.return created
     else do {
       live \<leftarrow> inspect_matches sandbox (\<lambda>s. SnapshotMatches s DomainLive ProfileSandbox PoolOrdinary 1 0 0
         kSandboxSectionObjectLimit 3 kSandboxChannelObjectLimit kSandboxChannelByteLimit);
       retained \<leftarrow> State (ResourceDomainRetain sandbox);
       released \<leftarrow> State (ResourceDomainRelease sandbox);
       (charged_a, sandbox_a, pool) \<leftarrow> charge_section sandbox 2 (Some PoolAuthenticatedService);
       (over, rejected, _) \<leftarrow> charge_section sandbox 2 None;
       (charged_b, sandbox_b, _) \<leftarrow> charge_section sandbox 1 None;
       (over2, _, _) \<leftarrow> charge_section sandbox 1 None;
       let replay = sandbox_a;
       closed \<leftarrow> State (ResourceDomainRelease sandbox);
       closing \<leftarrow> inspect_matches sandbox (\<lambda>s. SnapshotMatches s DomainClosing ProfileSandbox PoolOrdinary 0 2 3
         kSandboxSectionObjectLimit 3 kSandboxChannelObjectLimit kSandboxChannelByteLimit);
       retained2 \<leftarrow> State (ResourceDomainRetain sandbox);
       over3 \<leftarrow> (if retained2 then State_Monad.return True
         else do { (charged, _, _) \<leftarrow> charge_section sandbox 1 None; State_Monad.return charged });
       released_a \<leftarrow> (if \<not> ResourceSectionChargeKeyIsValid sandbox_a then State_Monad.return True
         else do {
           first \<leftarrow> release_section sandbox_a;
           again \<leftarrow> release_section replay;
           State_Monad.return (first \<and> \<not> again) });
       released_b \<leftarrow> release_if_valid sandbox_b;
       retired \<leftarrow> inspect_matches sandbox (\<lambda>s. snap_state s = DomainRetired \<and> snap_owner_references s = 0 \<and>
         snap_section_objects s = 0 \<and> snap_section_pages s = 0);
       State_Monad.return (created \<and> live \<and> retained \<and> released \<and> charged_a \<and> pool = Some PoolOrdinary \<and>
         \<not> over \<and> rejected = kInvalidResourceSectionChargeKey \<and> charged_b \<and> \<not> over2 \<and> closed \<and> closing \<and>
         \<not> retained2 \<and> \<not> over3 \<and> released_a \<and> released_b \<and> retired)
     }
   }"

definition SelfTestWide :: "bool service_prog" where
  "SelfTestWide = do {
     (created, out) \<leftarrow> State (ResourceDomainCreateSandbox 4096 (Some kInvalidResourceDomainKey));
     let wide_sandbox = the out;
     if \<not> ResourceDomainKeyIsValid wide_sandbox then State_Monad.return created
     else do {
       matches \<leftarrow> inspect_matches wide_sandbox (\<lambda>s. snap_profile s = ProfileSandbox \<and>
         snap_section_page_limit s = kSandboxSectionPageLimitMaximum);
       released \<leftarrow> State (ResourceDomainRelease wide_sandbox);
       State_Monad.return (created \<and> matches \<and> released)
     }
   }"

definition SelfTestTrusted :: "bool service_prog" where
  "SelfTestTrusted = do {
     (created, out) \<leftarrow> State (ResourceDomainCreateTrusted (Some kInvalidResourceDomainKey));
     let trusted = the out;
     if \<not> ResourceDomainKeyIsValid trusted then State_Monad.return created
     else do {
       matches \<leftarrow> inspect_matches trusted (\<lambda>s. SnapshotMatches s DomainLive ProfileTrusted PoolOrdinary 1 0 0
         kTrustedSectionObjectLimit kTrustedSectionPageLimit kTrustedChannelObjectLimit kTrustedChannelByteLimit);
       (charged_a, trusted_a, _) \<leftarrow> charge_section trusted 512 None;
       (charged_b, trusted_b, _) \<leftarrow> (if charged_a then charge_section trusted 512 None
         else State_Monad.return (False, kInvalidResourceSectionChargeKey, None));
       (over, _, _) \<leftarrow> charge_section trusted 1 None;
       released_a \<leftarrow> release_if_valid trusted_a;
       released_b \<leftarrow> release_if_valid trusted_b;
       released \<leftarrow> State (ResourceDomainRelease trusted);
       State_Monad.return (created \<and> matches \<and> charged_a \<and> charged_b \<and> \<not> over \<and> released_a \<and> released_b \<and> released)
     }
   }"

fun charge_many :: "nat \<Rightarrow> ResourceDomainKey \<Rightarrow> (bool \<times> ResourceSectionChargeKey list) service_prog" where
  "charge_many 0 service = State_Monad.return (True, [])"
| "charge_many (Suc n) service = do {
     (charged, key, pool) \<leftarrow> charge_section service 512 (Some PoolOrdinary);
     (ok, keys) \<leftarrow> charge_many n service;
     State_Monad.return (charged \<and> pool = Some PoolAuthenticatedService \<and> ok, key # keys)
   }"

fun release_many :: "ResourceSectionChargeKey list \<Rightarrow> bool service_prog" where
  "release_many [] = State_Monad.return True"
| "release_many (key # keys) = do {
     released \<leftarrow> release_if_valid key;
     ok \<leftarrow> release_many keys;
     State_Monad.return (released \<and> ok)
   }"

definition SelfTestService :: "bool service_prog" where
  "SelfTestService = do {
     (created, out) \<leftarrow> State (ResourceDomainCreateAuthenticatedService (Some kInvalidResourceDomainKey));
     let service = the out;
     if \<not> ResourceDomainKeyIsValid service then State_Monad.return created
     else do {
       matches \<leftarrow> inspect_matches service (\<lambda>s. SnapshotMatches s DomainLive ProfileAuthenticatedService
         PoolAuthenticatedService 1 0 0 kAuthenticatedServiceSectionObjectLimit kAuthenticatedServiceSectionPageLimit
         kAuthenticatedServiceChannelObjectLimit kAuthenticatedServiceChannelByteLimit);
       (charged, keys) \<leftarrow> charge_many (unat kAuthenticatedServiceSectionObjectLimit) service;
       (over, _, _) \<leftarrow> charge_section service 1 None;
       released_all \<leftarrow> release_many keys;
       released \<leftarrow> State (ResourceDomainRelease service);
       State_Monad.return (created \<and> matches \<and> charged \<and> \<not> over \<and> released_all \<and> released)
     }
   }"

definition ResourceDomainSelfTest :: "bool service_prog" where
  "ResourceDomainSelfTest = do {
     sandbox_ok \<leftarrow> SelfTestSandbox;
     wide_ok \<leftarrow> SelfTestWide;
     trusted_ok \<leftarrow> SelfTestTrusted;
     service_ok \<leftarrow> SelfTestService;
     (created, zero_budget) \<leftarrow> State (ResourceDomainCreateSandbox 0 (Some \<lparr>dk_slot = 0, dk_generation = 1\<rparr>));
     State_Monad.return (sandbox_ok \<and> wide_ok \<and> trusted_ok \<and> service_ok \<and> \<not> created \<and>
       zero_budget = Some kInvalidResourceDomainKey)
   }"

text \<open>
  The boot self-test passes on the zero-initialized service, and leaves every domain row
  retired and every charge row free: each assertion it makes about limits, closing, replay and
  retirement holds of the code.
\<close>

theorem resource_domain_self_test_passes:
  "fst (run_state ResourceDomainSelfTest zero_service) \<and>
   list_all (\<lambda>row. domain_state row = DomainRetired \<and> owner_references row = 0)
     (g_resource_domains (snd (run_state ResourceDomainSelfTest zero_service))) \<and>
   list_all (\<lambda>row. section_charge_state row = SectionChargeRetired)
     (g_section_charges (snd (run_state ResourceDomainSelfTest zero_service)))"
  by code_simp

end
