(* ===== verification/ServiceTransition.thy ===== *)
theory ServiceTransition
  imports Prelude
begin

text \<open>
  The service publication state machine (\<^verbatim>\<open>kernel/core/service_transition.{h,cpp}\<close>): one row per
  service, serialized by the caller's lock. Pointers that may be null are options, in-out pointers
  return their final content.
\<close>

section \<open>Data\<close>

definition kInvalidServiceTransitionIdentity :: u64 where [kdefs]: "kInvalidServiceTransitionIdentity = 0"
definition kServiceTransitionGenerationMaximum :: u64 where
  [kdefs]: "kServiceTransitionGenerationMaximum = 0xFFFFFFFFFFFFFFFF"

record ServiceStartTicket =
  ticket_service_identity :: u64
  ticket_generation :: u64

definition kInvalidServiceStartTicket :: ServiceStartTicket where
  "kInvalidServiceStartTicket =
    \<lparr>ticket_service_identity = kInvalidServiceTransitionIdentity, ticket_generation = 0\<rparr>"

definition ServiceStartTicketIsValid :: "ServiceStartTicket \<Rightarrow> bool" where
  "ServiceStartTicketIsValid ticket \<longleftrightarrow>
     ticket_service_identity ticket \<noteq> kInvalidServiceTransitionIdentity \<and> ticket_generation ticket \<noteq> 0"

record ServiceInstanceKey =
  process_identity :: u64
  pid :: u64

definition kInvalidServiceInstanceKey :: ServiceInstanceKey where
  "kInvalidServiceInstanceKey = \<lparr>process_identity = 0, pid = 0\<rparr>"

definition ServiceInstanceKeyIsValid :: "ServiceInstanceKey \<Rightarrow> bool" where
  "ServiceInstanceKeyIsValid key \<longleftrightarrow> process_identity key \<noteq> 0 \<and> pid key \<noteq> 0"

record ServiceInstanceToken =
  token_start :: ServiceStartTicket
  token_process :: ServiceInstanceKey

definition kInvalidServiceInstanceToken :: ServiceInstanceToken where
  "kInvalidServiceInstanceToken =
    \<lparr>token_start = kInvalidServiceStartTicket, token_process = kInvalidServiceInstanceKey\<rparr>"

definition ServiceInstanceTokenIsValid :: "ServiceInstanceToken \<Rightarrow> bool" where
  "ServiceInstanceTokenIsValid token \<longleftrightarrow>
     ServiceStartTicketIsValid (token_start token) \<and> ServiceInstanceKeyIsValid (token_process token)"

datatype ServiceTransitionPhase =
  PhaseStopped | PhaseStarting | PhaseRunning | PhaseExited | PhaseFailed | PhaseGenerationExhausted | PhaseStopping

record ServiceTransitionState =
  service_identity :: u64
  phase :: ServiceTransitionPhase
  generation :: u64
  instance_key :: ServiceInstanceKey
  desired_running :: bool
  start_in_flight :: bool

datatype ServiceStartReserveResult =
  ReserveRejected | ReserveReserved | ReserveAlreadyRequested | ReserveStopInProgress | ReserveGenerationExhausted

datatype ServicePublicationResult = PublicationRejected | PublicationPublished
datatype ServiceSpawnFailureResult = SpawnFailureRejected | SpawnFailureApplied
datatype ServiceStopResult = StopRejected | StopAlreadyStopped | StopStartCancelled | StopKillRequired | StopAlreadyStopping
datatype ServiceExitResult = ExitRejected | ExitApplied

section \<open>Operations\<close>

definition ClearState :: ServiceTransitionState where
  "ClearState = \<lparr>service_identity = kInvalidServiceTransitionIdentity, phase = PhaseGenerationExhausted,
     generation = 0, instance_key = kInvalidServiceInstanceKey, desired_running = False, start_in_flight = False\<rparr>"

definition TicketMatches :: "ServiceTransitionState \<Rightarrow> ServiceStartTicket \<Rightarrow> bool" where
  "TicketMatches state ticket \<longleftrightarrow> ServiceStartTicketIsValid ticket \<and>
     ticket_service_identity ticket = service_identity state \<and> ticket_generation ticket = generation state"

definition ServiceTransitionInitialize ::
    "u64 \<Rightarrow> ServiceTransitionState option \<Rightarrow> bool \<times> ServiceTransitionState option" where
  "ServiceTransitionInitialize identity out_state =
    on_ptr out_state False (\<lambda>_.
      if identity = kInvalidServiceTransitionIdentity then (False, ClearState)
      else (True, ClearState\<lparr>service_identity := identity, phase := PhaseStopped\<rparr>))"

definition ServiceTransitionIsCanonical :: "ServiceTransitionState \<Rightarrow> bool" where
  "ServiceTransitionIsCanonical state =
    (if service_identity state = kInvalidServiceTransitionIdentity then False
     else case phase state of
       PhaseStopped \<Rightarrow> instance_key state = kInvalidServiceInstanceKey \<and> \<not> desired_running state \<and> \<not> start_in_flight state
     | PhaseStarting \<Rightarrow> generation state \<noteq> 0 \<and> instance_key state = kInvalidServiceInstanceKey \<and>
         desired_running state \<and> start_in_flight state
     | PhaseRunning \<Rightarrow> generation state \<noteq> 0 \<and> ServiceInstanceKeyIsValid (instance_key state) \<and>
         desired_running state \<and> \<not> start_in_flight state
     | PhaseStopping \<Rightarrow> generation state \<noteq> 0 \<and> ServiceInstanceKeyIsValid (instance_key state) \<and>
         \<not> desired_running state \<and> \<not> start_in_flight state
     | PhaseExited \<Rightarrow> generation state \<noteq> 0 \<and> instance_key state = kInvalidServiceInstanceKey \<and>
         \<not> desired_running state \<and> \<not> start_in_flight state
     | PhaseFailed \<Rightarrow> generation state \<noteq> 0 \<and> instance_key state = kInvalidServiceInstanceKey \<and>
         \<not> desired_running state \<and> \<not> start_in_flight state
     | PhaseGenerationExhausted \<Rightarrow> generation state = kServiceTransitionGenerationMaximum \<and>
         instance_key state = kInvalidServiceInstanceKey \<and> \<not> desired_running state \<and> \<not> start_in_flight state)"

definition ServiceTransitionReserveStart ::
    "ServiceTransitionState option \<Rightarrow> ServiceStartTicket option \<Rightarrow>
      (ServiceStartReserveResult \<times> ServiceStartTicket option) \<times> ServiceTransitionState option" where
  "ServiceTransitionReserveStart state out_ticket =
    (let none = map_option (\<lambda>_. kInvalidServiceStartTicket) out_ticket
     in on_ptr state (ReserveRejected, none) (\<lambda>s.
       if out_ticket = None \<or> \<not> ServiceTransitionIsCanonical s then ((ReserveRejected, none), s)
       else if (phase s = PhaseStarting \<and> start_in_flight s) \<or> (phase s = PhaseRunning \<and> desired_running s)
       then ((ReserveAlreadyRequested, none), s)
       else if phase s = PhaseStopping then ((ReserveStopInProgress, none), s)
       else if phase s = PhaseGenerationExhausted \<or> generation s = kServiceTransitionGenerationMaximum
       then ((ReserveGenerationExhausted, none),
             s\<lparr>phase := PhaseGenerationExhausted, instance_key := kInvalidServiceInstanceKey,
               desired_running := False, start_in_flight := False\<rparr>)
       else
         let s = s\<lparr>generation := generation s + 1, phase := PhaseStarting,
               instance_key := kInvalidServiceInstanceKey, desired_running := True, start_in_flight := True\<rparr>
         in ((ReserveReserved,
              Some \<lparr>ticket_service_identity = service_identity s, ticket_generation = generation s\<rparr>), s)))"

definition ServiceTransitionIsCurrentStart :: "ServiceTransitionState \<Rightarrow> ServiceStartTicket \<Rightarrow> bool" where
  "ServiceTransitionIsCurrentStart state ticket \<longleftrightarrow> ServiceTransitionIsCanonical state \<and>
     phase state = PhaseStarting \<and> desired_running state \<and> start_in_flight state \<and> TicketMatches state ticket"

definition ServiceTransitionRecordSpawnFailure ::
    "ServiceTransitionState option \<Rightarrow> ServiceStartTicket \<Rightarrow>
      ServiceSpawnFailureResult \<times> ServiceTransitionState option" where
  "ServiceTransitionRecordSpawnFailure state ticket =
    on_ptr state SpawnFailureRejected (\<lambda>s.
      if \<not> ServiceTransitionIsCurrentStart s ticket then (SpawnFailureRejected, s)
      else (SpawnFailureApplied, s\<lparr>phase := PhaseFailed, instance_key := kInvalidServiceInstanceKey,
              desired_running := False, start_in_flight := False\<rparr>))"

definition ServiceTransitionCommitAtSchedulerPublication ::
    "ServiceTransitionState option \<Rightarrow> ServiceStartTicket \<Rightarrow> ServiceInstanceKey \<Rightarrow>
      ServicePublicationResult \<times> ServiceTransitionState option" where
  "ServiceTransitionCommitAtSchedulerPublication state ticket inst =
    on_ptr state PublicationRejected (\<lambda>s.
      if \<not> ServiceInstanceKeyIsValid inst \<or> \<not> ServiceTransitionIsCurrentStart s ticket
      then (PublicationRejected, s)
      else (PublicationPublished, s\<lparr>phase := PhaseRunning, instance_key := inst,
              desired_running := True, start_in_flight := False\<rparr>))"

definition ServiceTransitionStop ::
    "ServiceTransitionState option \<Rightarrow> ServiceInstanceToken option \<Rightarrow>
      (ServiceStopResult \<times> ServiceInstanceToken option) \<times> ServiceTransitionState option" where
  "ServiceTransitionStop state out_instance_to_kill =
    (let none = map_option (\<lambda>_. kInvalidServiceInstanceToken) out_instance_to_kill
     in on_ptr state (StopRejected, none) (\<lambda>s.
       if out_instance_to_kill = None \<or> \<not> ServiceTransitionIsCanonical s then ((StopRejected, none), s)
       else if phase s = PhaseStopped \<or> phase s = PhaseExited \<or> phase s = PhaseFailed \<or>
               phase s = PhaseGenerationExhausted
       then ((StopAlreadyStopped, none), s)
       else if phase s = PhaseStopping then ((StopAlreadyStopping, none), s)
       else if phase s = PhaseRunning
       then ((StopKillRequired,
              Some \<lparr>token_start = \<lparr>ticket_service_identity = service_identity s, ticket_generation = generation s\<rparr>,
                    token_process = instance_key s\<rparr>),
             s\<lparr>phase := PhaseStopping, desired_running := False, start_in_flight := False\<rparr>)
       else ((StopStartCancelled, none),
             s\<lparr>instance_key := kInvalidServiceInstanceKey, desired_running := False, start_in_flight := False,
               phase := (if generation s = kServiceTransitionGenerationMaximum
                         then PhaseGenerationExhausted else PhaseStopped)\<rparr>)))"

definition ServiceTransitionIsCurrentInstance :: "ServiceTransitionState \<Rightarrow> ServiceInstanceToken \<Rightarrow> bool" where
  "ServiceTransitionIsCurrentInstance state inst \<longleftrightarrow> ServiceInstanceTokenIsValid inst \<and>
     ServiceTransitionIsCanonical state \<and> (phase state = PhaseRunning \<or> phase state = PhaseStopping) \<and>
     instance_key state = token_process inst \<and> TicketMatches state (token_start inst)"

definition ServiceTransitionIsCurrentRunning :: "ServiceTransitionState \<Rightarrow> ServiceInstanceToken \<Rightarrow> bool" where
  "ServiceTransitionIsCurrentRunning state inst \<longleftrightarrow> phase state = PhaseRunning \<and> desired_running state \<and>
     ServiceTransitionIsCurrentInstance state inst"

definition ServiceTransitionObserveExit ::
    "ServiceTransitionState option \<Rightarrow> ServiceInstanceToken \<Rightarrow> ServiceExitResult \<times> ServiceTransitionState option" where
  "ServiceTransitionObserveExit state inst =
    on_ptr state ExitRejected (\<lambda>s.
      if \<not> ServiceTransitionIsCurrentInstance s inst then (ExitRejected, s)
      else
        let stop_was_requested = (phase s = PhaseStopping)
        in (ExitApplied, s\<lparr>instance_key := kInvalidServiceInstanceKey, desired_running := False,
             start_in_flight := False,
             phase := (if stop_was_requested
                       then (if generation s = kServiceTransitionGenerationMaximum
                             then PhaseGenerationExhausted else PhaseStopped)
                       else PhaseExited)\<rparr>))"

section \<open>Histories\<close>

text \<open>
  What each call that takes effect does, with the ticket or token involved. A start that is
  cancelled names the ticket it invalidates.
\<close>

datatype service_event =
    SvReserved ServiceStartTicket
  | SvFailed ServiceStartTicket
  | SvCancelled ServiceStartTicket
  | SvPublished ServiceInstanceToken
  | SvKill ServiceInstanceToken
  | SvExited ServiceInstanceToken

type_synonym service_run = "ServiceTransitionState \<times> service_event list"

definition start_ticket :: "u64 \<Rightarrow> u64 \<Rightarrow> ServiceStartTicket" where
  "start_ticket identity gen = \<lparr>ticket_service_identity = identity, ticket_generation = gen\<rparr>"

inductive transition_step :: "service_run \<Rightarrow> service_run \<Rightarrow> bool" where
  reserve: "ServiceTransitionReserveStart (Some s) out = ((res, ticket), Some s') \<Longrightarrow>
    transition_step (s, h) (s', h @ (if res = ReserveReserved then [SvReserved (the ticket)] else []))"
| spawn_failure: "ServiceTransitionRecordSpawnFailure (Some s) t = (fres, Some s') \<Longrightarrow>
    transition_step (s, h) (s', h @ (if fres = SpawnFailureApplied then [SvFailed t] else []))"
| commit: "ServiceTransitionCommitAtSchedulerPublication (Some s) t inst = (pres, Some s') \<Longrightarrow>
    transition_step (s, h) (s', h @ (if pres = PublicationPublished
      then [SvPublished \<lparr>token_start = t, token_process = inst\<rparr>] else []))"
| stop: "ServiceTransitionStop (Some s) tout = ((sres, token), Some s') \<Longrightarrow>
    transition_step (s, h) (s', h @ (if sres = StopKillRequired then [SvKill (the token)]
      else if sres = StopStartCancelled then [SvCancelled (start_ticket (service_identity s) (generation s))] else []))"
| observe_exit: "ServiceTransitionObserveExit (Some s) tok = (eres, Some s') \<Longrightarrow>
    transition_step (s, h) (s', h @ (if eres = ExitApplied then [SvExited tok] else []))"

text \<open>A finished life of generation \<open>gen\<close>, and the open end of the history in each phase.\<close>

definition finished_life :: "u64 \<Rightarrow> u64 \<Rightarrow> service_event list \<Rightarrow> bool" where
  "finished_life identity gen life \<longleftrightarrow>
    (let t = start_ticket identity gen
     in life = [SvReserved t, SvFailed t] \<or> life = [SvReserved t, SvCancelled t] \<or>
        (\<exists>p. ServiceInstanceKeyIsValid p \<and>
          (let tok = \<lparr>token_start = t, token_process = p\<rparr>
           in life = [SvReserved t, SvPublished tok, SvExited tok] \<or>
              life = [SvReserved t, SvPublished tok, SvKill tok, SvExited tok])))"

definition open_life :: "ServiceTransitionState \<Rightarrow> service_event list" where
  "open_life s =
    (let t = start_ticket (service_identity s) (generation s); tok = \<lparr>token_start = t, token_process = instance_key s\<rparr>
     in case phase s of
       PhaseStarting \<Rightarrow> [SvReserved t]
     | PhaseRunning \<Rightarrow> [SvReserved t, SvPublished tok]
     | PhaseStopping \<Rightarrow> [SvReserved t, SvPublished tok, SvKill tok]
     | _ \<Rightarrow> [])"

definition lives_ok :: "u64 \<Rightarrow> service_event list list \<Rightarrow> bool" where
  "lives_ok identity lives \<longleftrightarrow> (\<forall>i<length lives. finished_life identity (of_nat (Suc i)) (lives ! i))"

definition life_history :: "ServiceTransitionState \<Rightarrow> service_event list \<Rightarrow> bool" where
  "life_history s h \<longleftrightarrow> (\<exists>lives. h = concat lives @ open_life s \<and> lives_ok (service_identity s) lives \<and>
     length lives + (if open_life s = [] then 0 else 1) = unat (generation s))"

definition transition_inv :: "service_run \<Rightarrow> bool" where
  "transition_inv r \<longleftrightarrow> ServiceTransitionIsCanonical (fst r) \<and> life_history (fst r) (snd r)"

section \<open>Every step keeps the histories\<close>

lemma life_history_extend:
  assumes "life_history s h" and "open_life s \<noteq> []" and "open_life s' = open_life s @ es" and "open_life s' \<noteq> []"
    and "service_identity s' = service_identity s" "generation s' = generation s"
  shows "life_history s' (h @ es)"
  using assms unfolding life_history_def by auto

lemma life_history_close:
  assumes inv: "life_history s h" and "open_life s \<noteq> []" and closed: "open_life s' = []"
    and life: "finished_life (service_identity s) (generation s) (open_life s @ es)"
    and same: "service_identity s' = service_identity s" "generation s' = generation s"
  shows "life_history s' (h @ es)"
proof -
  obtain lives where lives: "h = concat lives @ open_life s" "lives_ok (service_identity s) lives"
    "Suc (length lives) = unat (generation s)"
    using inv assms(2) by (auto simp: life_history_def)
  have "of_nat (Suc (length lives)) = generation s"
    using lives(3) by simp
  then have "lives_ok (service_identity s) (lives @ [open_life s @ es])"
    using lives(2) life by (auto simp: lives_ok_def nth_append less_Suc_eq simp del: of_nat_Suc)
  with lives closed same show ?thesis
    unfolding life_history_def by (intro exI [of _ "lives @ [open_life s @ es]"]) simp
qed

lemma life_history_same:
  assumes "life_history s h" and "open_life s' = open_life s" and "service_identity s' = service_identity s"
    "generation s' = generation s"
  shows "life_history s' h"
  using assms by (simp add: life_history_def)

lemma generation_maximum: "kServiceTransitionGenerationMaximum = kU64Max"
  by (simp add: kServiceTransitionGenerationMaximum_def kU64Max_def)

lemma reserve_step:
  assumes inv: "ServiceTransitionIsCanonical s \<and> life_history s h"
    and op: "ServiceTransitionReserveStart (Some s) out = ((res, ticket), Some s')"
  shows "ServiceTransitionIsCanonical s' \<and> service_identity s' = service_identity s \<and>
    life_history s' (h @ (if res = ReserveReserved then [SvReserved (the ticket)] else []))"
proof (cases "res = ReserveReserved")
  case True
  with op have s': "s' = s\<lparr>generation := generation s + 1, phase := PhaseStarting,
      instance_key := kInvalidServiceInstanceKey, desired_running := True, start_in_flight := True\<rparr>"
    and t: "ticket = Some (start_ticket (service_identity s) (generation s + 1))"
    and ph: "phase s = PhaseStopped \<or> phase s = PhaseExited \<or> phase s = PhaseFailed" "generation s \<noteq> kU64Max"
    by (cases "phase s"; auto simp: ServiceTransitionReserveStart_def start_ticket_def Let_def generation_maximum
        ServiceTransitionIsCanonical_def split: if_splits)+
  have "open_life s = []" using ph(1) by (auto simp: open_life_def)
  then have "life_history s' (h @ [SvReserved (start_ticket (service_identity s) (generation s + 1))])"
    using inv u64_succ_unat [OF ph(2)] by (auto simp: life_history_def s' open_life_def Let_def)
  moreover have "ServiceTransitionIsCanonical s'"
    using inv u64_succ_nonzero [OF ph(2)] by (auto simp: ServiceTransitionIsCanonical_def s' split: if_splits)
  ultimately show ?thesis
    using True t by (simp add: s')
next
  case False
  with op inv have "ServiceTransitionIsCanonical s'" "open_life s' = open_life s"
    "service_identity s' = service_identity s" "generation s' = generation s"
    by (cases "phase s"; auto simp: ServiceTransitionReserveStart_def Let_def ServiceTransitionIsCanonical_def open_life_def
        split: if_splits)+
  with False inv life_history_same [of s h s'] show ?thesis
    by simp
qed

lemma current_start_ticket:
  assumes "ServiceTransitionIsCurrentStart s t"
  shows "t = start_ticket (service_identity s) (generation s)" and "phase s = PhaseStarting"
    and "service_identity s \<noteq> 0" and "generation s \<noteq> 0"
  using assms
  by (auto simp: ServiceTransitionIsCurrentStart_def TicketMatches_def start_ticket_def ServiceStartTicketIsValid_def kdefs)

lemma spawn_failure_step:
  assumes inv: "ServiceTransitionIsCanonical s \<and> life_history s h"
    and op: "ServiceTransitionRecordSpawnFailure (Some s) t = (res, Some s')"
  shows "ServiceTransitionIsCanonical s' \<and> service_identity s' = service_identity s \<and>
    life_history s' (h @ (if res = SpawnFailureApplied then [SvFailed t] else []))"
proof (cases "res = SpawnFailureApplied")
  case True
  with op have cur: "ServiceTransitionIsCurrentStart s t"
    and s': "s' = s\<lparr>phase := PhaseFailed, instance_key := kInvalidServiceInstanceKey, desired_running := False,
      start_in_flight := False\<rparr>"
    by (auto simp: ServiceTransitionRecordSpawnFailure_def split: if_splits)
  note t = current_start_ticket [OF cur]
  have "life_history s' (h @ [SvFailed t])"
    using t(2) by (intro life_history_close [OF conjunct2 [OF inv]]) (auto simp: open_life_def s' t(1) finished_life_def Let_def)
  with True t show ?thesis
    by (simp add: ServiceTransitionIsCanonical_def s' kdefs)
next
  case False
  with op inv show ?thesis
    by (auto simp: ServiceTransitionRecordSpawnFailure_def split: if_splits)
qed

lemma commit_step:
  assumes inv: "ServiceTransitionIsCanonical s \<and> life_history s h"
    and op: "ServiceTransitionCommitAtSchedulerPublication (Some s) t inst = (res, Some s')"
  shows "ServiceTransitionIsCanonical s' \<and> service_identity s' = service_identity s \<and>
    life_history s' (h @ (if res = PublicationPublished then [SvPublished \<lparr>token_start = t, token_process = inst\<rparr>] else []))"
proof (cases "res = PublicationPublished")
  case True
  with op have cur: "ServiceTransitionIsCurrentStart s t" "ServiceInstanceKeyIsValid inst"
    and s': "s' = s\<lparr>phase := PhaseRunning, instance_key := inst, desired_running := True, start_in_flight := False\<rparr>"
    by (auto simp: ServiceTransitionCommitAtSchedulerPublication_def split: if_splits)
  note t = current_start_ticket [OF cur(1)]
  have "life_history s' (h @ [SvPublished \<lparr>token_start = t, token_process = inst\<rparr>])"
    using t(2) by (intro life_history_extend [OF conjunct2 [OF inv]]) (auto simp: open_life_def s' t(1) Let_def)
  with True t cur(2) show ?thesis
    by (simp add: ServiceTransitionIsCanonical_def s' kdefs)
next
  case False
  with op inv show ?thesis
    by (auto simp: ServiceTransitionCommitAtSchedulerPublication_def split: if_splits)
qed

lemma stop_step:
  assumes inv: "ServiceTransitionIsCanonical s \<and> life_history s h"
    and op: "ServiceTransitionStop (Some s) out = ((res, token), Some s')"
  shows "ServiceTransitionIsCanonical s' \<and> service_identity s' = service_identity s \<and>
    life_history s' (h @ (if res = StopKillRequired then [SvKill (the token)]
      else if res = StopStartCancelled then [SvCancelled (start_ticket (service_identity s) (generation s))] else []))"
proof -
  consider (kill) "res = StopKillRequired" | (cancel) "res = StopStartCancelled"
    | (none) "res \<noteq> StopKillRequired" "res \<noteq> StopStartCancelled" by blast
  then show ?thesis
  proof cases
    case kill
    with op have ph: "phase s = PhaseRunning"
      and token: "token = Some \<lparr>token_start = start_ticket (service_identity s) (generation s), token_process = instance_key s\<rparr>"
      and s': "s' = s\<lparr>phase := PhaseStopping, desired_running := False, start_in_flight := False\<rparr>"
      by (auto simp: ServiceTransitionStop_def start_ticket_def Let_def split: if_splits)
    have "life_history s' (h @ [SvKill (the token)])"
      using ph by (intro life_history_extend [OF conjunct2 [OF inv]]) (auto simp: open_life_def s' token Let_def)
    with kill inv ph show ?thesis
      by (auto simp: ServiceTransitionIsCanonical_def s' split: if_splits)
  next
    case cancel
    with op have s': "s' = s\<lparr>instance_key := kInvalidServiceInstanceKey, desired_running := False, start_in_flight := False,
        phase := (if generation s = kServiceTransitionGenerationMaximum then PhaseGenerationExhausted else PhaseStopped)\<rparr>"
      and ph: "phase s = PhaseStarting"
      by (cases "phase s"; auto simp: ServiceTransitionStop_def Let_def split: if_splits)+
    have "life_history s' (h @ [SvCancelled (start_ticket (service_identity s) (generation s))])"
      using ph by (intro life_history_close [OF conjunct2 [OF inv]]) (auto simp: open_life_def s' finished_life_def Let_def)
    with cancel inv ph show ?thesis
      by (auto simp: ServiceTransitionIsCanonical_def s' split: if_splits)
  next
    case none
    with op have "s' = s" by (auto simp: ServiceTransitionStop_def Let_def split: if_splits)
    with none inv show ?thesis by simp
  qed
qed

lemma exit_step:
  assumes inv: "ServiceTransitionIsCanonical s \<and> life_history s h"
    and op: "ServiceTransitionObserveExit (Some s) tok = (res, Some s')"
  shows "ServiceTransitionIsCanonical s' \<and> service_identity s' = service_identity s \<and>
    life_history s' (h @ (if res = ExitApplied then [SvExited tok] else []))"
proof (cases "res = ExitApplied")
  case True
  with op have cur: "ServiceTransitionIsCurrentInstance s tok"
    and s': "s' = s\<lparr>instance_key := kInvalidServiceInstanceKey, desired_running := False, start_in_flight := False,
      phase := (if phase s = PhaseStopping then (if generation s = kServiceTransitionGenerationMaximum
        then PhaseGenerationExhausted else PhaseStopped) else PhaseExited)\<rparr>"
    by (auto simp: ServiceTransitionObserveExit_def Let_def split: if_splits)
  from cur have tok: "tok = \<lparr>token_start = start_ticket (service_identity s) (generation s), token_process = instance_key s\<rparr>"
    and valid: "ServiceInstanceKeyIsValid (instance_key s)" "generation s \<noteq> 0"
    and ph: "phase s = PhaseRunning \<or> phase s = PhaseStopping"
    by (auto simp: ServiceTransitionIsCurrentInstance_def TicketMatches_def start_ticket_def
        ServiceInstanceTokenIsValid_def ServiceStartTicketIsValid_def)
  have "life_history s' (h @ [SvExited tok])"
    using ph valid(1)
    by (intro life_history_close [OF conjunct2 [OF inv]]) (auto simp: open_life_def s' tok finished_life_def Let_def)
  with True inv ph valid(2) show ?thesis
    by (auto simp: ServiceTransitionIsCanonical_def s' split: if_splits)
next
  case False
  with op inv show ?thesis
    by (auto simp: ServiceTransitionObserveExit_def Let_def split: if_splits)
qed

lemma transition_step_inv:
  assumes "transition_inv r" and "transition_step r r'"
  shows "transition_inv r' \<and> service_identity (fst r') = service_identity (fst r)"
  using assms(2,1)
proof (cases rule: transition_step.cases)
  case (reserve s out res ticket s' h)
  with assms(1) reserve_step [of s h, OF _ reserve(3)] show ?thesis by (simp add: transition_inv_def)
next
  case (spawn_failure s t fres s' h)
  with assms(1) spawn_failure_step [of s h, OF _ spawn_failure(3)] show ?thesis by (simp add: transition_inv_def)
next
  case (commit s t inst pres s' h)
  with assms(1) commit_step [of s h, OF _ commit(3)] show ?thesis by (simp add: transition_inv_def)
next
  case (stop s tout sres token s' h)
  with assms(1) stop_step [of s h, OF _ stop(3)] show ?thesis by (simp add: transition_inv_def)
next
  case (observe_exit s tok eres s' h)
  with assms(1) exit_step [of s h, OF _ observe_exit(3)] show ?thesis by (simp add: transition_inv_def)
qed

definition initial_run :: "u64 \<Rightarrow> service_run \<Rightarrow> bool" where
  "initial_run identity r \<longleftrightarrow> (\<exists>junk s. ServiceTransitionInitialize identity (Some junk) = (True, Some s) \<and> r = (s, []))"

lemma initial_run_inv:
  assumes "initial_run identity r"
  shows "transition_inv r \<and> service_identity (fst r) = identity"
  using assms
  by (auto simp: initial_run_def ServiceTransitionInitialize_def transition_inv_def ServiceTransitionIsCanonical_def
      life_history_def lives_ok_def open_life_def ClearState_def Let_def split: if_splits)

interpretation service_run_ts: transition_system "initial_run identity" transition_step
  "\<lambda>r. transition_inv r \<and> service_identity (fst r) = identity"
  by unfold_locales (auto dest: initial_run_inv transition_step_inv)

section \<open>Dead tickets and tokens\<close>

definition ticket_idle :: "ServiceTransitionState \<Rightarrow> bool" where
  "ticket_idle s \<longleftrightarrow> phase s \<noteq> PhaseStarting"

definition instance_idle :: "ServiceTransitionState \<Rightarrow> bool" where
  "instance_idle s \<longleftrightarrow> phase s \<noteq> PhaseStarting \<and> phase s \<noteq> PhaseRunning \<and> phase s \<noteq> PhaseStopping"

definition state_step :: "ServiceTransitionState \<Rightarrow> ServiceTransitionState \<Rightarrow> bool" where
  "state_step s s' \<longleftrightarrow> (\<exists>h h'. transition_step (s, h) (s', h'))"

lemma state_step_law:
  assumes "state_step s s'"
  shows "generation s' = generation s \<and> (ticket_idle s \<longrightarrow> ticket_idle s') \<and> (instance_idle s \<longrightarrow> instance_idle s') \<or>
    ticket_idle s \<and> instance_idle s \<and> generation s < generation s'"
proof -
  obtain h h' where "transition_step (s, h) (s', h')"
    using assms by (auto simp: state_step_def)
  then show ?thesis
  proof (cases rule: transition_step.cases)
    case (reserve out res ticket)
    then show ?thesis
      using u64_succ_gt [of "generation s"]
      by (cases "phase s"; auto simp: ServiceTransitionReserveStart_def ticket_idle_def instance_idle_def Let_def
          generation_maximum ServiceTransitionIsCanonical_def split: if_splits)
  next
    case (spawn_failure t fres)
    then show ?thesis
      by (auto simp: ServiceTransitionRecordSpawnFailure_def ticket_idle_def instance_idle_def split: if_splits)
  next
    case (commit t inst pres)
    then show ?thesis
      by (auto simp: ServiceTransitionCommitAtSchedulerPublication_def ServiceTransitionIsCurrentStart_def
          ticket_idle_def instance_idle_def split: if_splits)
  next
    case (stop tout sres token)
    then show ?thesis
      by (auto simp: ServiceTransitionStop_def ticket_idle_def instance_idle_def Let_def split: if_splits)
  next
    case (observe_exit tok eres)
    then show ?thesis
      by (auto simp: ServiceTransitionObserveExit_def ticket_idle_def instance_idle_def Let_def split: if_splits)
  qed
qed

interpretation tickets: generation_rows generation ticket_idle state_step
  by unfold_locales (auto dest: state_step_law)

interpretation instances: generation_rows generation instance_idle state_step
  by unfold_locales (auto dest: state_step_law)

lemma state_run:
  "transition_step\<^sup>*\<^sup>* r r' \<Longrightarrow> state_step\<^sup>*\<^sup>* (fst r) (fst r')"
proof (induction rule: rtranclp_induct)
  case (step a b)
  then have "state_step (fst a) (fst b)"
    by (metis prod.collapse state_step_def)
  with step.IH show ?case by (rule rtranclp.rtrancl_into_rtrancl)
qed simp

section \<open>Properties\<close>

definition sample_stopped :: ServiceTransitionState where
  "sample_stopped = ClearState\<lparr>service_identity := 5, phase := PhaseStopped\<rparr>"

definition sample_starting :: ServiceTransitionState where
  "sample_starting = sample_stopped\<lparr>phase := PhaseStarting, generation := 1, desired_running := True, start_in_flight := True\<rparr>"

definition sample_instance :: ServiceInstanceKey where
  "sample_instance = \<lparr>process_identity = 9, pid = 3\<rparr>"

definition sample_running :: ServiceTransitionState where
  "sample_running = sample_starting\<lparr>phase := PhaseRunning, instance_key := sample_instance, start_in_flight := False\<rparr>"

definition sample_token :: ServiceInstanceToken where
  "sample_token = \<lparr>token_start = start_ticket 5 1, token_process = sample_instance\<rparr>"

lemma sample_service_start: "initial_run 5 (sample_stopped, [])"
proof -
  have "ServiceTransitionInitialize 5 (Some ClearState) = (True, Some sample_stopped)"
    by code_simp
  then show ?thesis by (auto simp: initial_run_def)
qed

lemma sample_service_published:
  "transition_step\<^sup>*\<^sup>* (sample_stopped, []) (sample_running, [SvReserved (start_ticket 5 1), SvPublished sample_token])"
proof -
  have "ServiceTransitionReserveStart (Some sample_stopped) (Some kInvalidServiceStartTicket) =
      ((ReserveReserved, Some (start_ticket 5 1)), Some sample_starting)"
    by code_simp
  from transition_step.reserve [OF this, of "[]"]
  have "transition_step (sample_stopped, []) (sample_starting, [SvReserved (start_ticket 5 1)])"
    by simp
  moreover have "ServiceTransitionCommitAtSchedulerPublication (Some sample_starting) (start_ticket 5 1) sample_instance =
      (PublicationPublished, Some sample_running)"
    by code_simp
  from transition_step.commit [OF this, of "[SvReserved (start_ticket 5 1)]"]
  have "transition_step (sample_starting, [SvReserved (start_ticket 5 1)])
      (sample_running, [SvReserved (start_ticket 5 1), SvPublished sample_token])"
    by (simp add: sample_token_def)
  ultimately show ?thesis
    by (meson converse_rtranclp_into_rtranclp rtranclp.rtrancl_refl)
qed

text \<open>
  C11. Service lifetimes never overlap. After any sequence of calls on an initialized row the
  state is canonical and the history is a sequence of finished lives of generations 1, 2, 3, ...,
  one after the other, and then the open life of the current generation: each start is reserved
  once, published at most once under its own ticket, killed at most once, and ended once by a
  failure, a cancellation or the observed exit of exactly the published instance.
\<close>

theorem service_lives_disjoint:
  assumes "initial_run identity r" and "transition_step\<^sup>*\<^sup>* r (s, h)"
  shows "ServiceTransitionIsCanonical s \<and> service_identity s = identity \<and>
    (\<exists>lives. h = concat lives @ open_life s \<and>
      (\<forall>i<length lives. finished_life identity (of_nat (Suc i)) (lives ! i)) \<and>
      length lives + (if open_life s = [] then 0 else 1) = unat (generation s))"
  using service_run_ts.reachable_inv [OF assms]
  by (auto simp: transition_inv_def life_history_def lives_ok_def simp del: of_nat_Suc)

theorem service_lives_disjoint_witness:
  "ServiceTransitionIsCanonical sample_running \<and> service_identity sample_running = 5 \<and>
   (\<exists>lives. [SvReserved (start_ticket 5 1), SvPublished sample_token] = concat lives @ open_life sample_running \<and>
     (\<forall>i<length lives. finished_life 5 (of_nat (Suc i)) (lives ! i)) \<and>
     length lives + (if open_life sample_running = [] then 0 else 1) = unat (generation sample_running))"
  by (rule service_lives_disjoint [OF sample_service_start sample_service_published])

text \<open>
  C34. Authority dies with its generation. Once a start ticket has been consumed, cancelled or
  superseded, no later spawn-failure report or publication under it has any effect; once an
  instance has ended, no later exit report for its token has any effect and the token is never
  again the current instance.
\<close>

theorem service_dead_authority_rejected:
  assumes "transition_step\<^sup>*\<^sup>* (s, h) (s', h')"
  shows "(ticket_generation t < generation s \<or> ticket_generation t = generation s \<and> phase s \<noteq> PhaseStarting \<longrightarrow>
      ServiceTransitionRecordSpawnFailure (Some s') t = (SpawnFailureRejected, Some s') \<and>
      ServiceTransitionCommitAtSchedulerPublication (Some s') t inst = (PublicationRejected, Some s')) \<and>
    (ticket_generation (token_start tok) < generation s \<or> ticket_generation (token_start tok) = generation s \<and>
        phase s \<notin> {PhaseStarting, PhaseRunning, PhaseStopping} \<longrightarrow>
      ServiceTransitionObserveExit (Some s') tok = (ExitRejected, Some s') \<and>
      \<not> ServiceTransitionIsCurrentInstance s' tok)"
proof (intro conjI impI)
  have run: "state_step\<^sup>*\<^sup>* s s'"
    using state_run [OF assms] by simp
  assume "ticket_generation t < generation s \<or> ticket_generation t = generation s \<and> phase s \<noteq> PhaseStarting"
  then have "\<not> ServiceTransitionIsCurrentStart s' t"
    using tickets.dead_run [OF run, of "ticket_generation t"]
    by (auto simp: ticket_idle_def ServiceTransitionIsCurrentStart_def TicketMatches_def)
  then show "ServiceTransitionRecordSpawnFailure (Some s') t = (SpawnFailureRejected, Some s')"
    "ServiceTransitionCommitAtSchedulerPublication (Some s') t inst = (PublicationRejected, Some s')"
    by (simp_all add: ServiceTransitionRecordSpawnFailure_def ServiceTransitionCommitAtSchedulerPublication_def)
next
  have run: "state_step\<^sup>*\<^sup>* s s'"
    using state_run [OF assms] by simp
  assume "ticket_generation (token_start tok) < generation s \<or> ticket_generation (token_start tok) = generation s \<and>
        phase s \<notin> {PhaseStarting, PhaseRunning, PhaseStopping}"
  then show dead: "\<not> ServiceTransitionIsCurrentInstance s' tok"
    using instances.dead_run [OF run, of "ticket_generation (token_start tok)"]
    by (auto simp: instance_idle_def ServiceTransitionIsCurrentInstance_def TicketMatches_def)
  then show "ServiceTransitionObserveExit (Some s') tok = (ExitRejected, Some s')"
    by (simp add: ServiceTransitionObserveExit_def)
qed


theorem service_dead_authority_rejected_witness:
  "ServiceTransitionCommitAtSchedulerPublication (Some sample_running) (start_ticket 5 1) sample_instance =
    (PublicationRejected, Some sample_running)"
proof -
  have "ticket_generation (start_ticket 5 1) = generation sample_running \<and> phase sample_running \<noteq> PhaseStarting"
    by code_simp
  with service_dead_authority_rejected [OF rtranclp.rtrancl_refl, of "start_ticket 5 1" sample_running sample_instance]
  show ?thesis by blast
qed

end
