(* ===== verification/ThreadGroup.thy ===== *)
theory ThreadGroup
  imports Prelude
begin

text \<open>
  Thread-group metadata (\<^verbatim>\<open>kernel/proc/thread_group.{h,cpp}\<close>): 64 generation-keyed rows, each with a
  sorted array of at most 64 member identities. The row array is the state; every entry point
  runs under one lock and is one function of it.
\<close>

section \<open>Data\<close>

definition kThreadGroupCapacity :: u32 where [kdefs]: "kThreadGroupCapacity = 64"
definition kThreadGroupMemberCapacity :: u32 where [kdefs]: "kThreadGroupMemberCapacity = 64"
definition kThreadGroupGenerationMaximum :: u64 where [kdefs]: "kThreadGroupGenerationMaximum = 0x7FFFFFFFFFFFF"

record ThreadGroupKey =
  tg_slot :: u32
  tg_key_generation :: u64

definition kInvalidThreadGroupKey :: ThreadGroupKey where
  "kInvalidThreadGroupKey = \<lparr>tg_slot = kThreadGroupCapacity, tg_key_generation = 0\<rparr>"

definition ThreadGroupKeyIsValid :: "ThreadGroupKey \<Rightarrow> bool" where
  "ThreadGroupKeyIsValid key \<longleftrightarrow> tg_slot key < kThreadGroupCapacity \<and> tg_key_generation key \<noteq> 0 \<and>
     tg_key_generation key \<le> kThreadGroupGenerationMaximum"

record ThreadGroupMemberIdentity =
  opaque :: u64

definition kInvalidThreadGroupMemberIdentity :: ThreadGroupMemberIdentity where
  "kInvalidThreadGroupMemberIdentity = \<lparr>opaque = 0\<rparr>"

definition ThreadGroupMemberIdentityIsValid :: "ThreadGroupMemberIdentity \<Rightarrow> bool" where
  "ThreadGroupMemberIdentityIsValid identity \<longleftrightarrow> opaque identity \<noteq> 0"

datatype ThreadGroupState = GroupRetired | GroupOpen | GroupExiting
datatype ThreadGroupMutationResult = MutationRejected | MutationApplied | MutationAlreadySatisfied

record ThreadGroupSnapshot =
  tsnap_state :: ThreadGroupState
  tsnap_owner_references :: u32
  tsnap_leader :: ThreadGroupMemberIdentity
  tsnap_member_count :: u32
  tsnap_members :: "ThreadGroupMemberIdentity list"

record ThreadGroupRow =
  group_state :: ThreadGroupState
  group_generation :: u64
  group_owners :: u32
  leader :: ThreadGroupMemberIdentity
  member_count :: u32
  members :: "ThreadGroupMemberIdentity list"

type_synonym thread_groups = "ThreadGroupRow list"

section \<open>Helpers under the lock\<close>

definition ResolveExactLocked :: "thread_groups \<Rightarrow> ThreadGroupKey \<Rightarrow> nat option" where
  "ResolveExactLocked g key =
    (if \<not> ThreadGroupKeyIsValid key then None
     else if group_generation (g ! unat (tg_slot key)) = tg_key_generation key then Some (unat (tg_slot key)) else None)"

definition AllocateLocked ::
    "ThreadGroupMemberIdentity \<Rightarrow> thread_groups \<Rightarrow> ThreadGroupKey \<times> thread_groups" where
  "AllocateLocked lead g =
    (case find (\<lambda>slot. \<not> (group_state (g ! slot) \<noteq> GroupRetired \<or>
             group_generation (g ! slot) \<ge> kThreadGroupGenerationMaximum)) [0..<unat kThreadGroupCapacity] of
       None \<Rightarrow> (kInvalidThreadGroupKey, g)
     | Some slot \<Rightarrow>
         let row = g ! slot;
             row = row\<lparr>group_generation := group_generation row + 1, group_owners := 1, leader := lead,
               member_count := 1,
               members := fold (\<lambda>index ms. ms[index := kInvalidThreadGroupMemberIdentity])
                 [1..<unat kThreadGroupMemberCapacity] ((members row)[0 := lead]),
               group_state := GroupOpen\<rparr>
         in (\<lparr>tg_slot = of_nat slot, tg_key_generation = group_generation row\<rparr>, g[slot := row]))"

definition MemberLowerBound :: "ThreadGroupRow \<Rightarrow> ThreadGroupMemberIdentity \<Rightarrow> u32" where
  "MemberLowerBound row member = lower_bound (\<lambda>probe. opaque (members row ! unat probe) < opaque member) 0 (member_count row)"

definition IsActive :: "ThreadGroupRow \<Rightarrow> bool" where
  "IsActive row \<longleftrightarrow> (group_state row = GroupOpen \<or> group_state row = GroupExiting) \<and> group_owners row \<noteq> 0"

text \<open>
  The two shifting loops: \<^verbatim>\<open>for (index = count; index > insert_at; --index) a[index] = a[index - 1]\<close> and
  \<^verbatim>\<open>for (index = remove_at + 1; index < count; ++index) a[index - 1] = a[index]\<close>.
\<close>

fun shift_up :: "nat \<Rightarrow> nat \<Rightarrow> 'a list \<Rightarrow> 'a list" where
  "shift_up insert_at 0 xs = xs"
| "shift_up insert_at (Suc index) xs =
    (if Suc index > insert_at then shift_up insert_at index (xs[Suc index := xs ! index]) else xs)"

definition shift_down :: "nat \<Rightarrow> nat \<Rightarrow> 'a list \<Rightarrow> 'a list" where
  "shift_down remove_at count xs = fold (\<lambda>index xs. xs[index - 1 := xs ! index]) [remove_at + 1..<count] xs"

section \<open>Entry points\<close>

definition ThreadGroupAuthorityCreate ::
    "ThreadGroupMemberIdentity \<Rightarrow> ThreadGroupKey option \<Rightarrow> thread_groups \<Rightarrow>
      (bool \<times> ThreadGroupKey option) \<times> thread_groups" where
  "ThreadGroupAuthorityCreate lead out_key g =
    (if out_key = None then ((False, None), g)
     else if \<not> ThreadGroupMemberIdentityIsValid lead then ((False, Some kInvalidThreadGroupKey), g)
     else case AllocateLocked lead g of (created, g) \<Rightarrow> ((ThreadGroupKeyIsValid created, Some created), g))"

definition ThreadGroupRetain :: "ThreadGroupKey \<Rightarrow> thread_groups \<Rightarrow> bool \<times> thread_groups" where
  "ThreadGroupRetain key g =
    (case ResolveExactLocked g key of
       None \<Rightarrow> (False, g)
     | Some d \<Rightarrow>
         let row = g ! d
         in if \<not> IsActive row \<or> group_owners row = 0xFFFFFFFF then (False, g)
            else (True, g[d := row\<lparr>group_owners := group_owners row + 1\<rparr>]))"

definition ThreadGroupRelease ::
    "ThreadGroupKey option \<Rightarrow> thread_groups \<Rightarrow> (bool \<times> ThreadGroupKey option) \<times> thread_groups" where
  "ThreadGroupRelease key g =
    (case key of
       None \<Rightarrow> ((False, None), g)
     | Some k \<Rightarrow>
         if \<not> ThreadGroupKeyIsValid k then ((False, key), g)
         else case ResolveExactLocked g k of
           None \<Rightarrow> ((False, key), g)
         | Some d \<Rightarrow>
             let row = g ! d
             in if \<not> IsActive row then ((False, key), g)
                else if group_owners row = 1 \<and> (group_state row \<noteq> GroupExiting \<or> member_count row \<noteq> 0)
                then ((False, key), g)
                else
                  let row = row\<lparr>group_owners := group_owners row - 1\<rparr>;
                      row = (if group_owners row = 0 then row\<lparr>group_state := GroupRetired\<rparr> else row)
                  in ((True, Some kInvalidThreadGroupKey), g[d := row]))"

definition ThreadGroupAuthorityAttachMember ::
    "ThreadGroupKey \<Rightarrow> ThreadGroupMemberIdentity \<Rightarrow> thread_groups \<Rightarrow> bool \<times> thread_groups" where
  "ThreadGroupAuthorityAttachMember key member g =
    (if \<not> ThreadGroupMemberIdentityIsValid member then (False, g)
     else case ResolveExactLocked g key of
       None \<Rightarrow> (False, g)
     | Some d \<Rightarrow>
         let row = g ! d
         in if group_state row \<noteq> GroupOpen \<or> group_owners row = 0 \<or> member_count row \<ge> kThreadGroupMemberCapacity
            then (False, g)
            else
              let insert_at = MemberLowerBound row member
              in if insert_at < member_count row \<and> members row ! unat insert_at = member then (False, g)
                 else (True, g[d := row\<lparr>members :=
                         (shift_up (unat insert_at) (unat (member_count row)) (members row))[unat insert_at := member],
                         member_count := member_count row + 1\<rparr>]))"

definition ThreadGroupAuthorityDetachMember ::
    "ThreadGroupKey \<Rightarrow> ThreadGroupMemberIdentity \<Rightarrow> thread_groups \<Rightarrow> ThreadGroupMutationResult \<times> thread_groups" where
  "ThreadGroupAuthorityDetachMember key member g =
    (if \<not> ThreadGroupMemberIdentityIsValid member then (MutationRejected, g)
     else case ResolveExactLocked g key of
       None \<Rightarrow> (MutationRejected, g)
     | Some d \<Rightarrow>
         let row = g ! d
         in if \<not> IsActive row then (MutationRejected, g)
            else
              let remove_at = MemberLowerBound row member
              in if remove_at = member_count row \<or> members row ! unat remove_at \<noteq> member
                 then (MutationAlreadySatisfied, g)
                 else
                   let shifted = shift_down (unat remove_at) (unat (member_count row)) (members row);
                       count = member_count row - 1
                   in (MutationApplied, g[d := row\<lparr>member_count := count,
                         members := shifted[unat count := kInvalidThreadGroupMemberIdentity]\<rparr>]))"

definition ThreadGroupBeginExit :: "ThreadGroupKey \<Rightarrow> thread_groups \<Rightarrow> ThreadGroupMutationResult \<times> thread_groups" where
  "ThreadGroupBeginExit key g =
    (case ResolveExactLocked g key of
       None \<Rightarrow> (MutationRejected, g)
     | Some d \<Rightarrow>
         let row = g ! d
         in if \<not> IsActive row then (MutationRejected, g)
            else if group_state row = GroupExiting then (MutationAlreadySatisfied, g)
            else (MutationApplied, g[d := row\<lparr>group_state := GroupExiting\<rparr>]))"

definition zero_group_snapshot :: ThreadGroupSnapshot where
  "zero_group_snapshot = \<lparr>tsnap_state = GroupRetired, tsnap_owner_references = 0,
     tsnap_leader = kInvalidThreadGroupMemberIdentity, tsnap_member_count = 0,
     tsnap_members = replicate 64 kInvalidThreadGroupMemberIdentity\<rparr>"

definition ThreadGroupInspectExact ::
    "ThreadGroupKey \<Rightarrow> ThreadGroupSnapshot option \<Rightarrow> thread_groups \<Rightarrow> bool \<times> ThreadGroupSnapshot option" where
  "ThreadGroupInspectExact key out_snapshot g =
    (if out_snapshot = None then (False, None)
     else case ResolveExactLocked g key of
       None \<Rightarrow> (False, Some zero_group_snapshot)
     | Some d \<Rightarrow>
         let row = g ! d
         in (True, Some \<lparr>tsnap_state = group_state row, tsnap_owner_references = group_owners row,
               tsnap_leader = leader row, tsnap_member_count = member_count row,
               tsnap_members = map (\<lambda>index. members row ! index) [0..<unat kThreadGroupMemberCapacity]\<rparr>))"

definition zero_group_row :: ThreadGroupRow where
  "zero_group_row = \<lparr>group_state = GroupRetired, group_generation = 0, group_owners = 0,
     leader = kInvalidThreadGroupMemberIdentity, member_count = 0,
     members = replicate 64 kInvalidThreadGroupMemberIdentity\<rparr>"

definition zero_groups :: thread_groups where
  "zero_groups = replicate 64 zero_group_row"

end
