(* ===== verification/ThreadGroupInv.thy ===== *)
theory ThreadGroupInv
  imports ThreadGroup
begin

text \<open>
  The member array of a thread group as a sorted set: the binary search finds the insertion
  point, the shifting loops insert and delete there, and every entry point of
  \<^verbatim>\<open>kernel/proc/thread_group.cpp\<close> keeps the rows well formed.
\<close>

section \<open>Shifting loops\<close>

lemma length_shift_up [simp]: "length (shift_up at n xs) = length xs"
  by (induction n arbitrary: xs) auto

lemma nth_shift_up:
  assumes "n < length xs" and "j < length xs"
  shows "shift_up at n xs ! j = (if at < j \<and> j \<le> n then xs ! (j - 1) else xs ! j)"
  using assms
proof (induction n arbitrary: xs)
  case 0
  then show ?case by simp
next
  case (Suc n)
  then show ?case
    by (cases "j = Suc n") (auto simp: nth_list_update)
qed

lemma shift_down_Suc:
  "r < n \<Longrightarrow> shift_down r (Suc n) xs = (shift_down r n xs)[n - 1 := shift_down r n xs ! n]"
  by (simp add: shift_down_def)

lemma length_shift_down [simp]: "length (shift_down r n xs) = length xs"
proof (induction n)
  case 0
  show ?case by (simp add: shift_down_def)
next
  case (Suc n)
  then show ?case by (cases "r < n") (simp_all add: shift_down_Suc, simp add: shift_down_def)
qed

lemma nth_shift_down:
  assumes "n \<le> length xs" and "j < length xs"
  shows "shift_down r n xs ! j = (if r \<le> j \<and> Suc j < n then xs ! Suc j else xs ! j)"
  using assms
proof (induction n arbitrary: j)
  case 0
  then show ?case by (simp add: shift_down_def)
next
  case (Suc n)
  show ?case
  proof (cases "r < n")
    case True
    have "shift_down r n xs ! n = xs ! n"
      using Suc True by simp
    with Suc True show ?thesis
      by (cases "j = n - 1") (auto simp: shift_down_Suc nth_list_update)
  next
    case False
    then show ?thesis by (auto simp: shift_down_def)
  qed
qed

section \<open>Sorted member arrays\<close>

definition members_of :: "ThreadGroupRow \<Rightarrow> ThreadGroupMemberIdentity list" where
  "members_of row = take (unat (member_count row)) (members row)"

definition array_wf :: "ThreadGroupRow \<Rightarrow> bool" where
  "array_wf row \<longleftrightarrow> length (members row) = 64 \<and> unat (member_count row) \<le> 64 \<and>
     sorted_wrt (\<lambda>a b. opaque a < opaque b) (members_of row) \<and>
     (\<forall>m\<in>set (members_of row). ThreadGroupMemberIdentityIsValid m) \<and>
     (\<forall>i<64. unat (member_count row) \<le> i \<longrightarrow> members row ! i = kInvalidThreadGroupMemberIdentity)"

lemma nth_members_of: "i < unat (member_count row) \<Longrightarrow> members_of row ! i = members row ! i"
  by (simp add: members_of_def)

lemma length_members_of: "array_wf row \<Longrightarrow> length (members_of row) = unat (member_count row)"
  by (simp add: members_of_def array_wf_def)

lemma members_of_less:
  assumes "array_wf row" and "i < j" and "j < unat (member_count row)"
  shows "opaque (members row ! i) < opaque (members row ! j)"
  using assms sorted_wrt_nth_less [of "\<lambda>a b. opaque a < opaque b" "members_of row" i j]
  by (simp add: array_wf_def length_members_of [OF assms(1)] nth_members_of)

lemma member_lower_bound:
  assumes "array_wf row"
  shows "unat (MemberLowerBound row m) \<le> unat (member_count row)"
    and "i < unat (member_count row) \<Longrightarrow>
      opaque (members row ! i) < opaque m \<longleftrightarrow> i < unat (MemberLowerBound row m)"
proof -
  let ?n = "unat (member_count row)"
  let ?below = "\<lambda>probe :: u32. opaque (members row ! unat probe) < opaque m"
  have n: "?n \<le> 64" using assms by (simp add: array_wf_def)
  have small: "unat (of_nat i :: u32) = i" if "i < ?n" for i
    using that n by (intro unat_of_nat_u32) simp
  have "unat (lower_bound ?below 0 (member_count row)) \<le> ?n \<and>
      (\<forall>i < ?n. ?below (of_nat i) \<longleftrightarrow> i < unat (lower_bound ?below 0 (member_count row)))"
  proof (rule lower_bound_prefix)
    show "?below (of_nat i)" if "i \<le> j" "j < ?n" "?below (of_nat j)" for i j
      using that members_of_less [OF assms, of i j] small [of i] small [of j] by (cases "i = j") auto
  qed (use n in simp_all)
  then show "unat (MemberLowerBound row m) \<le> ?n"
    and "i < ?n \<Longrightarrow> opaque (members row ! i) < opaque m \<longleftrightarrow> i < unat (MemberLowerBound row m)"
    using small by (auto simp: MemberLowerBound_def)
qed

lemma member_found:
  assumes "array_wf row"
  shows "m \<in> set (members_of row) \<longleftrightarrow> unat (MemberLowerBound row m) < unat (member_count row) \<and>
    members row ! unat (MemberLowerBound row m) = m"
proof
  let ?p = "unat (MemberLowerBound row m)"
  note lb = member_lower_bound [OF assms, where m = m]
  assume "m \<in> set (members_of row)"
  then obtain i where i: "i < unat (member_count row)" "members row ! i = m"
    by (metis in_set_conv_nth length_members_of [OF assms] nth_members_of)
  have "\<not> i < ?p" using lb(2) [OF i(1)] i(2) by simp
  moreover have "\<not> ?p < i"
  proof
    assume "?p < i"
    with members_of_less [OF assms this i(1)] i lb(2) [of ?p] show False by auto
  qed
  ultimately have "?p = i" by simp
  with i show "?p < unat (member_count row) \<and> members row ! ?p = m" by simp
next
  assume "unat (MemberLowerBound row m) < unat (member_count row) \<and> members row ! unat (MemberLowerBound row m) = m"
  then show "m \<in> set (members_of row)"
    by (metis in_set_conv_nth length_members_of [OF assms] nth_members_of)
qed

lemma take_drop_bounds:
  fixes m :: ThreadGroupMemberIdentity
  assumes "array_wf row"
  defines "p \<equiv> unat (MemberLowerBound row m)"
  shows "\<And>x. x \<in> set (take p (members_of row)) \<Longrightarrow> opaque x < opaque m"
    and "\<And>x. x \<in> set (drop p (members_of row)) \<Longrightarrow> opaque m \<le> opaque x"
proof -
  note lb = member_lower_bound [OF assms(1), where m = m, folded p_def]
  show "opaque x < opaque m" if "x \<in> set (take p (members_of row))" for x
    using that lb by (auto simp: in_set_conv_nth length_members_of [OF assms(1)] nth_members_of)
  show "opaque m \<le> opaque x" if x: "x \<in> set (drop p (members_of row))" for x
  proof -
    obtain i where "i < unat (member_count row) - p" "x = members_of row ! (p + i)"
      using x by (auto simp: in_set_conv_nth length_members_of [OF assms(1)])
    then have "p + i < unat (member_count row)" "x = members row ! (p + i)"
      by (simp_all add: nth_members_of)
    with lb(2) [of "p + i"] show ?thesis by simp
  qed
qed

lemma sorted_distinct: "array_wf row \<Longrightarrow> distinct (members_of row)"
  unfolding array_wf_def distinct_conv_nth
  by (metis (no_types, lifting) linorder_neqE_nat order_less_irrefl sorted_wrt_nth_less)

section \<open>Insertion and deletion\<close>

definition attached :: "ThreadGroupRow \<Rightarrow> ThreadGroupMemberIdentity \<Rightarrow> ThreadGroupRow" where
  "attached row m = (let p = unat (MemberLowerBound row m)
     in row\<lparr>members := (shift_up p (unat (member_count row)) (members row))[p := m], member_count := member_count row + 1\<rparr>)"

definition detached :: "ThreadGroupRow \<Rightarrow> ThreadGroupMemberIdentity \<Rightarrow> ThreadGroupRow" where
  "detached row m = (let p = unat (MemberLowerBound row m)
     in row\<lparr>member_count := member_count row - 1,
       members := (shift_down p (unat (member_count row)) (members row))[unat (member_count row - 1) :=
         kInvalidThreadGroupMemberIdentity]\<rparr>)"

lemma members_of_attached:
  fixes m :: ThreadGroupMemberIdentity
  assumes wf: "array_wf row" and room: "unat (member_count row) < 64"
  defines "p \<equiv> unat (MemberLowerBound row m)"
  shows "members_of (attached row m) = take p (members_of row) @ m # drop p (members_of row)"
    and "unat (member_count (attached row m)) = Suc (unat (member_count row))"
    and "\<And>i. i < 64 \<Longrightarrow> Suc (unat (member_count row)) \<le> i \<Longrightarrow> members (attached row m) ! i = members row ! i"
    and "length (members (attached row m)) = 64"
proof -
  let ?n = "unat (member_count row)"
  have len: "length (members row) = 64" using wf by (simp add: array_wf_def)
  have p: "p \<le> ?n" using member_lower_bound(1) [OF wf] by (simp add: p_def)
  show count: "unat (member_count (attached row m)) = Suc ?n"
    using room by (simp add: attached_def Let_def unat_word_ariths)
  show "length (members (attached row m)) = 64"
    using len by (simp add: attached_def Let_def)
  have nth: "members (attached row m) ! i =
      (if i = p then m else if p < i \<and> i \<le> ?n then members row ! (i - 1) else members row ! i)" if "i < 64" for i
    using that room len p nth_shift_up [of ?n "members row" i p]
    by (auto simp: attached_def Let_def p_def [symmetric] nth_list_update)
  show "members (attached row m) ! i = members row ! i" if "i < 64" "Suc ?n \<le> i" for i
    using nth [OF that(1)] that p by simp
  show "members_of (attached row m) = take p (members_of row) @ m # drop p (members_of row)"
  proof (rule nth_equalityI)
    show "length (members_of (attached row m)) = length (take p (members_of row) @ m # drop p (members_of row))"
      using count len room p length_members_of [OF wf] by (simp add: members_of_def attached_def Let_def)
    fix i assume "i < length (members_of (attached row m))"
    then have i: "i \<le> ?n" using count by (simp add: members_of_def)
    have "members_of (attached row m) ! i = members (attached row m) ! i"
      using i count by (simp add: members_of_def)
    also have "\<dots> = (take p (members_of row) @ m # drop p (members_of row)) ! i"
      using nth [of i] i room p length_members_of [OF wf] nth_members_of [of _ row]
      by (auto simp: nth_append nth_Cons' min_def)
    finally show "members_of (attached row m) ! i = (take p (members_of row) @ m # drop p (members_of row)) ! i" .
  qed
qed

lemma attached_wf:
  assumes wf: "array_wf row" and room: "unat (member_count row) < 64"
    and m: "ThreadGroupMemberIdentityIsValid m" "m \<notin> set (members_of row)"
  shows "array_wf (attached row m) \<and> set (members_of (attached row m)) = insert m (set (members_of row))"
proof -
  let ?p = "unat (MemberLowerBound row m)"
  note att = members_of_attached [OF wf room, where m = m]
  have split: "set (take ?p (members_of row)) \<union> set (drop ?p (members_of row)) = set (members_of row)"
    by (metis append_take_drop_id set_append)
  have above: "opaque m < opaque x" if "x \<in> set (drop ?p (members_of row))" for x
  proof -
    have "x \<noteq> m" using m(2) that split by auto
    then have "opaque x \<noteq> opaque m" by (cases x; cases m) simp
    with take_drop_bounds(2) [OF wf that] show ?thesis by simp
  qed
  have "sorted_wrt (\<lambda>a b. opaque a < opaque b) (take ?p (members_of row) @ drop ?p (members_of row))"
    using wf by (simp add: array_wf_def)
  then have "sorted_wrt (\<lambda>a b. opaque a < opaque b) (members_of (attached row m))"
    unfolding att(1) sorted_wrt_append using above take_drop_bounds(1) [OF wf, of _ m] by auto
  moreover have members: "set (members_of (attached row m)) = insert m (set (members_of row))"
    unfolding att(1) using split by auto
  ultimately show ?thesis
    using wf room m(1) att(2-4) by (auto simp: array_wf_def)
qed

lemma members_of_detached:
  assumes wf: "array_wf row" and mem: "m \<in> set (members_of row)"
  defines "p \<equiv> unat (MemberLowerBound row m)"
  shows "members_of (detached row m) = take p (members_of row) @ drop (Suc p) (members_of row)"
    and "Suc (unat (member_count (detached row m))) = unat (member_count row)"
    and "\<And>i. i < 64 \<Longrightarrow> unat (member_count row) \<le> Suc i \<Longrightarrow>
      members (detached row m) ! i = kInvalidThreadGroupMemberIdentity"
    and "length (members (detached row m)) = 64"
proof -
  let ?n = "unat (member_count row)"
  have len: "length (members row) = 64" and n: "?n \<le> 64" using wf by (simp_all add: array_wf_def)
  have p: "p < ?n" using mem member_found [OF wf, of m] by (simp add: p_def)
  then have "1 \<le> member_count row" by (simp add: word_le_nat_alt)
  then have n1: "unat (member_count row - 1) = ?n - 1" by (simp add: unat_sub_ge)
  then show count: "Suc (unat (member_count (detached row m))) = ?n"
    using p by (simp add: detached_def Let_def)
  show "length (members (detached row m)) = 64"
    using len by (simp add: detached_def Let_def)
  have nth: "members (detached row m) ! i = (if i = ?n - 1 then kInvalidThreadGroupMemberIdentity
      else if p \<le> i \<and> Suc i < ?n then members row ! Suc i else members row ! i)" if "i < 64" for i
    using that len n nth_shift_down [of ?n "members row" i p] n1
    by (auto simp: detached_def Let_def p_def [symmetric] nth_list_update)
  show "members (detached row m) ! i = kInvalidThreadGroupMemberIdentity" if "i < 64" "?n \<le> Suc i" for i
  proof (cases "i = ?n - 1")
    case True
    with nth [OF that(1)] show ?thesis by simp
  next
    case False
    with that have "?n \<le> i" by simp
    with that wf False nth [OF that(1)] show ?thesis by (simp add: array_wf_def)
  qed
  show "members_of (detached row m) = take p (members_of row) @ drop (Suc p) (members_of row)"
  proof (rule nth_equalityI)
    show "length (members_of (detached row m)) = length (take p (members_of row) @ drop (Suc p) (members_of row))"
      using count len n p length_members_of [OF wf] by (simp add: members_of_def detached_def Let_def n1)
    fix i assume "i < length (members_of (detached row m))"
    then have i: "Suc i < ?n" using count by (simp add: members_of_def)
    have "members_of (detached row m) ! i = members (detached row m) ! i"
      using i count by (simp add: members_of_def)
    also have "\<dots> = (take p (members_of row) @ drop (Suc p) (members_of row)) ! i"
      using nth [of i] i n p length_members_of [OF wf] nth_members_of [of _ row]
      by (auto simp: nth_append min_def)
    finally show "members_of (detached row m) ! i = (take p (members_of row) @ drop (Suc p) (members_of row)) ! i" .
  qed
qed

lemma detached_wf:
  assumes wf: "array_wf row" and mem: "m \<in> set (members_of row)"
  shows "array_wf (detached row m) \<and> set (members_of (detached row m)) = set (members_of row) - {m}"
proof -
  let ?p = "unat (MemberLowerBound row m)" and ?L = "members_of row"
  note det = members_of_detached [OF wf mem]
  have p: "?p < length ?L" "?L ! ?p = m"
    using mem member_found [OF wf, of m] by (simp_all add: length_members_of [OF wf] nth_members_of)
  then have split: "?L = take ?p ?L @ m # drop (Suc ?p) ?L"
    by (metis id_take_nth_drop)
  have "distinct (take ?p ?L @ m # drop (Suc ?p) ?L)"
    using sorted_distinct [OF wf] split by simp
  then have "set (take ?p ?L @ drop (Suc ?p) ?L) = set (take ?p ?L @ m # drop (Suc ?p) ?L) - {m}"
    by auto
  then have members: "set (members_of (detached row m)) = set ?L - {m}"
    unfolding det(1) using split by simp
  have "sorted_wrt (\<lambda>a b. opaque a < opaque b) (take ?p ?L @ m # drop (Suc ?p) ?L)"
    using wf split by (simp add: array_wf_def)
  then have "sorted_wrt (\<lambda>a b. opaque a < opaque b) (members_of (detached row m))"
    unfolding det(1) by (simp add: sorted_wrt_append)
  with members wf det(2-4) show ?thesis
    by (auto simp: array_wf_def)
qed

end
