(* ===== verification/ThreadGroupSystem.thy ===== *)
theory ThreadGroupSystem
  imports ThreadGroupInv
begin

text \<open>
  The thread-group service over every sequence of calls: rows stay well formed, membership is a
  set, groups retire only empty and exiting, and dead keys stay dead.
\<close>

section \<open>The invariant\<close>

definition group_ok :: "ThreadGroupRow \<Rightarrow> bool" where
  "group_ok row \<longleftrightarrow> array_wf row \<and> group_generation row \<le> kThreadGroupGenerationMaximum \<and>
     (if group_state row = GroupRetired then group_owners row = 0 \<and> member_count row = 0
      else group_owners row \<noteq> 0 \<and> group_generation row \<noteq> 0)"

definition groups_inv :: "thread_groups \<Rightarrow> bool" where
  "groups_inv g \<longleftrightarrow> length g = 64 \<and> (\<forall>d<64. group_ok (g ! d))"

lemma groups_inv_update:
  assumes "groups_inv g" and "d < 64" and "group_ok row"
  shows "groups_inv (g[d := row])"
proof -
  have "group_ok (g[d := row] ! e)" if "e < 64" for e
    using assms that by (cases "e = d") (simp_all add: groups_inv_def)
  with assms(1) show ?thesis by (simp add: groups_inv_def)
qed

lemma groups_invD: "groups_inv g \<Longrightarrow> d < 64 \<Longrightarrow> group_ok (g ! d)"
  by (simp add: groups_inv_def)

lemma resolve_group:
  "ResolveExactLocked g key = Some d \<Longrightarrow> d < 64 \<and> d = unat (tg_slot key) \<and> group_generation (g ! d) = tg_key_generation key"
  by (auto simp: ResolveExactLocked_def ThreadGroupKeyIsValid_def word_less_nat_alt kdefs split: if_splits)

text \<open>A call does nothing or rewrites one row of the table.\<close>

definition row_write :: "thread_groups \<Rightarrow> thread_groups \<Rightarrow> bool" where
  "row_write g g' \<longleftrightarrow> g' = g \<or> (\<exists>d row. d < 64 \<and> g' = g[d := row] \<and> group_ok row \<and>
     (group_state (g ! d) \<noteq> GroupRetired \<and> group_generation row = group_generation (g ! d) \<and>
        (group_state row = GroupRetired \<longrightarrow> group_state (g ! d) = GroupExiting \<and> member_count (g ! d) = 0 \<and> group_owners (g ! d) = 1) \<or>
      group_state (g ! d) = GroupRetired \<and> group_generation (g ! d) < group_generation row \<and> group_state row = GroupOpen))"

lemma row_write_refl [simp]: "row_write g g"
  by (simp add: row_write_def)

lemma row_write_inv: "groups_inv g \<Longrightarrow> row_write g g' \<Longrightarrow> groups_inv g'"
  by (auto simp: row_write_def intro: groups_inv_update)

lemma row_write_keep:
  "d < 64 \<Longrightarrow> group_ok row \<Longrightarrow> group_state (g ! d) \<noteq> GroupRetired \<Longrightarrow> group_generation row = group_generation (g ! d) \<Longrightarrow>
    group_state row \<noteq> GroupRetired \<Longrightarrow> row_write g (g[d := row])"
  by (auto simp: row_write_def)

lemma group_gen_succ:
  assumes "(x :: u64) < kThreadGroupGenerationMaximum"
  shows "x < x + 1" and "x + 1 \<le> kThreadGroupGenerationMaximum" and "x + 1 \<noteq> 0"
proof -
  have "unat x < 0x7FFFFFFFFFFFF"
    using assms by (simp add: word_less_nat_alt kThreadGroupGenerationMaximum_def)
  moreover from this have "unat (x + 1) = unat x + 1"
    by (simp add: unat_word_ariths)
  ultimately show "x < x + 1" "x + 1 \<le> kThreadGroupGenerationMaximum" "x + 1 \<noteq> 0"
    by (auto simp: word_less_nat_alt word_le_nat_alt kThreadGroupGenerationMaximum_def word_neq_0_pos)
qed

section \<open>Each entry point\<close>

lemma length_clear_tail: "length (fold (\<lambda>index ms. ms[index := z]) is xs) = length xs"
  by (induction "is" arbitrary: xs) simp_all

lemma nth_clear_tail:
  assumes "i < length xs"
  shows "fold (\<lambda>index ms. ms[index := z]) [1..<n] xs ! i = (if 1 \<le> i \<and> i < n then z else xs ! i)"
  using assms by (induction n) (auto simp: nth_list_update length_clear_tail less_Suc_eq)

lemma create_write:
  assumes inv: "groups_inv g" and op: "ThreadGroupAuthorityCreate lead out g = (r, g')"
  shows "row_write g g'"
proof (cases "g' = g")
  case False
  with op have valid: "ThreadGroupMemberIdentityIsValid lead" and alloc: "snd (AllocateLocked lead g) = g'"
    by (auto simp: ThreadGroupAuthorityCreate_def split: if_splits prod.splits)
  with False obtain slot where slot: "find (\<lambda>slot. \<not> (group_state (g ! slot) \<noteq> GroupRetired \<or>
      group_generation (g ! slot) \<ge> kThreadGroupGenerationMaximum)) [0..<unat kThreadGroupCapacity] = Some slot"
    by (auto simp: AllocateLocked_def split: option.splits)
  then have s64: "slot < 64" and retired: "group_state (g ! slot) = GroupRetired"
    and gen: "group_generation (g ! slot) < kThreadGroupGenerationMaximum"
    using find_upt_Some [OF slot] by (simp_all add: kThreadGroupCapacity_def not_le)
  define ms where "ms = fold (\<lambda>index ms. ms[index := kInvalidThreadGroupMemberIdentity]) [1..<64] ((members (g ! slot))[0 := lead])"
  define row where "row = (g ! slot)\<lparr>group_generation := group_generation (g ! slot) + 1, group_owners := 1, leader := lead,
    member_count := 1, members := ms, group_state := GroupOpen\<rparr>"
  have g': "g' = g[slot := row]"
    using alloc slot by (simp add: AllocateLocked_def Let_def row_def ms_def kThreadGroupMemberCapacity_def)
  have len: "length (members (g ! slot)) = 64"
    using groups_invD [OF inv s64] by (simp add: group_ok_def array_wf_def)
  have ms: "length ms = 64" "ms ! 0 = lead" "\<And>i. 1 \<le> i \<Longrightarrow> i < 64 \<Longrightarrow> ms ! i = kInvalidThreadGroupMemberIdentity"
    using nth_clear_tail [of _ "(members (g ! slot))[0 := lead]"] len by (simp_all add: ms_def length_clear_tail)
  have one: "take 1 ms = [lead]"
    using ms(1,2) by (cases ms) simp_all
  have "group_ok row"
    using ms one valid group_gen_succ [OF gen] by (simp add: group_ok_def array_wf_def members_of_def row_def)
  then show ?thesis
    using s64 retired group_gen_succ(1) [OF gen] unfolding g' row_write_def
    by (intro disjI2 exI [of _ slot] exI [of _ row]) (simp add: row_def)
qed simp

lemma retain_write:
  assumes inv: "groups_inv g" and op: "ThreadGroupRetain key g = (r, g')"
  shows "row_write g g'"
proof (cases "g' = g")
  case False
  with op obtain d where d: "ResolveExactLocked g key = Some d" and act: "IsActive (g ! d)" "group_owners (g ! d) \<noteq> 0xFFFFFFFF"
    and g': "g' = g[d := (g ! d)\<lparr>group_owners := group_owners (g ! d) + 1\<rparr>]"
    by (auto simp: ThreadGroupRetain_def Let_def split: option.splits if_splits)
  have d64: "d < 64" using resolve_group [OF d] by simp
  have "group_owners (g ! d) + 1 \<noteq> 0"
  proof
    assume "group_owners (g ! d) + 1 = 0"
    then have "group_owners (g ! d) = - 1" by (rule eq_neg_iff_add_eq_0 [THEN iffD2])
    with act(2) show False by simp
  qed
  with groups_invD [OF inv d64] act(1) d64 show ?thesis
    unfolding g' by (intro row_write_keep) (auto simp: group_ok_def array_wf_def members_of_def IsActive_def)
qed simp

lemma release_write:
  assumes inv: "groups_inv g" and op: "ThreadGroupRelease key g = (r, g')"
  shows "row_write g g'"
proof (cases "g' = g")
  case False
  with op obtain k d where d: "ResolveExactLocked g k = Some d" and act: "IsActive (g ! d)"
    and last: "\<not> (group_owners (g ! d) = 1 \<and> (group_state (g ! d) \<noteq> GroupExiting \<or> member_count (g ! d) \<noteq> 0))"
    and g': "g' = g[d := let row = (g ! d)\<lparr>group_owners := group_owners (g ! d) - 1\<rparr>
      in if group_owners row = 0 then row\<lparr>group_state := GroupRetired\<rparr> else row]"
    by (auto simp: ThreadGroupRelease_def Let_def split: option.splits if_splits)
  have d64: "d < 64" using resolve_group [OF d] by simp
  note ok = groups_invD [OF inv d64]
  show ?thesis
  proof (cases "group_owners (g ! d) = 1")
    case True
    with last have exiting: "group_state (g ! d) = GroupExiting" "member_count (g ! d) = 0" by auto
    with True ok d64 show ?thesis
      unfolding g' row_write_def
      by (intro disjI2 exI [of _ d]) (auto simp: group_ok_def array_wf_def members_of_def)
  next
    case more: False
    then have "group_owners (g ! d) - 1 \<noteq> 0" by simp
    with ok d64 act show ?thesis
      unfolding g' by (auto simp: Let_def group_ok_def array_wf_def members_of_def IsActive_def intro!: row_write_keep)
  qed
qed simp

lemma attach_eq:
  assumes inv: "groups_inv g" and d: "ResolveExactLocked g key = Some d"
  shows "ThreadGroupAuthorityAttachMember key m g =
    (if ThreadGroupMemberIdentityIsValid m \<and> group_state (g ! d) = GroupOpen \<and>
        card (set (members_of (g ! d))) < 64 \<and> m \<notin> set (members_of (g ! d))
     then (True, g[d := attached (g ! d) m]) else (False, g))"
proof -
  have d64: "d < 64" using resolve_group [OF d] by simp
  have ok: "group_ok (g ! d)" by (rule groups_invD [OF inv d64])
  then have wf: "array_wf (g ! d)" by (simp add: group_ok_def)
  have card: "card (set (members_of (g ! d))) = unat (member_count (g ! d))"
    using sorted_distinct [OF wf] by (simp add: distinct_card length_members_of [OF wf])
  show ?thesis
    using ok d member_found [OF wf, of m]
    by (auto simp: ThreadGroupAuthorityAttachMember_def Let_def attached_def card group_ok_def
        kThreadGroupMemberCapacity_def word_le_nat_alt word_less_nat_alt)
qed

lemma attach_write:
  assumes inv: "groups_inv g" and op: "ThreadGroupAuthorityAttachMember key m g = (r, g')"
  shows "row_write g g'"
proof (cases "ResolveExactLocked g key")
  case None
  with op show ?thesis by (auto simp: ThreadGroupAuthorityAttachMember_def split: if_splits)
next
  case (Some d)
  have d64: "d < 64" using resolve_group [OF Some] by simp
  have ok: "group_ok (g ! d)" by (rule groups_invD [OF inv d64])
  then have wf: "array_wf (g ! d)" by (simp add: group_ok_def)
  have card: "card (set (members_of (g ! d))) = unat (member_count (g ! d))"
    using sorted_distinct [OF wf] by (simp add: distinct_card length_members_of [OF wf])
  have "row_write g (g[d := attached (g ! d) m])"
    if "ThreadGroupMemberIdentityIsValid m" "group_state (g ! d) = GroupOpen" "unat (member_count (g ! d)) < 64"
      "m \<notin> set (members_of (g ! d))"
    using attached_wf [OF wf that(3,1,4)] ok d64 that(2)
    by (intro row_write_keep) (simp_all add: group_ok_def attached_def Let_def)
  with op show ?thesis
    unfolding attach_eq [OF inv Some] card by (auto split: if_splits)
qed

lemma detach_eq:
  assumes inv: "groups_inv g" and d: "ResolveExactLocked g key = Some d"
  shows "ThreadGroupAuthorityDetachMember key m g =
    (if \<not> ThreadGroupMemberIdentityIsValid m \<or> group_state (g ! d) = GroupRetired then (MutationRejected, g)
     else if m \<in> set (members_of (g ! d)) then (MutationApplied, g[d := detached (g ! d) m])
     else (MutationAlreadySatisfied, g))"
proof -
  have d64: "d < 64" using resolve_group [OF d] by simp
  have ok: "group_ok (g ! d)" by (rule groups_invD [OF inv d64])
  then have wf: "array_wf (g ! d)" by (simp add: group_ok_def)
  have act: "IsActive (g ! d) \<longleftrightarrow> group_state (g ! d) \<noteq> GroupRetired"
    using ok by (cases "group_state (g ! d)") (simp_all add: group_ok_def IsActive_def)
  have le: "unat (MemberLowerBound (g ! d) m) \<le> unat (member_count (g ! d))"
    by (rule member_lower_bound(1) [OF wf])
  have found: "\<not> (MemberLowerBound (g ! d) m = member_count (g ! d) \<or> members (g ! d) ! unat (MemberLowerBound (g ! d) m) \<noteq> m)
      \<longleftrightarrow> m \<in> set (members_of (g ! d))"
    using le member_found [OF wf, of m] by (auto simp: word_unat_eq_iff)
  show ?thesis
    using d act found
    by (simp add: ThreadGroupAuthorityDetachMember_def Let_def detached_def) blast
qed

lemma detach_write:
  assumes inv: "groups_inv g" and op: "ThreadGroupAuthorityDetachMember key m g = (r, g')"
  shows "row_write g g'"
proof (cases "ResolveExactLocked g key")
  case None
  with op show ?thesis by (auto simp: ThreadGroupAuthorityDetachMember_def split: if_splits)
next
  case (Some d)
  have d64: "d < 64" using resolve_group [OF Some] by simp
  have ok: "group_ok (g ! d)" by (rule groups_invD [OF inv d64])
  then have wf: "array_wf (g ! d)" by (simp add: group_ok_def)
  have "row_write g (g[d := detached (g ! d) m])"
    if "group_state (g ! d) \<noteq> GroupRetired" "m \<in> set (members_of (g ! d))"
    using detached_wf [OF wf that(2)] ok d64 that(1)
    by (intro row_write_keep) (simp_all add: group_ok_def detached_def Let_def)
  with op show ?thesis
    unfolding detach_eq [OF inv Some] by (auto split: if_splits)
qed

lemma begin_exit_write:
  assumes inv: "groups_inv g" and op: "ThreadGroupBeginExit key g = (r, g')"
  shows "row_write g g'"
proof (cases "g' = g")
  case False
  with op obtain d where d: "ResolveExactLocked g key = Some d" and act: "IsActive (g ! d)"
    and g': "g' = g[d := (g ! d)\<lparr>group_state := GroupExiting\<rparr>]"
    by (auto simp: ThreadGroupBeginExit_def Let_def split: option.splits if_splits)
  have d64: "d < 64" using resolve_group [OF d] by simp
  with groups_invD [OF inv d64] act show ?thesis
    unfolding g' by (intro row_write_keep) (auto simp: group_ok_def array_wf_def members_of_def IsActive_def)
qed simp

section \<open>Steps\<close>

inductive group_step :: "thread_groups \<Rightarrow> thread_groups \<Rightarrow> bool" where
  create: "ThreadGroupAuthorityCreate lead out g = (rc, g') \<Longrightarrow> group_step g g'"
| retain: "ThreadGroupRetain key g = (r, g') \<Longrightarrow> group_step g g'"
| release: "ThreadGroupRelease kp g = (rr, g') \<Longrightarrow> group_step g g'"
| attach: "ThreadGroupAuthorityAttachMember key m g = (r, g') \<Longrightarrow> group_step g g'"
| detach: "ThreadGroupAuthorityDetachMember key m g = (rd, g') \<Longrightarrow> group_step g g'"
| begin_exit: "ThreadGroupBeginExit key g = (rd, g') \<Longrightarrow> group_step g g'"

lemma group_step_write:
  assumes "group_step g g'" and "groups_inv g"
  shows "row_write g g'"
  using assms
  by induction (blast intro: create_write retain_write release_write attach_write detach_write begin_exit_write)+

lemma zero_groups_inv: "groups_inv zero_groups"
  by (simp add: groups_inv_def zero_groups_def zero_group_row_def group_ok_def array_wf_def members_of_def)

interpretation group_ts: transition_system "\<lambda>g. g = zero_groups" group_step groups_inv
  by unfold_locales (auto intro: zero_groups_inv row_write_inv group_step_write)

definition group_free :: "ThreadGroupRow \<Rightarrow> bool" where
  "group_free row \<longleftrightarrow> group_state row = GroupRetired"

definition group_row_step :: "ThreadGroupRow \<Rightarrow> ThreadGroupRow \<Rightarrow> bool" where
  "group_row_step r r' \<longleftrightarrow> (\<exists>g g' i. groups_inv g \<and> group_step g g' \<and> r = g ! i \<and> r' = g' ! i)"

lemma row_write_change:
  assumes "row_write g g'" and "length g = 64"
  shows "rows_change group_generation group_free g g'"
  using assms unfolding row_write_def rows_change_def group_free_def by auto

interpretation group_rows: generation_rows group_generation group_free group_row_step
proof
  show "group_generation r' = group_generation r \<and> (group_free r \<longrightarrow> group_free r') \<or>
      group_free r \<and> group_generation r < group_generation r'" if "group_row_step r r'" for r r'
    using that group_step_write row_write_change unfolding group_row_step_def groups_inv_def
    by (blast dest: rows_change_law)
qed

lemma group_row_run:
  assumes "group_step\<^sup>*\<^sup>* g g'" and "groups_inv g"
  shows "group_row_step\<^sup>*\<^sup>* (g ! i) (g' ! i)"
  using assms(1)
proof (induction rule: rtranclp_induct)
  case (step a b)
  then have "group_row_step (a ! i) (b ! i)"
    using group_ts.run_inv [OF step.hyps(1) assms(2)] by (auto simp: group_row_step_def)
  with step.IH show ?case by (rule rtranclp.rtrancl_into_rtrancl)
qed simp

lemma dead_group_refused:
  assumes "tg_key_generation key < group_generation (g ! unat (tg_slot key)) \<or>
      tg_key_generation key = group_generation (g ! unat (tg_slot key)) \<and> group_free (g ! unat (tg_slot key))"
  shows "ThreadGroupRetain key g = (False, g)" and "ThreadGroupRelease (Some key) g = ((False, Some key), g)"
    and "ThreadGroupAuthorityAttachMember key m g = (False, g)"
    and "ThreadGroupAuthorityDetachMember key m g = (MutationRejected, g)"
    and "ThreadGroupBeginExit key g = (MutationRejected, g)"
  using assms
  by (auto simp: ThreadGroupRetain_def ThreadGroupRelease_def ThreadGroupAuthorityAttachMember_def
      ThreadGroupAuthorityDetachMember_def ThreadGroupBeginExit_def ResolveExactLocked_def group_free_def IsActive_def Let_def)

section \<open>Properties\<close>

definition sample_group_key :: ThreadGroupKey where
  "sample_group_key = \<lparr>tg_slot = 0, tg_key_generation = 1\<rparr>"

definition sample_groups :: thread_groups where
  "sample_groups = snd (ThreadGroupAuthorityCreate \<lparr>opaque = 7\<rparr> (Some kInvalidThreadGroupKey) zero_groups)"

lemma sample_groups_run: "group_step\<^sup>*\<^sup>* zero_groups sample_groups"
  unfolding sample_groups_def by (rule r_into_rtranclp, rule group_step.create, rule surjective_pairing)

lemma sample_groups_resolve: "ResolveExactLocked sample_groups sample_group_key = Some 0"
  by code_simp

lemma sample_groups_row: "members_of (sample_groups ! 0) = [\<lparr>opaque = 7\<rparr>] \<and> group_state (sample_groups ! 0) = GroupOpen"
  by code_simp

text \<open>
  C12. Membership is a set. In every reachable state, an attach on a key that names a row is
  accepted exactly when the identity is valid and new, the group is open and has fewer than 64
  members, and then inserts it; a detach removes exactly that identity or reports that it was
  already absent. Binary search and shifting loops change nothing else: state, generation, owners
  and leader of the row and every other row stay as they are.
\<close>

theorem thread_group_member_set:
  assumes "group_step\<^sup>*\<^sup>* zero_groups g" and "ResolveExactLocked g key = Some d"
  defines "row \<equiv> g ! d"
  shows "\<exists>add del.
    ThreadGroupAuthorityAttachMember key m g =
      (if ThreadGroupMemberIdentityIsValid m \<and> group_state row = GroupOpen \<and> card (set (members_of row)) < 64 \<and>
          m \<notin> set (members_of row) then (True, g[d := add]) else (False, g)) \<and>
    ThreadGroupAuthorityDetachMember key m g =
      (if \<not> ThreadGroupMemberIdentityIsValid m \<or> group_state row = GroupRetired then (MutationRejected, g)
       else if m \<in> set (members_of row) then (MutationApplied, g[d := del]) else (MutationAlreadySatisfied, g)) \<and>
    (ThreadGroupMemberIdentityIsValid m \<and> card (set (members_of row)) < 64 \<and> m \<notin> set (members_of row) \<longrightarrow>
      set (members_of add) = insert m (set (members_of row))) \<and>
    (m \<in> set (members_of row) \<longrightarrow> set (members_of del) = set (members_of row) - {m}) \<and>
    add = row\<lparr>members := members add, member_count := member_count add\<rparr> \<and>
    del = row\<lparr>members := members del, member_count := member_count del\<rparr>"
proof (intro exI conjI)
  have inv: "groups_inv g"
    using group_ts.reachable_inv [OF refl assms(1)] .
  have "d < 64" using resolve_group [OF assms(2)] by simp
  from groups_invD [OF inv this] have wf: "array_wf row"
    by (simp add: group_ok_def row_def)
  have card: "card (set (members_of row)) = unat (member_count row)"
    using sorted_distinct [OF wf] by (simp add: distinct_card length_members_of [OF wf])
  show "ThreadGroupAuthorityAttachMember key m g =
      (if ThreadGroupMemberIdentityIsValid m \<and> group_state row = GroupOpen \<and> card (set (members_of row)) < 64 \<and>
          m \<notin> set (members_of row) then (True, g[d := attached row m]) else (False, g))"
    using attach_eq [OF inv assms(2)] by (simp add: row_def)
  show "ThreadGroupAuthorityDetachMember key m g =
      (if \<not> ThreadGroupMemberIdentityIsValid m \<or> group_state row = GroupRetired then (MutationRejected, g)
       else if m \<in> set (members_of row) then (MutationApplied, g[d := detached row m]) else (MutationAlreadySatisfied, g))"
    using detach_eq [OF inv assms(2)] by (simp add: row_def)
  show "ThreadGroupMemberIdentityIsValid m \<and> card (set (members_of row)) < 64 \<and> m \<notin> set (members_of row) \<longrightarrow>
      set (members_of (attached row m)) = insert m (set (members_of row))"
    using attached_wf [OF wf] card by simp
  show "m \<in> set (members_of row) \<longrightarrow> set (members_of (detached row m)) = set (members_of row) - {m}"
    using detached_wf [OF wf] by simp
qed (simp_all add: attached_def detached_def Let_def)

theorem thread_group_member_set_witness:
  "\<exists>add. ThreadGroupAuthorityAttachMember sample_group_key \<lparr>opaque = 3\<rparr> sample_groups = (True, sample_groups[0 := add]) \<and>
    set (members_of add) = {\<lparr>opaque = 3\<rparr>, \<lparr>opaque = 7\<rparr>}"
  using thread_group_member_set [OF sample_groups_run sample_groups_resolve, of "\<lparr>opaque = 3\<rparr>"] sample_groups_row
  by (auto simp: ThreadGroupMemberIdentityIsValid_def)

text \<open>
  C35. Rows stay well formed: in every reachable state each member array is strictly sorted
  without duplicates or the reserved zero identity, its unused tail is clear, and a row is
  retired exactly when it has no owners, in which case it has no members either.
\<close>

theorem thread_group_rows_well_formed:
  assumes "group_step\<^sup>*\<^sup>* zero_groups g" and "d < 64"
  defines "row \<equiv> g ! d"
  shows "sorted_wrt (\<lambda>a b. opaque a < opaque b) (members_of row) \<and> distinct (members_of row) \<and>
    length (members_of row) = unat (member_count row) \<and> unat (member_count row) \<le> 64 \<and>
    list_all ThreadGroupMemberIdentityIsValid (members_of row) \<and>
    list_all (\<lambda>m. m = kInvalidThreadGroupMemberIdentity) (drop (unat (member_count row)) (members row)) \<and>
    (group_state row = GroupRetired \<longleftrightarrow> group_owners row = 0) \<and>
    (group_state row = GroupRetired \<longrightarrow> member_count row = 0)"
proof -
  have ok: "group_ok row"
    using groups_invD [OF group_ts.reachable_inv [OF refl assms(1)] assms(2)] by (simp add: row_def)
  then have wf: "array_wf row"
    by (simp add: group_ok_def)
  then have "list_all (\<lambda>m. m = kInvalidThreadGroupMemberIdentity) (drop (unat (member_count row)) (members row))"
    by (auto simp: array_wf_def list_all_length)
  with ok wf sorted_distinct [OF wf] length_members_of [OF wf] show ?thesis
    by (auto simp: group_ok_def array_wf_def list_all_iff split: if_splits)
qed

theorem thread_group_rows_well_formed_witness:
  "distinct (members_of (sample_groups ! 0)) \<and> length (members_of (sample_groups ! 0)) = 1"
  using thread_group_rows_well_formed [OF sample_groups_run, of 0] sample_groups_row by simp

text \<open>
  C36. A group retires only when its last owner releases it while it is exiting and empty, and
  retirement is final for its key: from then on retain, release, attach, detach and begin-exit
  through that key are refused without effect, whatever happens to the slot.
\<close>

theorem thread_group_retirement_final:
  assumes "group_step\<^sup>*\<^sup>* zero_groups g" and "group_step g g1" and "group_step\<^sup>*\<^sup>* g1 g2" and "d < 64"
    and "group_state (g ! d) \<noteq> GroupRetired" and "group_state (g1 ! d) = GroupRetired"
  defines "key \<equiv> \<lparr>tg_slot = of_nat d, tg_key_generation = group_generation (g ! d)\<rparr>"
  shows "group_state (g ! d) = GroupExiting \<and> member_count (g ! d) = 0 \<and> group_owners (g ! d) = 1 \<and>
    ThreadGroupRetain key g2 = (False, g2) \<and> ThreadGroupRelease (Some key) g2 = ((False, Some key), g2) \<and>
    ThreadGroupAuthorityAttachMember key m g2 = (False, g2) \<and>
    ThreadGroupAuthorityDetachMember key m g2 = (MutationRejected, g2) \<and>
    ThreadGroupBeginExit key g2 = (MutationRejected, g2)"
proof -
  have inv: "groups_inv g" using group_ts.reachable_inv [OF refl assms(1)] .
  have inv1: "groups_inv g1" using group_ts.step_inv [OF inv assms(2)] .
  have len: "length g = 64" using inv by (simp add: groups_inv_def)
  have slot: "unat (tg_slot key) = d" using assms(4) by (simp add: key_def unat_of_nat_u32)
  from group_step_write [OF assms(2) inv] assms(4-6) len
  have last: "group_state (g ! d) = GroupExiting \<and> member_count (g ! d) = 0 \<and> group_owners (g ! d) = 1"
    and gen: "group_generation (g1 ! d) = group_generation (g ! d)"
    by (auto simp: row_write_def nth_list_update split: if_splits)
  have "tg_key_generation key = group_generation (g1 ! d) \<and> group_free (g1 ! d)"
    using gen assms(6) by (simp add: key_def group_free_def)
  then have "tg_key_generation key < group_generation (g2 ! unat (tg_slot key)) \<or>
      tg_key_generation key = group_generation (g2 ! unat (tg_slot key)) \<and> group_free (g2 ! unat (tg_slot key))"
    unfolding slot using group_rows.dead_run [OF group_row_run [OF assms(3) inv1, of d]] by blast
  from last dead_group_refused [OF this] show ?thesis by blast
qed


definition empty_groups :: thread_groups where
  "empty_groups = snd (ThreadGroupAuthorityDetachMember sample_group_key \<lparr>opaque = 7\<rparr>
     (snd (ThreadGroupBeginExit sample_group_key sample_groups)))"

definition retired_groups :: thread_groups where
  "retired_groups = snd (ThreadGroupRelease (Some sample_group_key) empty_groups)"

lemma empty_groups_run: "group_step\<^sup>*\<^sup>* zero_groups empty_groups"
proof -
  have "group_step sample_groups (snd (ThreadGroupBeginExit sample_group_key sample_groups))"
    by (rule group_step.begin_exit, rule surjective_pairing)
  moreover have "group_step (snd (ThreadGroupBeginExit sample_group_key sample_groups)) empty_groups"
    unfolding empty_groups_def by (rule group_step.detach, rule surjective_pairing)
  ultimately show ?thesis
    using sample_groups_run by (meson rtranclp.rtrancl_into_rtrancl)
qed

theorem thread_group_retirement_final_witness:
  "group_owners (empty_groups ! 0) = 1 \<and> ThreadGroupRetain sample_group_key retired_groups = (False, retired_groups)"
proof -
  have step: "group_step empty_groups retired_groups"
    unfolding retired_groups_def by (rule group_step.release, rule surjective_pairing)
  have "group_state (empty_groups ! 0) \<noteq> GroupRetired" "group_state (retired_groups ! 0) = GroupRetired"
    "\<lparr>tg_slot = of_nat 0, tg_key_generation = group_generation (empty_groups ! 0)\<rparr> = sample_group_key"
    by code_simp+
  with thread_group_retirement_final [OF empty_groups_run step rtranclp.rtrancl_refl, of 0] show ?thesis
    by simp
qed

end
