(* ===== verification/KObject.thy ===== *)
theory KObject
  imports Prelude
begin

text \<open>
  The reference-counted base of the kernel objects (\<^verbatim>\<open>kernel/ipc/kobject.h\<close>,
  \<^verbatim>\<open>kernel/ipc/kobject.cpp\<close>) with the two helpers of \<^verbatim>\<open>kernel/util/nospec.h\<close> that it and the
  handle tables use, and the boot self-test.

  The objects are the cells of a store, an address is an index of it and \<open>None\<close> is the null
  pointer. A call through \<^verbatim>\<open>KObject::destroy\<close> is recorded, in order, in the state: what the
  callback of a concrete type does is outside this file of the sources. \<^verbatim>\<open>Panic\<close> ends the
  execution and is an \<open>Inl\<close> result; \<^verbatim>\<open>DebugPanicOrWarn\<close> panics in a debug build and logs in
  a release one, so the build is a field of the state.
\<close>

section \<open>Saturating counters and masked indices\<close>

definition MaskedIndex32 :: "u32 \<Rightarrow> u32 \<Rightarrow> u32" where
  "MaskedIndex32 idx bound = (let mask = 0 - (if idx < bound then 1 else 0) in idx AND mask)"

definition RefcountIncSaturating :: "u32 \<Rightarrow> bool \<times> u32" where
  "RefcountIncSaturating count = (if count = 0xFFFFFFFF then (False, count) else (True, count + 1))"

lemma MaskedIndex32_eq: "MaskedIndex32 idx bound = (if idx < bound then idx else 0)"
proof -
  have "idx AND (0 - 1) = idx"
    by (simp add: word_and_max)
  then show ?thesis
    by (simp add: MaskedIndex32_def Let_def)
qed

section \<open>Objects\<close>

datatype KObjectType = KTypeInvalid | KTypeMutex | KTypeEvent | KTypeSemaphore | KTypeMailbox |
  KTypeWaitable | KTypeFile | KTypeIocp | KTypeMessagePort | KTypeServiceEndpoint | KTypeTest

primrec KObjectTypeTag :: "KObjectType \<Rightarrow> u32" where
  "KObjectTypeTag KTypeInvalid = 0"
| "KObjectTypeTag KTypeMutex = 1"
| "KObjectTypeTag KTypeEvent = 2"
| "KObjectTypeTag KTypeSemaphore = 3"
| "KObjectTypeTag KTypeMailbox = 4"
| "KObjectTypeTag KTypeWaitable = 5"
| "KObjectTypeTag KTypeFile = 6"
| "KObjectTypeTag KTypeIocp = 7"
| "KObjectTypeTag KTypeMessagePort = 8"
| "KObjectTypeTag KTypeServiceEndpoint = 9"
| "KObjectTypeTag KTypeTest = 0xFFFE"

primrec KObjectTypeName :: "KObjectType \<Rightarrow> string" where
  "KObjectTypeName KTypeInvalid = ''invalid''"
| "KObjectTypeName KTypeMutex = ''mutex''"
| "KObjectTypeName KTypeEvent = ''event''"
| "KObjectTypeName KTypeSemaphore = ''semaphore''"
| "KObjectTypeName KTypeMailbox = ''mailbox''"
| "KObjectTypeName KTypeWaitable = ''waitable''"
| "KObjectTypeName KTypeFile = ''file''"
| "KObjectTypeName KTypeIocp = ''iocp''"
| "KObjectTypeName KTypeMessagePort = ''message-port''"
| "KObjectTypeName KTypeServiceEndpoint = ''service-endpoint''"
| "KObjectTypeName KTypeTest = ''test''"

record KObject =
  ko_type :: KObjectType
  ko_refcount :: u32
  ko_destroy :: bool

type_synonym kaddr = nat

record kworld =
  kIsDebugBuild :: bool
  ko_objs :: "KObject list"
  ko_destroyed :: "kaddr list"
  ko_warnings :: "string list"

abbreviation obj_type :: "kworld \<Rightarrow> kaddr \<Rightarrow> KObjectType" where
  "obj_type w a \<equiv> ko_type (ko_objs w ! a)"

abbreviation refs :: "kworld \<Rightarrow> kaddr \<Rightarrow> u32" where
  "refs w a \<equiv> ko_refcount (ko_objs w ! a)"

definition set_refs :: "kaddr \<Rightarrow> u32 \<Rightarrow> kworld \<Rightarrow> kworld" where
  "set_refs a n w = w\<lparr>ko_objs := (ko_objs w)[a := (ko_objs w ! a)\<lparr>ko_refcount := n\<rparr>]\<rparr>"

definition DebugPanicOrWarn :: "string \<Rightarrow> kworld \<Rightarrow> string + kworld" where
  "DebugPanicOrWarn message w =
    (if kIsDebugBuild w then Inl message else Inr (w\<lparr>ko_warnings := ko_warnings w @ [message]\<rparr>))"

definition KObjectInit :: "kaddr option \<Rightarrow> KObjectType \<Rightarrow> bool \<Rightarrow> kworld \<Rightarrow> string + kworld" where
  "KObjectInit obj type destroy w =
    (case obj of
       None \<Rightarrow> DebugPanicOrWarn ''KObjectInit on null'' w
     | Some a \<Rightarrow>
        if type = KTypeInvalid then DebugPanicOrWarn ''KObjectInit with KObjectType::Invalid'' w
        else Inr (w\<lparr>ko_objs :=
          (ko_objs w)[a := (ko_objs w ! a)\<lparr>ko_type := type, ko_refcount := 1, ko_destroy := destroy\<rparr>]\<rparr>))"

definition KObjectAcquire :: "kaddr option \<Rightarrow> kworld \<Rightarrow> bool \<times> kworld" where
  "KObjectAcquire obj w =
    (case obj of
       None \<Rightarrow> (False, w)
     | Some a \<Rightarrow>
        if refs w a = 0 then (False, w)
        else (case RefcountIncSaturating (refs w a) of (ok, n) \<Rightarrow>
          if \<not> ok then (False, w) else (True, set_refs a n w)))"

definition valid_tag :: "KObjectType \<Rightarrow> bool" where
  "valid_tag type \<longleftrightarrow>
    KObjectTypeTag type \<ge> KObjectTypeTag KTypeMutex \<and> KObjectTypeTag type \<le> KObjectTypeTag KTypeServiceEndpoint \<or>
    KObjectTypeTag type = KObjectTypeTag KTypeTest"

definition KObjectRelease :: "kaddr option \<Rightarrow> kworld \<Rightarrow> string + kworld" where
  "KObjectRelease obj w =
    (case obj of
       None \<Rightarrow> Inr w
     | Some a \<Rightarrow>
        if refs w a = 0 then DebugPanicOrWarn ''KObjectRelease on dead object (double-free?)'' w
        else let w1 = set_refs a (refs w a - 1) w; reached_zero = (refs w1 a = 0)
          in if reached_zero \<and> ko_destroy (ko_objs w1 ! a)
             then if \<not> valid_tag (obj_type w1 a) then Inl ''destroy: type tag corrupted''
                  else Inr (w1\<lparr>ko_destroyed := ko_destroyed w1 @ [a]\<rparr>)
             else Inr w1)"

definition KObjectRefcount :: "kaddr option \<Rightarrow> kworld \<Rightarrow> u32" where
  "KObjectRefcount obj w = (case obj of None \<Rightarrow> 0 | Some a \<Rightarrow> refs w a)"

lemma valid_tag_iff: "valid_tag type \<longleftrightarrow> type \<noteq> KTypeInvalid"
  by (cases type) (simp_all add: valid_tag_def)

section \<open>The boot self-test\<close>

text \<open>
  A sequence of statements, each of which may panic. The two objects of the test are the cells 0
  and 1; \<^verbatim>\<open>SelfTestDestroy\<close> counts its calls, which are the entries of \<^const>\<open>ko_destroyed\<close>.
\<close>

fun run_stmts :: "(kworld \<Rightarrow> string + kworld) list \<Rightarrow> kworld \<Rightarrow> string + kworld" where
  "run_stmts [] w = Inr w"
| "run_stmts (f # fs) w = (case f w of Inl e \<Rightarrow> Inl e | Inr w' \<Rightarrow> run_stmts fs w')"

definition panic_if :: "(kworld \<Rightarrow> bool) \<Rightarrow> string \<Rightarrow> kworld \<Rightarrow> string + kworld" where
  "panic_if c what w = (if c w then Inl what else Inr w)"

definition acquire_or_panic :: "kaddr \<Rightarrow> string \<Rightarrow> kworld \<Rightarrow> string + kworld" where
  "acquire_or_panic a what w = (case KObjectAcquire (Some a) w of (ok, w') \<Rightarrow> if ok then Inr w' else Inl what)"

definition acquire_must_fail :: "kaddr \<Rightarrow> string \<Rightarrow> kworld \<Rightarrow> string + kworld" where
  "acquire_must_fail a what w = (case KObjectAcquire (Some a) w of (ok, w') \<Rightarrow> if ok then Inl what else Inr w')"

definition KObjectSelfTest :: "kworld \<Rightarrow> string + kworld" where
  "KObjectSelfTest w =
    (let baseline_destroyed = length (ko_destroyed w) in
     run_stmts
      [KObjectInit (Some 0) KTypeTest True,
       panic_if (\<lambda>w. obj_type w 0 \<noteq> KTypeTest \<or> refs w 0 \<noteq> 1) ''Init did not set type / refcount=1'',
       panic_if (\<lambda>w. KObjectRefcount (Some 0) w \<noteq> 1) ''Refcount accessor disagrees with init'',
       acquire_or_panic 0 ''Acquire unexpectedly failed on live object'',
       acquire_or_panic 0 ''Acquire unexpectedly failed on live object'',
       panic_if (\<lambda>w. KObjectRefcount (Some 0) w \<noteq> 3) ''Acquire count != 3 after Init + 2 Acquire'',
       KObjectRelease (Some 0),
       KObjectRelease (Some 0),
       panic_if (\<lambda>w. KObjectRefcount (Some 0) w \<noteq> 1) ''Refcount != 1 after two Releases'',
       panic_if (\<lambda>w. length (ko_destroyed w) \<noteq> baseline_destroyed) ''Destroy fired before refcount reached zero'',
       KObjectRelease (Some 0),
       panic_if (\<lambda>w. length (ko_destroyed w) \<noteq> baseline_destroyed + 1) ''Destroy did not fire on last release'',
       panic_if (\<lambda>w. count_list (drop baseline_destroyed (ko_destroyed w)) 0 \<noteq> 1) ''Destroy fired but counter wrong'',
       KObjectRelease None,
       acquire_must_fail 0 ''Acquire resurrected dead object'',
       KObjectInit (Some 1) KTypeTest False,
       (\<lambda>w. Inr (set_refs 1 0xFFFFFFFF w)),
       acquire_must_fail 1 ''Acquire wrapped saturated refcount'',
       panic_if (\<lambda>w. refs w 1 \<noteq> 0xFFFFFFFF) ''failed saturated Acquire mutated refcount'']
      w)"

section \<open>One object\<close>

lemma set_refs_frames [simp]:
  "length (ko_objs (set_refs a n w)) = length (ko_objs w)"
  "ko_destroyed (set_refs a n w) = ko_destroyed w"
  "ko_warnings (set_refs a n w) = ko_warnings w"
  "kIsDebugBuild (set_refs a n w) = kIsDebugBuild w"
  by (simp_all add: set_refs_def)

lemma set_refs_nth:
  "a < length (ko_objs w) \<Longrightarrow> b < length (ko_objs w) \<Longrightarrow>
    ko_objs (set_refs a n w) ! b = (if b = a then (ko_objs w ! b)\<lparr>ko_refcount := n\<rparr> else ko_objs w ! b)"
  by (simp add: set_refs_def nth_list_update)

lemma set_refs_type [simp]: "obj_type (set_refs a n w) b = obj_type w b"
  by (cases "a < length (ko_objs w)") (auto simp: set_refs_def nth_list_update list_update_beyond)

lemma set_refs_destroy [simp]: "ko_destroy (ko_objs (set_refs a n w) ! b) = ko_destroy (ko_objs w ! b)"
  by (cases "a < length (ko_objs w)") (auto simp: set_refs_def nth_list_update list_update_beyond)

lemma set_refs_refs:
  "a < length (ko_objs w) \<Longrightarrow> refs (set_refs a n w) b = (if b = a then n else refs w b)"
  by (simp add: set_refs_def nth_list_update)

lemma u32_succ_unat: "(x :: u32) \<noteq> 0xFFFFFFFF \<Longrightarrow> unat (x + 1) = unat x + 1"
proof -
  assume neq: "x \<noteq> 0xFFFFFFFF"
  have lt: "unat x < 2 ^ 32"
    using unsigned_less [of x, where ?'a = nat] by simp
  have "unat x \<noteq> unat (0xFFFFFFFF :: u32)"
    using neq by (simp only: word_unat_eq_iff [symmetric] not_False_eq_True)
  with lt have "unat x + 1 < 2 ^ 32"
    by simp
  then show "unat (x + 1) = unat x + 1"
    by (simp add: unat_word_ariths)
qed

lemma u32_pred_unat: "(x :: u32) \<noteq> 0 \<Longrightarrow> unat (x - 1) + 1 = unat x"
proof -
  assume "x \<noteq> 0"
  then have "1 \<le> unat x"
    by (simp add: word_neq_0_pos)
  moreover from this have "unat (x - 1) = unat x - 1"
    by (subst unat_sub_ge) (simp_all add: word_le_nat_alt)
  ultimately show "unat (x - 1) + 1 = unat x"
    by simp
qed

lemma KObjectAcquire_cases:
  assumes op: "KObjectAcquire (Some a) w = (ok, w')" and a: "a < length (ko_objs w)"
  obtains "\<not> ok" and "w' = w" and "refs w a = 0 \<or> refs w a = 0xFFFFFFFF"
  | "ok" and "w' = set_refs a (refs w a + 1) w" and "refs w a \<noteq> 0"
    and "unat (refs w' a) = unat (refs w a) + 1"
proof -
  consider "refs w a = 0" | "refs w a \<noteq> 0" "refs w a = 0xFFFFFFFF"
    | "refs w a \<noteq> 0" "refs w a \<noteq> 0xFFFFFFFF" by blast
  then show thesis
  proof cases
    case 1
    with op that(1) show ?thesis by (simp add: KObjectAcquire_def)
  next
    case 2
    with op that(1) show ?thesis by (simp add: KObjectAcquire_def RefcountIncSaturating_def)
  next
    case 3
    with op have "ok" "w' = set_refs a (refs w a + 1) w"
      by (simp_all add: KObjectAcquire_def RefcountIncSaturating_def)
    with 3 that(2) show ?thesis
      by (simp add: set_refs_refs a u32_succ_unat)
  qed
qed

lemma KObjectRelease_live:
  assumes "refs w a \<noteq> 0" and "a < length (ko_objs w)" and "obj_type w a \<noteq> KTypeInvalid"
  shows "KObjectRelease (Some a) w = Inr ((set_refs a (refs w a - 1) w)\<lparr>ko_destroyed :=
    ko_destroyed w @ (if refs w a = 1 \<and> ko_destroy (ko_objs w ! a) then [a] else [])\<rparr>)"
proof -
  have one: "refs w a - 1 = 0 \<longleftrightarrow> refs w a = 1"
    by simp
  show ?thesis
    using assms by (simp add: KObjectRelease_def Let_def set_refs_refs valid_tag_iff one)
qed

lemma KObjectRelease_dead:
  "refs w a = 0 \<Longrightarrow> KObjectRelease (Some a) w = DebugPanicOrWarn ''KObjectRelease on dead object (double-free?)'' w"
  by (simp add: KObjectRelease_def)

section \<open>Histories of calls\<close>

datatype kref_call = CallAcquire kaddr | CallRelease kaddr

primrec call_target :: "kref_call \<Rightarrow> kaddr" where
  "call_target (CallAcquire a) = a"
| "call_target (CallRelease a) = a"

primrec ref_call :: "kref_call \<Rightarrow> kworld \<Rightarrow> string + kworld" where
  "ref_call (CallAcquire a) w = Inr (snd (KObjectAcquire (Some a) w))"
| "ref_call (CallRelease a) w = KObjectRelease (Some a) w"

definition ref_calls :: "kref_call list \<Rightarrow> kworld \<Rightarrow> string + kworld" where
  "ref_calls cs = run_stmts (map ref_call cs)"

text \<open>Objects with a callback have been destroyed once when their count is zero, and not at all
  otherwise.\<close>

definition destroy_exact :: "kworld \<Rightarrow> bool" where
  "destroy_exact w \<longleftrightarrow> (\<forall>a\<in>set (ko_destroyed w). a < length (ko_objs w)) \<and>
     (\<forall>a<length (ko_objs w). obj_type w a \<noteq> KTypeInvalid \<and>
     count_list (ko_destroyed w) a = (if refs w a = 0 \<and> ko_destroy (ko_objs w ! a) then 1 else 0))"

lemma destroy_exactI:
  assumes "destroy_exact w" and "length (ko_objs w') = length (ko_objs w)"
    and "\<And>b. b < length (ko_objs w) \<Longrightarrow> obj_type w' b = obj_type w b \<and>
      ko_destroy (ko_objs w' ! b) = ko_destroy (ko_objs w ! b)"
    and "\<And>b. b < length (ko_objs w) \<Longrightarrow> b \<noteq> a \<Longrightarrow> refs w' b = refs w b \<and>
      count_list (ko_destroyed w') b = count_list (ko_destroyed w) b"
    and "count_list (ko_destroyed w') a = (if refs w' a = 0 \<and> ko_destroy (ko_objs w ! a) then 1 else 0)"
    and "set (ko_destroyed w') \<subseteq> insert a (set (ko_destroyed w))" and "a < length (ko_objs w)"
  shows "destroy_exact w'"
  unfolding destroy_exact_def
proof (intro conjI allI impI)
  show "\<forall>b\<in>set (ko_destroyed w'). b < length (ko_objs w')"
    using assms(1,2,6,7) by (auto simp: destroy_exact_def)
next
  fix b
  assume "b < length (ko_objs w')"
  with assms(2) have b: "b < length (ko_objs w)" by simp
  show "obj_type w' b \<noteq> KTypeInvalid"
    using assms(1) assms(3) [OF b] b by (simp add: destroy_exact_def)
  show "count_list (ko_destroyed w') b = (if refs w' b = 0 \<and> ko_destroy (ko_objs w' ! b) then 1 else 0)"
    using assms(1,5) assms(3,4) [OF b] b by (cases "b = a") (auto simp: destroy_exact_def)
qed

lemma acquire_destroy_exact:
  assumes inv: "destroy_exact w" and a: "a < length (ko_objs w)"
    and op: "KObjectAcquire (Some a) w = (ok, w')"
  shows "destroy_exact w'"
  using op a
proof (cases rule: KObjectAcquire_cases)
  case 1
  with inv show ?thesis by simp
next
  case 2
  have "refs w' a \<noteq> 0"
  proof
    assume "refs w' a = 0"
    with 2(4) show False by simp
  qed
  moreover have "count_list (ko_destroyed w) a = 0"
    using inv a 2(3) by (simp add: destroy_exact_def)
  ultimately show ?thesis
    using 2(2) a by (intro destroy_exactI [OF inv, where a = a]) (simp_all add: set_refs_refs subset_insertI)
qed

lemma release_destroy_exact:
  assumes inv: "destroy_exact w" and a: "a < length (ko_objs w)" and live: "refs w a \<noteq> 0"
    and op: "KObjectRelease (Some a) w = Inr w'"
  shows "destroy_exact w'"
proof -
  have ty: "obj_type w a \<noteq> KTypeInvalid" and cnt: "count_list (ko_destroyed w) a = 0"
    using inv a live by (simp_all add: destroy_exact_def)
  have w': "w' = (set_refs a (refs w a - 1) w)\<lparr>ko_destroyed :=
      ko_destroyed w @ (if refs w a = 1 \<and> ko_destroy (ko_objs w ! a) then [a] else [])\<rparr>"
    using op KObjectRelease_live [OF live a ty] by simp
  have one: "refs w a - 1 = 0 \<longleftrightarrow> refs w a = 1"
    by simp
  show ?thesis
    using a w' cnt one by (intro destroy_exactI [OF inv, where a = a]) (auto simp: set_refs_refs)
qed

lemma ref_call_step:
  assumes inv: "destroy_exact w" and a: "call_target c < length (ko_objs w)" and rel: "\<not> kIsDebugBuild w"
  obtains w' where "ref_call c w = Inr w'" and "destroy_exact w'" and "\<not> kIsDebugBuild w'"
    and "length (ko_objs w') = length (ko_objs w)"
    and "\<And>b. b < length (ko_objs w) \<Longrightarrow> refs w b = 0 \<Longrightarrow> refs w' b = 0"
proof (cases c)
  case (CallAcquire a)
  obtain ok w' where op: "KObjectAcquire (Some a) w = (ok, w')" by fastforce
  from a CallAcquire have a': "a < length (ko_objs w)" by simp
  from op a' show thesis
  proof (cases rule: KObjectAcquire_cases)
    case 1
    then show ?thesis
      using that [of w'] CallAcquire op inv rel by simp
  next
    case 2
    show ?thesis
    proof (rule that)
      show "ref_call c w = Inr w'" using CallAcquire op by simp
      show "destroy_exact w'" by (rule acquire_destroy_exact [OF inv a' op])
    qed (use 2 rel a' in \<open>auto simp: set_refs_refs\<close>)
  qed
next
  case (CallRelease a)
  from a CallRelease have a': "a < length (ko_objs w)" by simp
  show thesis
  proof (cases "refs w a = 0")
    case True
    define w' where "w' = w\<lparr>ko_warnings := ko_warnings w @ [''KObjectRelease on dead object (double-free?)'']\<rparr>"
    have "ref_call c w = Inr w'"
      using CallRelease True rel by (simp add: KObjectRelease_dead DebugPanicOrWarn_def w'_def)
    then show ?thesis
      using that [of w'] inv rel by (simp add: w'_def destroy_exact_def)
  next
    case False
    have ty: "obj_type w a \<noteq> KTypeInvalid"
      using inv a' by (simp add: destroy_exact_def)
    note live = KObjectRelease_live [OF False a' ty]
    show ?thesis
    proof (rule that [OF _ release_destroy_exact [OF inv a' False live]])
      show "ref_call c w = Inr ((set_refs a (refs w a - 1) w)\<lparr>ko_destroyed :=
        ko_destroyed w @ (if refs w a = 1 \<and> ko_destroy (ko_objs w ! a) then [a] else [])\<rparr>)"
        using CallRelease live by simp
    qed (use rel a' False in \<open>auto simp: set_refs_refs\<close>)
  qed
qed

lemma ref_calls_run:
  assumes "destroy_exact w" and "\<forall>c\<in>set cs. call_target c < length (ko_objs w)" and "\<not> kIsDebugBuild w"
  shows "\<exists>w'. ref_calls cs w = Inr w' \<and> destroy_exact w' \<and> length (ko_objs w') = length (ko_objs w) \<and>
    (\<forall>b<length (ko_objs w). refs w b = 0 \<longrightarrow> refs w' b = 0)"
  using assms
proof (induction cs arbitrary: w)
  case Nil
  then show ?case by (simp add: ref_calls_def)
next
  case (Cons c cs)
  obtain v where v: "ref_call c w = Inr v" "destroy_exact v" "\<not> kIsDebugBuild v"
    "length (ko_objs v) = length (ko_objs w)"
    "\<And>b. b < length (ko_objs w) \<Longrightarrow> refs w b = 0 \<Longrightarrow> refs v b = 0"
    using ref_call_step [OF Cons.prems(1) _ Cons.prems(3), of c] Cons.prems(2) by auto
  moreover have "\<forall>c\<in>set cs. call_target c < length (ko_objs v)"
    using Cons.prems(2) v(4) by simp
  ultimately show ?case
    using Cons.IH [OF v(2) _ v(3)] by (auto simp: ref_calls_def)
qed

text \<open>
  C37. Whatever sequence of \<^verbatim>\<open>KObjectAcquire\<close> and \<^verbatim>\<open>KObjectRelease\<close> calls is made on a store of
  initialized objects, double releases included, the release build never panics, the destroy
  callback of an object has run exactly once when its count is zero and never before, and a dead
  object is not revived.
\<close>

theorem kobject_destroyed_exactly_once:
  assumes "destroy_exact w" and "list_all (\<lambda>c. call_target c < length (ko_objs w)) cs" and "\<not> kIsDebugBuild w"
  shows "\<exists>w'. ref_calls cs w = Inr w' \<and>
    (\<forall>a<length (ko_objs w). count_list (ko_destroyed w') a \<le> 1 \<and>
      (ko_destroy (ko_objs w' ! a) \<longrightarrow> (count_list (ko_destroyed w') a = 1 \<longleftrightarrow> refs w' a = 0)) \<and>
      (refs w a = 0 \<longrightarrow> refs w' a = 0))"
proof -
  from assms(2) have "\<forall>c\<in>set cs. call_target c < length (ko_objs w)"
    by (simp add: list_all_iff)
  then obtain w' where "ref_calls cs w = Inr w'" "destroy_exact w'" "length (ko_objs w') = length (ko_objs w)"
    "\<forall>b<length (ko_objs w). refs w b = 0 \<longrightarrow> refs w' b = 0"
    using ref_calls_run [OF assms(1) _ assms(3)] by blast
  then show ?thesis
    by (auto simp: destroy_exact_def split: if_splits)
qed

definition demo_world :: "bool \<Rightarrow> kworld" where
  "demo_world debug = \<lparr>kIsDebugBuild = debug,
     ko_objs = [\<lparr>ko_type = KTypeTest, ko_refcount = 1, ko_destroy = True\<rparr>,
                \<lparr>ko_type = KTypeMutex, ko_refcount = 1, ko_destroy = False\<rparr>],
     ko_destroyed = [], ko_warnings = []\<rparr>"

theorem kobject_destroyed_exactly_once_witness:
  "\<exists>w'. ref_calls [CallAcquire 0, CallRelease 0, CallRelease 0, CallRelease 0, CallAcquire 0] (demo_world False) = Inr w' \<and>
    (\<forall>a<length (ko_objs (demo_world False)). count_list (ko_destroyed w') a \<le> 1 \<and>
      (ko_destroy (ko_objs w' ! a) \<longrightarrow> (count_list (ko_destroyed w') a = 1 \<longleftrightarrow> refs w' a = 0)) \<and>
      (refs (demo_world False) a = 0 \<longrightarrow> refs w' a = 0))"
proof (rule kobject_destroyed_exactly_once)
  show "destroy_exact (demo_world False)"
    by (simp add: destroy_exact_def demo_world_def All_less_Suc2 numeral_2_eq_2)
  show "list_all (\<lambda>c. call_target c < length (ko_objs (demo_world False)))
      [CallAcquire 0, CallRelease 0, CallRelease 0, CallRelease 0, CallAcquire 0]"
    by (simp add: demo_world_def)
  show "\<not> kIsDebugBuild (demo_world False)"
    by (simp add: demo_world_def)
qed

text \<open>
  The boot self-test passes in a debug and in a release build, with one destroy call and no
  diagnostic.
\<close>

theorem kobject_self_test_passes:
  "\<forall>debug. case KObjectSelfTest (demo_world debug) of
     Inl e \<Rightarrow> False
   | Inr w \<Rightarrow> ko_destroyed w = [0] \<and> ko_warnings w = []"
proof -
  have "case KObjectSelfTest (demo_world True) of
      Inl e \<Rightarrow> False | Inr w \<Rightarrow> ko_destroyed w = [0] \<and> ko_warnings w = []"
    by code_simp
  moreover have "case KObjectSelfTest (demo_world False) of
      Inl e \<Rightarrow> False | Inr w \<Rightarrow> ko_destroyed w = [0] \<and> ko_warnings w = []"
    by code_simp
  ultimately show ?thesis
    by (metis (full_types))
qed

end
