(* ===== verification/HandleTable.thy ===== *)
theory HandleTable
  imports KObject
begin

text \<open>
  The per-process handle table (\<^verbatim>\<open>kernel/ipc/handle_table.h\<close>, \<^verbatim>\<open>kernel/ipc/handle_table.cpp\<close>):
  handle encoding, rights, and every operation. An operation that takes \<^verbatim>\<open>table.lock\<close> several
  times is one definition per critical section; \<^verbatim>\<open>HandleTableSystem\<close> composes the sections and
  interleaves them. A \<^verbatim>\<open>KASSERT\<close> that fails is an \<open>Inl\<close> result of the section.
\<close>

section \<open>Error codes (\<^verbatim>\<open>util/result.h\<close>)\<close>

datatype ErrorCode = ErrOk | ErrOutOfMemory | ErrInvalidArgument | ErrNotFound | ErrAlreadyExists |
  ErrPermissionDenied | ErrTimeout | ErrUnsupported | ErrBadState | ErrIoError | ErrTruncated |
  ErrBufferTooSmall | ErrOverflow | ErrCorrupt | ErrNotReady | ErrBusy | ErrDeadlock | ErrNoDevice | ErrUnknown

section \<open>Handles\<close>

type_synonym Handle = u32

definition kHandleInvalid :: Handle where [kdefs]: "kHandleInvalid = 0"
definition kHandleSlotBits :: nat where [kdefs]: "kHandleSlotBits = 12"
definition kHandleSlotMask :: Handle where [kdefs]: "kHandleSlotMask = push_bit kHandleSlotBits 1 - 1"
definition kHandleGenerationBits :: nat where [kdefs]: "kHandleGenerationBits = 19"
definition kHandleGenerationMax :: u32 where [kdefs]: "kHandleGenerationMax = push_bit kHandleGenerationBits 1 - 1"
definition kHandlePositiveMax :: Handle where [kdefs]: "kHandlePositiveMax = 0x7FFFFFFF"
definition kHandleTableCapacity :: u32 where [kdefs]: "kHandleTableCapacity = 64"

definition HandleEncode :: "u32 \<Rightarrow> u32 \<Rightarrow> Handle" where
  "HandleEncode slot generation =
    (if slot > 0 \<and> slot < kHandleTableCapacity \<and> generation > 0 \<and> generation \<le> kHandleGenerationMax
     then push_bit kHandleSlotBits generation OR slot else kHandleInvalid)"

definition HandleDecode :: "Handle \<Rightarrow> (u32 \<times> u32) option" where
  "HandleDecode handle =
    (if handle = kHandleInvalid \<or> handle > kHandlePositiveMax then None
     else let slot = handle AND kHandleSlotMask; generation = drop_bit kHandleSlotBits handle
       in if slot = 0 \<or> slot \<ge> kHandleTableCapacity \<or> generation = 0 \<or> generation > kHandleGenerationMax then None
          else Some (slot, generation))"

definition HandleSlotIndex :: "Handle \<Rightarrow> u32" where
  "HandleSlotIndex handle = (case HandleDecode handle of Some (slot, _) \<Rightarrow> slot | None \<Rightarrow> 0)"

definition HandleEncodeTagged :: "Handle \<Rightarrow> u32 \<Rightarrow> u64 option" where
  "HandleEncodeTagged handle tag_base =
    (if tag_base > kHandleSlotMask \<or> tag_base + kHandleTableCapacity > 0x1000 then None
     else case HandleDecode handle of
       None \<Rightarrow> None
     | Some (slot, generation) \<Rightarrow> Some (ucast (push_bit kHandleSlotBits generation OR (tag_base + slot))))"

definition HandleDecodeTagged :: "u64 \<Rightarrow> u32 \<Rightarrow> Handle option" where
  "HandleDecodeTagged value tag_base =
    (if value = 0 \<or> value > ucast kHandlePositiveMax \<or> tag_base > kHandleSlotMask \<or>
        tag_base + kHandleTableCapacity > 0x1000 then None
     else let raw = (ucast value :: u32); low_tag = raw AND kHandleSlotMask;
              generation = drop_bit kHandleSlotBits raw
       in if low_tag \<le> tag_base \<or> low_tag \<ge> tag_base + kHandleTableCapacity \<or> generation = 0 then None
          else let decoded = HandleEncode (low_tag - tag_base) generation
            in if decoded = kHandleInvalid then None else Some decoded)"

section \<open>Rights\<close>

definition kHandleRightRead :: u64 where [kdefs]: "kHandleRightRead = push_bit 0 1"
definition kHandleRightWrite :: u64 where [kdefs]: "kHandleRightWrite = push_bit 1 1"
definition kHandleRightDuplicate :: u64 where [kdefs]: "kHandleRightDuplicate = push_bit 2 1"
definition kHandleRightTransfer :: u64 where [kdefs]: "kHandleRightTransfer = push_bit 3 1"
definition kHandleRightWait :: u64 where [kdefs]: "kHandleRightWait = push_bit 4 1"
definition kHandleRightSignal :: u64 where [kdefs]: "kHandleRightSignal = push_bit 5 1"
definition kHandleRightDestroy :: u64 where [kdefs]: "kHandleRightDestroy = push_bit 6 1"
definition kHandleRightInspect :: u64 where [kdefs]: "kHandleRightInspect = push_bit 7 1"

definition kHandleRightAll :: u64 where
  [kdefs]: "kHandleRightAll = kHandleRightRead OR kHandleRightWrite OR kHandleRightDuplicate OR
    kHandleRightTransfer OR kHandleRightWait OR kHandleRightSignal OR kHandleRightDestroy OR kHandleRightInspect"

definition TypeAllowedRights :: "KObjectType \<Rightarrow> u64" where
  "TypeAllowedRights type =
    (let kCommon = kHandleRightDuplicate OR kHandleRightTransfer OR kHandleRightDestroy OR kHandleRightInspect;
         kEndpointCommon = kHandleRightDestroy OR kHandleRightInspect
     in case type of
       KTypeMutex \<Rightarrow> kCommon OR kHandleRightWait OR kHandleRightSignal
     | KTypeEvent \<Rightarrow> kCommon OR kHandleRightWait OR kHandleRightSignal
     | KTypeSemaphore \<Rightarrow> kCommon OR kHandleRightWait OR kHandleRightSignal
     | KTypeMailbox \<Rightarrow> kCommon OR kHandleRightRead OR kHandleRightWrite OR kHandleRightWait
     | KTypeMessagePort \<Rightarrow> kCommon OR kHandleRightRead OR kHandleRightWrite OR kHandleRightWait
     | KTypeServiceEndpoint \<Rightarrow> kEndpointCommon OR kHandleRightRead OR kHandleRightWrite OR kHandleRightWait
     | KTypeWaitable \<Rightarrow> kCommon OR kHandleRightWait
     | KTypeFile \<Rightarrow> kCommon OR kHandleRightRead OR kHandleRightWrite
     | KTypeIocp \<Rightarrow> kCommon OR kHandleRightRead OR kHandleRightWrite OR kHandleRightWait
     | KTypeTest \<Rightarrow> kHandleRightAll
     | KTypeInvalid \<Rightarrow> 0)"

text \<open>The capabilities of a process (\<^verbatim>\<open>proc/process.h\<close>) that bound the rights of a new handle.\<close>

definition kCapNone :: u32 where [kdefs]: "kCapNone = 0"
definition kCapFsRead :: u32 where [kdefs]: "kCapFsRead = 2"
definition kCapDebug :: u32 where [kdefs]: "kCapDebug = 3"
definition kCapFsWrite :: u32 where [kdefs]: "kCapFsWrite = 4"
definition kCapSpawnThread :: u32 where [kdefs]: "kCapSpawnThread = 5"
definition kCapCount :: u32 where [kdefs]: "kCapCount = 13"

definition CapSetHas :: "u64 \<Rightarrow> u32 \<Rightarrow> bool" where
  "CapSetHas bits c = (if c = kCapNone \<or> c \<ge> kCapCount then False else bits AND push_bit (unat c) 1 \<noteq> 0)"

definition add_right :: "bool \<Rightarrow> u64 \<Rightarrow> u64 \<Rightarrow> u64" where
  "add_right c r rights = (if c then rights OR r else rights)"

definition HandleRightsForProcess :: "KObjectType \<Rightarrow> u64 \<Rightarrow> u64" where
  "HandleRightsForProcess type caps =
    (if type = KTypeInvalid then 0
     else let
       rights = kHandleRightDestroy;
       rights = add_right (type \<noteq> KTypeServiceEndpoint) (kHandleRightDuplicate OR kHandleRightTransfer) rights;
       rights = add_right (CapSetHas caps kCapDebug) kHandleRightInspect rights;
       sync = add_right (CapSetHas caps kCapSpawnThread) kHandleRightSignal (rights OR kHandleRightWait);
       port = rights OR (kHandleRightRead OR kHandleRightWrite OR kHandleRightWait);
       file = add_right (CapSetHas caps kCapFsWrite) kHandleRightWrite
         (add_right (CapSetHas caps kCapFsRead) kHandleRightRead rights);
       rights = (case type of
           KTypeFile \<Rightarrow> file
         | KTypeMutex \<Rightarrow> sync | KTypeEvent \<Rightarrow> sync | KTypeSemaphore \<Rightarrow> sync
         | KTypeMailbox \<Rightarrow> port | KTypeMessagePort \<Rightarrow> port | KTypeServiceEndpoint \<Rightarrow> port
         | KTypeWaitable \<Rightarrow> rights OR kHandleRightWait
         | KTypeIocp \<Rightarrow> add_right (CapSetHas caps kCapSpawnThread) kHandleRightWrite
             (rights OR (kHandleRightRead OR kHandleRightWait))
         | KTypeTest \<Rightarrow> add_right (CapSetHas caps kCapSpawnThread) kHandleRightSignal (file OR kHandleRightWait)
         | KTypeInvalid \<Rightarrow> 0)
       in rights AND TypeAllowedRights type)"

section \<open>The table\<close>

datatype HandleSlotState = SlotFree | SlotLive | SlotClosing | SlotRetired | SlotReserved
datatype HandleTableState = TableOpen | TableDraining | TableClosed

record HandleSlot =
  hs_obj :: "kaddr option"
  hs_rights :: u64
  hs_reservation_nonce :: u64
  hs_generation :: u32
  hs_acquisition_pins :: u32
  hs_reserved_type :: KObjectType
  hs_state :: HandleSlotState

record HandleTable =
  ht_slots :: "HandleSlot list"
  ht_next_free_hint :: u32
  ht_active_operations :: u32
  ht_state :: HandleTableState

record HandleTableReservation =
  rsv_handle :: Handle
  rsv_nonce :: u64

definition kInvalidHandleTableReservation :: HandleTableReservation where
  "kInvalidHandleTableReservation = \<lparr>rsv_handle = kHandleInvalid, rsv_nonce = 0\<rparr>"

definition HandleTableReservationIsValid :: "HandleTableReservation \<Rightarrow> bool" where
  "HandleTableReservationIsValid r \<longleftrightarrow> rsv_handle r \<noteq> kHandleInvalid \<and> rsv_nonce r \<noteq> 0"

definition zero_handle_slot :: HandleSlot where
  "zero_handle_slot = \<lparr>hs_obj = None, hs_rights = 0, hs_reservation_nonce = 0, hs_generation = 0,
     hs_acquisition_pins = 0, hs_reserved_type = KTypeInvalid, hs_state = SlotFree\<rparr>"

definition zero_handle_table :: HandleTable where
  "zero_handle_table = \<lparr>ht_slots = replicate (unat kHandleTableCapacity) zero_handle_slot,
     ht_next_free_hint = 0, ht_active_operations = 0, ht_state = TableOpen\<rparr>"

record DecodedHandle =
  dec_slot :: u32
  dec_generation :: u32

abbreviation slot_at :: "HandleTable \<Rightarrow> u32 \<Rightarrow> HandleSlot" where
  "slot_at table i \<equiv> ht_slots table ! unat i"

definition set_slot :: "u32 \<Rightarrow> HandleSlot \<Rightarrow> HandleTable \<Rightarrow> HandleTable" where
  "set_slot i slot table = table\<lparr>ht_slots := (ht_slots table)[unat i := slot]\<rparr>"

text \<open>\<open>Inl\<close> is the failed \<^verbatim>\<open>KASSERT\<close>.\<close>

definition DecodeHandleNospec :: "Handle \<Rightarrow> string + DecodedHandle option" where
  "DecodeHandleNospec handle =
    (case HandleDecode handle of
       None \<Rightarrow> Inr None
     | Some (slot, generation) \<Rightarrow>
        let masked_slot = MaskedIndex32 slot kHandleTableCapacity
        in if \<not> masked_slot < kHandleTableCapacity then Inl ''masked slot oob''
           else if masked_slot \<noteq> slot then Inr None
           else Inr (Some \<lparr>dec_slot = masked_slot, dec_generation = generation\<rparr>))"

definition SlotMatches :: "HandleSlot \<Rightarrow> u32 \<Rightarrow> bool" where
  "SlotMatches slot generation \<longleftrightarrow>
    hs_state slot = SlotLive \<and> hs_obj slot \<noteq> None \<and> hs_generation slot = generation \<and>
    hs_reservation_nonce slot = 0 \<and> hs_reserved_type slot = KTypeInvalid"

definition ClosedStateFor :: "HandleSlot \<Rightarrow> HandleSlotState" where
  "ClosedStateFor slot = (if hs_generation slot = kHandleGenerationMax then SlotRetired else SlotFree)"

definition MintHandleReservationNonce :: "u64 \<Rightarrow> u64 \<times> u64" where
  "MintHandleReservationNonce last_nonce =
    (if last_nonce = kU64Max then (0, last_nonce) else (last_nonce + 1, last_nonce + 1))"

definition ReservationMatches :: "HandleSlot \<Rightarrow> DecodedHandle \<Rightarrow> HandleTableReservation \<Rightarrow> bool" where
  "ReservationMatches slot decoded reservation \<longleftrightarrow>
    hs_state slot = SlotReserved \<and> hs_obj slot = None \<and> hs_generation slot = dec_generation decoded \<and>
    hs_reservation_nonce slot = rsv_nonce reservation \<and> hs_reserved_type slot \<noteq> KTypeInvalid \<and> hs_rights slot \<noteq> 0"

text \<open>The test \<^verbatim>\<open>(requested & ~allowed) != 0\<close>.\<close>

definition exceeds :: "u64 \<Rightarrow> u64 \<Rightarrow> bool" where
  "exceeds requested allowed \<longleftrightarrow> requested AND NOT allowed \<noteq> 0"

definition with_decoded ::
    "Handle \<Rightarrow> (DecodedHandle \<Rightarrow> string + (ErrorCode + 'r) \<times> 's) \<Rightarrow> 's \<Rightarrow> string + (ErrorCode + 'r) \<times> 's" where
  "with_decoded handle f s =
    (case DecodeHandleNospec handle of
       Inl e \<Rightarrow> Inl e
     | Inr None \<Rightarrow> Inr (Inl ErrInvalidArgument, s)
     | Inr (Some decoded) \<Rightarrow> f decoded)"

section \<open>Retained lookup\<close>

text \<open>\<^verbatim>\<open>RetainSnapshot\<close> pins the row under the lock, retains the object without it, and takes the
  lock again to remove the pin.\<close>

definition RetainSnapshot_pin ::
    "kworld \<Rightarrow> Handle \<Rightarrow> KObjectType \<Rightarrow> u64 \<Rightarrow> HandleTable \<Rightarrow>
      string + (ErrorCode + DecodedHandle \<times> kaddr \<times> u64) \<times> HandleTable" where
  "RetainSnapshot_pin w handle expected_type required_rights table =
    with_decoded handle (\<lambda>decoded.
      if exceeds required_rights kHandleRightAll then Inr (Inl ErrInvalidArgument, table)
      else if ht_state table \<noteq> TableOpen then Inr (Inl ErrBadState, table)
      else let slot = slot_at table (dec_slot decoded) in
        if \<not> SlotMatches slot (dec_generation decoded) then Inr (Inl ErrInvalidArgument, table)
        else let obj = the (hs_obj slot) in
          if expected_type \<noteq> KTypeInvalid \<and> obj_type w obj \<noteq> expected_type then Inr (Inl ErrInvalidArgument, table)
          else if hs_rights slot AND required_rights \<noteq> required_rights then Inr (Inl ErrPermissionDenied, table)
          else if hs_acquisition_pins slot = 0xFFFFFFFF \<or> ht_active_operations table = 0xFFFFFFFF
            then Inr (Inl ErrOverflow, table)
          else Inr (Inr (decoded, obj, hs_rights slot),
            (set_slot (dec_slot decoded) (slot\<lparr>hs_acquisition_pins := hs_acquisition_pins slot + 1\<rparr>) table)
              \<lparr>ht_active_operations := ht_active_operations table + 1\<rparr>)) table"

definition RetainSnapshot_unpin :: "DecodedHandle \<Rightarrow> kaddr \<Rightarrow> HandleTable \<Rightarrow> string + HandleTable" where
  "RetainSnapshot_unpin decoded obj table =
    (let slot = slot_at table (dec_slot decoded) in
     if hs_obj slot \<noteq> Some obj then Inl ''pinned slot object changed''
     else if \<not> hs_acquisition_pins slot > 0 then Inl ''lookup pin underflow''
     else if \<not> ht_active_operations table > 0 then Inl ''active operation underflow''
     else Inr ((set_slot (dec_slot decoded) (slot\<lparr>hs_acquisition_pins := hs_acquisition_pins slot - 1\<rparr>) table)
       \<lparr>ht_active_operations := ht_active_operations table - 1\<rparr>))"

section \<open>Allocation\<close>

definition free_slot_clear :: "HandleSlot \<Rightarrow> bool" where
  "free_slot_clear slot \<longleftrightarrow> hs_obj slot = None \<and> hs_rights slot = 0 \<and> hs_reservation_nonce slot = 0 \<and>
     hs_acquisition_pins slot = 0 \<and> hs_reserved_type slot = KTypeInvalid"

text \<open>The scan shared by \<^verbatim>\<open>HandleTableInsert\<close> and \<^verbatim>\<open>HandleTableReserve\<close>: the first free row from
  \<open>start\<close> on, round the table; a free row on its terminal generation is retired on the way.\<close>

definition scan_index :: "u32 \<Rightarrow> u32 \<Rightarrow> u32" where
  "scan_index start step =
    (let index = start + step in if index \<ge> kHandleTableCapacity then index - kHandleTableCapacity else index)"

fun scan_free :: "string \<Rightarrow> u32 \<Rightarrow> u32 list \<Rightarrow> HandleTable \<Rightarrow> string + u32 option \<times> HandleTable" where
  "scan_free what start [] table = Inr (None, table)"
| "scan_free what start (step # steps) table =
    (let index = scan_index start step in
     if index = 0 then scan_free what start steps table
     else let slot = slot_at table index in
       if hs_state slot \<noteq> SlotFree then scan_free what start steps table
       else if \<not> free_slot_clear slot then Inl what
       else if hs_generation slot = kHandleGenerationMax
         then scan_free what start steps (set_slot index (slot\<lparr>hs_state := SlotRetired\<rparr>) table)
       else Inr (Some index, table))"

definition scan_steps :: "u32 list" where
  "scan_steps = map of_nat [0..<unat kHandleTableCapacity]"

definition scan_start :: "HandleTable \<Rightarrow> u32" where
  "scan_start table = (ht_next_free_hint table + 1) mod kHandleTableCapacity"

definition HandleTableInsert ::
    "kworld \<Rightarrow> kaddr option \<Rightarrow> u64 \<Rightarrow> HandleTable \<Rightarrow> string + (ErrorCode + Handle) \<times> HandleTable" where
  "HandleTableInsert w obj requested_rights table =
    (if obj = None \<or> obj_type w (the obj) = KTypeInvalid \<or> requested_rights = 0 \<or> exceeds requested_rights kHandleRightAll
       then Inr (Inl ErrInvalidArgument, table)
     else if exceeds requested_rights (TypeAllowedRights (obj_type w (the obj)))
       then Inr (Inl ErrPermissionDenied, table)
     else if KObjectRefcount obj w = 0 then Inr (Inl ErrBadState, table)
     else if ht_state table \<noteq> TableOpen then Inr (Inl ErrBadState, table)
     else if ht_next_free_hint table \<ge> kHandleTableCapacity then Inr (Inl ErrBadState, table)
     else case scan_free ''free slot retained live metadata'' (scan_start table) scan_steps table of
         Inl e \<Rightarrow> Inl e
       | Inr (None, table') \<Rightarrow> Inr (Inl ErrOutOfMemory, table')
       | Inr (Some index, table') \<Rightarrow>
          let slot = slot_at table' index; generation = hs_generation slot + 1;
              handle = HandleEncode index generation
          in if handle = kHandleInvalid then Inl ''failed to encode allocated slot''
             else Inr (Inr handle, (set_slot index (slot\<lparr>hs_generation := generation, hs_obj := obj,
               hs_rights := requested_rights, hs_reservation_nonce := 0, hs_reserved_type := KTypeInvalid,
               hs_state := SlotLive\<rparr>) table')\<lparr>ht_next_free_hint := index\<rparr>))"

section \<open>Reservations\<close>

definition HandleTableReserve ::
    "KObjectType \<Rightarrow> u64 \<Rightarrow> HandleTable \<times> u64 \<Rightarrow> string + (ErrorCode + HandleTableReservation) \<times> HandleTable \<times> u64" where
  "HandleTableReserve object_type requested_rights = (\<lambda>(table, last_nonce).
    if object_type = KTypeInvalid \<or> requested_rights = 0 \<or> exceeds requested_rights kHandleRightAll
      then Inr (Inl ErrInvalidArgument, table, last_nonce)
    else if exceeds requested_rights (TypeAllowedRights object_type)
      then Inr (Inl ErrPermissionDenied, table, last_nonce)
    else if ht_state table \<noteq> TableOpen then Inr (Inl ErrBadState, table, last_nonce)
    else if ht_next_free_hint table \<ge> kHandleTableCapacity then Inr (Inl ErrBadState, table, last_nonce)
    else case scan_free ''free slot retained reservation metadata'' (scan_start table) scan_steps table of
        Inl e \<Rightarrow> Inl e
      | Inr (None, table') \<Rightarrow> Inr (Inl ErrOutOfMemory, table', last_nonce)
      | Inr (Some index, table') \<Rightarrow>
         (case MintHandleReservationNonce last_nonce of (nonce, last_nonce') \<Rightarrow>
          if nonce = 0 then Inr (Inl ErrOverflow, table', last_nonce')
          else let slot = slot_at table' index; generation = hs_generation slot + 1;
                   handle = HandleEncode index generation
            in if handle = kHandleInvalid then Inl ''failed to encode reserved slot''
               else Inr (Inr \<lparr>rsv_handle = handle, rsv_nonce = nonce\<rparr>,
                 (set_slot index (slot\<lparr>hs_generation := generation, hs_rights := requested_rights,
                   hs_reservation_nonce := nonce, hs_reserved_type := object_type,
                   hs_state := SlotReserved\<rparr>) table')\<lparr>ht_next_free_hint := index\<rparr>, last_nonce')))"

definition HandleTablePublish ::
    "kworld \<Rightarrow> HandleTableReservation \<Rightarrow> kaddr option \<Rightarrow> HandleTable \<Rightarrow> string + (ErrorCode + Handle) \<times> HandleTable" where
  "HandleTablePublish w reservation obj table =
    (if \<not> HandleTableReservationIsValid reservation then Inr (Inl ErrInvalidArgument, table)
     else with_decoded (rsv_handle reservation) (\<lambda>decoded.
       if obj = None \<or> obj_type w (the obj) = KTypeInvalid then Inr (Inl ErrInvalidArgument, table)
       else if KObjectRefcount obj w = 0 then Inr (Inl ErrBadState, table)
       else if ht_state table \<noteq> TableOpen then Inr (Inl ErrBadState, table)
       else let slot = slot_at table (dec_slot decoded) in
         if \<not> ReservationMatches slot decoded reservation then Inr (Inl ErrInvalidArgument, table)
         else if hs_reserved_type slot \<noteq> obj_type w (the obj) then Inr (Inl ErrInvalidArgument, table)
         else if exceeds (hs_rights slot) (TypeAllowedRights (obj_type w (the obj)))
           then Inr (Inl ErrPermissionDenied, table)
         else Inr (Inr (rsv_handle reservation),
           set_slot (dec_slot decoded) (slot\<lparr>hs_obj := obj, hs_reservation_nonce := 0,
             hs_reserved_type := KTypeInvalid, hs_state := SlotLive\<rparr>) table)) table)"

definition HandleTableAbort ::
    "HandleTableReservation \<Rightarrow> HandleTable \<Rightarrow> string + (ErrorCode + unit) \<times> HandleTable" where
  "HandleTableAbort reservation table =
    (if \<not> HandleTableReservationIsValid reservation then Inr (Inl ErrInvalidArgument, table)
     else with_decoded (rsv_handle reservation) (\<lambda>decoded.
       if ht_state table \<noteq> TableOpen then Inr (Inl ErrBadState, table)
       else let slot = slot_at table (dec_slot decoded) in
         if \<not> ReservationMatches slot decoded reservation then Inr (Inl ErrInvalidArgument, table)
         else Inr (Inr (), set_slot (dec_slot decoded) (slot\<lparr>hs_rights := 0, hs_reservation_nonce := 0,
           hs_reserved_type := KTypeInvalid, hs_state := ClosedStateFor slot\<rparr>) table)) table)"

section \<open>Queries\<close>

definition HandleTableRights :: "Handle \<Rightarrow> HandleTable \<Rightarrow> string + u64" where
  "HandleTableRights h table =
    (case DecodeHandleNospec h of
       Inl e \<Rightarrow> Inl e
     | Inr None \<Rightarrow> Inr 0
     | Inr (Some decoded) \<Rightarrow>
        if ht_state table \<noteq> TableOpen then Inr 0
        else let slot = slot_at table (dec_slot decoded)
          in Inr (if SlotMatches slot (dec_generation decoded) then hs_rights slot else 0))"

definition HandleCheckRight :: "Handle \<Rightarrow> u64 \<Rightarrow> HandleTable \<Rightarrow> string + bool" where
  "HandleCheckRight h required_rights table =
    (if required_rights = 0 \<or> exceeds required_rights kHandleRightAll then Inr False
     else case DecodeHandleNospec h of
       Inl e \<Rightarrow> Inl e
     | Inr None \<Rightarrow> Inr False
     | Inr (Some decoded) \<Rightarrow>
        if ht_state table \<noteq> TableOpen then Inr False
        else let slot = slot_at table (dec_slot decoded)
          in Inr (SlotMatches slot (dec_generation decoded) \<and> hs_rights slot AND required_rights = required_rights))"

definition HandleTableLiveCount :: "HandleTable \<Rightarrow> u32" where
  "HandleTableLiveCount table =
    foldl (\<lambda>count i. if hs_state (ht_slots table ! i) = SlotLive then count + 1 else count) 0
      [1..<unat kHandleTableCapacity]"

record HandleSnapshotEntry =
  hse_handle :: Handle
  hse_type :: KObjectType
  hse_rights :: u64

text \<open>\<open>out\<close> is the caller's array, or \<open>None\<close> for the null pointer; the caller provides
  \<open>capacity\<close> entries.\<close>

definition snapshot_row ::
    "kworld \<Rightarrow> HandleTable \<Rightarrow> u32 \<Rightarrow> u32 \<times> HandleSnapshotEntry list option \<Rightarrow> nat \<Rightarrow>
      u32 \<times> HandleSnapshotEntry list option" where
  "snapshot_row w table capacity = (\<lambda>(total, out) i.
    let slot = ht_slots table ! i in
    if hs_state slot \<noteq> SlotLive \<or> hs_obj slot = None then (total, out)
    else (total + 1,
      case out of
        None \<Rightarrow> None
      | Some entries \<Rightarrow> Some (if total < capacity
          then entries[unat total := \<lparr>hse_handle = HandleEncode (of_nat i) (hs_generation slot),
            hse_type = obj_type w (the (hs_obj slot)), hse_rights = hs_rights slot\<rparr>]
          else entries)))"

definition HandleTableSnapshot ::
    "kworld \<Rightarrow> HandleSnapshotEntry list option \<Rightarrow> u32 \<Rightarrow> HandleTable \<Rightarrow> u32 \<times> HandleSnapshotEntry list option" where
  "HandleTableSnapshot w out capacity table =
    foldl (snapshot_row w table capacity) (0, out) [1..<unat kHandleTableCapacity]"

section \<open>Close\<close>

text \<open>\<^verbatim>\<open>HandleTableDetach\<close>: the first section makes the row \<^verbatim>\<open>Closing\<close>; the second is repeated until
  the pins of the row are gone (\<open>None\<close>: still pinned).\<close>

definition HandleTableDetach_begin ::
    "kworld \<Rightarrow> Handle \<Rightarrow> KObjectType \<Rightarrow> u64 \<Rightarrow> HandleTable \<Rightarrow> string + (ErrorCode + DecodedHandle) \<times> HandleTable" where
  "HandleTableDetach_begin w h expected_type required_rights table =
    with_decoded h (\<lambda>decoded.
      if exceeds required_rights kHandleRightAll then Inr (Inl ErrInvalidArgument, table)
      else if ht_state table \<noteq> TableOpen then Inr (Inl ErrBadState, table)
      else let slot = slot_at table (dec_slot decoded) in
        if \<not> SlotMatches slot (dec_generation decoded) then Inr (Inl ErrInvalidArgument, table)
        else if expected_type \<noteq> KTypeInvalid \<and> obj_type w (the (hs_obj slot)) \<noteq> expected_type
          then Inr (Inl ErrInvalidArgument, table)
        else if hs_rights slot AND required_rights \<noteq> required_rights then Inr (Inl ErrPermissionDenied, table)
        else if ht_active_operations table = 0xFFFFFFFF then Inr (Inl ErrOverflow, table)
        else Inr (Inr decoded, (set_slot (dec_slot decoded) (slot\<lparr>hs_state := SlotClosing\<rparr>) table)
          \<lparr>ht_active_operations := ht_active_operations table + 1\<rparr>)) table"

definition HandleTableDetach_try :: "DecodedHandle \<Rightarrow> HandleTable \<Rightarrow> string + kaddr option \<times> HandleTable" where
  "HandleTableDetach_try decoded table =
    (let slot = slot_at table (dec_slot decoded) in
     if \<not> (hs_state slot = SlotClosing \<and> hs_generation slot = dec_generation decoded)
       then Inl ''closing slot identity changed''
     else if hs_acquisition_pins slot = 0
       then let detached = hs_obj slot; slot' = slot\<lparr>hs_obj := None, hs_rights := 0, hs_reservation_nonce := 0,
                hs_reserved_type := KTypeInvalid, hs_state := ClosedStateFor slot\<rparr>
         in if \<not> ht_active_operations table > 0 then Inl ''close active operation underflow''
            else Inr (detached, (set_slot (dec_slot decoded) slot' table)
              \<lparr>ht_active_operations := ht_active_operations table - 1\<rparr>)
     else Inr (None, table))"

section \<open>Replacement\<close>

definition HandleReplace :: "Handle \<Rightarrow> u64 \<Rightarrow> HandleTable \<Rightarrow> string + (ErrorCode + Handle) \<times> HandleTable" where
  "HandleReplace src_handle requested_rights table =
    with_decoded src_handle (\<lambda>decoded.
      if requested_rights = 0 \<or> exceeds requested_rights kHandleRightAll then Inr (Inl ErrInvalidArgument, table)
      else if ht_state table \<noteq> TableOpen then Inr (Inl ErrBadState, table)
      else let slot = slot_at table (dec_slot decoded) in
        if \<not> SlotMatches slot (dec_generation decoded) then Inr (Inl ErrInvalidArgument, table)
        else if hs_rights slot AND kHandleRightDuplicate = 0 \<or> exceeds requested_rights (hs_rights slot)
          then Inr (Inl ErrPermissionDenied, table)
        else if hs_generation slot = kHandleGenerationMax then Inr (Inl ErrOverflow, table)
        else let generation = hs_generation slot + 1; replacement = HandleEncode (dec_slot decoded) generation
          in if replacement = kHandleInvalid then Inl ''failed to encode replacement''
             else Inr (Inr replacement, set_slot (dec_slot decoded)
               (slot\<lparr>hs_generation := generation, hs_rights := requested_rights\<rparr>) table)) table"

definition HandleTableAdoptReplace_begin ::
    "kworld \<Rightarrow> Handle \<Rightarrow> kaddr option \<Rightarrow> u64 \<Rightarrow> KObjectType \<Rightarrow> HandleTable \<Rightarrow>
      string + (ErrorCode + DecodedHandle) \<times> HandleTable" where
  "HandleTableAdoptReplace_begin w existing replacement requested_rights expected_type table =
    with_decoded existing (\<lambda>decoded.
      if replacement = None \<or> obj_type w (the replacement) = KTypeInvalid \<or> requested_rights = 0 \<or>
         exceeds requested_rights kHandleRightAll then Inr (Inl ErrInvalidArgument, table)
      else if expected_type \<noteq> KTypeInvalid \<and> obj_type w (the replacement) \<noteq> expected_type
        then Inr (Inl ErrInvalidArgument, table)
      else if exceeds requested_rights (TypeAllowedRights (obj_type w (the replacement)))
        then Inr (Inl ErrPermissionDenied, table)
      else if KObjectRefcount replacement w = 0 then Inr (Inl ErrBadState, table)
      else if ht_state table \<noteq> TableOpen then Inr (Inl ErrBadState, table)
      else let slot = slot_at table (dec_slot decoded) in
        if \<not> SlotMatches slot (dec_generation decoded) then Inr (Inl ErrInvalidArgument, table)
        else if expected_type \<noteq> KTypeInvalid \<and> obj_type w (the (hs_obj slot)) \<noteq> expected_type
          then Inr (Inl ErrInvalidArgument, table)
        else if hs_generation slot = kHandleGenerationMax \<or> ht_active_operations table = 0xFFFFFFFF
          then Inr (Inl ErrOverflow, table)
        else Inr (Inr decoded, (set_slot (dec_slot decoded) (slot\<lparr>hs_state := SlotClosing\<rparr>) table)
          \<lparr>ht_active_operations := ht_active_operations table + 1\<rparr>)) table"

definition HandleTableAdoptReplace_try ::
    "DecodedHandle \<Rightarrow> kaddr \<Rightarrow> u64 \<Rightarrow> HandleTable \<Rightarrow> string + (Handle \<times> kaddr option) \<times> HandleTable" where
  "HandleTableAdoptReplace_try decoded replacement requested_rights table =
    (let slot = slot_at table (dec_slot decoded) in
     if \<not> (hs_state slot = SlotClosing \<and> hs_generation slot = dec_generation decoded)
       then Inl ''adopt-replace slot identity changed''
     else if hs_acquisition_pins slot = 0
       then let displaced = hs_obj slot; generation = hs_generation slot + 1;
                replacement_handle = HandleEncode (dec_slot decoded) generation
         in if replacement_handle = kHandleInvalid then Inl ''failed to encode adopted replacement''
            else if \<not> ht_active_operations table > 0 then Inl ''adopt-replace operation underflow''
            else Inr ((replacement_handle, displaced),
              (set_slot (dec_slot decoded) (slot\<lparr>hs_generation := generation, hs_obj := Some replacement,
                 hs_rights := requested_rights, hs_state := SlotLive\<rparr>) table)
                \<lparr>ht_active_operations := ht_active_operations table - 1\<rparr>)
     else Inr ((kHandleInvalid, None), table))"

section \<open>Teardown\<close>

text \<open>\<^verbatim>\<open>HandleTableDrain\<close>: the first section says whether the caller returns at once, owns the
  drain, or waits for its owner.\<close>

datatype drain_role = DrainReturns | DrainOwns | DrainWaits

definition HandleTableDrain_begin :: "HandleTable \<Rightarrow> drain_role \<times> HandleTable" where
  "HandleTableDrain_begin table =
    (if ht_state table = TableClosed then (DrainReturns, table)
     else if ht_state table = TableOpen then (DrainOwns, table\<lparr>ht_state := TableDraining\<rparr>)
     else (DrainWaits, table))"

definition HandleTableDrain_closed :: "HandleTable \<Rightarrow> bool" where
  "HandleTableDrain_closed table \<longleftrightarrow> ht_state table = TableClosed"

definition HandleTableDrain_quiescent :: "HandleTable \<Rightarrow> bool" where
  "HandleTableDrain_quiescent table \<longleftrightarrow> ht_active_operations table = 0"

definition drain_row :: "kaddr list \<times> HandleTable \<Rightarrow> u32 \<Rightarrow> string + kaddr list \<times> HandleTable" where
  "drain_row = (\<lambda>(victims, table) i.
    let slot = slot_at table i in
    if \<not> (hs_state slot \<noteq> SlotClosing \<and> hs_acquisition_pins slot = 0) then Inl ''drain reached non-quiescent slot''
    else if hs_state slot = SlotReserved
      then if \<not> (hs_obj slot = None \<and> hs_rights slot \<noteq> 0 \<and> hs_reservation_nonce slot \<noteq> 0 \<and>
                 hs_reserved_type slot \<noteq> KTypeInvalid) then Inl ''drain reached corrupt reserved slot''
           else Inr (victims, set_slot i (slot\<lparr>hs_rights := 0, hs_reservation_nonce := 0,
             hs_reserved_type := KTypeInvalid, hs_state := ClosedStateFor slot\<rparr>) table)
    else if hs_state slot \<noteq> SlotLive then Inr (victims, table)
    else if \<not> (hs_obj slot \<noteq> None \<and> hs_reservation_nonce slot = 0 \<and> hs_reserved_type slot = KTypeInvalid \<and>
               length victims < unat kHandleTableCapacity) then Inl ''drain live-slot invariant failed''
    else Inr (victims @ [the (hs_obj slot)], set_slot i (slot\<lparr>hs_obj := None, hs_rights := 0,
      hs_reservation_nonce := 0, hs_reserved_type := KTypeInvalid, hs_state := ClosedStateFor slot\<rparr>) table))"

fun drain_rows :: "kaddr list \<times> HandleTable \<Rightarrow> u32 list \<Rightarrow> string + kaddr list \<times> HandleTable" where
  "drain_rows acc [] = Inr acc"
| "drain_rows acc (i # is) = (case drain_row acc i of Inl e \<Rightarrow> Inl e | Inr acc' \<Rightarrow> drain_rows acc' is)"

definition HandleTableDrain_collect :: "HandleTable \<Rightarrow> string + kaddr list \<times> HandleTable" where
  "HandleTableDrain_collect table =
    (if ht_state table \<noteq> TableDraining then Inl ''drain owner lost table state''
     else drain_rows ([], table) (map of_nat [1..<unat kHandleTableCapacity]))"

definition HandleTableDrain_finish :: "HandleTable \<Rightarrow> string + HandleTable" where
  "HandleTableDrain_finish table =
    (if ht_state table \<noteq> TableDraining then Inl ''drain completion lost table state''
     else Inr (table\<lparr>ht_state := TableClosed\<rparr>))"

end
