(* ===== verification/HandleCodec.thy ===== *)
theory HandleCodec
  imports HandleTable
begin

text \<open>
  The handle encoding of \<^verbatim>\<open>kernel/ipc/handle_table.h\<close> is a bijection between valid rows and valid
  tokens, with and without an ABI type band, and the rights a process can obtain stay within what
  the object type allows.
\<close>

section \<open>Fields of a token\<close>

lemma slot_mask: "kHandleSlotMask = mask 12"
  by (simp add: kdefs mask_eq_exp_minus_1)

lemma token_low: "unat (s :: u32) < 4096 \<Longrightarrow> (push_bit 12 g OR s) AND mask 12 = s"
  by (rule packed_low) simp

lemma token_high: "unat (s :: u32) < 4096 \<Longrightarrow> unat g \<le> 0x7FFFF \<Longrightarrow> drop_bit 12 (push_bit 12 g OR s) = g"
  by (rule packed_high) simp_all

lemma token_split: "push_bit 12 (drop_bit 12 (h :: u32)) OR (h AND mask 12) = h"
  by (rule packed_split)

lemma field_unat:
  "unat (drop_bit 12 (h :: u32)) = unat h div 4096" "unat (h AND mask 12) = unat h mod 4096"
  using packed_fields [where n = 12 and h = h] by simp_all

lemma token_unat: "unat (s :: u32) < 4096 \<Longrightarrow> unat g \<le> 0x7FFFF \<Longrightarrow> unat (push_bit 12 g OR s) = unat g * 4096 + unat s"
  using packed_unat [of s 12 g] by simp

definition valid_row :: "u32 \<Rightarrow> u32 \<Rightarrow> bool" where
  "valid_row s g \<longleftrightarrow> 0 < unat s \<and> unat s < 64 \<and> 0 < unat g \<and> unat g \<le> 0x7FFFF"

lemma HandleEncode_eq: "HandleEncode s g = (if valid_row s g then push_bit 12 g OR s else 0)"
  by (simp add: HandleEncode_def valid_row_def kdefs word_less_nat_alt word_le_nat_alt)

lemma HandleEncode_unat: "valid_row s g \<Longrightarrow> unat (HandleEncode s g) = unat g * 4096 + unat s"
  by (simp add: HandleEncode_eq token_unat valid_row_def)

lemma HandleEncode_valid: "HandleEncode s g \<noteq> 0 \<longleftrightarrow> valid_row s g"
proof
  assume "valid_row s g"
  then have "unat (HandleEncode s g) \<noteq> 0"
    by (simp only: HandleEncode_unat) (simp add: valid_row_def)
  then show "HandleEncode s g \<noteq> 0"
    by (metis unat_0)
qed (simp add: HandleEncode_eq split: if_splits)

lemma HandleDecode_eq:
  "HandleDecode h = (let s = h AND mask 12; g = drop_bit 12 h in if valid_row s g then Some (s, g) else None)"
proof -
  have split: "unat h = unat (drop_bit 12 h) * 4096 + unat (h AND mask 12)"
    by (simp only: field_unat) simp
  have "0 < unat h \<and> unat h \<le> 0x7FFFFFFF" if "valid_row (h AND mask 12) (drop_bit 12 h)"
    using that by (subst (1 2) split) (simp add: valid_row_def)
  then show ?thesis
    unfolding HandleDecode_def slot_mask
    by (auto simp: Let_def valid_row_def kdefs word_less_nat_alt word_le_nat_alt unat_gt_0)
qed

lemma HandleDecode_iff: "HandleDecode h = Some (s, g) \<longleftrightarrow> HandleEncode s g = h \<and> h \<noteq> 0"
proof
  assume "HandleDecode h = Some (s, g)"
  then have "s = h AND mask 12" "g = drop_bit 12 h" "valid_row s g"
    by (auto simp: HandleDecode_eq Let_def split: if_splits)
  then show "HandleEncode s g = h \<and> h \<noteq> 0"
    using HandleEncode_valid [of s g] by (simp add: HandleEncode_eq token_split)
next
  assume "HandleEncode s g = h \<and> h \<noteq> 0"
  then have "valid_row s g" and h: "h = push_bit 12 g OR s"
    by (auto simp: HandleEncode_eq split: if_splits)
  moreover from this have "h AND mask 12 = s" "drop_bit 12 h = g"
    unfolding h by (intro token_low token_high; simp add: valid_row_def)+
  ultimately show "HandleDecode h = Some (s, g)"
    by (simp only: HandleDecode_eq Let_def if_True)
qed

section \<open>Type bands\<close>

definition valid_band :: "u32 \<Rightarrow> bool" where
  "valid_band tag \<longleftrightarrow> unat tag + 64 \<le> 4096"

lemma band_guard: "tag > kHandleSlotMask \<or> tag + kHandleTableCapacity > 0x1000 \<longleftrightarrow> \<not> valid_band tag"
proof (cases "unat tag \<le> 4095")
  case True
  then have "unat (tag + 64) = unat tag + 64"
    by (subst unat_add_lt) simp_all
  with True show ?thesis
    by (simp add: valid_band_def kdefs word_less_nat_alt) linarith
qed (simp add: valid_band_def kdefs word_less_nat_alt)

lemma ucast_back: "(ucast (ucast (x :: u32) :: u64) :: u32) = x"
  by (rule bit_word_eqI) (simp add: bit_simps)

lemma tagged_low:
  assumes "valid_band tag" and "unat s < 64"
  shows "unat (tag + s) = unat tag + unat s" and "unat (tag + s) < 4096"
  using assms by (subst unat_add_lt; simp add: valid_band_def)+

lemma tagged_roundtrip:
  assumes "HandleEncodeTagged h tag = Some v"
  shows "HandleDecodeTagged v tag = Some h"
proof -
  from assms obtain s g where band: "valid_band tag" and dec: "HandleDecode h = Some (s, g)"
    and v: "v = ucast (push_bit 12 g OR (tag + s))"
    by (auto simp: HandleEncodeTagged_def band_guard kHandleSlotBits_def split: if_splits option.splits)
  from dec have h: "HandleEncode s g = h" "h \<noteq> 0" by (simp_all add: HandleDecode_iff)
  then have row: "valid_row s g" using HandleEncode_valid by blast
  then have s: "0 < unat s" "unat s < 64" and g: "0 < unat g" "unat g \<le> 0x7FFFF"
    by (simp_all add: valid_row_def)
  note low = tagged_low [OF band s(2)]
  let ?raw = "push_bit 12 g OR (tag + s)"
  have raw: "unat ?raw = unat g * 4096 + (unat tag + unat s)"
    using token_unat [OF low(2) g(2)] low(1) by simp
  have uv: "unat v = unat ?raw" and cv: "(ucast v :: u32) = ?raw"
    by (simp_all only: v unat_ucast_u32_u64) (rule ucast_back)
  have "v \<noteq> 0"
    using uv raw g(1) by (auto simp only: unat_0)
  moreover have "\<not> v > ucast kHandlePositiveMax"
    using uv raw s(2) g(2) band
    by (simp only: word_less_nat_alt unat_ucast_u32_u64) (simp add: kdefs valid_band_def)
  moreover have "?raw AND kHandleSlotMask = tag + s" "drop_bit kHandleSlotBits ?raw = g"
    by (simp_all only: slot_mask kHandleSlotBits_def token_low [OF low(2)] token_high [OF low(2) g(2)])
  moreover have "\<not> tag + s \<le> tag" "\<not> tag + s \<ge> tag + kHandleTableCapacity" "g \<noteq> 0"
    using low(1) s g(1) band unat_add_lt [of tag kHandleTableCapacity]
    by (auto simp: word_le_nat_alt kdefs valid_band_def)
  ultimately show ?thesis
    using h band
    by (simp add: HandleDecodeTagged_def band_guard [unfolded de_Morgan_disj] cv Let_def kHandleInvalid_def)
qed

lemma tagged_roundtrip_back:
  assumes "HandleDecodeTagged v tag = Some h"
  shows "HandleEncodeTagged h tag = Some v"
proof -
  define raw where "raw = (ucast v :: u32)"
  let ?low = "raw AND mask 12" and ?g = "drop_bit 12 raw"
  from assms have guards: "\<not> v > ucast kHandlePositiveMax" "\<not> (tag > kHandleSlotMask \<or> tag + kHandleTableCapacity > 0x1000)"
    "\<not> ?low \<le> tag" and h: "h = HandleEncode (?low - tag) ?g" "h \<noteq> 0"
    unfolding HandleDecodeTagged_def slot_mask
    by (auto simp: Let_def kHandleSlotBits_def kHandleInvalid_def raw_def split: if_splits)
  have dec: "HandleDecode h = Some (?low - tag, ?g)"
    using h by (simp add: HandleDecode_iff)
  have "unat v \<le> 0x7FFFFFFF"
    using guards(1) by (simp only: word_less_nat_alt unat_ucast_u32_u64) (simp add: kdefs)
  then have "(ucast raw :: u64) = v"
    unfolding raw_def by (simp add: word_unat_eq_iff unsigned_ucast_eq unsigned_take_bit_eq take_bit_nat_eq_self)
  moreover have "push_bit 12 ?g OR (tag + (?low - tag)) = raw"
    by (simp add: token_split)
  ultimately show ?thesis
    using guards(2) dec by (simp add: HandleEncodeTagged_def kHandleSlotBits_def)
qed

text \<open>
  C38. Tokens and rows correspond one to one. A token decodes to a row and generation exactly when
  it is their encoding, and the same holds within each ABI type band: what
  \<^verbatim>\<open>HandleEncodeTagged\<close> yields is what \<^verbatim>\<open>HandleDecodeTagged\<close> accepts.
\<close>

theorem handle_codec_bijective:
  "(HandleDecode h = Some (s, g) \<longleftrightarrow> HandleEncode s g = h \<and> h \<noteq> kHandleInvalid) \<and>
   (HandleDecodeTagged v tag = Some h \<longleftrightarrow> HandleEncodeTagged h tag = Some v)"
proof (rule conjI)
  show "HandleDecode h = Some (s, g) \<longleftrightarrow> HandleEncode s g = h \<and> h \<noteq> kHandleInvalid"
    unfolding kHandleInvalid_def by (rule HandleDecode_iff)
  show "HandleDecodeTagged v tag = Some h \<longleftrightarrow> HandleEncodeTagged h tag = Some v"
    by (rule iffI) (rule tagged_roundtrip_back tagged_roundtrip, assumption)+
qed

section \<open>Rights\<close>

definition within :: "u64 \<Rightarrow> u64 \<Rightarrow> bool" where
  "within r allowed \<longleftrightarrow> r AND NOT allowed = 0"

lemma exceeds_iff: "exceeds r allowed \<longleftrightarrow> \<not> within r allowed"
  by (simp add: exceeds_def within_def)

lemma within_bits: "within r allowed \<longleftrightarrow> (\<forall>n. bit r n \<longrightarrow> bit allowed n)"
proof -
  have "bit r n \<Longrightarrow> n < 64" for n
    using bit_imp_le_length [of r n] by simp
  then show ?thesis
    by (auto simp: within_def bit_eq_iff bit_simps)
qed

lemma within_refl [simp]: "within r r"
  by (simp add: within_bits)

lemma within_trans: "within a b \<Longrightarrow> within b c \<Longrightarrow> within a c"
  by (auto simp: within_bits)

lemma TypeAllowedRights_within_all: "within (TypeAllowedRights type) kHandleRightAll"
  by (cases type) (simp_all add: TypeAllowedRights_def within_def kdefs Let_def)

text \<open>
  C39. A handle that a process may create carries no right beyond those its object type allows,
  never the right to duplicate or transfer a service endpoint, and inspection, signalling and file
  access only with the matching capability.
\<close>

theorem handle_rights_least_privilege:
  "within (HandleRightsForProcess type caps) (TypeAllowedRights type) \<and>
   within (TypeAllowedRights type) kHandleRightAll \<and>
   HandleRightsForProcess KTypeServiceEndpoint caps AND (kHandleRightDuplicate OR kHandleRightTransfer) = 0 \<and>
   (CapSetHas caps kCapDebug \<or> HandleRightsForProcess type caps AND kHandleRightInspect = 0) \<and>
   (CapSetHas caps kCapSpawnThread \<or> HandleRightsForProcess type caps AND kHandleRightSignal = 0) \<and>
   (CapSetHas caps kCapFsRead \<or> HandleRightsForProcess KTypeFile caps AND kHandleRightRead = 0) \<and>
   (CapSetHas caps kCapFsWrite \<or> HandleRightsForProcess KTypeFile caps AND kHandleRightWrite = 0)"
proof (intro conjI)
  show "within (HandleRightsForProcess type caps) (TypeAllowedRights type)"
    by (simp add: HandleRightsForProcess_def Let_def within_bits bit_simps)
  show "within (TypeAllowedRights type) kHandleRightAll"
    by (rule TypeAllowedRights_within_all)
qed (cases type; simp add: HandleRightsForProcess_def TypeAllowedRights_def add_right_def Let_def kdefs)+

end

