(* ===== verification/HandleTableSystem.thy ===== *)
theory HandleTableSystem
  imports HandleCodec
begin

text \<open>
  Threads that call the operations of \<^verbatim>\<open>kernel/ipc/handle_table.cpp\<close> at the same time. Every
  operation is the sequence of its critical sections, as the source composes them; between two
  sections any other thread may run. The state holds all tables, the kernel objects, the
  boot-global nonce counter, the progress of each thread, and the references that callers own
  outside the tables.
\<close>

section \<open>Threads\<close>

text \<open>What a thread does with the object that a retained lookup returns, and with the row that a
  close has claimed.\<close>

datatype retain_for =
    ForLookup
  | ForDuplicate nat
  | ForDuplicateRights nat u64

datatype closing_for =
    ForDetach
  | ForRemove
  | ForAdoptReplace kaddr u64

datatype hresult =
    ResHandle "ErrorCode + Handle"
  | ResReservation "ErrorCode + HandleTableReservation"
  | ResVoid "ErrorCode + unit"
  | ResObject "ErrorCode + kaddr"
  | ResPointer "kaddr option"
  | ResAdopt "ErrorCode + Handle \<times> kaddr"
  | ResNothing

text \<open>Where a thread stands between two sections. \<open>Returned\<close> is a thread between two calls.\<close>

datatype pc =
    Returned hresult
  | Pinned nat DecodedHandle kaddr u64 retain_for
  | Unpinning nat DecodedHandle kaddr u64 bool retain_for
  | Duplicating kaddr u64 nat
  | Releasing kaddr hresult
  | Closing nat DecodedHandle closing_for
  | DrainWaiting nat
  | DrainQuiescing nat
  | DrainCollecting nat
  | DrainReleasing nat "kaddr list"

record hsys =
  h_world :: kworld
  h_tables :: "HandleTable list"
  h_last_nonce :: u64
  h_threads :: "pc list"
  h_held :: "kaddr list"

definition set_table :: "nat \<Rightarrow> HandleTable \<Rightarrow> hsys \<Rightarrow> hsys" where
  "set_table t table s = s\<lparr>h_tables := (h_tables s)[t := table]\<rparr>"

definition take_ref :: "kaddr option \<Rightarrow> hsys \<Rightarrow> hsys" where
  "take_ref a s = (case a of None \<Rightarrow> s | Some a \<Rightarrow> s\<lparr>h_held := remove1 a (h_held s)\<rparr>)"

definition give_ref :: "kaddr \<Rightarrow> hsys \<Rightarrow> hsys" where
  "give_ref a s = s\<lparr>h_held := a # h_held s\<rparr>"

section \<open>Calls\<close>

datatype hcall =
    CallInsert nat "kaddr option" u64
  | CallReserve nat KObjectType u64
  | CallPublish nat HandleTableReservation "kaddr option"
  | CallAbort nat HandleTableReservation
  | CallLookupRef nat Handle KObjectType u64
  | CallDetach nat Handle KObjectType u64
  | CallRemove nat Handle
  | CallDuplicateRights nat nat Handle u64
  | CallDuplicate nat nat Handle
  | CallReplace nat Handle u64
  | CallAdoptReplace nat Handle "kaddr option" u64 KObjectType
  | CallDrain nat
  | CallKObjectAcquire kaddr
  | CallKObjectRelease kaddr
  | CallKObjectInit KObjectType bool

text \<open>The first section of \<^verbatim>\<open>RetainSnapshot\<close>, shared by its three callers; \<open>failed\<close> is what the
  caller returns on an error.\<close>

definition begin_retain ::
    "nat \<Rightarrow> Handle \<Rightarrow> KObjectType \<Rightarrow> u64 \<Rightarrow> retain_for \<Rightarrow> (ErrorCode \<Rightarrow> hresult) \<Rightarrow> hsys \<Rightarrow> string + pc \<times> hsys" where
  "begin_retain t h expected_type required_rights k failed s =
    (case RetainSnapshot_pin (h_world s) h expected_type required_rights (h_tables s ! t) of
       Inl e \<Rightarrow> Inl e
     | Inr (Inl err, table) \<Rightarrow> Inr (Returned (failed err), set_table t table s)
     | Inr (Inr (decoded, obj, rights), table) \<Rightarrow> Inr (Pinned t decoded obj rights k, set_table t table s))"

definition begin_close ::
    "nat \<Rightarrow> Handle \<Rightarrow> KObjectType \<Rightarrow> u64 \<Rightarrow> closing_for \<Rightarrow> (ErrorCode \<Rightarrow> hresult) \<Rightarrow> hsys \<Rightarrow> string + pc \<times> hsys" where
  "begin_close t h expected_type required_rights k failed s =
    (case HandleTableDetach_begin (h_world s) h expected_type required_rights (h_tables s ! t) of
       Inl e \<Rightarrow> Inl e
     | Inr (Inl err, table) \<Rightarrow> Inr (Returned (failed err), set_table t table s)
     | Inr (Inr decoded, table) \<Rightarrow> Inr (Closing t decoded k, set_table t table s))"

primrec call :: "hcall \<Rightarrow> hsys \<Rightarrow> string + pc \<times> hsys" where
  "call (CallInsert t obj rights) s =
    (case HandleTableInsert (h_world s) obj rights (h_tables s ! t) of
       Inl e \<Rightarrow> Inl e
     | Inr (Inl err, table) \<Rightarrow> Inr (Returned (ResHandle (Inl err)), set_table t table s)
     | Inr (Inr h, table) \<Rightarrow> Inr (Returned (ResHandle (Inr h)), take_ref obj (set_table t table s)))"
| "call (CallReserve t type rights) s =
    (case HandleTableReserve type rights (h_tables s ! t, h_last_nonce s) of
       Inl e \<Rightarrow> Inl e
     | Inr (res, table, nonce) \<Rightarrow> Inr (Returned (ResReservation res), (set_table t table s)\<lparr>h_last_nonce := nonce\<rparr>))"
| "call (CallPublish t reservation obj) s =
    (case HandleTablePublish (h_world s) reservation obj (h_tables s ! t) of
       Inl e \<Rightarrow> Inl e
     | Inr (Inl err, table) \<Rightarrow> Inr (Returned (ResHandle (Inl err)), set_table t table s)
     | Inr (Inr h, table) \<Rightarrow> Inr (Returned (ResHandle (Inr h)), take_ref obj (set_table t table s)))"
| "call (CallAbort t reservation) s =
    (case HandleTableAbort reservation (h_tables s ! t) of
       Inl e \<Rightarrow> Inl e
     | Inr (res, table) \<Rightarrow> Inr (Returned (ResVoid res), set_table t table s))"
| "call (CallLookupRef t h expected_type required_rights) s =
    begin_retain t h expected_type required_rights ForLookup (\<lambda>_. ResPointer None) s"
| "call (CallDetach t h expected_type required_rights) s =
    begin_close t h expected_type required_rights ForDetach (\<lambda>err. ResObject (Inl err)) s"
| "call (CallRemove t h) s = begin_close t h KTypeInvalid 0 ForRemove (\<lambda>err. ResVoid (Inl err)) s"
| "call (CallDuplicateRights src dst h requested_rights) s =
    (if requested_rights = 0 \<or> exceeds requested_rights kHandleRightAll
     then Inr (Returned (ResHandle (Inl ErrInvalidArgument)), s)
     else begin_retain src h KTypeInvalid kHandleRightDuplicate (ForDuplicateRights dst requested_rights)
       (\<lambda>err. ResHandle (Inl err)) s)"
| "call (CallDuplicate src dst h) s =
    begin_retain src h KTypeInvalid kHandleRightDuplicate (ForDuplicate dst) (\<lambda>err. ResHandle (Inl err)) s"
| "call (CallReplace t h requested_rights) s =
    (case HandleReplace h requested_rights (h_tables s ! t) of
       Inl e \<Rightarrow> Inl e
     | Inr (res, table) \<Rightarrow> Inr (Returned (ResHandle res), set_table t table s))"
| "call (CallAdoptReplace t h replacement rights expected_type) s =
    (case HandleTableAdoptReplace_begin (h_world s) h replacement rights expected_type (h_tables s ! t) of
       Inl e \<Rightarrow> Inl e
     | Inr (Inl err, table) \<Rightarrow> Inr (Returned (ResAdopt (Inl err)), set_table t table s)
     | Inr (Inr decoded, table) \<Rightarrow>
        Inr (Closing t decoded (ForAdoptReplace (the replacement) rights), take_ref replacement (set_table t table s)))"
| "call (CallDrain t) s =
    (case HandleTableDrain_begin (h_tables s ! t) of (role, table) \<Rightarrow>
       Inr (case role of DrainReturns \<Rightarrow> Returned ResNothing | DrainOwns \<Rightarrow> DrainQuiescing t
              | DrainWaits \<Rightarrow> DrainWaiting t, set_table t table s))"
| "call (CallKObjectAcquire a) s =
    (case KObjectAcquire (Some a) (h_world s) of (ok, w) \<Rightarrow>
       Inr (Returned (ResPointer (if ok then Some a else None)),
         if ok then give_ref a (s\<lparr>h_world := w\<rparr>) else s\<lparr>h_world := w\<rparr>))"
| "call (CallKObjectRelease a) s = Inr (Releasing a ResNothing, take_ref (Some a) s)"
| "call (CallKObjectInit type destroy) s =
    (let w = h_world s; a = length (ko_objs w);
         w' = w\<lparr>ko_objs := ko_objs w @ [\<lparr>ko_type = KTypeInvalid, ko_refcount = 0, ko_destroy = False\<rparr>]\<rparr>
     in case KObjectInit (Some a) type destroy w' of
       Inl e \<Rightarrow> Inl e
     | Inr w'' \<Rightarrow> Inr (Returned (ResPointer (Some a)), give_ref a (s\<lparr>h_world := w''\<rparr>)))"

section \<open>The sections that follow\<close>

text \<open>\<^verbatim>\<open>HandleTableLookupRef\<close>, \<^verbatim>\<open>HandleTableDuplicateRights\<close> and \<^verbatim>\<open>HandleTableDuplicate\<close> after
  \<^verbatim>\<open>RetainSnapshot\<close> has returned.\<close>

primrec retained_failed :: "retain_for \<Rightarrow> hresult" where
  "retained_failed ForLookup = ResPointer None"
| "retained_failed (ForDuplicate dst) = ResHandle (Inl ErrOverflow)"
| "retained_failed (ForDuplicateRights dst requested) = ResHandle (Inl ErrOverflow)"

primrec retained_ok :: "retain_for \<Rightarrow> kaddr \<Rightarrow> u64 \<Rightarrow> hsys \<Rightarrow> pc \<times> hsys" where
  "retained_ok ForLookup obj rights s = (Returned (ResPointer (Some obj)), give_ref obj s)"
| "retained_ok (ForDuplicate dst) obj rights s = (Duplicating obj rights dst, s)"
| "retained_ok (ForDuplicateRights dst requested) obj rights s =
    (if exceeds requested rights then (Releasing obj (ResHandle (Inl ErrPermissionDenied)), s)
     else (Duplicating obj requested dst, s))"

primrec close_row :: "closing_for \<Rightarrow> nat \<Rightarrow> DecodedHandle \<Rightarrow> hsys \<Rightarrow> string + pc \<times> hsys" where
  "close_row ForDetach t decoded s =
    (case HandleTableDetach_try decoded (h_tables s ! t) of
       Inl e \<Rightarrow> Inl e
     | Inr (None, table) \<Rightarrow> Inr (Closing t decoded ForDetach, set_table t table s)
     | Inr (Some obj, table) \<Rightarrow> Inr (Returned (ResObject (Inr obj)), give_ref obj (set_table t table s)))"
| "close_row ForRemove t decoded s =
    (case HandleTableDetach_try decoded (h_tables s ! t) of
       Inl e \<Rightarrow> Inl e
     | Inr (None, table) \<Rightarrow> Inr (Closing t decoded ForRemove, set_table t table s)
     | Inr (Some obj, table) \<Rightarrow> Inr (Releasing obj (ResVoid (Inr ())), set_table t table s))"
| "close_row (ForAdoptReplace replacement rights) t decoded s =
    (case HandleTableAdoptReplace_try decoded replacement rights (h_tables s ! t) of
       Inl e \<Rightarrow> Inl e
     | Inr ((h, None), table) \<Rightarrow> Inr (Closing t decoded (ForAdoptReplace replacement rights), set_table t table s)
     | Inr ((h, Some obj), table) \<Rightarrow> Inr (Returned (ResAdopt (Inr (h, obj))), give_ref obj (set_table t table s)))"

primrec advance :: "pc \<Rightarrow> hsys \<Rightarrow> string + pc \<times> hsys" where
  "advance (Returned r) s = Inr (Returned r, s)"
| "advance (Pinned t decoded obj rights k) s =
    (case KObjectAcquire (Some obj) (h_world s) of (retained, w) \<Rightarrow>
       Inr (Unpinning t decoded obj rights retained k, s\<lparr>h_world := w\<rparr>))"
| "advance (Unpinning t decoded obj rights retained k) s =
    (case RetainSnapshot_unpin decoded obj (h_tables s ! t) of
       Inl e \<Rightarrow> Inl e
     | Inr table \<Rightarrow>
        if \<not> retained then Inr (Returned (retained_failed k), set_table t table s)
        else Inr (retained_ok k obj rights (set_table t table s)))"
| "advance (Duplicating obj rights dst) s =
    (case HandleTableInsert (h_world s) (Some obj) rights (h_tables s ! dst) of
       Inl e \<Rightarrow> Inl e
     | Inr (Inl err, table) \<Rightarrow> Inr (Releasing obj (ResHandle (Inl err)), set_table dst table s)
     | Inr (Inr h, table) \<Rightarrow> Inr (Returned (ResHandle (Inr h)), set_table dst table s))"
| "advance (Releasing obj r) s =
    (case KObjectRelease (Some obj) (h_world s) of
       Inl e \<Rightarrow> Inl e
     | Inr w \<Rightarrow> Inr (Returned r, s\<lparr>h_world := w\<rparr>))"
| "advance (Closing t decoded k) s = close_row k t decoded s"
| "advance (DrainWaiting t) s =
    Inr (if HandleTableDrain_closed (h_tables s ! t) then Returned ResNothing else DrainWaiting t, s)"
| "advance (DrainQuiescing t) s =
    Inr (if HandleTableDrain_quiescent (h_tables s ! t) then DrainCollecting t else DrainQuiescing t, s)"
| "advance (DrainCollecting t) s =
    (case HandleTableDrain_collect (h_tables s ! t) of
       Inl e \<Rightarrow> Inl e
     | Inr (victims, table) \<Rightarrow> Inr (DrainReleasing t victims, set_table t table s))"
| "advance (DrainReleasing t victims) s =
    (case victims of
       obj # rest \<Rightarrow>
        (case KObjectRelease (Some obj) (h_world s) of
           Inl e \<Rightarrow> Inl e
         | Inr w \<Rightarrow> Inr (DrainReleasing t rest, s\<lparr>h_world := w\<rparr>))
     | [] \<Rightarrow>
        (case HandleTableDrain_finish (h_tables s ! t) of
           Inl e \<Rightarrow> Inl e
         | Inr table \<Rightarrow> Inr (Returned ResNothing, set_table t table s)))"

section \<open>Interleavings\<close>

text \<open>
  What a caller must provide: tables that exist, and, where it passes an object, a reference of
  its own to it.
\<close>

definition owns :: "hsys \<Rightarrow> kaddr option \<Rightarrow> bool" where
  "owns s obj \<longleftrightarrow> (case obj of None \<Rightarrow> True | Some a \<Rightarrow> a \<in> set (h_held s))"

primrec call_ok :: "hsys \<Rightarrow> hcall \<Rightarrow> bool" where
  "call_ok s (CallInsert t obj rights) \<longleftrightarrow> t < length (h_tables s) \<and> owns s obj"
| "call_ok s (CallReserve t type rights) \<longleftrightarrow> t < length (h_tables s)"
| "call_ok s (CallPublish t reservation obj) \<longleftrightarrow> t < length (h_tables s) \<and> owns s obj"
| "call_ok s (CallAbort t reservation) \<longleftrightarrow> t < length (h_tables s)"
| "call_ok s (CallLookupRef t h type rights) \<longleftrightarrow> t < length (h_tables s)"
| "call_ok s (CallDetach t h type rights) \<longleftrightarrow> t < length (h_tables s)"
| "call_ok s (CallRemove t h) \<longleftrightarrow> t < length (h_tables s)"
| "call_ok s (CallDuplicateRights src dst h rights) \<longleftrightarrow> src < length (h_tables s) \<and> dst < length (h_tables s)"
| "call_ok s (CallDuplicate src dst h) \<longleftrightarrow> src < length (h_tables s) \<and> dst < length (h_tables s)"
| "call_ok s (CallReplace t h rights) \<longleftrightarrow> t < length (h_tables s)"
| "call_ok s (CallAdoptReplace t h obj rights type) \<longleftrightarrow> t < length (h_tables s) \<and> owns s obj"
| "call_ok s (CallDrain t) \<longleftrightarrow> t < length (h_tables s)"
| "call_ok s (CallKObjectAcquire a) \<longleftrightarrow> a \<in> set (h_held s)"
| "call_ok s (CallKObjectRelease a) \<longleftrightarrow> a \<in> set (h_held s)"
| "call_ok s (CallKObjectInit type destroy) \<longleftrightarrow> type \<noteq> KTypeInvalid"

definition is_idle :: "pc \<Rightarrow> bool" where
  "is_idle p \<longleftrightarrow> (case p of Returned _ \<Rightarrow> True | _ \<Rightarrow> False)"

definition put_thread :: "nat \<Rightarrow> pc \<times> hsys \<Rightarrow> hsys" where
  "put_thread i r = (snd r)\<lparr>h_threads := (h_threads (snd r))[i := fst r]\<rparr>"

text \<open>The next section of thread \<open>i\<close>: the call \<open>c\<close> when the thread is idle.\<close>

definition thread_section :: "nat \<Rightarrow> hcall \<Rightarrow> hsys \<Rightarrow> string + pc \<times> hsys" where
  "thread_section i c s = (if is_idle (h_threads s ! i) then call c s else advance (h_threads s ! i) s)"

definition enabled :: "nat \<Rightarrow> hcall \<Rightarrow> hsys \<Rightarrow> bool" where
  "enabled i c s \<longleftrightarrow> i < length (h_threads s) \<and> (is_idle (h_threads s ! i) \<longrightarrow> call_ok s c)"

inductive hstep :: "hsys \<Rightarrow> hsys \<Rightarrow> bool" where
  run_section: "enabled i c s \<Longrightarrow> thread_section i c s = Inr r \<Longrightarrow> hstep s (put_thread i r)"

text \<open>At boot there are no objects; any number of zeroed tables and of threads.\<close>

definition boot_hsys :: "bool \<Rightarrow> nat \<Rightarrow> nat \<Rightarrow> hsys" where
  "boot_hsys debug tables threads =
    \<lparr>h_world = \<lparr>kIsDebugBuild = debug, ko_objs = [], ko_destroyed = [], ko_warnings = []\<rparr>,
     h_tables = replicate tables zero_handle_table, h_last_nonce = 0,
     h_threads = replicate threads (Returned ResNothing), h_held = []\<rparr>"

definition init_hsys :: "hsys \<Rightarrow> bool" where
  "init_hsys s \<longleftrightarrow> (\<exists>debug tables threads. s = boot_hsys debug tables threads)"

text \<open>A schedule runs the given sections in order; it is \<open>None\<close> when a thread cannot make its call.\<close>

fun run_schedule :: "(nat \<times> hcall) list \<Rightarrow> hsys \<Rightarrow> hsys option" where
  "run_schedule [] s = Some s"
| "run_schedule ((i, c) # cs) s =
    (if \<not> enabled i c s then None
     else case thread_section i c s of Inl e \<Rightarrow> None | Inr r \<Rightarrow> run_schedule cs (put_thread i r))"

lemma run_schedule_run: "run_schedule cs s = Some t \<Longrightarrow> hstep\<^sup>*\<^sup>* s t"
proof (induction cs s rule: run_schedule.induct)
  case (2 i c cs s)
  then obtain r where "enabled i c s" "thread_section i c s = Inr r" "run_schedule cs (put_thread i r) = Some t"
    by (auto split: if_splits sum.splits)
  with 2(1) run_section show ?case
    by (metis converse_rtranclp_into_rtranclp)
qed simp

end
