(* ===== verification/HandleTableInv.thy ===== *)
theory HandleTableInv
  imports HandleTableSystem
begin

text \<open>
  What every critical section keeps of a handle table: well-formed rows, pin counts that equal
  the number of lookups in progress, closing rows with exactly one closer, an operation counter
  that equals the number of operations in progress, and a draining state with exactly one owner.
\<close>

section \<open>What a thread contributes\<close>

definition at_row :: "nat \<Rightarrow> nat \<Rightarrow> nat \<Rightarrow> DecodedHandle \<Rightarrow> nat" where
  "at_row t i u d = (if u = t \<and> unat (dec_slot d) = i then 1 else 0)"

primrec pin_at :: "nat \<Rightarrow> nat \<Rightarrow> pc \<Rightarrow> nat" where
  "pin_at t i (Returned r) = 0"
| "pin_at t i (Pinned u d obj rights k) = at_row t i u d"
| "pin_at t i (Unpinning u d obj rights ok k) = at_row t i u d"
| "pin_at t i (Duplicating obj rights dst) = 0"
| "pin_at t i (Releasing obj r) = 0"
| "pin_at t i (Closing u d k) = 0"
| "pin_at t i (DrainWaiting u) = 0"
| "pin_at t i (DrainQuiescing u) = 0"
| "pin_at t i (DrainCollecting u) = 0"
| "pin_at t i (DrainReleasing u vs) = 0"

primrec close_at :: "nat \<Rightarrow> nat \<Rightarrow> pc \<Rightarrow> nat" where
  "close_at t i (Returned r) = 0"
| "close_at t i (Pinned u d obj rights k) = 0"
| "close_at t i (Unpinning u d obj rights ok k) = 0"
| "close_at t i (Duplicating obj rights dst) = 0"
| "close_at t i (Releasing obj r) = 0"
| "close_at t i (Closing u d k) = at_row t i u d"
| "close_at t i (DrainWaiting u) = 0"
| "close_at t i (DrainQuiescing u) = 0"
| "close_at t i (DrainCollecting u) = 0"
| "close_at t i (DrainReleasing u vs) = 0"

primrec active_at :: "nat \<Rightarrow> pc \<Rightarrow> nat" where
  "active_at t (Returned r) = 0"
| "active_at t (Pinned u d obj rights k) = (if u = t then 1 else 0)"
| "active_at t (Unpinning u d obj rights ok k) = (if u = t then 1 else 0)"
| "active_at t (Duplicating obj rights dst) = 0"
| "active_at t (Releasing obj r) = 0"
| "active_at t (Closing u d k) = (if u = t then 1 else 0)"
| "active_at t (DrainWaiting u) = 0"
| "active_at t (DrainQuiescing u) = 0"
| "active_at t (DrainCollecting u) = 0"
| "active_at t (DrainReleasing u vs) = 0"

primrec drain_at :: "nat \<Rightarrow> pc \<Rightarrow> nat" where
  "drain_at t (Returned r) = 0"
| "drain_at t (Pinned u d obj rights k) = 0"
| "drain_at t (Unpinning u d obj rights ok k) = 0"
| "drain_at t (Duplicating obj rights dst) = 0"
| "drain_at t (Releasing obj r) = 0"
| "drain_at t (Closing u d k) = 0"
| "drain_at t (DrainWaiting u) = 0"
| "drain_at t (DrainQuiescing u) = (if u = t then 1 else 0)"
| "drain_at t (DrainCollecting u) = (if u = t then 1 else 0)"
| "drain_at t (DrainReleasing u vs) = (if u = t then 1 else 0)"

primrec closing_refs :: "kaddr \<Rightarrow> closing_for \<Rightarrow> nat" where
  "closing_refs a ForDetach = 0"
| "closing_refs a ForRemove = 0"
| "closing_refs a (ForAdoptReplace obj rights) = (if obj = a then 1 else 0)"

primrec refs_at :: "kaddr \<Rightarrow> pc \<Rightarrow> nat" where
  "refs_at a (Returned r) = 0"
| "refs_at a (Pinned u d obj rights k) = 0"
| "refs_at a (Unpinning u d obj rights ok k) = (if ok \<and> obj = a then 1 else 0)"
| "refs_at a (Duplicating obj rights dst) = (if obj = a then 1 else 0)"
| "refs_at a (Releasing obj r) = (if obj = a then 1 else 0)"
| "refs_at a (Closing u d k) = closing_refs a k"
| "refs_at a (DrainWaiting u) = 0"
| "refs_at a (DrainQuiescing u) = 0"
| "refs_at a (DrainCollecting u) = 0"
| "refs_at a (DrainReleasing u vs) = count_list vs a"

definition tally :: "('p \<Rightarrow> nat) \<Rightarrow> 'p list \<Rightarrow> nat" where
  "tally f ps = sum_list (map f ps)"

lemma tally_Cons [simp]: "tally f (p # ps) = f p + tally f ps"
  by (simp add: tally_def)

lemma tally_Nil [simp]: "tally f [] = 0"
  by (simp add: tally_def)

lemma tally_append [simp]: "tally f (ps @ qs) = tally f ps + tally f qs"
  by (simp add: tally_def)

lemma tally_member: "p \<in> set ps \<Longrightarrow> f p \<le> tally f ps"
  unfolding tally_def by (rule member_le_sum_list) simp_all

text \<open>The threads other than thread \<open>i\<close>.\<close>

definition others :: "nat \<Rightarrow> 'p list \<Rightarrow> 'p list" where
  "others i ps = take i ps @ drop (Suc i) ps"

lemma tally_split: "i < length ps \<Longrightarrow> tally f ps = tally f (ps ! i # others i ps)"
  using id_take_nth_drop [of i ps] by (metis tally_append tally_Cons others_def add.left_commute)

lemma tally_update: "i < length ps \<Longrightarrow> tally f (ps[i := p]) = tally f (p # others i ps)"
  by (simp add: upd_conv_take_nth_drop others_def)

lemma set_split: "i < length ps \<Longrightarrow> set ps = set (ps ! i # others i ps)"
  using id_take_nth_drop [of i ps] by (metis Un_insert_right list.simps(15) others_def set_append)

lemma set_update: "i < length ps \<Longrightarrow> set (ps[i := p]) = set (p # others i ps)"
  by (simp add: upd_conv_take_nth_drop others_def)

section \<open>Well-formed tables\<close>

definition owned_row_ok :: "kworld \<Rightarrow> HandleSlot \<Rightarrow> bool" where
  "owned_row_ok w sl \<longleftrightarrow> (case hs_obj sl of None \<Rightarrow> False | Some a \<Rightarrow>
     a < length (ko_objs w) \<and> hs_rights sl \<noteq> 0 \<and> within (hs_rights sl) (TypeAllowedRights (obj_type w a))) \<and>
     hs_reservation_nonce sl = 0 \<and> hs_reserved_type sl = KTypeInvalid \<and> hs_generation sl \<noteq> 0"

definition reserved_row_ok :: "HandleSlot \<Rightarrow> bool" where
  "reserved_row_ok sl \<longleftrightarrow> hs_obj sl = None \<and> hs_rights sl \<noteq> 0 \<and>
     within (hs_rights sl) (TypeAllowedRights (hs_reserved_type sl)) \<and> hs_reservation_nonce sl \<noteq> 0 \<and>
     hs_reserved_type sl \<noteq> KTypeInvalid \<and> hs_acquisition_pins sl = 0 \<and> hs_generation sl \<noteq> 0"

definition slot_ok :: "kworld \<Rightarrow> HandleSlot \<Rightarrow> bool" where
  "slot_ok w sl \<longleftrightarrow> hs_generation sl \<le> kHandleGenerationMax \<and>
    (case hs_state sl of
       SlotFree \<Rightarrow> free_slot_clear sl \<and> hs_generation sl \<noteq> kHandleGenerationMax
     | SlotRetired \<Rightarrow> free_slot_clear sl \<and> hs_generation sl = kHandleGenerationMax
     | SlotReserved \<Rightarrow> reserved_row_ok sl
     | SlotLive \<Rightarrow> owned_row_ok w sl
     | SlotClosing \<Rightarrow> owned_row_ok w sl)"

definition dead_row :: "HandleSlot \<Rightarrow> bool" where
  "dead_row sl \<longleftrightarrow> hs_state sl = SlotFree \<or> hs_state sl = SlotRetired"

definition dead_rows :: "HandleTable \<Rightarrow> bool" where
  "dead_rows tb \<longleftrightarrow> (\<forall>i<64. dead_row (ht_slots tb ! i))"

definition row_ok :: "kworld \<Rightarrow> nat \<Rightarrow> nat \<Rightarrow> HandleSlot \<Rightarrow> pc list \<Rightarrow> bool" where
  "row_ok w t i sl ps \<longleftrightarrow> slot_ok w sl \<and> (i = 0 \<longrightarrow> sl = zero_handle_slot) \<and>
     unat (hs_acquisition_pins sl) = tally (pin_at t i) ps \<and>
     tally (close_at t i) ps = (if hs_state sl = SlotClosing then 1 else 0)"

definition table_ok :: "kworld \<Rightarrow> nat \<Rightarrow> HandleTable \<Rightarrow> pc list \<Rightarrow> bool" where
  "table_ok w t tb ps \<longleftrightarrow> length (ht_slots tb) = 64 \<and> unat (ht_next_free_hint tb) < 64 \<and>
     (\<forall>i<64. row_ok w t i (ht_slots tb ! i) ps) \<and>
     unat (ht_active_operations tb) = tally (active_at t) ps \<and>
     tally (drain_at t) ps = (if ht_state tb = TableDraining then 1 else 0) \<and>
     (ht_state tb = TableClosed \<longrightarrow> dead_rows tb)"

text \<open>The life of a row within one generation: reserved, live, closing, and then unused until the
  generation has advanced. A handle can only resolve while its row is live in its generation.\<close>

primrec row_rank :: "HandleSlotState \<Rightarrow> nat" where
  "row_rank SlotReserved = 0"
| "row_rank SlotLive = 1"
| "row_rank SlotClosing = 2"
| "row_rank SlotFree = 3"
| "row_rank SlotRetired = 3"

definition row_le :: "HandleSlot \<Rightarrow> HandleSlot \<Rightarrow> bool" where
  "row_le sl sl' \<longleftrightarrow> hs_generation sl < hs_generation sl' \<or>
     hs_generation sl = hs_generation sl' \<and> row_rank (hs_state sl) \<le> row_rank (hs_state sl')"

lemma row_le_refl [simp]: "row_le sl sl"
  by (simp add: row_le_def)

lemma row_le_trans: "row_le a b \<Longrightarrow> row_le b c \<Longrightarrow> row_le a c"
  by (auto simp: row_le_def)

text \<open>What the section of one thread may change under the other threads \<open>ps\<close>: never the object
  of a row they pin, the identity of a row they close, or the state of a table they drain. Rows
  only advance in their life, and a table that has left the open state stays out of it.\<close>

definition stable :: "nat \<Rightarrow> HandleTable \<Rightarrow> HandleTable \<Rightarrow> pc list \<Rightarrow> bool" where
  "stable t tb tb' ps \<longleftrightarrow>
     (\<forall>i<64. row_le (ht_slots tb ! i) (ht_slots tb' ! i) \<and> (0 < tally (pin_at t i) ps \<longrightarrow> hs_obj (ht_slots tb' ! i) = hs_obj (ht_slots tb ! i)) \<and>
       (0 < tally (close_at t i) ps \<longrightarrow> hs_state (ht_slots tb' ! i) = hs_state (ht_slots tb ! i) \<and>
         hs_generation (ht_slots tb' ! i) = hs_generation (ht_slots tb ! i))) \<and>
     (0 < tally (drain_at t) ps \<longrightarrow> ht_state tb' = ht_state tb \<and>
       (ht_active_operations tb = 0 \<longrightarrow> ht_active_operations tb' = 0) \<and> (dead_rows tb \<longrightarrow> dead_rows tb')) \<and>
     (ht_state tb \<noteq> TableOpen \<longrightarrow> ht_state tb' \<noteq> TableOpen)"

lemma stable_refl [simp]: "stable t tb tb ps"
  by (simp add: stable_def)

definition rows_of :: "kaddr \<Rightarrow> HandleTable \<Rightarrow> nat" where
  "rows_of a tb = length (filter (\<lambda>sl. hs_obj sl = Some a) (ht_slots tb))"

section \<open>Decoded handles\<close>

definition decoded_ok :: "DecodedHandle \<Rightarrow> bool" where
  "decoded_ok d \<longleftrightarrow> valid_row (dec_slot d) (dec_generation d)"

lemma decoded_okD: "decoded_ok d \<Longrightarrow> 0 < unat (dec_slot d) \<and> unat (dec_slot d) < 64"
  by (simp add: decoded_ok_def valid_row_def)

lemma DecodeHandleNospec_eq:
  "DecodeHandleNospec h = Inr (map_option (\<lambda>(s, g). \<lparr>dec_slot = s, dec_generation = g\<rparr>) (HandleDecode h))"
proof (cases "HandleDecode h")
  case (Some r)
  then obtain s g where r: "r = (s, g)" by (cases r)
  with Some have "valid_row s g"
    by (auto simp: HandleDecode_eq Let_def split: if_splits)
  then have "s < kHandleTableCapacity"
    by (simp add: valid_row_def kdefs word_less_nat_alt)
  then show ?thesis
    using Some r by (simp add: DecodeHandleNospec_def MaskedIndex32_eq)
qed (simp add: DecodeHandleNospec_def)

lemma with_decoded_cases:
  obtains "with_decoded h f s = Inr (Inl ErrInvalidArgument, s)"
  | d where "decoded_ok d" and "HandleDecode h = Some (dec_slot d, dec_generation d)" and "with_decoded h f s = f d"
proof (cases "HandleDecode h")
  case None
  with that(1) show ?thesis by (simp add: with_decoded_def DecodeHandleNospec_eq)
next
  case (Some r)
  then obtain s g where r: "r = (s, g)" by (cases r)
  with Some have "valid_row s g"
    by (auto simp: HandleDecode_eq Let_def split: if_splits)
  with Some r that(2) [of "\<lparr>dec_slot = s, dec_generation = g\<rparr>"] show ?thesis
    by (simp add: with_decoded_def DecodeHandleNospec_eq decoded_ok_def)
qed

section \<open>Updates of one row\<close>

lemma table_okD:
  assumes "table_ok w t tb ps"
  shows "length (ht_slots tb) = 64" and "unat (ht_next_free_hint tb) < 64"
    and "unat (ht_active_operations tb) = tally (active_at t) ps"
    and "tally (drain_at t) ps = (if ht_state tb = TableDraining then 1 else 0)"
    and "ht_state tb = TableClosed \<Longrightarrow> dead_rows tb"
  using assms by (simp_all add: table_ok_def)

lemma table_ok_row: "table_ok w t tb ps \<Longrightarrow> i < 64 \<Longrightarrow> row_ok w t i (ht_slots tb ! i) ps"
  by (simp add: table_ok_def)

lemma row_okD:
  assumes "row_ok w t i sl ps"
  shows "slot_ok w sl" and "unat (hs_acquisition_pins sl) = tally (pin_at t i) ps"
    and "tally (close_at t i) ps = (if hs_state sl = SlotClosing then 1 else 0)"
  using assms by (simp_all add: row_ok_def)

lemma table_ok_update:
  assumes ok: "table_ok w t tb (p # ps)" and i: "0 < i" "i < 64"
    and tb': "ht_slots tb' = (ht_slots tb)[i := sl]" "ht_state tb' = ht_state tb"
      "unat (ht_next_free_hint tb') < 64"
    and row: "row_ok w t i sl (p' # ps)"
    and rest: "\<And>k. k \<noteq> i \<Longrightarrow> pin_at t k p' = pin_at t k p \<and> close_at t k p' = close_at t k p"
    and act: "unat (ht_active_operations tb') = tally (active_at t) (p' # ps)"
    and drain: "drain_at t p' = drain_at t p"
    and closed: "ht_state tb = TableClosed \<Longrightarrow> dead_row sl"
  shows "table_ok w t tb' (p' # ps)"
proof -
  note len = table_okD(1) [OF ok]
  have "row_ok w t k (ht_slots tb' ! k) (p' # ps)" if k: "k < 64" for k
  proof (cases "k = i")
    case True
    with row i len show ?thesis by (simp add: tb'(1))
  next
    case False
    with rest [OF False] table_ok_row [OF ok k] show ?thesis
      by (simp add: tb'(1) row_ok_def)
  qed
  moreover have "dead_rows tb'" if "ht_state tb = TableClosed"
    using table_okD(5) [OF ok that] closed [OF that] len i by (simp add: dead_rows_def tb'(1) nth_list_update)
  ultimately show ?thesis
    using table_okD [OF ok] tb' act drain by (simp add: table_ok_def)
qed

lemma stable_update:
  assumes len: "length (ht_slots tb) = 64" and i: "i < 64"
    and tb': "ht_slots tb' = (ht_slots tb)[i := sl]" "ht_state tb' = ht_state tb"
    and life: "row_le (ht_slots tb ! i) sl"
    and pins: "0 < tally (pin_at t i) ps \<Longrightarrow> hs_obj sl = hs_obj (ht_slots tb ! i)"
    and closing: "0 < tally (close_at t i) ps \<Longrightarrow>
      hs_state sl = hs_state (ht_slots tb ! i) \<and> hs_generation sl = hs_generation (ht_slots tb ! i)"
    and drain: "0 < tally (drain_at t) ps \<Longrightarrow>
      (ht_active_operations tb = 0 \<longrightarrow> ht_active_operations tb' = 0) \<and> (dead_rows tb \<longrightarrow> dead_row sl)"
  shows "stable t tb tb' ps"
  using assms by (auto simp: stable_def nth_list_update dead_rows_def)

lemma table_ok_open_drain:
  assumes "table_ok w t tb (p # ps)" and "ht_state tb = TableOpen"
  shows "tally (drain_at t) ps = 0" and "drain_at t p = 0"
  using table_okD(4) [OF assms(1)] assms(2) by simp_all

lemma length_filter_sum: "length (filter P xs) = sum_list (map (\<lambda>x. if P x then 1 else 0) xs)"
  by (induction xs) simp_all

lemma rows_of_update:
  assumes "length (ht_slots tb) = 64" and "i < 64" and "ht_slots tb' = (ht_slots tb)[i := sl]"
  shows "rows_of a tb' + (if hs_obj (ht_slots tb ! i) = Some a then 1 else 0) =
    rows_of a tb + (if hs_obj sl = Some a then 1 else 0)"
proof -
  show ?thesis
    unfolding rows_of_def assms(3) length_filter_sum using assms(1,2) by (intro sum_list_map_update) simp
qed

lemma rows_of_same:
  assumes "length (ht_slots tb) = 64" and "i < 64" and "ht_slots tb' = (ht_slots tb)[i := sl]"
    and "hs_obj sl = hs_obj (ht_slots tb ! i)"
  shows "rows_of a tb' = rows_of a tb"
  using rows_of_update [OF assms(1-3), of a] assms(4) by simp

lemma table_ok_same:
  assumes "table_ok w t tb (p # ps)"
    and "\<And>k. pin_at t k p' = pin_at t k p \<and> close_at t k p' = close_at t k p"
    and "active_at t p' = active_at t p" and "drain_at t p' = drain_at t p"
  shows "table_ok w t tb (p' # ps)"
  using assms by (simp add: table_ok_def row_ok_def)

lemma idle_counts [simp]:
  assumes "is_idle p"
  shows "pin_at t i p = 0" and "close_at t i p = 0" and "active_at t p = 0" and "drain_at t p = 0"
    and "refs_at a p = 0"
  using assms by (cases p; simp add: is_idle_def)+

lemma set_slot_fields [simp]:
  "ht_slots (set_slot i sl tb) = (ht_slots tb)[unat i := sl]"
  "ht_state (set_slot i sl tb) = ht_state tb"
  "ht_next_free_hint (set_slot i sl tb) = ht_next_free_hint tb"
  "ht_active_operations (set_slot i sl tb) = ht_active_operations tb"
  by (simp_all add: set_slot_def)

lemma SlotMatches_owned:
  assumes "slot_ok w sl" and "SlotMatches sl g"
  obtains a where "hs_obj sl = Some a" and "a < length (ko_objs w)" and "hs_state sl = SlotLive"
    and "hs_generation sl = g" and "owned_row_ok w sl" and "hs_generation sl \<le> kHandleGenerationMax"
  using assms by (auto simp: slot_ok_def SlotMatches_def owned_row_ok_def split: option.splits)

lemma at_row_simps [simp]:
  "at_row t (unat (dec_slot d)) t d = 1" "k \<noteq> unat (dec_slot d) \<Longrightarrow> at_row t k u d = 0" "u \<noteq> t \<Longrightarrow> at_row t k u d = 0"
  by (simp_all add: at_row_def)

lemma with_decoded_result:
  assumes "\<And>d. decoded_ok d \<Longrightarrow> HandleDecode h = Some (dec_slot d, dec_generation d) \<Longrightarrow>
    (\<exists>err. f d = Inr (Inl err, s)) \<or> P d (f d)"
  shows "(\<exists>err. with_decoded h f s = Inr (Inl err, s)) \<or>
    (\<exists>d. decoded_ok d \<and> HandleDecode h = Some (dec_slot d, dec_generation d) \<and> P d (with_decoded h f s))"
proof (cases rule: with_decoded_cases [of h f s])
  case (2 d)
  with assms [OF 2(1,2)] show ?thesis by auto
qed auto

section \<open>Retained lookup\<close>

definition pin_row :: "HandleTable \<Rightarrow> DecodedHandle \<Rightarrow> HandleTable" where
  "pin_row tb d = (let sl = slot_at tb (dec_slot d) in
     (set_slot (dec_slot d) (sl\<lparr>hs_acquisition_pins := hs_acquisition_pins sl + 1\<rparr>) tb)
       \<lparr>ht_active_operations := ht_active_operations tb + 1\<rparr>)"

definition pin_guard :: "kworld \<Rightarrow> KObjectType \<Rightarrow> u64 \<Rightarrow> HandleTable \<Rightarrow> DecodedHandle \<Rightarrow> bool" where
  "pin_guard w ty req tb d \<longleftrightarrow> (let sl = slot_at tb (dec_slot d) in
     ht_state tb = TableOpen \<and> SlotMatches sl (dec_generation d) \<and>
     (ty = KTypeInvalid \<or> obj_type w (the (hs_obj sl)) = ty) \<and> hs_rights sl AND req = req \<and>
     hs_acquisition_pins sl \<noteq> 0xFFFFFFFF \<and> ht_active_operations tb \<noteq> 0xFFFFFFFF)"

lemma pin_result:
  obtains err where "RetainSnapshot_pin w h ty req tb = Inr (Inl err, tb)"
  | d where "decoded_ok d" and "HandleDecode h = Some (dec_slot d, dec_generation d)" and "pin_guard w ty req tb d"
    and "RetainSnapshot_pin w h ty req tb =
      Inr (Inr (d, the (hs_obj (slot_at tb (dec_slot d))), hs_rights (slot_at tb (dec_slot d))), pin_row tb d)"
proof -
  have "(\<exists>err. RetainSnapshot_pin w h ty req tb = Inr (Inl err, tb)) \<or>
    (\<exists>d. decoded_ok d \<and> HandleDecode h = Some (dec_slot d, dec_generation d) \<and> (pin_guard w ty req tb d \<and>
      RetainSnapshot_pin w h ty req tb =
        Inr (Inr (d, the (hs_obj (slot_at tb (dec_slot d))), hs_rights (slot_at tb (dec_slot d))), pin_row tb d)))"
    unfolding RetainSnapshot_pin_def
    by (rule with_decoded_result) (auto simp: Let_def pin_guard_def pin_row_def)
  with that show thesis by blast
qed

lemma pin_row_ok:
  assumes ok: "table_ok w t tb (p # ps)" and idle: "is_idle p" and d: "decoded_ok d"
    and guard: "pin_guard w ty req tb d"
  obtains obj where "hs_obj (slot_at tb (dec_slot d)) = Some obj" and "obj < length (ko_objs w)"
    and "hs_obj (slot_at (pin_row tb d) (dec_slot d)) = Some obj"
    and "\<And>rights k. table_ok w t (pin_row tb d) (Pinned t d obj rights k # ps)"
    and "stable t tb (pin_row tb d) ps" and "\<And>a. rows_of a (pin_row tb d) = rows_of a tb"
proof -
  define i where "i = unat (dec_slot d)"
  define sl where "sl = ht_slots tb ! i"
  define sl' where "sl' = sl\<lparr>hs_acquisition_pins := hs_acquisition_pins sl + 1\<rparr>"
  have i: "0 < i" "i < 64"
    using decoded_okD [OF d] by (simp_all add: i_def)
  note len = table_okD(1) [OF ok] and row = row_okD [OF table_ok_row [OF ok i(2)], folded sl_def]
  have g: "ht_state tb = TableOpen" "SlotMatches sl (dec_generation d)" "hs_acquisition_pins sl \<noteq> 0xFFFFFFFF"
    "ht_active_operations tb \<noteq> 0xFFFFFFFF"
    using guard by (simp_all add: pin_guard_def Let_def sl_def i_def)
  obtain obj where obj: "hs_obj sl = Some obj" "obj < length (ko_objs w)" "hs_state sl = SlotLive"
    using SlotMatches_owned [OF row(1) g(2)] by blast
  have tb': "ht_slots (pin_row tb d) = (ht_slots tb)[i := sl']" "ht_state (pin_row tb d) = ht_state tb"
    "ht_next_free_hint (pin_row tb d) = ht_next_free_hint tb"
    "unat (ht_active_operations (pin_row tb d)) = Suc (tally (active_at t) ps)"
    using table_okD(3) [OF ok] idle g(4)
    by (simp_all add: pin_row_def Let_def sl'_def sl_def i_def u32_succ_unat)
  have sl': "slot_ok w sl'" "unat (hs_acquisition_pins sl') = Suc (tally (pin_at t i) ps)"
    using row(1,2) idle g(3) obj by (simp_all add: sl'_def u32_succ_unat slot_ok_def owned_row_ok_def)
  note nodrain = table_ok_open_drain [OF ok g(1)]
  show thesis
  proof (rule that [of obj])
    show "table_ok w t (pin_row tb d) (Pinned t d obj rights k # ps)" for rights k
    proof (rule table_ok_update [OF ok i tb'(1,2)])
      show "row_ok w t i sl' (Pinned t d obj rights k # ps)"
        using sl' row(3) obj(3) i idle by (simp add: row_ok_def sl'_def) (simp add: i_def)
    qed (use idle tb' table_okD(2) [OF ok] g(1) in \<open>simp_all add: i_def\<close>)
    show "stable t tb (pin_row tb d) ps"
      using nodrain by (intro stable_update [OF len i(2) tb'(1,2)]) (simp_all add: sl_def sl'_def row_le_def)
    show "rows_of a (pin_row tb d) = rows_of a tb" for a
      by (rule rows_of_same [OF len i(2) tb'(1)]) (simp add: sl_def sl'_def)
  qed (use obj tb'(1) len i in \<open>simp_all add: sl_def sl'_def i_def [symmetric]\<close>)
qed

text \<open>A thread that holds no claim on any table.\<close>

definition quiet :: "pc \<Rightarrow> bool" where
  "quiet p \<longleftrightarrow> (\<forall>t i. pin_at t i p = 0 \<and> close_at t i p = 0 \<and> active_at t p = 0 \<and> drain_at t p = 0)"

lemma quiet_simps [simp]:
  "quiet (Returned r)" "quiet (Duplicating obj rights dst)" "quiet (Releasing obj r)" "quiet (DrainWaiting t)"
  by (simp_all add: quiet_def)

lemma idle_quiet: "is_idle p \<Longrightarrow> quiet p"
  by (simp add: quiet_def)

lemma owned_not_dead: "slot_ok w sl \<Longrightarrow> hs_obj sl = Some obj \<Longrightarrow> \<not> dead_row sl"
  by (auto simp: slot_ok_def dead_row_def free_slot_clear_def)

lemma owned_state: "slot_ok w sl \<Longrightarrow> hs_obj sl = Some obj \<Longrightarrow>
    owned_row_ok w sl \<and> obj < length (ko_objs w) \<and> (hs_state sl = SlotLive \<or> hs_state sl = SlotClosing)"
  by (auto simp: slot_ok_def owned_row_ok_def free_slot_clear_def reserved_row_ok_def
      split: HandleSlotState.splits)

lemma u32_pos_pred: "unat (x :: u32) = Suc n \<Longrightarrow> x > 0 \<and> unat (x - 1) = n"
proof -
  assume x: "unat x = Suc n"
  then have "x \<noteq> 0" by auto
  with x u32_pred_unat [of x] show ?thesis by (simp add: word_less_nat_alt)
qed

lemma unpin_ok:
  assumes ok: "table_ok w t tb (Unpinning t d obj rights r k # ps)" and d: "decoded_ok d"
    and obj: "hs_obj (slot_at tb (dec_slot d)) = Some obj" and quiet: "quiet p'"
  obtains tb' where "RetainSnapshot_unpin d obj tb = Inr tb'" and "table_ok w t tb' (p' # ps)"
    and "stable t tb tb' ps" and "\<And>a. rows_of a tb' = rows_of a tb"
proof -
  define i where "i = unat (dec_slot d)"
  define sl where "sl = ht_slots tb ! i"
  define sl' where "sl' = sl\<lparr>hs_acquisition_pins := hs_acquisition_pins sl - 1\<rparr>"
  define tb' where "tb' = (set_slot (dec_slot d) sl' tb)\<lparr>ht_active_operations := ht_active_operations tb - 1\<rparr>"
  have i: "0 < i" "i < 64"
    using decoded_okD [OF d] by (simp_all add: i_def)
  have obj': "hs_obj sl = Some obj"
    using obj by (simp add: sl_def i_def)
  note len = table_okD(1) [OF ok] and row = row_okD [OF table_ok_row [OF ok i(2)], folded sl_def]
  have live: "\<not> dead_rows tb"
    using owned_not_dead [OF row(1) obj'] i(2) by (auto simp: dead_rows_def sl_def)
  have pins: "hs_acquisition_pins sl > 0" "unat (hs_acquisition_pins sl - 1) = tally (pin_at t i) ps"
    using u32_pos_pred [of "hs_acquisition_pins sl"] row(2) by (simp_all add: i_def)
  have act: "ht_active_operations tb > 0" "unat (ht_active_operations tb - 1) = tally (active_at t) ps"
    using u32_pos_pred [of "ht_active_operations tb"] table_okD(3) [OF ok] by simp_all
  have tb'f: "ht_slots tb' = (ht_slots tb)[i := sl']" "ht_state tb' = ht_state tb"
    "ht_next_free_hint tb' = ht_next_free_hint tb" "ht_active_operations tb' = ht_active_operations tb - 1"
    by (simp_all add: tb'_def i_def)
  have sl': "slot_ok w sl'"
    using row(1) obj' owned_state [OF row(1) obj'] by (auto simp: sl'_def slot_ok_def owned_row_ok_def)
  show thesis
  proof (rule that)
    show "RetainSnapshot_unpin d obj tb = Inr tb'"
      using obj' pins(1) act(1) by (simp add: RetainSnapshot_unpin_def Let_def tb'_def sl'_def sl_def i_def)
    show "table_ok w t tb' (p' # ps)"
    proof (rule table_ok_update [OF ok i tb'f(1,2)])
      show "row_ok w t i sl' (p' # ps)"
        using sl' pins(2) row(3) i quiet by (simp add: row_ok_def quiet_def sl'_def)
      show "pin_at t l p' = pin_at t l (Unpinning t d obj rights r k) \<and>
          close_at t l p' = close_at t l (Unpinning t d obj rights r k)" if "l \<noteq> i" for l
        using that quiet by (simp add: i_def quiet_def)
    qed (use quiet act tb'f table_okD(2,5) [OF ok] live in \<open>auto simp: quiet_def\<close>)
    show "stable t tb tb' ps"
      using live act by (intro stable_update [OF len i(2) tb'f(1,2)]) (auto simp: sl_def sl'_def row_le_def)
    show "rows_of a tb' = rows_of a tb" for a
      by (rule rows_of_same [OF len i(2) tb'f(1)]) (simp add: sl_def sl'_def)
  qed
qed

section \<open>Close\<close>

text \<open>Both \<^verbatim>\<open>HandleTableDetach\<close> and \<^verbatim>\<open>HandleTableAdoptReplace\<close> begin by claiming a live row.\<close>

definition claim_row :: "HandleTable \<Rightarrow> DecodedHandle \<Rightarrow> HandleTable" where
  "claim_row tb d = (set_slot (dec_slot d) ((slot_at tb (dec_slot d))\<lparr>hs_state := SlotClosing\<rparr>) tb)
     \<lparr>ht_active_operations := ht_active_operations tb + 1\<rparr>"

definition claim_guard :: "HandleTable \<Rightarrow> DecodedHandle \<Rightarrow> bool" where
  "claim_guard tb d \<longleftrightarrow> ht_state tb = TableOpen \<and> SlotMatches (slot_at tb (dec_slot d)) (dec_generation d) \<and>
     ht_active_operations tb \<noteq> 0xFFFFFFFF"

lemma detach_begin_result:
  obtains err where "HandleTableDetach_begin w h ty req tb = Inr (Inl err, tb)"
  | d where "decoded_ok d" and "HandleDecode h = Some (dec_slot d, dec_generation d)" and "claim_guard tb d"
    and "hs_rights (slot_at tb (dec_slot d)) AND req = req"
    and "HandleTableDetach_begin w h ty req tb = Inr (Inr d, claim_row tb d)"
proof -
  have "(\<exists>err. HandleTableDetach_begin w h ty req tb = Inr (Inl err, tb)) \<or>
    (\<exists>d. decoded_ok d \<and> HandleDecode h = Some (dec_slot d, dec_generation d) \<and> (claim_guard tb d \<and>
      hs_rights (slot_at tb (dec_slot d)) AND req = req \<and>
      HandleTableDetach_begin w h ty req tb = Inr (Inr d, claim_row tb d)))"
    unfolding HandleTableDetach_begin_def
    by (rule with_decoded_result) (auto simp: Let_def claim_guard_def claim_row_def)
  with that show thesis by blast
qed

definition adopt_guard :: "kworld \<Rightarrow> kaddr \<Rightarrow> u64 \<Rightarrow> HandleTable \<Rightarrow> DecodedHandle \<Rightarrow> bool" where
  "adopt_guard w obj rights tb d \<longleftrightarrow> claim_guard tb d \<and> hs_generation (slot_at tb (dec_slot d)) \<noteq> kHandleGenerationMax \<and>
     rights \<noteq> 0 \<and> within rights (TypeAllowedRights (obj_type w obj))"

lemma adopt_begin_result:
  obtains err where "HandleTableAdoptReplace_begin w h obj rights ty tb = Inr (Inl err, tb)"
  | d a where "decoded_ok d" and "HandleDecode h = Some (dec_slot d, dec_generation d)" and "obj = Some a"
    and "adopt_guard w a rights tb d"
    and "HandleTableAdoptReplace_begin w h obj rights ty tb = Inr (Inr d, claim_row tb d)"
proof -
  have "(\<exists>err. HandleTableAdoptReplace_begin w h obj rights ty tb = Inr (Inl err, tb)) \<or>
    (\<exists>d. decoded_ok d \<and> HandleDecode h = Some (dec_slot d, dec_generation d) \<and> (\<exists>a. obj = Some a \<and>
      adopt_guard w a rights tb d \<and> HandleTableAdoptReplace_begin w h obj rights ty tb = Inr (Inr d, claim_row tb d)))"
    unfolding HandleTableAdoptReplace_begin_def
    by (rule with_decoded_result) (auto simp: Let_def claim_guard_def adopt_guard_def claim_row_def exceeds_iff)
  with that show thesis by blast
qed

lemma claim_row_ok:
  assumes ok: "table_ok w t tb (p # ps)" and idle: "is_idle p" and d: "decoded_ok d"
    and guard: "claim_guard tb d"
  shows "table_ok w t (claim_row tb d) (Closing t d k # ps)" and "stable t tb (claim_row tb d) ps"
    and "rows_of a (claim_row tb d) = rows_of a tb"
    and "hs_state (slot_at (claim_row tb d) (dec_slot d)) = SlotClosing"
    and "hs_generation (slot_at (claim_row tb d) (dec_slot d)) = dec_generation d"
proof -
  define i where "i = unat (dec_slot d)"
  define sl where "sl = ht_slots tb ! i"
  define sl' where "sl' = sl\<lparr>hs_state := SlotClosing\<rparr>"
  have i: "0 < i" "i < 64"
    using decoded_okD [OF d] by (simp_all add: i_def)
  note len = table_okD(1) [OF ok] and row = row_okD [OF table_ok_row [OF ok i(2)], folded sl_def]
  have g: "ht_state tb = TableOpen" "SlotMatches sl (dec_generation d)" "ht_active_operations tb \<noteq> 0xFFFFFFFF"
    using guard by (simp_all add: claim_guard_def sl_def i_def)
  obtain obj where obj: "hs_obj sl = Some obj" "hs_state sl = SlotLive" "hs_generation sl = dec_generation d"
    using SlotMatches_owned [OF row(1) g(2)] by blast
  have tb': "ht_slots (claim_row tb d) = (ht_slots tb)[i := sl']" "ht_state (claim_row tb d) = ht_state tb"
    "ht_next_free_hint (claim_row tb d) = ht_next_free_hint tb"
    "unat (ht_active_operations (claim_row tb d)) = Suc (tally (active_at t) ps)"
    using table_okD(3) [OF ok] idle g(3)
    by (simp_all add: claim_row_def sl'_def sl_def i_def u32_succ_unat)
  have sl': "slot_ok w sl'"
    using row(1) obj by (simp add: sl'_def slot_ok_def owned_row_ok_def)
  note nodrain = table_ok_open_drain [OF ok g(1)]
  show "table_ok w t (claim_row tb d) (Closing t d k # ps)"
  proof (rule table_ok_update [OF ok i tb'(1,2)])
    show "row_ok w t i sl' (Closing t d k # ps)"
      using sl' row(2,3) obj i idle by (simp add: row_ok_def sl'_def) (simp add: i_def)
  qed (use idle tb' table_okD(2) [OF ok] g(1) in \<open>simp_all add: i_def\<close>)
  show "stable t tb (claim_row tb d) ps"
    using nodrain row(3) obj idle
    by (intro stable_update [OF len i(2) tb'(1,2)]) (simp_all add: sl_def [symmetric] sl'_def row_le_def)
  show "rows_of a (claim_row tb d) = rows_of a tb"
    by (rule rows_of_same [OF len i(2) tb'(1)]) (simp add: sl_def sl'_def)
  show "hs_state (slot_at (claim_row tb d) (dec_slot d)) = SlotClosing"
    "hs_generation (slot_at (claim_row tb d) (dec_slot d)) = dec_generation d"
    using len i obj by (simp_all add: tb' i_def [symmetric] sl'_def)
qed

lemma unclaim_ok:
  assumes ok: "table_ok w t tb (Closing t d k # ps)" and d: "decoded_ok d"
    and closing: "hs_state (slot_at tb (dec_slot d)) = SlotClosing"
    and free: "hs_acquisition_pins (slot_at tb (dec_slot d)) = 0"
    and sl': "slot_ok w sl'" "hs_state sl' \<noteq> SlotClosing" "hs_acquisition_pins sl' = 0"
    and life: "row_le (slot_at tb (dec_slot d)) sl'"
    and tb': "tb' = (set_slot (dec_slot d) sl' tb)\<lparr>ht_active_operations := ht_active_operations tb - 1\<rparr>"
    and quiet: "quiet p'"
  shows "ht_active_operations tb > 0" and "table_ok w t tb' (p' # ps)" and "stable t tb tb' ps"
    and "rows_of a tb' + (if hs_obj (slot_at tb (dec_slot d)) = Some a then 1 else 0) =
      rows_of a tb + (if hs_obj sl' = Some a then 1 else 0)"
proof -
  define i where "i = unat (dec_slot d)"
  have i: "0 < i" "i < 64"
    using decoded_okD [OF d] by (simp_all add: i_def)
  note len = table_okD(1) [OF ok] and row = row_okD [OF table_ok_row [OF ok i(2)]]
  have live: "\<not> dead_rows tb"
    using closing i(2) by (auto simp: dead_rows_def dead_row_def i_def)
  have idle: "tally (pin_at t i) ps = 0" "tally (close_at t i) ps = 0"
    using row(2,3) free closing by (simp_all add: i_def)
  have act: "ht_active_operations tb > 0" "unat (ht_active_operations tb - 1) = tally (active_at t) ps"
    using u32_pos_pred [of "ht_active_operations tb"] table_okD(3) [OF ok] by simp_all
  then show "ht_active_operations tb > 0" by simp
  have tb'f: "ht_slots tb' = (ht_slots tb)[i := sl']" "ht_state tb' = ht_state tb"
    "ht_next_free_hint tb' = ht_next_free_hint tb" "ht_active_operations tb' = ht_active_operations tb - 1"
    by (simp_all add: tb' i_def)
  show "table_ok w t tb' (p' # ps)"
  proof (rule table_ok_update [OF ok i tb'f(1,2)])
    show "row_ok w t i sl' (p' # ps)"
      using sl' idle i quiet by (simp add: row_ok_def quiet_def)
    show "pin_at t l p' = pin_at t l (Closing t d k) \<and> close_at t l p' = close_at t l (Closing t d k)"
      if "l \<noteq> i" for l
      using that quiet by (simp add: i_def quiet_def)
  qed (use quiet act tb'f table_okD(2,5) [OF ok] live in \<open>auto simp: quiet_def\<close>)
  show "stable t tb tb' ps"
    using live act idle life by (intro stable_update [OF len i(2) tb'f(1,2)]) (auto simp: i_def)
  show "rows_of a tb' + (if hs_obj (slot_at tb (dec_slot d)) = Some a then 1 else 0) =
      rows_of a tb + (if hs_obj sl' = Some a then 1 else 0)"
    using rows_of_update [OF len i(2) tb'f(1), of a] by (simp add: i_def)
qed

lemma closing_owned:
  assumes "table_ok w t tb ps" and "decoded_ok d" and "hs_state (slot_at tb (dec_slot d)) = SlotClosing"
  obtains obj where "hs_obj (slot_at tb (dec_slot d)) = Some obj" and "obj < length (ko_objs w)"
    and "owned_row_ok w (slot_at tb (dec_slot d))" and "slot_ok w (slot_at tb (dec_slot d))"
proof -
  have "slot_ok w (slot_at tb (dec_slot d))"
    using row_okD(1) table_ok_row [OF assms(1)] decoded_okD [OF assms(2)] by blast
  with assms(3) that show thesis
    by (auto simp: slot_ok_def owned_row_ok_def split: option.splits)
qed

lemma pinned_positive:
  assumes ok: "table_ok w t tb (Closing t d k # ps)" and d: "decoded_ok d"
    and "hs_acquisition_pins (slot_at tb (dec_slot d)) \<noteq> 0"
  shows "0 < tally (pin_at t (unat (dec_slot d))) ps"
proof -
  have "0 < unat (hs_acquisition_pins (slot_at tb (dec_slot d)))"
    using assms(3) by (simp add: unat_gt_0)
  then show ?thesis
    using row_okD(2) [OF table_ok_row [OF ok]] decoded_okD [OF d] by fastforce
qed

lemma detach_try_ok:
  assumes ok: "table_ok w t tb (Closing t d k # ps)" and d: "decoded_ok d"
    and row: "hs_state (slot_at tb (dec_slot d)) = SlotClosing" "hs_generation (slot_at tb (dec_slot d)) = dec_generation d"
  obtains "HandleTableDetach_try d tb = Inr (None, tb)" and "0 < tally (pin_at t (unat (dec_slot d))) ps"
  | obj tb' where "HandleTableDetach_try d tb = Inr (Some obj, tb')" and "obj < length (ko_objs w)"
    and "\<And>p'. quiet p' \<Longrightarrow> table_ok w t tb' (p' # ps)" and "stable t tb tb' ps"
    and "\<And>a. rows_of a tb' + (if obj = a then 1 else 0) = rows_of a tb"
proof (cases "hs_acquisition_pins (slot_at tb (dec_slot d)) = 0")
  case False
  with pinned_positive [OF ok d] row that(1) show thesis by (simp add: HandleTableDetach_try_def)
next
  case True
  define sl where "sl = slot_at tb (dec_slot d)"
  define sl' where "sl' = sl\<lparr>hs_obj := None, hs_rights := 0, hs_reservation_nonce := 0,
      hs_reserved_type := KTypeInvalid, hs_state := ClosedStateFor sl\<rparr>"
  define tb' where "tb' = (set_slot (dec_slot d) sl' tb)\<lparr>ht_active_operations := ht_active_operations tb - 1\<rparr>"
  obtain obj where obj: "hs_obj sl = Some obj" "obj < length (ko_objs w)" "slot_ok w sl"
    using closing_owned [OF ok d row(1)] by (auto simp: sl_def)
  have sl': "slot_ok w sl'" "hs_state sl' \<noteq> SlotClosing" "hs_acquisition_pins sl' = 0"
    using obj(3) True by (auto simp: sl'_def sl_def [symmetric] slot_ok_def ClosedStateFor_def free_slot_clear_def)
  have life: "row_le (slot_at tb (dec_slot d)) sl'"
    using row(1) by (simp add: row_le_def sl'_def sl_def ClosedStateFor_def)
  note fin = unclaim_ok [OF ok d row(1) True sl' life tb'_def]
  show thesis
  proof (rule that(2) [of obj tb'])
    show "HandleTableDetach_try d tb = Inr (Some obj, tb')"
      using row True fin(1) [of "Returned ResNothing"] obj
      by (simp add: HandleTableDetach_try_def Let_def tb'_def sl'_def sl_def)
    show "rows_of a tb' + (if obj = a then 1 else 0) = rows_of a tb" for a
      using fin(4) [of "Returned ResNothing" a] obj(1) by (auto simp: sl'_def sl_def)
  qed (use fin(2,3) obj(2) quiet_simps(1) in blast)+
qed

lemma generation_succ:
  assumes "g \<le> kHandleGenerationMax" and "g \<noteq> kHandleGenerationMax"
  shows "g + 1 \<noteq> 0" and "g + 1 \<le> kHandleGenerationMax" and "g < g + 1" and "unat (g + 1) = unat g + 1"
proof -
  have "g < kHandleGenerationMax"
    using assms by simp
  then have lt: "unat g < 0x7FFFF"
    by (simp add: word_less_nat_alt kdefs)
  then show u: "unat (g + 1) = unat g + 1"
    by (subst unat_add_lt) simp_all
  show "g + 1 \<noteq> 0"
    using u by auto
  show "g + 1 \<le> kHandleGenerationMax" "g < g + 1"
    using u lt by (simp_all add: word_le_nat_alt word_less_nat_alt kdefs)
qed

lemma HandleEncode_succ:
  assumes "decoded_ok d" and "g \<le> kHandleGenerationMax" and "g \<noteq> kHandleGenerationMax"
  shows "HandleEncode (dec_slot d) (g + 1) \<noteq> kHandleInvalid"
proof -
  have "valid_row (dec_slot d) (g + 1)"
    using decoded_okD [OF assms(1)] generation_succ [OF assms(2,3)]
    by (simp add: valid_row_def word_le_nat_alt kdefs)
  then show ?thesis
    using HandleEncode_valid by (simp add: kHandleInvalid_def)
qed

lemma adopt_try_ok:
  assumes ok: "table_ok w t tb (Closing t d k # ps)" and d: "decoded_ok d"
    and row: "hs_state (slot_at tb (dec_slot d)) = SlotClosing" "hs_generation (slot_at tb (dec_slot d)) = dec_generation d"
    and gen: "dec_generation d \<noteq> kHandleGenerationMax"
    and new: "repl < length (ko_objs w)" "rights \<noteq> 0" "within rights (TypeAllowedRights (obj_type w repl))"
  obtains "HandleTableAdoptReplace_try d repl rights tb = Inr ((kHandleInvalid, None), tb)"
    and "0 < tally (pin_at t (unat (dec_slot d))) ps"
  | h obj tb' where "HandleTableAdoptReplace_try d repl rights tb = Inr ((h, Some obj), tb')"
    and "obj < length (ko_objs w)"
    and "\<And>p'. quiet p' \<Longrightarrow> table_ok w t tb' (p' # ps)" and "stable t tb tb' ps"
    and "\<And>a. rows_of a tb' + (if obj = a then 1 else 0) = rows_of a tb + (if repl = a then 1 else 0)"
proof (cases "hs_acquisition_pins (slot_at tb (dec_slot d)) = 0")
  case False
  with pinned_positive [OF ok d] row that(1) show thesis by (simp add: HandleTableAdoptReplace_try_def)
next
  case True
  define sl where "sl = slot_at tb (dec_slot d)"
  define sl' where "sl' = sl\<lparr>hs_generation := hs_generation sl + 1, hs_obj := Some repl, hs_rights := rights,
    hs_state := SlotLive\<rparr>"
  define tb' where "tb' = (set_slot (dec_slot d) sl' tb)\<lparr>ht_active_operations := ht_active_operations tb - 1\<rparr>"
  obtain obj where obj: "hs_obj sl = Some obj" "obj < length (ko_objs w)" "owned_row_ok w sl" "slot_ok w sl"
    using closing_owned [OF ok d row(1)] by (auto simp: sl_def)
  have le: "hs_generation sl \<le> kHandleGenerationMax" "hs_generation sl \<noteq> kHandleGenerationMax"
    using obj(4) row(2) gen by (simp_all add: slot_ok_def sl_def)
  have sl': "slot_ok w sl'" "hs_state sl' \<noteq> SlotClosing" "hs_acquisition_pins sl' = 0"
    using obj(3) new True generation_succ [OF le]
    by (simp_all add: sl'_def sl_def [symmetric] slot_ok_def owned_row_ok_def)
  have life: "row_le (slot_at tb (dec_slot d)) sl'"
    using generation_succ(3) [OF le] by (simp add: row_le_def sl'_def sl_def)
  note fin = unclaim_ok [OF ok d row(1) True sl' life tb'_def]
  show thesis
  proof (rule that(2) [of "HandleEncode (dec_slot d) (hs_generation sl + 1)" obj tb'])
    show "HandleTableAdoptReplace_try d repl rights tb =
        Inr ((HandleEncode (dec_slot d) (hs_generation sl + 1), Some obj), tb')"
      using row True fin(1) [of "Returned ResNothing"] obj HandleEncode_succ [OF d le]
      by (simp add: HandleTableAdoptReplace_try_def Let_def tb'_def sl'_def sl_def)
    show "rows_of a tb' + (if obj = a then 1 else 0) = rows_of a tb + (if repl = a then 1 else 0)" for a
      using fin(4) [of "Returned ResNothing" a] obj(1) by (auto simp: sl'_def sl_def)
  qed (use fin(2,3) obj(2) quiet_simps(1) in blast)+
qed

end
