(* ===== verification/HandleTableAlloc.thy ===== *)
theory HandleTableAlloc
  imports HandleTableInv
begin

text \<open>
  The sections that allocate, publish, narrow and drain rows keep a handle table well-formed, and
  what they do to the objects that the table owns.
\<close>

section \<open>Rows changed by one section\<close>

lemma row_change_ok:
  assumes ok: "table_ok w t tb (p # ps)" and quiet: "quiet p" "quiet p'" and i: "0 < i" "i < 64"
    and open': "ht_state tb = TableOpen"
    and sl': "slot_ok w sl'" "hs_acquisition_pins sl' = hs_acquisition_pins (ht_slots tb ! i)"
      "hs_state sl' \<noteq> SlotClosing" "hs_state (ht_slots tb ! i) \<noteq> SlotClosing"
      "hs_acquisition_pins sl' = 0 \<or> hs_obj sl' = hs_obj (ht_slots tb ! i)" "row_le (ht_slots tb ! i) sl'"
    and tb': "ht_slots tb' = (ht_slots tb)[i := sl']" "ht_state tb' = ht_state tb"
      "unat (ht_next_free_hint tb') < 64" "ht_active_operations tb' = ht_active_operations tb"
  shows "table_ok w t tb' (p' # ps)" and "stable t tb tb' ps"
    and "rows_of a tb' + (if hs_obj (ht_slots tb ! i) = Some a then 1 else 0) =
      rows_of a tb + (if hs_obj sl' = Some a then 1 else 0)"
proof -
  note len = table_okD(1) [OF ok] and row = row_okD [OF table_ok_row [OF ok i(2)]]
  have pins: "unat (hs_acquisition_pins sl') = tally (pin_at t i) ps" and close: "tally (close_at t i) ps = 0"
    using row(2,3) sl'(2,4) quiet by (simp_all add: quiet_def)
  note nodrain = table_ok_open_drain [OF ok open']
  show "table_ok w t tb' (p' # ps)"
  proof (rule table_ok_update [OF ok i tb'(1,2,3)])
    show "row_ok w t i sl' (p' # ps)"
      using sl' pins close quiet i by (simp add: row_ok_def quiet_def)
  qed (use quiet tb'(4) table_okD(3) [OF ok] open' in \<open>simp_all add: quiet_def\<close>)
  show "stable t tb tb' ps"
    using nodrain close sl'(5,6) pins by (intro stable_update [OF len i(2) tb'(1,2)]) auto
  show "rows_of a tb' + (if hs_obj (ht_slots tb ! i) = Some a then 1 else 0) =
      rows_of a tb + (if hs_obj sl' = Some a then 1 else 0)"
    by (rule rows_of_update [OF len i(2) tb'(1)])
qed

section \<open>The scan for a free row\<close>

lemma scan_index_bound:
  assumes "unat start < 64" and "unat step < 64"
  shows "unat (scan_index start step) = (unat start + unat step) mod 64"
proof -
  have sum: "unat (start + step) = unat start + unat step"
    using assms by (subst unat_add_lt) simp_all
  show ?thesis
  proof (cases "start + step \<ge> 64")
    case True
    then have ge: "unat start + unat step \<ge> 64"
      using sum by (simp add: word_le_nat_alt)
    have "unat (start + step - 64) = unat start + unat step - 64"
      using True sum by (simp add: unat_sub_ge)
    also have "\<dots> = (unat start + unat step) mod 64"
      using ge assms by (simp add: le_mod_geq)
    finally show ?thesis
      using True by (simp add: scan_index_def kdefs)
  next
    case False
    then have "unat start + unat step < 64"
      using sum by (simp add: word_le_nat_alt)
    then show ?thesis
      using False sum by (simp add: scan_index_def kdefs)
  qed
qed

definition free_at :: "HandleTable \<Rightarrow> u32 \<Rightarrow> bool" where
  "free_at tb i \<longleftrightarrow> 0 < unat i \<and> unat i < 64 \<and> hs_state (slot_at tb i) = SlotFree"

lemma scan_free_find:
  assumes "\<forall>i<64. slot_ok w (ht_slots tb ! i)" and "unat start < 64" and "\<forall>x\<in>set steps. unat x < 64"
  shows "scan_free what start steps tb = Inr (find (free_at tb) (map (scan_index start) steps), tb)"
  using assms(3)
proof (induction steps)
  case (Cons x steps)
  define i where "i = scan_index start x"
  have i: "unat i < 64"
    using scan_index_bound [OF assms(2), of x] Cons.prems by (simp add: i_def)
  have "free_slot_clear (slot_at tb i) \<and> hs_generation (slot_at tb i) \<noteq> kHandleGenerationMax"
    if "hs_state (slot_at tb i) = SlotFree"
    using assms(1) i that by (auto simp: slot_ok_def)
  moreover have "i = 0 \<longleftrightarrow> unat i = 0"
    by (simp add: unat_eq_zero)
  ultimately show ?case
    using Cons i by (simp add: free_at_def i_def [symmetric])
qed simp

definition first_free :: "HandleTable \<Rightarrow> u32 option" where
  "first_free tb = find (free_at tb) (map (scan_index (scan_start tb)) scan_steps)"

lemma scan_start_bound: "unat (scan_start tb) < 64"
  by (simp add: scan_start_def kdefs unat_mod)

lemma scan_steps_bound: "\<forall>x\<in>set scan_steps. unat x < 64"
  by (auto simp: scan_steps_def kdefs unat_of_nat_u32)

lemma table_ok_slots: "table_ok w t tb ps \<Longrightarrow> \<forall>i<64. slot_ok w (ht_slots tb ! i)"
  using table_ok_row row_okD(1) by blast

lemma scan_free_eq:
  "table_ok w t tb ps \<Longrightarrow> scan_free what (scan_start tb) scan_steps tb = Inr (first_free tb, tb)"
  unfolding first_free_def by (rule scan_free_find [OF table_ok_slots scan_start_bound scan_steps_bound])

lemma first_free_Some: "first_free tb = Some i \<Longrightarrow> free_at tb i"
  unfolding first_free_def by (auto simp: find_Some_iff)

text \<open>The scan visits every row: it fails only on a table without a free row.\<close>

lemma first_free_None: "first_free tb = None \<longleftrightarrow> (\<forall>i. \<not> free_at tb i)"
proof
  assume none: "first_free tb = None"
  show "\<forall>i. \<not> free_at tb i"
  proof (intro allI notI)
    fix i
    assume free: "free_at tb i"
    define n where "n = (unat i + 64 - unat (scan_start tb)) mod 64"
    have n: "n < 64" by (simp add: n_def)
    have "(unat (scan_start tb) + n) mod 64 = unat i"
      using free scan_start_bound [of tb] by (simp add: n_def free_at_def mod_add_right_eq)
    then have "unat (scan_index (scan_start tb) (of_nat n)) = unat i"
      using scan_index_bound [OF scan_start_bound, of "of_nat n" tb] n by (simp add: unat_of_nat_u32)
    then have "scan_index (scan_start tb) (of_nat n) = i"
      by (simp add: word_unat_eq_iff)
    moreover have "of_nat n \<in> set scan_steps"
      using n by (simp add: scan_steps_def kdefs)
    ultimately show False
      using none free by (auto simp: first_free_def find_None_iff)
  qed
qed (auto simp: first_free_def find_None_iff)

section \<open>Insertion\<close>

definition insert_row :: "HandleTable \<Rightarrow> u32 \<Rightarrow> kaddr \<Rightarrow> u64 \<Rightarrow> HandleTable" where
  "insert_row tb i a rights = (let sl = slot_at tb i in
     (set_slot i (sl\<lparr>hs_generation := hs_generation sl + 1, hs_obj := Some a, hs_rights := rights,
       hs_reservation_nonce := 0, hs_reserved_type := KTypeInvalid, hs_state := SlotLive\<rparr>) tb)
       \<lparr>ht_next_free_hint := i\<rparr>)"

definition insert_guard :: "kworld \<Rightarrow> kaddr \<Rightarrow> u64 \<Rightarrow> HandleTable \<Rightarrow> bool" where
  "insert_guard w a rights tb \<longleftrightarrow> obj_type w a \<noteq> KTypeInvalid \<and> rights \<noteq> 0 \<and> within rights kHandleRightAll \<and>
     within rights (TypeAllowedRights (obj_type w a)) \<and> refs w a \<noteq> 0 \<and> ht_state tb = TableOpen"

lemma free_row:
  assumes "table_ok w t tb ps" and "free_at tb i"
  shows "free_slot_clear (slot_at tb i)" and "hs_generation (slot_at tb i) \<le> kHandleGenerationMax"
    and "hs_generation (slot_at tb i) \<noteq> kHandleGenerationMax"
    and "HandleEncode i (hs_generation (slot_at tb i) + 1) \<noteq> kHandleInvalid"
proof -
  show s: "free_slot_clear (slot_at tb i)" "hs_generation (slot_at tb i) \<le> kHandleGenerationMax"
    "hs_generation (slot_at tb i) \<noteq> kHandleGenerationMax"
    using table_ok_slots [OF assms(1)] assms(2) by (auto simp: slot_ok_def free_at_def)
  have "decoded_ok \<lparr>dec_slot = i, dec_generation = 1\<rparr>"
    using assms(2) by (simp add: decoded_ok_def valid_row_def free_at_def)
  from HandleEncode_succ [OF this s(2,3)] show "HandleEncode i (hs_generation (slot_at tb i) + 1) \<noteq> kHandleInvalid"
    by simp
qed

lemma hint_guard: "table_ok w t tb ps \<Longrightarrow> ht_next_free_hint tb < kHandleTableCapacity"
  using table_okD(2) [of w t tb ps] by (simp add: kdefs word_less_nat_alt)

lemma insert_result:
  assumes ok: "table_ok w t tb ps"
  obtains err where "HandleTableInsert w obj rights tb = Inr (Inl err, tb)"
    and "\<And>a. obj = Some a \<Longrightarrow> insert_guard w a rights tb \<Longrightarrow> first_free tb = None \<and> err = ErrOutOfMemory"
  | a i where "obj = Some a" and "insert_guard w a rights tb" and "first_free tb = Some i"
    and "HandleTableInsert w obj rights tb =
      Inr (Inr (HandleEncode i (hs_generation (slot_at tb i) + 1)), insert_row tb i a rights)"
proof (cases "\<exists>a. obj = Some a \<and> insert_guard w a rights tb")
  case False
  then have "\<exists>err. HandleTableInsert w obj rights tb = Inr (Inl err, tb)"
    using hint_guard [OF ok]
    by (cases obj) (auto simp: HandleTableInsert_def insert_guard_def exceeds_iff KObjectRefcount_def)
  with False that(1) show thesis by blast
next
  case True
  then obtain a where a: "obj = Some a" "insert_guard w a rights tb" by blast
  show thesis
  proof (cases "first_free tb")
    case None
    then have "HandleTableInsert w obj rights tb = Inr (Inl ErrOutOfMemory, tb)"
      using a hint_guard [OF ok]
      by (simp add: HandleTableInsert_def insert_guard_def exceeds_iff KObjectRefcount_def scan_free_eq [OF ok])
    with None that(1) show ?thesis by blast
  next
    case (Some i)
    have "HandleTableInsert w obj rights tb =
      Inr (Inr (HandleEncode i (hs_generation (slot_at tb i) + 1)), insert_row tb i a rights)"
      using a hint_guard [OF ok] Some free_row(4) [OF ok first_free_Some [OF Some]]
      by (simp add: HandleTableInsert_def insert_guard_def exceeds_iff KObjectRefcount_def scan_free_eq [OF ok]
        insert_row_def Let_def)
    with a Some that(2) show ?thesis by blast
  qed
qed

lemma insert_row_ok:
  assumes ok: "table_ok w t tb (p # ps)" and quiet: "quiet p" "quiet p'" and a: "a < length (ko_objs w)"
    and guard: "insert_guard w a rights tb" and free: "free_at tb i"
  shows "table_ok w t (insert_row tb i a rights) (p' # ps)" and "stable t tb (insert_row tb i a rights) ps"
    and "rows_of b (insert_row tb i a rights) = rows_of b tb + (if a = b then 1 else 0)"
proof -
  define sl where "sl = slot_at tb i"
  define sl' where "sl' = sl\<lparr>hs_generation := hs_generation sl + 1, hs_obj := Some a, hs_rights := rights,
       hs_reservation_nonce := 0, hs_reserved_type := KTypeInvalid, hs_state := SlotLive\<rparr>"
  note row = free_row(1-3) [OF ok free, folded sl_def]
  have i: "0 < unat i" "unat i < 64" and st: "hs_state sl = SlotFree"
    using free by (simp_all add: free_at_def sl_def)
  have sl': "slot_ok w sl'"
    using guard a generation_succ [OF row(2,3)] by (simp add: sl'_def slot_ok_def owned_row_ok_def insert_guard_def)
  have tb': "ht_slots (insert_row tb i a rights) = (ht_slots tb)[unat i := sl']"
    "ht_state (insert_row tb i a rights) = ht_state tb" "ht_next_free_hint (insert_row tb i a rights) = i"
    "ht_active_operations (insert_row tb i a rights) = ht_active_operations tb"
    by (simp_all add: insert_row_def Let_def sl'_def sl_def)
  have open': "ht_state tb = TableOpen" using guard by (simp add: insert_guard_def)
  note res = row_change_ok [OF ok quiet i open' sl']
  show "table_ok w t (insert_row tb i a rights) (p' # ps)" "stable t tb (insert_row tb i a rights) ps"
    using row(1) st i tb' generation_succ(3) [OF row(2,3)]
    by (intro res; simp add: sl_def [symmetric] sl'_def free_slot_clear_def row_le_def)+
  have "rows_of b (insert_row tb i a rights) + (if hs_obj (ht_slots tb ! unat i) = Some b then 1 else 0) =
      rows_of b tb + (if hs_obj sl' = Some b then 1 else 0)"
    using row(1) st i tb' generation_succ(3) [OF row(2,3)]
    by (intro res; simp add: sl_def [symmetric] sl'_def free_slot_clear_def row_le_def)
  then show "rows_of b (insert_row tb i a rights) = rows_of b tb + (if a = b then 1 else 0)"
    using row(1) by (simp add: sl_def [symmetric] free_slot_clear_def) (simp add: sl'_def)
qed

section \<open>Reservations\<close>

definition reserve_row :: "HandleTable \<Rightarrow> u32 \<Rightarrow> KObjectType \<Rightarrow> u64 \<Rightarrow> u64 \<Rightarrow> HandleTable" where
  "reserve_row tb i ty rights nonce = (let sl = slot_at tb i in
     (set_slot i (sl\<lparr>hs_generation := hs_generation sl + 1, hs_rights := rights, hs_reservation_nonce := nonce,
       hs_reserved_type := ty, hs_state := SlotReserved\<rparr>) tb)\<lparr>ht_next_free_hint := i\<rparr>)"

lemma reserve_result:
  assumes ok: "table_ok w t tb ps"
  obtains err last' where "HandleTableReserve ty rights (tb, last_nonce) = Inr (Inl err, tb, last')"
    and "last' = last_nonce"
  | i where "ty \<noteq> KTypeInvalid" and "rights \<noteq> 0" and "within rights (TypeAllowedRights ty)"
    and "ht_state tb = TableOpen" and "first_free tb = Some i" and "last_nonce \<noteq> kU64Max"
    and "HandleTableReserve ty rights (tb, last_nonce) =
      Inr (Inr \<lparr>rsv_handle = HandleEncode i (hs_generation (slot_at tb i) + 1), rsv_nonce = last_nonce + 1\<rparr>,
        reserve_row tb i ty rights (last_nonce + 1), last_nonce + 1)"
proof (cases "first_free tb")
  case None
  then have "\<exists>err. HandleTableReserve ty rights (tb, last_nonce) = Inr (Inl err, tb, last_nonce)"
    by (auto simp: HandleTableReserve_def scan_free_eq [OF ok])
  with that(1) show thesis by blast
next
  case (Some i)
  show thesis
  proof (cases "ty \<noteq> KTypeInvalid \<and> rights \<noteq> 0 \<and> within rights kHandleRightAll \<and>
      within rights (TypeAllowedRights ty) \<and> ht_state tb = TableOpen \<and> last_nonce \<noteq> kU64Max")
    case True
    have "last_nonce + 1 \<noteq> 0"
      using True u64_succ_nonzero by blast
    then have "HandleTableReserve ty rights (tb, last_nonce) =
      Inr (Inr \<lparr>rsv_handle = HandleEncode i (hs_generation (slot_at tb i) + 1), rsv_nonce = last_nonce + 1\<rparr>,
        reserve_row tb i ty rights (last_nonce + 1), last_nonce + 1)"
      using True Some hint_guard [OF ok] free_row(4) [OF ok first_free_Some [OF Some]]
      by (simp add: HandleTableReserve_def exceeds_iff scan_free_eq [OF ok] MintHandleReservationNonce_def
        reserve_row_def Let_def)
    with True Some that(2) show ?thesis by blast
  next
    case False
    then have "\<exists>err. HandleTableReserve ty rights (tb, last_nonce) = Inr (Inl err, tb, last_nonce)"
      using Some hint_guard [OF ok]
      by (auto simp: HandleTableReserve_def exceeds_iff scan_free_eq [OF ok] MintHandleReservationNonce_def)
    with that(1) show ?thesis by blast
  qed
qed

lemma reserve_row_ok:
  assumes ok: "table_ok w t tb (p # ps)" and quiet: "quiet p" "quiet p'"
    and guard: "ty \<noteq> KTypeInvalid" "rights \<noteq> 0" "within rights (TypeAllowedRights ty)" "ht_state tb = TableOpen"
      "nonce \<noteq> 0" and free: "free_at tb i"
  shows "table_ok w t (reserve_row tb i ty rights nonce) (p' # ps)" and "stable t tb (reserve_row tb i ty rights nonce) ps"
    and "rows_of b (reserve_row tb i ty rights nonce) = rows_of b tb"
proof -
  define sl where "sl = slot_at tb i"
  define sl' where "sl' = sl\<lparr>hs_generation := hs_generation sl + 1, hs_rights := rights, hs_reservation_nonce := nonce,
       hs_reserved_type := ty, hs_state := SlotReserved\<rparr>"
  define tb' where "tb' = reserve_row tb i ty rights nonce"
  note row = free_row(1-3) [OF ok free, folded sl_def]
  have i: "0 < unat i" "unat i < 64" and st: "hs_state sl = SlotFree"
    using free by (simp_all add: free_at_def sl_def)
  have sl': "slot_ok w sl'"
    using guard row(1) generation_succ [OF row(2,3)]
    by (simp add: sl'_def slot_ok_def reserved_row_ok_def free_slot_clear_def)
  have tb'f: "ht_slots tb' = (ht_slots tb)[unat i := sl']"
    "ht_state tb' = ht_state tb" "ht_next_free_hint tb' = i" "ht_active_operations tb' = ht_active_operations tb"
    by (simp_all add: tb'_def reserve_row_def Let_def sl'_def sl_def)
  note res = row_change_ok [OF ok quiet i guard(4) sl']
  show "table_ok w t (reserve_row tb i ty rights nonce) (p' # ps)" "stable t tb (reserve_row tb i ty rights nonce) ps"
    unfolding tb'_def [symmetric]
    using row(1) st i tb'f generation_succ(3) [OF row(2,3)]
    by (intro res; simp add: sl_def [symmetric] sl'_def free_slot_clear_def row_le_def)+
  show "rows_of b (reserve_row tb i ty rights nonce) = rows_of b tb"
    unfolding tb'_def [symmetric]
    by (rule rows_of_same [OF table_okD(1) [OF ok] i(2) tb'f(1)]) (simp add: sl'_def sl_def)
qed

lemma decoded_row_ok:
  assumes ok: "table_ok w t tb (p # ps)" and quiet: "quiet p" "quiet p'" and d: "decoded_ok d"
    and open': "ht_state tb = TableOpen"
    and sl': "slot_ok w sl'" "hs_acquisition_pins sl' = hs_acquisition_pins (slot_at tb (dec_slot d))"
      "hs_state sl' \<noteq> SlotClosing" "hs_state (slot_at tb (dec_slot d)) \<noteq> SlotClosing"
      "hs_acquisition_pins sl' = 0 \<or> hs_obj sl' = hs_obj (slot_at tb (dec_slot d))"
      "row_le (slot_at tb (dec_slot d)) sl'"
  shows "table_ok w t (set_slot (dec_slot d) sl' tb) (p' # ps)" and "stable t tb (set_slot (dec_slot d) sl' tb) ps"
    and "rows_of a (set_slot (dec_slot d) sl' tb) + (if hs_obj (slot_at tb (dec_slot d)) = Some a then 1 else 0) =
      rows_of a tb + (if hs_obj sl' = Some a then 1 else 0)"
  using decoded_okD [OF d] table_okD(2) [OF ok]
  by (intro row_change_ok [OF ok quiet _ _ open' sl']; simp)+

definition publish_row :: "HandleTable \<Rightarrow> DecodedHandle \<Rightarrow> kaddr \<Rightarrow> HandleTable" where
  "publish_row tb d a = set_slot (dec_slot d) ((slot_at tb (dec_slot d))\<lparr>hs_obj := Some a, hs_reservation_nonce := 0,
     hs_reserved_type := KTypeInvalid, hs_state := SlotLive\<rparr>) tb"

lemma publish_result:
  obtains err where "HandleTablePublish w rsv obj tb = Inr (Inl err, tb)"
  | d a where "decoded_ok d" and "HandleDecode (rsv_handle rsv) = Some (dec_slot d, dec_generation d)"
    and "obj = Some a" and "refs w a \<noteq> 0" and "ht_state tb = TableOpen"
    and "ReservationMatches (slot_at tb (dec_slot d)) d rsv"
    and "hs_reserved_type (slot_at tb (dec_slot d)) = obj_type w a"
    and "HandleTablePublish w rsv obj tb = Inr (Inr (rsv_handle rsv), publish_row tb d a)"
proof (cases "HandleTableReservationIsValid rsv")
  case False
  with that(1) show thesis by (simp add: HandleTablePublish_def)
next
  case True
  have "(\<exists>err. HandleTablePublish w rsv obj tb = Inr (Inl err, tb)) \<or>
    (\<exists>d. decoded_ok d \<and> HandleDecode (rsv_handle rsv) = Some (dec_slot d, dec_generation d) \<and>
      (\<exists>a. obj = Some a \<and> refs w a \<noteq> 0 \<and> ht_state tb = TableOpen \<and> ReservationMatches (slot_at tb (dec_slot d)) d rsv \<and>
        hs_reserved_type (slot_at tb (dec_slot d)) = obj_type w a \<and>
        HandleTablePublish w rsv obj tb = Inr (Inr (rsv_handle rsv), publish_row tb d a)))"
    unfolding HandleTablePublish_def if_not_P [OF iffD2 [OF not_not True]]
    by (rule with_decoded_result) (cases obj; auto simp: Let_def publish_row_def KObjectRefcount_def)
  with that show thesis by blast
qed

lemma reserved_row:
  assumes "table_ok w t tb ps" and "decoded_ok d" and "ReservationMatches (slot_at tb (dec_slot d)) d rsv"
  shows "reserved_row_ok (slot_at tb (dec_slot d))" and "hs_state (slot_at tb (dec_slot d)) = SlotReserved"
    and "hs_generation (slot_at tb (dec_slot d)) \<le> kHandleGenerationMax"
    and "hs_generation (slot_at tb (dec_slot d)) = dec_generation d"
  using table_ok_slots [OF assms(1)] decoded_okD [OF assms(2)] assms(3)
  by (auto simp: ReservationMatches_def slot_ok_def)

lemma publish_row_ok:
  assumes ok: "table_ok w t tb (p # ps)" and quiet: "quiet p" "quiet p'" and d: "decoded_ok d"
    and open': "ht_state tb = TableOpen" and rsv: "ReservationMatches (slot_at tb (dec_slot d)) d rsv"
    and a: "a < length (ko_objs w)" "hs_reserved_type (slot_at tb (dec_slot d)) = obj_type w a"
  shows "table_ok w t (publish_row tb d a) (p' # ps)" and "stable t tb (publish_row tb d a) ps"
    and "rows_of b (publish_row tb d a) = rows_of b tb + (if a = b then 1 else 0)"
proof -
  define sl' where "sl' = (slot_at tb (dec_slot d))\<lparr>hs_obj := Some a, hs_reservation_nonce := 0,
     hs_reserved_type := KTypeInvalid, hs_state := SlotLive\<rparr>"
  note row = reserved_row [OF ok d rsv]
  have sl': "slot_ok w sl'"
    using row a by (simp add: sl'_def slot_ok_def owned_row_ok_def reserved_row_ok_def)
  show "table_ok w t (publish_row tb d a) (p' # ps)" "stable t tb (publish_row tb d a) ps"
    unfolding publish_row_def sl'_def [symmetric]
    using row by (intro decoded_row_ok [OF ok quiet d open' sl']; simp add: sl'_def reserved_row_ok_def row_le_def)+
  have "rows_of b (set_slot (dec_slot d) sl' tb) + (if hs_obj (slot_at tb (dec_slot d)) = Some b then 1 else 0) =
      rows_of b tb + (if hs_obj sl' = Some b then 1 else 0)"
    using row by (intro decoded_row_ok [OF ok quiet d open' sl']; simp add: sl'_def reserved_row_ok_def row_le_def)
  then show "rows_of b (publish_row tb d a) = rows_of b tb + (if a = b then 1 else 0)"
    using row(1) by (simp add: publish_row_def sl'_def reserved_row_ok_def)
qed

definition abort_row :: "HandleSlot \<Rightarrow> HandleSlot" where
  "abort_row sl = sl\<lparr>hs_rights := 0, hs_reservation_nonce := 0, hs_reserved_type := KTypeInvalid,
     hs_state := ClosedStateFor sl\<rparr>"

lemma abort_result:
  obtains err where "HandleTableAbort rsv tb = Inr (Inl err, tb)"
  | d where "decoded_ok d" and "HandleDecode (rsv_handle rsv) = Some (dec_slot d, dec_generation d)"
    and "ht_state tb = TableOpen" and "ReservationMatches (slot_at tb (dec_slot d)) d rsv"
    and "HandleTableAbort rsv tb = Inr (Inr (), set_slot (dec_slot d) (abort_row (slot_at tb (dec_slot d))) tb)"
proof (cases "HandleTableReservationIsValid rsv")
  case False
  with that(1) show thesis by (simp add: HandleTableAbort_def)
next
  case True
  have "(\<exists>err. HandleTableAbort rsv tb = Inr (Inl err, tb)) \<or>
    (\<exists>d. decoded_ok d \<and> HandleDecode (rsv_handle rsv) = Some (dec_slot d, dec_generation d) \<and>
      (ht_state tb = TableOpen \<and> ReservationMatches (slot_at tb (dec_slot d)) d rsv \<and>
       HandleTableAbort rsv tb = Inr (Inr (), set_slot (dec_slot d) (abort_row (slot_at tb (dec_slot d))) tb)))"
    unfolding HandleTableAbort_def if_not_P [OF iffD2 [OF not_not True]]
    by (rule with_decoded_result) (auto simp: Let_def abort_row_def)
  with that show thesis by blast
qed

lemma abort_slot_ok: "slot_ok w sl \<Longrightarrow> reserved_row_ok sl \<Longrightarrow> slot_ok w (abort_row sl)"
  by (auto simp: abort_row_def slot_ok_def reserved_row_ok_def ClosedStateFor_def free_slot_clear_def)

lemma abort_row_ok:
  assumes ok: "table_ok w t tb (p # ps)" and quiet: "quiet p" "quiet p'" and d: "decoded_ok d"
    and open': "ht_state tb = TableOpen" and rsv: "ReservationMatches (slot_at tb (dec_slot d)) d rsv"
  defines "tb' \<equiv> set_slot (dec_slot d) (abort_row (slot_at tb (dec_slot d))) tb"
  shows "table_ok w t tb' (p' # ps)" and "stable t tb tb' ps" and "rows_of b tb' = rows_of b tb"
proof -
  note row = reserved_row [OF ok d rsv]
  have i: "unat (dec_slot d) < 64" using decoded_okD [OF d] by simp
  have sl': "slot_ok w (abort_row (slot_at tb (dec_slot d)))"
    using abort_slot_ok table_ok_slots [OF ok] i row(1) by blast
  show "table_ok w t tb' (p' # ps)" "stable t tb tb' ps"
    unfolding tb'_def using row
    by (intro decoded_row_ok [OF ok quiet d open' sl']; simp add: abort_row_def ClosedStateFor_def reserved_row_ok_def
      row_le_def)+
  show "rows_of b tb' = rows_of b tb"
    unfolding tb'_def by (rule rows_of_same [OF table_okD(1) [OF ok] i set_slot_fields(1)]) (simp add: abort_row_def)
qed

section \<open>Narrowing in place\<close>

definition narrow_row :: "HandleSlot \<Rightarrow> u64 \<Rightarrow> HandleSlot" where
  "narrow_row sl rights = sl\<lparr>hs_generation := hs_generation sl + 1, hs_rights := rights\<rparr>"

lemma replace_result:
  assumes ok: "table_ok w t tb ps"
  obtains err where "HandleReplace h rights tb = Inr (Inl err, tb)"
  | d where "decoded_ok d" and "HandleDecode h = Some (dec_slot d, dec_generation d)"
    and "ht_state tb = TableOpen" and "SlotMatches (slot_at tb (dec_slot d)) (dec_generation d)" and "rights \<noteq> 0"
    and "within rights (hs_rights (slot_at tb (dec_slot d)))" and "dec_generation d \<noteq> kHandleGenerationMax"
    and "HandleReplace h rights tb = Inr (Inr (HandleEncode (dec_slot d) (dec_generation d + 1)),
      set_slot (dec_slot d) (narrow_row (slot_at tb (dec_slot d)) rights) tb)"
proof -
  have enc: "HandleEncode (dec_slot d) (dec_generation d + 1) \<noteq> kHandleInvalid"
    if "decoded_ok d" "dec_generation d \<noteq> kHandleGenerationMax" for d
  proof (rule HandleEncode_succ [OF that(1) _ that(2)])
    show "dec_generation d \<le> kHandleGenerationMax"
      using that(1) by (simp add: decoded_ok_def valid_row_def word_le_nat_alt kdefs)
  qed
  have "(\<exists>err. HandleReplace h rights tb = Inr (Inl err, tb)) \<or>
    (\<exists>d. decoded_ok d \<and> HandleDecode h = Some (dec_slot d, dec_generation d) \<and>
      (ht_state tb = TableOpen \<and> SlotMatches (slot_at tb (dec_slot d)) (dec_generation d) \<and> rights \<noteq> 0 \<and>
       within rights (hs_rights (slot_at tb (dec_slot d))) \<and> dec_generation d \<noteq> kHandleGenerationMax \<and>
       HandleReplace h rights tb = Inr (Inr (HandleEncode (dec_slot d) (dec_generation d + 1)),
         set_slot (dec_slot d) (narrow_row (slot_at tb (dec_slot d)) rights) tb)))"
    unfolding HandleReplace_def
    by (rule with_decoded_result) (use enc in \<open>auto simp: Let_def narrow_row_def exceeds_iff SlotMatches_def\<close>)
  with that show thesis by blast
qed

lemma narrow_row_ok:
  assumes ok: "table_ok w t tb (p # ps)" and quiet: "quiet p" "quiet p'" and d: "decoded_ok d"
    and open': "ht_state tb = TableOpen" and live: "SlotMatches (slot_at tb (dec_slot d)) (dec_generation d)"
    and rights: "rights \<noteq> 0" "within rights (hs_rights (slot_at tb (dec_slot d)))"
      "dec_generation d \<noteq> kHandleGenerationMax"
  defines "tb' \<equiv> set_slot (dec_slot d) (narrow_row (slot_at tb (dec_slot d)) rights) tb"
  shows "table_ok w t tb' (p' # ps)" and "stable t tb tb' ps" and "rows_of b tb' = rows_of b tb"
proof -
  define sl where "sl = slot_at tb (dec_slot d)"
  have i: "unat (dec_slot d) < 64" using decoded_okD [OF d] by simp
  have "slot_ok w sl" using table_ok_slots [OF ok] i by (simp add: sl_def)
  from SlotMatches_owned [OF this live [folded sl_def]]
  obtain a where a: "hs_obj sl = Some a" "hs_state sl = SlotLive" "hs_generation sl = dec_generation d"
    "owned_row_ok w sl" "hs_generation sl \<le> kHandleGenerationMax" by blast
  have sl': "slot_ok w (narrow_row sl rights)"
    using a rights generation_succ [OF a(5)]
    by (auto simp: narrow_row_def slot_ok_def owned_row_ok_def sl_def [symmetric] intro: within_trans)
  have "row_le sl (narrow_row sl rights)"
    using generation_succ(3) [OF a(5)] a(3) rights(3) by (simp add: row_le_def narrow_row_def)
  then show "table_ok w t tb' (p' # ps)" "stable t tb tb' ps"
    unfolding tb'_def sl_def [symmetric] using a
    by (intro decoded_row_ok [OF ok quiet d open' sl']; simp add: narrow_row_def sl_def [symmetric])+
  show "rows_of b tb' = rows_of b tb"
    unfolding tb'_def by (rule rows_of_same [OF table_okD(1) [OF ok] i set_slot_fields(1)]) (simp add: narrow_row_def)
qed

section \<open>Teardown\<close>

lemma drain_begin_ok:
  assumes ok: "table_ok w t tb (p # ps)" and quiet: "quiet p" and open': "ht_state tb = TableOpen"
  defines "tb' \<equiv> tb\<lparr>ht_state := TableDraining\<rparr>"
  shows "table_ok w t tb' (DrainQuiescing t # ps)" and "stable t tb tb' ps" and "rows_of a tb' = rows_of a tb"
proof -
  note nodrain = table_ok_open_drain [OF ok open']
  have "row_ok w t i sl (DrainQuiescing t # ps) = row_ok w t i sl (p # ps)" for i sl
    using quiet by (simp add: row_ok_def quiet_def)
  then show "table_ok w t tb' (DrainQuiescing t # ps)"
    using ok quiet nodrain by (simp add: table_ok_def tb'_def quiet_def)
  show "stable t tb tb' ps"
    using nodrain by (simp add: stable_def tb'_def)
  show "rows_of a tb' = rows_of a tb"
    by (simp add: rows_of_def tb'_def)
qed

definition drain_slot :: "HandleSlot \<Rightarrow> HandleSlot" where
  "drain_slot sl = (if hs_state sl = SlotReserved then abort_row sl
     else if hs_state sl = SlotLive then sl\<lparr>hs_obj := None, hs_rights := 0, hs_reservation_nonce := 0,
       hs_reserved_type := KTypeInvalid, hs_state := ClosedStateFor sl\<rparr> else sl)"

definition quiescent :: "kworld \<Rightarrow> HandleSlot \<Rightarrow> bool" where
  "quiescent w sl \<longleftrightarrow> slot_ok w sl \<and> hs_state sl \<noteq> SlotClosing \<and> hs_acquisition_pins sl = 0"

lemma drain_slot_ok:
  assumes "quiescent w sl"
  shows "slot_ok w (drain_slot sl)" and "dead_row (drain_slot sl)" and "hs_acquisition_pins (drain_slot sl) = 0"
  using assms
  by (auto simp: quiescent_def drain_slot_def abort_row_def slot_ok_def owned_row_ok_def reserved_row_ok_def
      ClosedStateFor_def free_slot_clear_def dead_row_def split: HandleSlotState.splits)

lemma drain_slot_le: "row_le sl (drain_slot sl)"
  by (auto simp: row_le_def drain_slot_def abort_row_def ClosedStateFor_def)

lemma drain_row_eq:
  assumes row: "quiescent w (slot_at tb i)" and vs: "length vs < 64"
  shows "\<exists>vs'. drain_row (vs, tb) i = Inr (vs @ vs', set_slot i (drain_slot (slot_at tb i)) tb) \<and>
    length vs' \<le> 1 \<and> vs' = (case hs_obj (slot_at tb i) of None \<Rightarrow> [] | Some a \<Rightarrow> [a]) \<and>
    hs_obj (drain_slot (slot_at tb i)) = None"
proof (cases "hs_state (slot_at tb i)")
  case SlotFree
  with row show ?thesis
    by (auto simp: drain_row_def Let_def quiescent_def slot_ok_def free_slot_clear_def drain_slot_def set_slot_def)
next
  case SlotRetired
  with row show ?thesis
    by (auto simp: drain_row_def Let_def quiescent_def slot_ok_def free_slot_clear_def drain_slot_def set_slot_def)
next
  case SlotClosing
  with row show ?thesis by (simp add: quiescent_def)
next
  case SlotReserved
  with row show ?thesis
    by (auto simp: drain_row_def Let_def quiescent_def slot_ok_def reserved_row_ok_def drain_slot_def abort_row_def)
next
  case SlotLive
  with row obtain a where "hs_obj (slot_at tb i) = Some a"
    by (auto simp: quiescent_def slot_ok_def owned_row_ok_def split: option.splits)
  with SlotLive row vs show ?thesis
    by (auto simp: drain_row_def Let_def quiescent_def slot_ok_def owned_row_ok_def drain_slot_def abort_row_def kdefs
      ClosedStateFor_def)
qed

lemma drain_rows_ok:
  assumes "length (ht_slots tb) = 64" and "distinct (map unat is)"
    and "\<forall>i\<in>set is. unat i < 64 \<and> quiescent w (slot_at tb i)" and "length vs + length is \<le> 64"
  shows "\<exists>vs' tb'. drain_rows (vs, tb) is = Inr (vs', tb') \<and>
    ht_slots tb' = map (\<lambda>j. if j \<in> unat ` set is then drain_slot (ht_slots tb ! j) else ht_slots tb ! j) [0..<64] \<and>
    ht_state tb' = ht_state tb \<and> ht_next_free_hint tb' = ht_next_free_hint tb \<and>
    ht_active_operations tb' = ht_active_operations tb \<and>
    (\<forall>a. count_list vs' a + rows_of a tb' = count_list vs a + rows_of a tb)"
  using assms
proof (induction "is" arbitrary: vs tb)
  case Nil
  then show ?case by (auto simp: map_nth [symmetric] intro!: nth_equalityI)
next
  case (Cons i "is")
  define tb1 where "tb1 = set_slot i (drain_slot (slot_at tb i)) tb"
  have i: "unat i < 64" "quiescent w (slot_at tb i)" and vs: "length vs < 64"
    using Cons.prems(3,4) by simp_all
  obtain vs1 where step: "drain_row (vs, tb) i = Inr (vs @ vs1, tb1)" "length vs1 \<le> 1"
    and vs1: "vs1 = (case hs_obj (slot_at tb i) of None \<Rightarrow> [] | Some a \<Rightarrow> [a])" "hs_obj (drain_slot (slot_at tb i)) = None"
    using drain_row_eq [OF i(2) vs] by (auto simp: tb1_def)
  have tb1: "ht_slots tb1 = (ht_slots tb)[unat i := drain_slot (slot_at tb i)]"
    by (simp add: tb1_def)
  have fresh: "unat i \<noteq> unat j" if "j \<in> set is" for j
    using Cons.prems(2) that by (metis distinct.simps(2) image_eqI list.set_map list.simps(9))
  have hyps: "length (ht_slots tb1) = 64" "distinct (map unat is)" "length (vs @ vs1) + length is \<le> 64"
    "\<forall>j\<in>set is. unat j < 64 \<and> quiescent w (slot_at tb1 j)"
    using Cons.prems fresh step(2) by (auto simp: tb1 nth_list_update_neq)
  obtain vs' tb' where rest: "drain_rows (vs @ vs1, tb1) is = Inr (vs', tb')"
    "ht_slots tb' = map (\<lambda>j. if j \<in> unat ` set is then drain_slot (ht_slots tb1 ! j) else ht_slots tb1 ! j) [0..<64]"
    "ht_state tb' = ht_state tb1" "ht_next_free_hint tb' = ht_next_free_hint tb1"
    "ht_active_operations tb' = ht_active_operations tb1"
    "\<forall>a. count_list vs' a + rows_of a tb' = count_list (vs @ vs1) a + rows_of a tb1"
    using Cons.IH [OF hyps(1,2,4,3)] by blast
  have rows: "count_list (vs @ vs1) a + rows_of a tb1 = count_list vs a + rows_of a tb" for a
    using rows_of_update [OF Cons.prems(1) i(1) tb1, of a] vs1 by (auto split: option.splits if_splits)
  have "(if j \<in> unat ` set is then drain_slot (ht_slots tb1 ! j) else ht_slots tb1 ! j) =
      (if j \<in> unat ` set (i # is) then drain_slot (ht_slots tb ! j) else ht_slots tb ! j)" if "j < 64" for j
    using that fresh i(1) Cons.prems(1) by (auto simp: tb1 nth_list_update)
  then have slots: "ht_slots tb' = map (\<lambda>j. if j \<in> unat ` set (i # is) then drain_slot (ht_slots tb ! j) else ht_slots tb ! j) [0..<64]"
    unfolding rest(2) by (intro map_cong) simp_all
  show ?case
    using rest(1,3-6) step slots rows by (auto simp: tb1_def)
qed

lemma tally_mono: "(\<And>p. f p \<le> g p) \<Longrightarrow> tally f ps \<le> tally g ps"
  by (induction ps) (simp_all add: add_mono)

lemma pins_active: "tally (pin_at t i) ps \<le> tally (active_at t) ps"
proof (rule tally_mono)
  show "pin_at t i p \<le> active_at t p" for p by (cases p) (simp_all add: at_row_def)
qed

lemma closes_active: "tally (close_at t i) ps \<le> tally (active_at t) ps"
proof (rule tally_mono)
  show "close_at t i p \<le> active_at t p" for p by (cases p) (simp_all add: at_row_def)
qed

lemma table_quiescent:
  assumes ok: "table_ok w t tb ps" and act: "ht_active_operations tb = 0" and i: "i < 64"
  shows "quiescent w (ht_slots tb ! i)"
proof -
  note row = row_okD [OF table_ok_row [OF ok i]]
  have "tally (active_at t) ps = 0"
    using table_okD(3) [OF ok] act by simp
  then have "tally (pin_at t i) ps = 0" "tally (close_at t i) ps = 0"
    using pins_active [of t i ps] closes_active [of t i ps] by simp_all
  with row show ?thesis
    by (auto simp: quiescent_def unat_eq_zero split: if_splits)
qed

lemma drain_collect_ok:
  assumes ok: "table_ok w t tb (DrainCollecting t # ps)" and st: "ht_state tb = TableDraining"
    and act: "ht_active_operations tb = 0"
  obtains vs tb' where "HandleTableDrain_collect tb = Inr (vs, tb')" and "table_ok w t tb' (DrainReleasing t vs # ps)"
    and "stable t tb tb' ps" and "ht_state tb' = TableDraining" and "dead_rows tb'"
    and "\<And>a. count_list vs a + rows_of a tb' = rows_of a tb"
proof -
  define row_list where "row_list = (map of_nat [1..<64] :: u32 list)"
  have idx: "map unat row_list = [1..<64]"
    by (auto simp: row_list_def comp_def unat_of_nat_u32 intro!: map_idI)
  note quiet = table_quiescent [OF ok act]
  have set_rows: "unat ` set row_list = {1..<64}"
    using idx by (metis atLeastLessThan_upt list.set_map)
  have q: "\<forall>i\<in>set row_list. unat i < 64 \<and> quiescent w (slot_at tb i)"
  proof
    fix i assume "i \<in> set row_list"
    then have "unat i < 64" using set_rows by (metis atLeastLessThan_iff image_eqI)
    with quiet show "unat i < 64 \<and> quiescent w (slot_at tb i)" by blast
  qed
  obtain vs tb' where res: "drain_rows ([], tb) row_list = Inr (vs, tb')"
    and slots: "ht_slots tb' = map (\<lambda>j. if j \<in> unat ` set row_list then drain_slot (ht_slots tb ! j) else ht_slots tb ! j) [0..<64]"
    and fr: "ht_state tb' = ht_state tb" "ht_next_free_hint tb' = ht_next_free_hint tb"
      "ht_active_operations tb' = ht_active_operations tb"
    and rows: "\<forall>a. count_list vs a + rows_of a tb' = count_list [] a + rows_of a tb"
    using drain_rows_ok [OF table_okD(1) [OF ok], of row_list w "[]"] q idx
    by (auto simp: distinct_upt length_map [of unat row_list, symmetric] simp del: length_map)
  have zero: "ht_slots tb ! 0 = zero_handle_slot"
    using table_ok_row [OF ok, of 0] by (simp add: row_ok_def)
  have slot: "ht_slots tb' ! i = drain_slot (ht_slots tb ! i)" if "i < 64" for i
    using that zero slots set_rows
    by (cases "i = 0") (simp_all add: drain_slot_def zero_handle_slot_def)
  have dead: "dead_rows tb'"
    using slot drain_slot_ok(2) [OF quiet] by (simp add: dead_rows_def)
  have row: "row_ok w t i (ht_slots tb' ! i) (DrainReleasing t vs # ps)" if i: "i < 64" for i
    using table_ok_row [OF ok i] drain_slot_ok [OF quiet [OF i]] slot [OF i] quiet [OF i]
    by (auto simp: row_ok_def quiescent_def dead_row_def drain_slot_def zero_handle_slot_def)
  show thesis
  proof (rule that [of vs tb'])
    show "HandleTableDrain_collect tb = Inr (vs, tb')"
      using st res by (simp add: HandleTableDrain_collect_def row_list_def kdefs)
    show "table_ok w t tb' (DrainReleasing t vs # ps)"
      using ok row fr slots st by (simp add: table_ok_def)
    have "tally (active_at t) ps = 0" "tally (drain_at t) ps = 0"
      using table_okD(3,4) [OF ok] act st by simp_all
    then show "stable t tb tb' ps"
      using pins_active [of t _ ps] closes_active [of t _ ps] slot drain_slot_le fr(1)
      by (auto simp: stable_def)
  qed (use fr st dead rows in auto)
qed

lemma drain_finish_ok:
  assumes ok: "table_ok w t tb (DrainReleasing t [] # ps)" and st: "ht_state tb = TableDraining" and dead: "dead_rows tb"
  obtains tb' where "HandleTableDrain_finish tb = Inr tb'" and "ht_state tb' = TableClosed"
    and "table_ok w t tb' (Returned ResNothing # ps)" and "stable t tb tb' ps" and "\<And>a. rows_of a tb' = rows_of a tb"
proof (rule that [of "tb\<lparr>ht_state := TableClosed\<rparr>"])
  have "tally (drain_at t) ps = 0"
    using table_okD(4) [OF ok] st by simp
  then show "stable t tb (tb\<lparr>ht_state := TableClosed\<rparr>) ps" and
    "table_ok w t (tb\<lparr>ht_state := TableClosed\<rparr>) (Returned ResNothing # ps)"
    using ok dead by (simp_all add: stable_def table_ok_def row_ok_def dead_rows_def)
qed (use st in \<open>simp_all add: HandleTableDrain_finish_def rows_of_def\<close>)

end
