(* ===== verification/HandleTableSafety.thy ===== *)
theory HandleTableSafety
  imports HandleTableAlloc
begin

text \<open>
  The invariant of every interleaving of handle-table operations: the count of each object is the
  number of rows, threads and callers that own a reference to it. No assertion of the code fails,
  and no reference is released twice.
\<close>

section \<open>The invariant\<close>

primrec retain_ok :: "nat \<Rightarrow> retain_for \<Rightarrow> bool" where
  "retain_ok n ForLookup \<longleftrightarrow> True"
| "retain_ok n (ForDuplicate dst) \<longleftrightarrow> dst < n"
| "retain_ok n (ForDuplicateRights dst rights) \<longleftrightarrow> dst < n"

primrec closing_ok :: "kworld \<Rightarrow> DecodedHandle \<Rightarrow> closing_for \<Rightarrow> bool" where
  "closing_ok w d ForDetach \<longleftrightarrow> True"
| "closing_ok w d ForRemove \<longleftrightarrow> True"
| "closing_ok w d (ForAdoptReplace obj rights) \<longleftrightarrow> obj < length (ko_objs w) \<and> rights \<noteq> 0 \<and>
     within rights (TypeAllowedRights (obj_type w obj)) \<and> dec_generation d \<noteq> kHandleGenerationMax"

primrec pc_ok :: "kworld \<Rightarrow> HandleTable list \<Rightarrow> pc \<Rightarrow> bool" where
  "pc_ok w tbs (Returned r) \<longleftrightarrow> True"
| "pc_ok w tbs (Pinned t d obj rights k) \<longleftrightarrow> t < length tbs \<and> decoded_ok d \<and> obj < length (ko_objs w) \<and>
     hs_obj (slot_at (tbs ! t) (dec_slot d)) = Some obj \<and> retain_ok (length tbs) k"
| "pc_ok w tbs (Unpinning t d obj rights ok k) \<longleftrightarrow> t < length tbs \<and> decoded_ok d \<and> obj < length (ko_objs w) \<and>
     hs_obj (slot_at (tbs ! t) (dec_slot d)) = Some obj \<and> retain_ok (length tbs) k"
| "pc_ok w tbs (Duplicating obj rights dst) \<longleftrightarrow> obj < length (ko_objs w) \<and> dst < length tbs"
| "pc_ok w tbs (Releasing obj r) \<longleftrightarrow> obj < length (ko_objs w)"
| "pc_ok w tbs (Closing t d k) \<longleftrightarrow> t < length tbs \<and> decoded_ok d \<and>
     hs_state (slot_at (tbs ! t) (dec_slot d)) = SlotClosing \<and>
     hs_generation (slot_at (tbs ! t) (dec_slot d)) = dec_generation d \<and> closing_ok w d k"
| "pc_ok w tbs (DrainWaiting t) \<longleftrightarrow> t < length tbs \<and> ht_state (tbs ! t) \<noteq> TableOpen"
| "pc_ok w tbs (DrainQuiescing t) \<longleftrightarrow> t < length tbs \<and> ht_state (tbs ! t) = TableDraining"
| "pc_ok w tbs (DrainCollecting t) \<longleftrightarrow> t < length tbs \<and> ht_state (tbs ! t) = TableDraining \<and>
     ht_active_operations (tbs ! t) = 0"
| "pc_ok w tbs (DrainReleasing t vs) \<longleftrightarrow> t < length tbs \<and> ht_state (tbs ! t) = TableDraining \<and>
     dead_rows (tbs ! t) \<and> (\<forall>v\<in>set vs. v < length (ko_objs w))"

text \<open>The references to an object: rows of all tables, callers, and threads within an operation.\<close>

definition owners :: "HandleTable list \<Rightarrow> kaddr list \<Rightarrow> pc list \<Rightarrow> kaddr \<Rightarrow> nat" where
  "owners tbs held ps a = sum_list (map (rows_of a) tbs) + count_list held a + tally (refs_at a) ps"

definition refs_total :: "kworld \<Rightarrow> kaddr \<Rightarrow> nat" where
  "refs_total w a = (if a < length (ko_objs w) then unat (refs w a) else 0)"

definition sys_inv :: "kworld \<Rightarrow> HandleTable list \<Rightarrow> kaddr list \<Rightarrow> pc list \<Rightarrow> bool" where
  "sys_inv w tbs held ps \<longleftrightarrow> (\<forall>t<length tbs. table_ok w t (tbs ! t) ps) \<and> (\<forall>p\<in>set ps. pc_ok w tbs p) \<and>
     destroy_exact w \<and> ko_warnings w = [] \<and> (\<forall>a\<in>set held. a < length (ko_objs w)) \<and>
     (\<forall>a. refs_total w a = owners tbs held ps a)"

definition h_inv :: "hsys \<Rightarrow> bool" where
  "h_inv s \<longleftrightarrow> sys_inv (h_world s) (h_tables s) (h_held s) (h_threads s)"

lemma sys_invD:
  assumes "sys_inv w tbs held ps"
  shows "t < length tbs \<Longrightarrow> table_ok w t (tbs ! t) ps" and "p \<in> set ps \<Longrightarrow> pc_ok w tbs p"
    and "destroy_exact w" and "ko_warnings w = []" and "a \<in> set held \<Longrightarrow> a < length (ko_objs w)"
    and "refs_total w b = owners tbs held ps b"
  using assms by (simp_all add: sys_inv_def)

section \<open>A section on one table\<close>

lemma stable_pc_ok:
  assumes ok: "pc_ok w tbs q" and q: "q \<in> set ps" and t: "t < length tbs" and st: "stable t (tbs ! t) tb' ps"
  shows "pc_ok w (tbs[t := tb']) q"
proof -
  note mem = tally_member [OF q]
  have pin: "hs_obj (slot_at tb' (dec_slot d)) = hs_obj (slot_at (tbs ! t) (dec_slot d))"
    if "0 < pin_at t (unat (dec_slot d)) q" "decoded_ok d" for d
    using mem [of "pin_at t (unat (dec_slot d))"] that st decoded_okD [of d] by (simp add: stable_def)
  have close: "hs_state (slot_at tb' (dec_slot d)) = hs_state (slot_at (tbs ! t) (dec_slot d)) \<and>
      hs_generation (slot_at tb' (dec_slot d)) = hs_generation (slot_at (tbs ! t) (dec_slot d))"
    if "0 < close_at t (unat (dec_slot d)) q" "decoded_ok d" for d
    using mem [of "close_at t (unat (dec_slot d))"] that st decoded_okD [of d] by (simp add: stable_def)
  have drain: "ht_state tb' = ht_state (tbs ! t) \<and>
      (ht_active_operations (tbs ! t) = 0 \<longrightarrow> ht_active_operations tb' = 0) \<and> (dead_rows (tbs ! t) \<longrightarrow> dead_rows tb')"
    if "0 < drain_at t q"
    using mem [of "drain_at t"] that st by (simp add: stable_def)
  have "ht_state tb' \<noteq> TableOpen" if "ht_state (tbs ! t) \<noteq> TableOpen"
    using st that by (simp add: stable_def)
  then show ?thesis
    using ok t pin close drain by (cases q) (auto simp: nth_list_update)
qed

text \<open>A thread keeps its claims on the tables other than \<open>t\<close>.\<close>

definition local_to :: "nat \<Rightarrow> pc \<Rightarrow> pc \<Rightarrow> bool" where
  "local_to t p p' \<longleftrightarrow> (\<forall>u i. u \<noteq> t \<longrightarrow> pin_at u i p' = pin_at u i p \<and> close_at u i p' = close_at u i p \<and>
     active_at u p' = active_at u p \<and> drain_at u p' = drain_at u p)"

lemma local_quiet: "quiet p \<Longrightarrow> quiet p' \<Longrightarrow> local_to t p p'"
  by (simp add: local_to_def quiet_def)

lemma owners_update:
  assumes "t < length tbs"
  shows "owners (tbs[t := tb']) held' (p' # ps) a + (rows_of a (tbs ! t) + count_list held a + refs_at a p) =
    owners tbs held (p # ps) a + (rows_of a tb' + count_list held' a + refs_at a p')"
  using sum_list_map_update [OF assms, of "rows_of a" tb'] by (simp add: owners_def)

lemma sys_table_step:
  assumes inv: "sys_inv w tbs held (p # ps)" and t: "t < length tbs"
    and tab: "table_ok w t tb' (p' # ps)" and st: "stable t (tbs ! t) tb' ps" and loc: "local_to t p p'"
    and pc: "pc_ok w (tbs[t := tb']) p'" and held: "\<And>a. a \<in> set held' \<Longrightarrow> a < length (ko_objs w)"
    and bal: "\<And>a. rows_of a tb' + count_list held' a + refs_at a p' =
      rows_of a (tbs ! t) + count_list held a + refs_at a p"
  shows "sys_inv w (tbs[t := tb']) held' (p' # ps)"
  unfolding sys_inv_def
proof (intro conjI allI impI ballI)
  show "table_ok w u (tbs[t := tb'] ! u) (p' # ps)" if "u < length (tbs[t := tb'])" for u
  proof (cases "u = t")
    case True
    with tab t show ?thesis by simp
  next
    case False
    with sys_invD(1) [OF inv, of u] that loc show ?thesis
      by (auto intro: table_ok_same simp: local_to_def)
  qed
  show "pc_ok w (tbs[t := tb']) q" if "q \<in> set (p' # ps)" for q
    using that pc stable_pc_ok [OF _ _ t st] sys_invD(2) [OF inv] by auto
  show "refs_total w a = owners (tbs[t := tb']) held' (p' # ps) a" for a
    using owners_update [OF t, of tb' held' p' ps a held p] bal [of a] sys_invD(6) [OF inv, of a] by simp
qed (use sys_invD(3,4) [OF inv] held in auto)

section \<open>A section on the objects\<close>

definition world_le :: "kworld \<Rightarrow> kworld \<Rightarrow> bool" where
  "world_le w w' \<longleftrightarrow> length (ko_objs w) \<le> length (ko_objs w') \<and>
     (\<forall>a<length (ko_objs w). obj_type w' a = obj_type w a)"

lemma slot_ok_mono: "world_le w w' \<Longrightarrow> slot_ok w sl \<Longrightarrow> slot_ok w' sl"
  by (auto simp: slot_ok_def owned_row_ok_def world_le_def split: HandleSlotState.splits option.splits)

lemma table_ok_mono: "world_le w w' \<Longrightarrow> table_ok w t tb ps \<Longrightarrow> table_ok w' t tb ps"
  using slot_ok_mono by (auto simp: table_ok_def row_ok_def)

lemma pc_ok_mono: "world_le w w' \<Longrightarrow> pc_ok w tbs p \<Longrightarrow> pc_ok w' tbs p"
proof (cases p)
  case (Closing t d k)
  then show "world_le w w' \<Longrightarrow> pc_ok w tbs p \<Longrightarrow> pc_ok w' tbs p"
    by (cases k) (auto simp: world_le_def)
qed (auto simp: world_le_def)

lemma sys_world_step:
  assumes inv: "sys_inv w tbs held (p # ps)" and le: "world_le w w'"
    and same: "\<And>t k. pin_at t k p' = pin_at t k p \<and> close_at t k p' = close_at t k p \<and>
      active_at t p' = active_at t p \<and> drain_at t p' = drain_at t p"
    and pc: "pc_ok w' tbs p'" and w': "destroy_exact w'" "ko_warnings w' = []"
    and held: "\<And>a. a \<in> set held' \<Longrightarrow> a < length (ko_objs w')"
    and bal: "\<And>a. refs_total w' a + (count_list held a + refs_at a p) =
      refs_total w a + (count_list held' a + refs_at a p')"
  shows "sys_inv w' tbs held' (p' # ps)"
  unfolding sys_inv_def
proof (intro conjI allI impI ballI)
  show "table_ok w' t (tbs ! t) (p' # ps)" if "t < length tbs" for t
    using table_ok_same [OF table_ok_mono [OF le sys_invD(1) [OF inv that]]] same by blast
  show "pc_ok w' tbs q" if "q \<in> set (p' # ps)" for q
    using that pc pc_ok_mono [OF le] sys_invD(2) [OF inv] by auto
  show "refs_total w' a = owners tbs held' (p' # ps) a" for a
    using bal [of a] sys_invD(6) [OF inv, of a] by (simp add: owners_def)
qed (use w' held in auto)

lemma set_refs_le: "a < length (ko_objs w) \<Longrightarrow> world_le w (set_refs a n w)"
  by (simp add: world_le_def)

lemma acquire_step:
  assumes a: "a < length (ko_objs w)" and ex: "destroy_exact w" and op: "KObjectAcquire (Some a) w = (ok, w')"
  shows "world_le w w'" and "length (ko_objs w') = length (ko_objs w)" and "destroy_exact w'"
    and "ko_warnings w' = ko_warnings w"
    and "refs_total w' b = refs_total w b + (if ok \<and> a = b then 1 else 0)"
proof -
  show "destroy_exact w'" by (rule acquire_destroy_exact [OF ex a op])
  from op a show "world_le w w'" "length (ko_objs w') = length (ko_objs w)" "ko_warnings w' = ko_warnings w"
    by (cases rule: KObjectAcquire_cases; simp add: set_refs_le; simp add: world_le_def)+
  from op a show "refs_total w' b = refs_total w b + (if ok \<and> a = b then 1 else 0)"
  proof (cases rule: KObjectAcquire_cases)
    case 2
    then show ?thesis using a by (auto simp: refs_total_def set_refs_refs)
  qed simp
qed

lemma release_step:
  assumes inv: "sys_inv w tbs held (p # ps)" and a: "a < length (ko_objs w)" and own: "0 < refs_at a p"
  obtains w' where "KObjectRelease (Some a) w = Inr w'" and "world_le w w'"
    and "length (ko_objs w') = length (ko_objs w)" and "destroy_exact w'" and "ko_warnings w' = ko_warnings w"
    and "\<And>b. refs_total w' b + (if a = b then 1 else 0) = refs_total w b"
proof -
  have "0 < refs_total w a"
    using sys_invD(6) [OF inv, of a] own by (simp add: owners_def)
  then have live: "refs w a \<noteq> 0"
    using a by (auto simp: refs_total_def)
  have ty: "obj_type w a \<noteq> KTypeInvalid"
    using sys_invD(3) [OF inv] a by (simp add: destroy_exact_def)
  note eq = KObjectRelease_live [OF live a ty]
  show thesis
  proof (rule that [OF eq])
    show "destroy_exact ((set_refs a (refs w a - 1) w)\<lparr>ko_destroyed :=
        ko_destroyed w @ (if refs w a = 1 \<and> ko_destroy (ko_objs w ! a) then [a] else [])\<rparr>)"
      by (rule release_destroy_exact [OF sys_invD(3) [OF inv] a live eq])
  qed (use a u32_pred_unat [OF live] in \<open>auto simp: world_le_def refs_total_def set_refs_refs\<close>)
qed

section \<open>The result of a section\<close>

text \<open>A section of one thread does not panic and leaves the invariant, with the other threads
  \<open>ps\<close> where they were.\<close>

definition sys_ok :: "hsys \<Rightarrow> pc list \<Rightarrow> bool" where
  "sys_ok s ps \<longleftrightarrow> sys_inv (h_world s) (h_tables s) (h_held s) ps"

definition tables_le :: "HandleTable list \<Rightarrow> HandleTable list \<Rightarrow> bool" where
  "tables_le tbs tbs' \<longleftrightarrow> length tbs' = length tbs \<and> (\<forall>t<length tbs.
     (\<forall>i<64. row_le (ht_slots (tbs ! t) ! i) (ht_slots (tbs' ! t) ! i)) \<and>
     (ht_state (tbs ! t) \<noteq> TableOpen \<longrightarrow> ht_state (tbs' ! t) \<noteq> TableOpen))"

lemma tables_le_refl [simp]: "tables_le tbs tbs"
  by (simp add: tables_le_def)

lemma tables_leD:
  assumes "tables_le tbs tbs'"
  shows "length tbs' = length tbs"
    and "t < length tbs \<Longrightarrow> i < 64 \<Longrightarrow> row_le (ht_slots (tbs ! t) ! i) (ht_slots (tbs' ! t) ! i)"
    and "t < length tbs \<Longrightarrow> ht_state (tbs ! t) \<noteq> TableOpen \<Longrightarrow> ht_state (tbs' ! t) \<noteq> TableOpen"
  using assms unfolding tables_le_def by blast+

lemma tables_le_trans:
  assumes ab: "tables_le a b" and bc: "tables_le b c"
  shows "tables_le a c"
  unfolding tables_le_def
proof (intro conjI allI impI)
  show "length c = length a"
    using tables_leD(1) [OF ab] tables_leD(1) [OF bc] by simp
  show "row_le (ht_slots (a ! t) ! i) (ht_slots (c ! t) ! i)" if "t < length a" "i < 64" for t i
    using row_le_trans [OF tables_leD(2) [OF ab that] tables_leD(2) [OF bc]] that tables_leD(1) [OF ab] by simp
  show "ht_state (c ! t) \<noteq> TableOpen" if "t < length a" "ht_state (a ! t) \<noteq> TableOpen" for t
    using tables_leD(3) [OF bc _ tables_leD(3) [OF ab that]] that tables_leD(1) [OF ab] by simp
qed

lemma tables_le_update: "stable t (tbs ! t) tb' ps \<Longrightarrow> tables_le tbs (tbs[t := tb'])"
  by (cases "t < length tbs") (auto simp: tables_le_def stable_def nth_list_update list_update_beyond)

definition sound :: "hsys \<Rightarrow> pc list \<Rightarrow> string + pc \<times> hsys \<Rightarrow> bool" where
  "sound s ps r \<longleftrightarrow> (case r of Inl e \<Rightarrow> False | Inr (p', s') \<Rightarrow> sys_ok s' (p' # ps) \<and> h_threads s' = h_threads s \<and>
     tables_le (h_tables s) (h_tables s'))"

lemma set_table_fields [simp]:
  "h_world (set_table t tb s) = h_world s" "h_tables (set_table t tb s) = (h_tables s)[t := tb]"
  "h_last_nonce (set_table t tb s) = h_last_nonce s" "h_threads (set_table t tb s) = h_threads s"
  "h_held (set_table t tb s) = h_held s"
  by (simp_all add: set_table_def)

lemma give_ref_fields [simp]:
  "h_world (give_ref a s) = h_world s" "h_tables (give_ref a s) = h_tables s"
  "h_last_nonce (give_ref a s) = h_last_nonce s" "h_threads (give_ref a s) = h_threads s"
  "h_held (give_ref a s) = a # h_held s"
  by (simp_all add: give_ref_def)

lemma take_ref_fields [simp]:
  "h_world (take_ref a s) = h_world s" "h_tables (take_ref a s) = h_tables s"
  "h_last_nonce (take_ref a s) = h_last_nonce s" "h_threads (take_ref a s) = h_threads s"
  "h_held (take_ref (Some b) s) = remove1 b (h_held s)"
  by (cases a; simp add: take_ref_def)+

lemma count_remove1: "b \<in> set xs \<Longrightarrow> count_list (remove1 b xs) a + (if b = a then 1 else 0) = count_list xs a"
  by (induction xs) auto

lemma set_table_same: "t < length (h_tables s) \<Longrightarrow> set_table t (h_tables s ! t) s = s"
  by (simp add: set_table_def)

text \<open>A section that only moves the thread on.\<close>

lemma sound_move:
  assumes inv: "sys_ok s (p # ps)" and quiet: "quiet p" "quiet p'" and pc: "pc_ok (h_world s) (h_tables s) p'"
    and refs: "\<And>a. refs_at a p' = refs_at a p"
  shows "sound s ps (Inr (p', s))"
proof -
  have "sys_inv (h_world s) (h_tables s) (h_held s) (p' # ps)"
  proof (rule sys_world_step)
    show "sys_inv (h_world s) (h_tables s) (h_held s) (p # ps)"
      using inv by (simp add: sys_ok_def)
  qed (use inv quiet pc refs in \<open>auto simp: sys_ok_def sys_inv_def world_le_def quiet_def\<close>)
  then show ?thesis by (simp add: sound_def sys_ok_def)
qed

lemma sound_return:
  assumes "sys_ok s (p # ps)" and "is_idle p" and "t < length (h_tables s)"
  shows "sound s ps (Inr (Returned r, set_table t (h_tables s ! t) s))"
  using sound_move [OF assms(1) idle_quiet [OF assms(2)], of "Returned r"] assms(2,3)
  by (simp add: set_table_same)

text \<open>A section on table \<open>t\<close>: the new table, what the thread does next, and where references went.\<close>

lemma sound_table:
  assumes inv: "sys_ok s (p # ps)" and t: "t < length (h_tables s)"
    and tab: "table_ok (h_world s) t tb' (p' # ps)" and st: "stable t (h_tables s ! t) tb' ps"
    and loc: "local_to t p p'" and pc: "pc_ok (h_world s) ((h_tables s)[t := tb']) p'"
    and s': "h_world s' = h_world s" "h_tables s' = (h_tables s)[t := tb']" "h_threads s' = h_threads s"
    and held: "\<And>a. a \<in> set (h_held s') \<Longrightarrow> a < length (ko_objs (h_world s))"
    and bal: "\<And>a. rows_of a tb' + count_list (h_held s') a + refs_at a p' =
      rows_of a (h_tables s ! t) + count_list (h_held s) a + refs_at a p"
  shows "sound s ps (Inr (p', s'))"
  using sys_table_step [OF inv [unfolded sys_ok_def] t tab st loc pc held bal] s' tables_le_update [OF st]
  by (simp add: sound_def sys_ok_def)

lemma held_valid: "sys_ok s ps \<Longrightarrow> a \<in> set (h_held s) \<Longrightarrow> a < length (ko_objs (h_world s))"
  by (auto simp: sys_ok_def sys_inv_def)

lemma sys_table_ok: "sys_ok s ps \<Longrightarrow> t < length (h_tables s) \<Longrightarrow> table_ok (h_world s) t (h_tables s ! t) ps"
  by (simp add: sys_ok_def sys_inv_def)

lemma held_remove1: "a \<in> set (remove1 b xs) \<Longrightarrow> a \<in> set xs"
  using set_remove1_subset by fast

section \<open>Calls\<close>

lemma call_insert_sound:
  assumes inv: "sys_ok s (p # ps)" and idle: "is_idle p" and t: "t < length (h_tables s)"
    and obj: "owns s obj"
  shows "sound s ps (call (CallInsert t obj rights) s)"
proof (cases rule: insert_result [OF sys_table_ok [OF inv t], of obj rights, case_names Err Ok])
  case (Err err)
  with sound_return [OF inv idle t] show ?thesis by simp
next
  case (Ok a i)
  have a: "a \<in> set (h_held s)" "a < length (ko_objs (h_world s))"
    using obj Ok(1) held_valid [OF inv] by (auto simp: owns_def)
  note res = insert_row_ok [OF sys_table_ok [OF inv t] idle_quiet [OF idle] quiet_simps(1) a(2) Ok(2)
    first_free_Some [OF Ok(3)]]
  have "sound s ps (Inr (Returned r, take_ref obj (set_table t (insert_row (h_tables s ! t) i a rights) s)))" for r
  proof (rule sound_table [OF inv t res(1,2) local_quiet])
    show "b < length (ko_objs (h_world s))"
      if "b \<in> set (h_held (take_ref obj (set_table t (insert_row (h_tables s ! t) i a rights) s)))" for b
      using that Ok(1) held_valid [OF inv] held_remove1 by fastforce
    show "rows_of b (insert_row (h_tables s ! t) i a rights) +
        count_list (h_held (take_ref obj (set_table t (insert_row (h_tables s ! t) i a rights) s))) b +
        refs_at b (Returned r) = rows_of b (h_tables s ! t) + count_list (h_held s) b + refs_at b p" for b
      using res(3) count_remove1 [OF a(1), of b] Ok(1) idle by simp
  qed (use idle_quiet [OF idle] in simp_all)
  with Ok(4) show ?thesis by simp
qed

lemma call_publish_sound:
  assumes inv: "sys_ok s (p # ps)" and idle: "is_idle p" and t: "t < length (h_tables s)"
    and obj: "owns s obj"
  shows "sound s ps (call (CallPublish t rsv obj) s)"
proof (cases rule: publish_result [of "h_world s" rsv obj "h_tables s ! t", case_names Err Ok])
  case (Err err)
  with sound_return [OF inv idle t] show ?thesis by simp
next
  case (Ok d a)
  have a: "a \<in> set (h_held s)" "a < length (ko_objs (h_world s))"
    using obj Ok(3) held_valid [OF inv] by (auto simp: owns_def)
  note res = publish_row_ok [OF sys_table_ok [OF inv t] idle_quiet [OF idle] quiet_simps(1) Ok(1,5,6) a(2) Ok(7)]
  have "sound s ps (Inr (Returned r, take_ref obj (set_table t (publish_row (h_tables s ! t) d a) s)))" for r
  proof (rule sound_table [OF inv t res(1,2) local_quiet])
    show "b < length (ko_objs (h_world s))"
      if "b \<in> set (h_held (take_ref obj (set_table t (publish_row (h_tables s ! t) d a) s)))" for b
      using that Ok(3) held_valid [OF inv] held_remove1 by fastforce
    show "rows_of b (publish_row (h_tables s ! t) d a) +
        count_list (h_held (take_ref obj (set_table t (publish_row (h_tables s ! t) d a) s))) b +
        refs_at b (Returned r) = rows_of b (h_tables s ! t) + count_list (h_held s) b + refs_at b p" for b
      using res(3) count_remove1 [OF a(1), of b] Ok(3) idle by simp
  qed (use idle_quiet [OF idle] in simp_all)
  with Ok(8) show ?thesis by simp
qed

text \<open>Calls that change one row and move no reference.\<close>

lemma sound_row:
  assumes inv: "sys_ok s (p # ps)" and idle: "is_idle p" and t: "t < length (h_tables s)"
    and res: "table_ok (h_world s) t tb' (Returned r # ps)" "stable t (h_tables s ! t) tb' ps"
      "\<And>a. rows_of a tb' = rows_of a (h_tables s ! t)"
    and s': "h_world s' = h_world s" "h_tables s' = (h_tables s)[t := tb']" "h_threads s' = h_threads s"
      "h_held s' = h_held s"
  shows "sound s ps (Inr (Returned r, s'))"
  using held_valid [OF inv] idle
  by (intro sound_table [OF inv t res(1,2) local_quiet [OF idle_quiet [OF idle]] _ s'(1-3)])
    (simp_all add: res(3) s'(4))

lemma call_reserve_sound:
  assumes inv: "sys_ok s (p # ps)" and idle: "is_idle p" and t: "t < length (h_tables s)"
  shows "sound s ps (call (CallReserve t ty rights) s)"
proof (cases rule: reserve_result [OF sys_table_ok [OF inv t], of ty rights "h_last_nonce s", case_names Err Ok])
  case (Err err last')
  with sound_return [OF inv idle t] show ?thesis by (simp add: set_table_same [OF t])
next
  case (Ok i)
  have "h_last_nonce s + 1 \<noteq> 0"
    using u64_succ_nonzero [OF Ok(6)] .
  note res = reserve_row_ok [OF sys_table_ok [OF inv t] idle_quiet [OF idle] quiet_simps(1) Ok(1-4) this
    first_free_Some [OF Ok(5)]]
  with Ok(7) show ?thesis
    by (simp del: set_table_fields, intro sound_row [OF inv idle t res]) simp_all
qed

lemma call_abort_sound:
  assumes inv: "sys_ok s (p # ps)" and idle: "is_idle p" and t: "t < length (h_tables s)"
  shows "sound s ps (call (CallAbort t rsv) s)"
proof (cases rule: abort_result [of rsv "h_tables s ! t", case_names Err Ok])
  case (Err err)
  with sound_return [OF inv idle t] show ?thesis by simp
next
  case (Ok d)
  note res = abort_row_ok [OF sys_table_ok [OF inv t] idle_quiet [OF idle] quiet_simps(1) Ok(1,3,4)]
  with Ok(5) show ?thesis
    by (simp del: set_table_fields, intro sound_row [OF inv idle t res]) simp_all
qed

lemma call_replace_sound:
  assumes inv: "sys_ok s (p # ps)" and idle: "is_idle p" and t: "t < length (h_tables s)"
  shows "sound s ps (call (CallReplace t h rights) s)"
proof (cases rule: replace_result [OF sys_table_ok [OF inv t], of h rights, case_names Err Ok])
  case (Err err)
  with sound_return [OF inv idle t] show ?thesis by simp
next
  case (Ok d)
  note res = narrow_row_ok [OF sys_table_ok [OF inv t] idle_quiet [OF idle] quiet_simps(1) Ok(1,3-7)]
  with Ok(8) show ?thesis
    by (simp del: set_table_fields, intro sound_row [OF inv idle t res]) simp_all
qed

lemma begin_retain_sound:
  assumes inv: "sys_ok s (p # ps)" and idle: "is_idle p" and t: "t < length (h_tables s)"
    and k: "retain_ok (length (h_tables s)) k"
  shows "sound s ps (begin_retain t h ty req k failed s)"
proof (cases rule: pin_result [of "h_world s" h ty req "h_tables s ! t", case_names Err Ok])
  case (Err err)
  with sound_return [OF inv idle t] show ?thesis by (simp add: begin_retain_def)
next
  case (Ok d)
  obtain obj where row: "hs_obj (slot_at (h_tables s ! t) (dec_slot d)) = Some obj" "obj < length (ko_objs (h_world s))"
      "hs_obj (slot_at (pin_row (h_tables s ! t) d) (dec_slot d)) = Some obj"
      "\<And>rights k. table_ok (h_world s) t (pin_row (h_tables s ! t) d) (Pinned t d obj rights k # ps)"
      "stable t (h_tables s ! t) (pin_row (h_tables s ! t) d) ps"
      "\<And>a. rows_of a (pin_row (h_tables s ! t) d) = rows_of a (h_tables s ! t)"
    using pin_row_ok [OF sys_table_ok [OF inv t] idle Ok(1,3)] by metis
  have "sound s ps (Inr (Pinned t d obj rights k, set_table t (pin_row (h_tables s ! t) d) s))" for rights
  proof (rule sound_table [OF inv t row(4,5)])
    show "local_to t p (Pinned t d obj rights k)"
      using idle by (simp add: local_to_def)
  qed (use row Ok(1) t k idle held_valid [OF inv] in simp_all)
  with Ok(4) row(1) show ?thesis by (simp add: begin_retain_def)
qed

lemma claim_sound:
  assumes inv: "sys_ok s (p # ps)" and idle: "is_idle p" and t: "t < length (h_tables s)"
    and d: "decoded_ok d" "claim_guard (h_tables s ! t) d" and k: "closing_ok (h_world s) d k"
    and s': "h_world s' = h_world s" "h_tables s' = (h_tables s)[t := claim_row (h_tables s ! t) d]"
      "h_threads s' = h_threads s"
    and held: "\<And>a. a \<in> set (h_held s') \<Longrightarrow> a \<in> set (h_held s)"
    and bal: "\<And>a. count_list (h_held s') a + closing_refs a k = count_list (h_held s) a"
  shows "sound s ps (Inr (Closing t d k, s'))"
proof -
  note res = claim_row_ok [OF sys_table_ok [OF inv t] idle d]
  show ?thesis
  proof (rule sound_table [OF inv t res(1,2)])
    show "local_to t p (Closing t d k)"
      using idle by (simp add: local_to_def)
    show "rows_of a (claim_row (h_tables s ! t) d) + count_list (h_held s') a + refs_at a (Closing t d k) =
      rows_of a (h_tables s ! t) + count_list (h_held s) a + refs_at a p" for a
      using res(3) bal [of a] idle by simp
  qed (use res(4,5) d t k s' held held_valid [OF inv] in simp_all)
qed

lemma begin_close_sound:
  assumes inv: "sys_ok s (p # ps)" and idle: "is_idle p" and t: "t < length (h_tables s)"
    and k: "k = ForDetach \<or> k = ForRemove"
  shows "sound s ps (begin_close t h ty req k failed s)"
proof (cases rule: detach_begin_result [of "h_world s" h ty req "h_tables s ! t", case_names Err Ok])
  case (Err err)
  with sound_return [OF inv idle t] show ?thesis by (simp add: begin_close_def)
next
  case (Ok d)
  have "sound s ps (Inr (Closing t d k, set_table t (claim_row (h_tables s ! t) d) s))"
    using k by (intro claim_sound [OF inv idle t Ok(1,3)]) auto
  with Ok(5) show ?thesis by (simp add: begin_close_def)
qed

lemma call_adopt_sound:
  assumes inv: "sys_ok s (p # ps)" and idle: "is_idle p" and t: "t < length (h_tables s)"
    and obj: "owns s obj"
  shows "sound s ps (call (CallAdoptReplace t h obj rights ty) s)"
proof (cases rule: adopt_begin_result [of "h_world s" h obj rights ty "h_tables s ! t", case_names Err Ok])
  case (Err err)
  with sound_return [OF inv idle t] show ?thesis by simp
next
  case (Ok d a)
  have a: "a \<in> set (h_held s)" "a < length (ko_objs (h_world s))"
    using obj Ok(3) held_valid [OF inv] by (auto simp: owns_def)
  have gen: "dec_generation d \<noteq> kHandleGenerationMax"
    using Ok(4) by (auto simp: adopt_guard_def claim_guard_def SlotMatches_def)
  have "sound s ps (Inr (Closing t d (ForAdoptReplace a rights),
      take_ref obj (set_table t (claim_row (h_tables s ! t) d) s)))"
  proof (rule claim_sound [OF inv idle t Ok(1)])
    show "claim_guard (h_tables s ! t) d" using Ok(4) by (simp add: adopt_guard_def)
    show "count_list (h_held (take_ref obj (set_table t (claim_row (h_tables s ! t) d) s))) b +
        closing_refs b (ForAdoptReplace a rights) = count_list (h_held s) b" for b
      using count_remove1 [OF a(1), of b] Ok(3) by simp
    show "b \<in> set (h_held s)" if "b \<in> set (h_held (take_ref obj (set_table t (claim_row (h_tables s ! t) d) s)))" for b
      using that Ok(3) held_remove1 by fastforce
  qed (use Ok(4) a gen in \<open>simp_all add: adopt_guard_def\<close>)
  with Ok(3,5) show ?thesis by simp
qed

lemma call_drain_sound:
  assumes inv: "sys_ok s (p # ps)" and idle: "is_idle p" and t: "t < length (h_tables s)"
  shows "sound s ps (call (CallDrain t) s)"
proof (cases "ht_state (h_tables s ! t)")
  case TableOpen
  note res = drain_begin_ok [OF sys_table_ok [OF inv t] idle_quiet [OF idle] TableOpen]
  have "sound s ps (Inr (DrainQuiescing t, set_table t ((h_tables s ! t)\<lparr>ht_state := TableDraining\<rparr>) s))"
  proof (rule sound_table [OF inv t res(1,2)])
    show "local_to t p (DrainQuiescing t)"
      using idle by (simp add: local_to_def)
  qed (use t idle held_valid [OF inv] res(3) in simp_all)
  then show ?thesis
    using TableOpen by (simp add: HandleTableDrain_begin_def)
next
  case TableDraining
  have "sound s ps (Inr (DrainWaiting t, s))"
    by (rule sound_move [OF inv idle_quiet [OF idle]]) (simp_all add: t idle TableDraining)
  then show ?thesis
    using TableDraining by (simp add: HandleTableDrain_begin_def set_table_same [OF t])
next
  case TableClosed
  with sound_return [OF inv idle t] show ?thesis by (simp add: HandleTableDrain_begin_def)
qed

lemma sound_world:
  assumes inv: "sys_ok s (p # ps)" and le: "world_le (h_world s) w'"
    and same: "\<And>t k. pin_at t k p' = pin_at t k p \<and> close_at t k p' = close_at t k p \<and>
      active_at t p' = active_at t p \<and> drain_at t p' = drain_at t p"
    and pc: "pc_ok w' (h_tables s) p'" and w': "destroy_exact w'" "ko_warnings w' = ko_warnings (h_world s)"
    and s': "h_world s' = w'" "h_tables s' = h_tables s" "h_threads s' = h_threads s"
    and held: "\<And>a. a \<in> set (h_held s') \<Longrightarrow> a < length (ko_objs w')"
    and bal: "\<And>a. refs_total w' a + (count_list (h_held s) a + refs_at a p) =
      refs_total (h_world s) a + (count_list (h_held s') a + refs_at a p')"
  shows "sound s ps (Inr (p', s'))"
proof -
  have "ko_warnings w' = []"
    using sys_invD(4) [OF inv [unfolded sys_ok_def]] w'(2) by simp
  from sys_world_step [OF inv [unfolded sys_ok_def] le same pc w'(1) this held bal] s' show ?thesis
    by (simp add: sound_def sys_ok_def)
qed

lemma call_acquire_sound:
  assumes inv: "sys_ok s (p # ps)" and idle: "is_idle p" and a: "a \<in> set (h_held s)"
  shows "sound s ps (call (CallKObjectAcquire a) s)"
proof -
  obtain ok w' where op: "KObjectAcquire (Some a) (h_world s) = (ok, w')" by fastforce
  have len: "a < length (ko_objs (h_world s))" using held_valid [OF inv a] .
  note ex = sys_invD(3) [OF inv [unfolded sys_ok_def]]
  note res = acquire_step [OF len ex op]
  have "sound s ps (Inr (Returned r, if ok then give_ref a (s\<lparr>h_world := w'\<rparr>) else s\<lparr>h_world := w'\<rparr>))" for r
    using idle res held_valid [OF inv] len
    by (intro sound_world [OF inv res(1)]) (auto simp: res(5) split: if_splits)
  with op show ?thesis by simp
qed

lemma call_release_sound:
  assumes inv: "sys_ok s (p # ps)" and idle: "is_idle p" and a: "a \<in> set (h_held s)"
  shows "sound s ps (call (CallKObjectRelease a) s)"
proof -
  have len: "a < length (ko_objs (h_world s))" using held_valid [OF inv a] .
  note i = inv [unfolded sys_ok_def]
  have "sound s ps (Inr (Releasing a ResNothing, take_ref (Some a) s))"
  proof (rule sound_world [OF inv])
    show "b < length (ko_objs (h_world s))" if "b \<in> set (h_held (take_ref (Some a) s))" for b
      using that held_valid [OF inv] held_remove1 by fastforce
    show "refs_total (h_world s) b + (count_list (h_held s) b + refs_at b p) =
      refs_total (h_world s) b + (count_list (h_held (take_ref (Some a) s)) b + refs_at b (Releasing a ResNothing))" for b
      using count_remove1 [OF a, of b] idle by simp
  qed (use idle len sys_invD(3) [OF i] in \<open>simp_all add: world_le_def\<close>)
  then show ?thesis by simp
qed

lemma init_world:
  fixes destroy :: bool
  assumes ex: "destroy_exact w" and ty: "ty \<noteq> KTypeInvalid"
  defines "w' \<equiv> w\<lparr>ko_objs := ko_objs w @ [\<lparr>ko_type = ty, ko_refcount = 1, ko_destroy = destroy\<rparr>]\<rparr>"
  shows "world_le w w'" and "destroy_exact w'"
    and "refs_total w' a = refs_total w a + (if length (ko_objs w) = a then 1 else 0)"
proof -
  have fresh: "count_list (ko_destroyed w) (length (ko_objs w)) = 0"
    using ex by (auto simp: destroy_exact_def count_list_0_iff)
  show "world_le w w'"
    by (simp add: world_le_def w'_def nth_append)
  show "destroy_exact w'"
    using ex ty fresh by (auto simp: destroy_exact_def w'_def nth_append less_Suc_eq)
  show "refs_total w' a = refs_total w a + (if length (ko_objs w) = a then 1 else 0)"
    by (auto simp: refs_total_def w'_def nth_append)
qed

lemma call_init_sound:
  assumes inv: "sys_ok s (p # ps)" and idle: "is_idle p" and ty: "ty \<noteq> KTypeInvalid"
  shows "sound s ps (call (CallKObjectInit ty destroy) s)"
proof -
  define w where "w = h_world s"
  define w' where "w' = w\<lparr>ko_objs := ko_objs w @ [\<lparr>ko_type = ty, ko_refcount = 1, ko_destroy = destroy\<rparr>]\<rparr>"
  have ex: "destroy_exact w"
    using sys_invD(3) [OF inv [unfolded sys_ok_def]] by (simp add: w_def)
  note res = init_world [OF ex ty, of destroy, folded w'_def]
  have len: "length (ko_objs w') = Suc (length (ko_objs w))"
    by (simp add: w'_def)
  have "sound s ps (Inr (Returned r, give_ref (length (ko_objs w)) (s\<lparr>h_world := w'\<rparr>)))" for r
  proof (rule sound_world [OF inv res(1) [unfolded w_def]])
    show "a < length (ko_objs w')" if "a \<in> set (h_held (give_ref (length (ko_objs w)) (s\<lparr>h_world := w'\<rparr>)))" for a
      using that held_valid [OF inv] len by (auto simp: w_def less_Suc_eq)
    show "ko_warnings w' = ko_warnings (h_world s)" by (simp add: w'_def w_def)
  qed (use idle res(2) res(3) in \<open>simp_all add: w_def\<close>)
  then show ?thesis
    using ty by (simp add: KObjectInit_def Let_def w'_def w_def)
qed

lemma call_sound:
  assumes inv: "sys_ok s (p # ps)" and idle: "is_idle p" and ok: "call_ok s c"
  shows "sound s ps (call c s)"
proof (cases c)
  case (CallDuplicateRights src dst h rights)
  have "sound s ps (Inr (Returned (ResHandle (Inl ErrInvalidArgument)), s))"
    by (rule sound_move [OF inv idle_quiet [OF idle]]) (simp_all add: idle)
  then show ?thesis
    using CallDuplicateRights ok begin_retain_sound [OF inv idle] by simp
qed (use ok call_insert_sound [OF inv idle] call_publish_sound [OF inv idle] call_reserve_sound [OF inv idle]
    call_abort_sound [OF inv idle] call_replace_sound [OF inv idle] call_adopt_sound [OF inv idle]
    begin_retain_sound [OF inv idle] begin_close_sound [OF inv idle] call_drain_sound [OF inv idle]
    call_acquire_sound [OF inv idle] call_release_sound [OF inv idle] call_init_sound [OF inv idle]
    in \<open>simp_all del: call.simps(1,2,3,4,10,11,12,13,14,15)\<close>)

section \<open>Later sections\<close>

lemma own_pc: "sys_ok s (p # ps) \<Longrightarrow> pc_ok (h_world s) (h_tables s) p"
  by (simp add: sys_ok_def sys_inv_def)

lemma pinned_sound:
  assumes inv: "sys_ok s (Pinned t d obj rights k # ps)"
  shows "sound s ps (advance (Pinned t d obj rights k) s)"
proof -
  obtain ok w' where op: "KObjectAcquire (Some obj) (h_world s) = (ok, w')" by fastforce
  have pc: "pc_ok (h_world s) (h_tables s) (Pinned t d obj rights k)" by (rule own_pc [OF inv])
  then have len: "obj < length (ko_objs (h_world s))" by simp
  note res = acquire_step [OF len sys_invD(3) [OF inv [unfolded sys_ok_def]] op]
  have "sound s ps (Inr (Unpinning t d obj rights ok k, s\<lparr>h_world := w'\<rparr>))"
    using res(2-5) held_valid [OF inv] pc_ok_mono [OF res(1) pc]
    by (intro sound_world [OF inv res(1)]) (simp_all add: res(5))
  with op show ?thesis by simp
qed

lemma unpinned_refs:
  assumes "retained_ok k obj rights s = (p', s')"
  shows "quiet p'" and "h_world s' = h_world s" and "h_tables s' = h_tables s" and "h_threads s' = h_threads s"
    and "a \<in> set (h_held s') \<Longrightarrow> a = obj \<or> a \<in> set (h_held s)"
    and "count_list (h_held s') a + refs_at a p' = count_list (h_held s) a + (if obj = a then 1 else 0)"
    and "obj < length (ko_objs w) \<Longrightarrow> retain_ok (length tbs) k \<Longrightarrow> pc_ok w tbs p'"
  using assms by (cases k; auto split: if_splits)+

lemma unpinning_sound:
  assumes inv: "sys_ok s (Unpinning t d obj rights ok k # ps)"
  shows "sound s ps (advance (Unpinning t d obj rights ok k) s)"
proof -
  have pc: "t < length (h_tables s)" "decoded_ok d" "obj < length (ko_objs (h_world s))"
    "hs_obj (slot_at (h_tables s ! t) (dec_slot d)) = Some obj" "retain_ok (length (h_tables s)) k"
    using own_pc [OF inv] by simp_all
  define tb' where "tb' = projr (RetainSnapshot_unpin d obj (h_tables s ! t))"
  have res: "RetainSnapshot_unpin d obj (h_tables s ! t) = Inr tb'" "table_ok (h_world s) t tb' (p' # ps)"
    "stable t (h_tables s ! t) tb' ps" "rows_of a tb' = rows_of a (h_tables s ! t)" if "quiet p'" for p' a
    by (rule unpin_ok [OF sys_table_ok [OF inv pc(1)] pc(2,4) that]; simp add: tb'_def)+
  have loc: "local_to t (Unpinning t d obj rights ok k) p'" if "quiet p'" for p'
    using that by (simp add: local_to_def quiet_def)
  obtain p' s' where r: "retained_ok k obj rights (set_table t tb' s) = (p', s')" by fastforce
  note f = unpinned_refs [OF r]
  show ?thesis
  proof (cases ok)
    case True
    have "sound s ps (Inr (p', s'))"
    proof (rule sound_table [OF inv pc(1) res(2,3) [OF f(1)] loc [OF f(1)]])
      show "pc_ok (h_world s) ((h_tables s)[t := tb']) p'"
        using f(7) [OF pc(3), of "(h_tables s)[t := tb']"] pc(5) by simp
      show "a < length (ko_objs (h_world s))" if "a \<in> set (h_held s')" for a
        using f(5) [OF that] held_valid [OF inv] pc(3) by auto
      show "rows_of a tb' + count_list (h_held s') a + refs_at a p' =
        rows_of a (h_tables s ! t) + count_list (h_held s) a + refs_at a (Unpinning t d obj rights ok k)" for a
        using f(6) [of a] res(4) [OF f(1), of a] True by simp
    qed (use f in simp_all)
    then show ?thesis using True res(1) [OF f(1)] r by simp
  next
    case False
    have "sound s ps (Inr (Returned (retained_failed k), set_table t tb' s))"
      using res(4) [OF f(1)] False held_valid [OF inv]
      by (intro sound_table [OF inv pc(1) res(2,3) [OF quiet_simps(1)] loc [OF quiet_simps(1)]]) simp_all
    then show ?thesis using False res(1) [OF f(1)] by simp
  qed
qed

lemma duplicating_sound:
  assumes inv: "sys_ok s (Duplicating obj rights dst # ps)"
  shows "sound s ps (advance (Duplicating obj rights dst) s)"
proof -
  have pc: "obj < length (ko_objs (h_world s))" "dst < length (h_tables s)"
    using own_pc [OF inv] by simp_all
  note tab = sys_table_ok [OF inv pc(2)]
  show ?thesis
  proof (cases rule: insert_result [OF tab, of "Some obj" rights, case_names Err Ok])
    case (Err err)
    have "sound s ps (Inr (Releasing obj (ResHandle (Inl err)), s))"
      by (rule sound_move [OF inv]) (simp_all add: pc)
    with Err show ?thesis by (simp add: set_table_same [OF pc(2)])
  next
    case (Ok a i)
    then have a: "a = obj" by simp
    note res = insert_row_ok [OF tab quiet_simps(2) quiet_simps(1) pc(1) Ok(2) [unfolded a] first_free_Some [OF Ok(3)]]
    have "sound s ps (Inr (Returned r, set_table dst (insert_row (h_tables s ! dst) i obj rights) s))" for r
      using res(3) held_valid [OF inv]
      by (intro sound_table [OF inv pc(2) res(1,2) local_quiet]) simp_all
    with Ok(4) a show ?thesis by simp
  qed
qed

lemma releasing_sound:
  assumes inv: "sys_ok s (p # ps)" and a: "a < length (ko_objs (h_world s))" and own: "0 < refs_at a p"
    and same: "\<And>t k. pin_at t k p' = pin_at t k p \<and> close_at t k p' = close_at t k p \<and>
      active_at t p' = active_at t p \<and> drain_at t p' = drain_at t p"
    and refs: "\<And>b. refs_at b p' + (if a = b then 1 else 0) = refs_at b p"
    and pc: "\<And>w'. length (ko_objs w') = length (ko_objs (h_world s)) \<Longrightarrow> pc_ok w' (h_tables s) p'"
  obtains w' where "KObjectRelease (Some a) (h_world s) = Inr w'" and "sound s ps (Inr (p', s\<lparr>h_world := w'\<rparr>))"
proof -
  obtain w' where w': "KObjectRelease (Some a) (h_world s) = Inr w'" "world_le (h_world s) w'"
    "length (ko_objs w') = length (ko_objs (h_world s))" "destroy_exact w'" "ko_warnings w' = ko_warnings (h_world s)"
    "\<And>b. refs_total w' b + (if a = b then 1 else 0) = refs_total (h_world s) b"
    using release_step [OF inv [unfolded sys_ok_def] a own] by metis
  have "sound s ps (Inr (p', s\<lparr>h_world := w'\<rparr>))"
  proof (rule sound_world [OF inv w'(2) same pc [OF w'(3)] w'(4,5)])
    show "refs_total w' b + (count_list (h_held s) b + refs_at b p) =
      refs_total (h_world s) b + (count_list (h_held (s\<lparr>h_world := w'\<rparr>)) b + refs_at b p')" for b
      using w'(6) [of b] refs [of b] by simp
  qed (use w'(3) held_valid [OF inv] in simp_all)
  with w'(1) that show thesis by blast
qed

lemma closing_sound:
  assumes inv: "sys_ok s (Closing t d k # ps)"
  shows "sound s ps (advance (Closing t d k) s)"
proof -
  have pc: "t < length (h_tables s)" "decoded_ok d" "hs_state (slot_at (h_tables s ! t) (dec_slot d)) = SlotClosing"
    "hs_generation (slot_at (h_tables s ! t) (dec_slot d)) = dec_generation d" "closing_ok (h_world s) d k"
    using own_pc [OF inv] by simp_all
  note tab = sys_table_ok [OF inv pc(1)]
  have loc: "local_to t (Closing t d k) p'" if "quiet p'" for p'
    using that by (simp add: local_to_def quiet_def)
  have wait: "sound s ps (Inr (Closing t d k, set_table t (h_tables s ! t) s))"
    using inv by (simp add: sound_def set_table_same [OF pc(1)])
  have done_ref: "sound s ps (Inr (Returned r, give_ref obj (set_table t tb' s)))"
    if "obj < length (ko_objs (h_world s))" "table_ok (h_world s) t tb' (Returned r # ps)" "stable t (h_tables s ! t) tb' ps"
      "\<And>a. rows_of a tb' + (if obj = a then 1 else 0) = rows_of a (h_tables s ! t) + closing_refs a k" for obj tb' r
  proof (rule sound_table [OF inv pc(1) that(2,3) loc])
    show "rows_of a tb' + count_list (h_held (give_ref obj (set_table t tb' s))) a + refs_at a (Returned r) =
      rows_of a (h_tables s ! t) + count_list (h_held s) a + refs_at a (Closing t d k)" for a
      using that(4) [of a] by (simp split: if_splits)
  qed (use that(1) held_valid [OF inv] in auto)
  show ?thesis
  proof (cases k)
    case ForDetach
    from detach_try_ok [OF tab pc(2-4)] show ?thesis
    proof cases
      case (2 obj tb')
      then show ?thesis using ForDetach done_ref [OF 2(2) 2(3) [OF quiet_simps(1)] 2(4), of "ResObject (Inr obj)"] by simp
    qed (use wait ForDetach in simp)
  next
    case ForRemove
    from detach_try_ok [OF tab pc(2-4)] show ?thesis
    proof cases
      case (2 obj tb')
      have "sound s ps (Inr (Releasing obj (ResVoid (Inr ())), set_table t tb' s))"
        using 2(2,5) ForRemove held_valid [OF inv] by (intro sound_table [OF inv pc(1) 2(3) [OF quiet_simps(3)] 2(4) loc]) simp_all
      then show ?thesis using ForRemove 2(1) by simp
    qed (use wait ForRemove in simp)
  next
    case (ForAdoptReplace repl rights)
    then have "repl < length (ko_objs (h_world s))" "rights \<noteq> 0"
      "within rights (TypeAllowedRights (obj_type (h_world s) repl))" "dec_generation d \<noteq> kHandleGenerationMax"
      using pc(5) by simp_all
    from adopt_try_ok [OF tab pc(2-4) this(4,1-3)] show ?thesis
    proof cases
      case (2 h obj tb')
      then show ?thesis
        using ForAdoptReplace done_ref [OF 2(2) 2(3) [OF quiet_simps(1)] 2(4), of "ResAdopt (Inr (h, obj))"] by simp
    qed (use wait ForAdoptReplace in simp)
  qed
qed

lemma drain_releasing_sound:
  assumes inv: "sys_ok s (DrainReleasing t vs # ps)"
  shows "sound s ps (advance (DrainReleasing t vs) s)"
proof -
  have pc: "t < length (h_tables s)" "ht_state (h_tables s ! t) = TableDraining" "dead_rows (h_tables s ! t)"
    "\<forall>v\<in>set vs. v < length (ko_objs (h_world s))"
    using own_pc [OF inv] by simp_all
  show ?thesis
  proof (cases vs)
    case Nil
    obtain tb' where tb': "HandleTableDrain_finish (h_tables s ! t) = Inr tb'"
      "table_ok (h_world s) t tb' (Returned ResNothing # ps)" "stable t (h_tables s ! t) tb' ps"
      "\<And>a. rows_of a tb' = rows_of a (h_tables s ! t)"
      using drain_finish_ok [OF _ pc(2,3)] sys_table_ok [OF inv pc(1)] Nil by metis
    have "sound s ps (Inr (Returned ResNothing, set_table t tb' s))"
      using tb'(4) held_valid [OF inv] Nil
      by (intro sound_table [OF inv pc(1) tb'(2,3)]) (simp_all add: local_to_def)
    then show ?thesis using Nil tb'(1) by simp
  next
    case (Cons a rest)
    obtain w' where "KObjectRelease (Some a) (h_world s) = Inr w'"
        "sound s ps (Inr (DrainReleasing t rest, s\<lparr>h_world := w'\<rparr>))"
      by (rule releasing_sound [OF inv, of a "DrainReleasing t rest"]) (use pc Cons in auto)
    then show ?thesis using Cons by simp
  qed
qed

lemma rows_of_valid: "table_ok w t tb ps \<Longrightarrow> 0 < rows_of a tb \<Longrightarrow> a < length (ko_objs w)"
proof -
  assume ok: "table_ok w t tb ps" and "0 < rows_of a tb"
  then obtain sl where "sl \<in> set (ht_slots tb)" "hs_obj sl = Some a"
    by (auto simp: rows_of_def length_greater_0_conv filter_empty_conv)
  then show "a < length (ko_objs w)"
    using table_ok_slots [OF ok] table_okD(1) [OF ok] owned_state by (metis in_set_conv_nth)
qed

lemma advance_sound:
  assumes inv: "sys_ok s (p # ps)"
  shows "sound s ps (advance p s)"
proof (cases p)
  case (Returned r)
  with inv show ?thesis by (simp add: sound_def)
next
  case (Releasing a r)
  then have "a < length (ko_objs (h_world s))" using own_pc [OF inv] by simp
  then obtain w' where "KObjectRelease (Some a) (h_world s) = Inr w'" "sound s ps (Inr (Returned r, s\<lparr>h_world := w'\<rparr>))"
    by (rule releasing_sound [OF inv, of a "Returned r"]) (use Releasing in auto)
  then show ?thesis using Releasing by simp
next
  case (DrainWaiting t)
  have "sound s ps (Inr (Returned ResNothing, s))" "sound s ps (Inr (p, s))"
    using own_pc [OF inv] DrainWaiting by (intro sound_move [OF inv]; simp)+
  then show ?thesis using DrainWaiting by simp
next
  case (DrainQuiescing t)
  note pc = own_pc [OF inv, unfolded DrainQuiescing]
  have "sound s ps (Inr (DrainCollecting t, s))" if "HandleTableDrain_quiescent (h_tables s ! t)"
    using that pc held_valid [OF inv] sys_invD(3) [OF inv [unfolded sys_ok_def]] DrainQuiescing
    by (intro sound_world [OF inv, where w' = "h_world s"]) (simp_all add: world_le_def HandleTableDrain_quiescent_def)
  then show ?thesis using DrainQuiescing inv by (simp add: sound_def)
next
  case (DrainCollecting t)
  have pc: "t < length (h_tables s)" "ht_state (h_tables s ! t) = TableDraining" "ht_active_operations (h_tables s ! t) = 0"
    using own_pc [OF inv] DrainCollecting by simp_all
  obtain vs tb' where tb': "HandleTableDrain_collect (h_tables s ! t) = Inr (vs, tb')"
    "table_ok (h_world s) t tb' (DrainReleasing t vs # ps)" "stable t (h_tables s ! t) tb' ps"
    "ht_state tb' = TableDraining" "dead_rows tb'" "\<And>a. count_list vs a + rows_of a tb' = rows_of a (h_tables s ! t)"
    using drain_collect_ok [OF _ pc(2,3)] sys_table_ok [OF inv pc(1)] DrainCollecting by metis
  have "v < length (ko_objs (h_world s))" if "v \<in> set vs" for v
  proof (rule rows_of_valid [OF sys_table_ok [OF inv pc(1)]])
    show "0 < rows_of v (h_tables s ! t)"
      using tb'(6) [of v] that count_list_0_iff [of vs v] by (metis add_gr_0 gr0I)
  qed
  then have "sound s ps (Inr (DrainReleasing t vs, set_table t tb' s))"
    using tb'(4-6) pc held_valid [OF inv] DrainCollecting
    by (intro sound_table [OF inv pc(1) tb'(2,3)]) (auto simp: local_to_def algebra_simps)
  then show ?thesis using tb'(1) DrainCollecting by simp
qed (use inv pinned_sound unpinning_sound duplicating_sound closing_sound drain_releasing_sound in \<open>simp_all del: advance.simps\<close>)

section \<open>Runs\<close>

lemma sys_inv_cong:
  assumes "set ps = set qs" and "\<And>f. tally f ps = tally f qs"
  shows "sys_inv w tbs held ps = sys_inv w tbs held qs"
  by (simp add: sys_inv_def table_ok_def row_ok_def owners_def assms)

lemma h_inv_thread: "i < length (h_threads s) \<Longrightarrow> h_inv s = sys_ok s (h_threads s ! i # others i (h_threads s))"
  unfolding h_inv_def sys_ok_def by (rule sys_inv_cong [OF set_split tally_split])

lemma h_inv_put:
  assumes "i < length (h_threads s')" and "sys_ok s' (p' # others i (h_threads s'))"
  shows "h_inv (put_thread i (p', s'))"
proof -
  let ?qs = "(h_threads s')[i := p']"
  have "sys_inv (h_world s') (h_tables s') (h_held s') ?qs =
      sys_inv (h_world s') (h_tables s') (h_held s') (p' # others i (h_threads s'))"
    using assms(1) by (intro sys_inv_cong set_update tally_update)
  then show ?thesis
    using assms(2) by (simp add: h_inv_def put_thread_def sys_ok_def)
qed

lemma section_sound:
  assumes inv: "h_inv s" and en: "enabled i c s"
  obtains r where "thread_section i c s = Inr r" and "h_inv (put_thread i r)"
    and "tables_le (h_tables s) (h_tables (snd r))" and "h_threads (snd r) = h_threads s"
proof -
  have i: "i < length (h_threads s)" using en by (simp add: enabled_def)
  have ok: "sys_ok s (h_threads s ! i # others i (h_threads s))"
    using inv h_inv_thread [OF i] by simp
  have "sound s (others i (h_threads s)) (thread_section i c s)"
    using call_sound [OF ok] advance_sound [OF ok] en by (auto simp: thread_section_def enabled_def)
  then obtain p' s' where r: "thread_section i c s = Inr (p', s')" "sys_ok s' (p' # others i (h_threads s))"
    "h_threads s' = h_threads s" "tables_le (h_tables s) (h_tables s')"
    by (auto simp: sound_def split: sum.splits)
  have "h_inv (put_thread i (p', s'))"
    using h_inv_put [of i s' p'] i r(2,3) by simp
  with r that show thesis by simp
qed

lemma zero_row_ok: "row_ok w t i zero_handle_slot []"
  by (simp add: row_ok_def slot_ok_def zero_handle_slot_def free_slot_clear_def kdefs)

lemma init_inv: "init_hsys s \<Longrightarrow> h_inv s"
proof -
  assume "init_hsys s"
  then obtain n m debug where s: "h_world s = \<lparr>kIsDebugBuild = debug, ko_objs = [], ko_destroyed = [], ko_warnings = []\<rparr>"
    "h_tables s = replicate n zero_handle_table" "h_threads s = replicate m (Returned ResNothing)" "h_held s = []"
    by (auto simp: init_hsys_def boot_hsys_def)
  have zero: "tally f (replicate m (Returned ResNothing)) = 0" if "f (Returned ResNothing) = 0" for f
    using that by (simp add: tally_def sum_list_replicate)
  have slots: "length (ht_slots zero_handle_table) = 64" "i < 64 \<Longrightarrow> ht_slots zero_handle_table ! i = zero_handle_slot" for i
    by (simp_all add: zero_handle_table_def kdefs)
  have rows: "rows_of a zero_handle_table = 0" for a
    by (simp add: rows_of_def zero_handle_table_def zero_handle_slot_def)
  have "table_ok (h_world s) t zero_handle_table (h_threads s)" for t
    using zero_row_ok [of "h_world s" t] slots zero
    by (simp add: table_ok_def s row_ok_def) (simp add: zero_handle_table_def)
  then show "h_inv s"
    using zero rows
    by (auto simp: h_inv_def sys_inv_def s destroy_exact_def refs_total_def owners_def sum_list_replicate)
qed

lemma hstep_inv: "h_inv s \<Longrightarrow> hstep s t \<Longrightarrow> h_inv t"
  by (erule hstep.cases) (metis section_sound sum.inject(2))

lemma hstep_le: "h_inv s \<Longrightarrow> hstep s t \<Longrightarrow> tables_le (h_tables s) (h_tables t)"
proof (erule hstep.cases)
  fix i c sa r
  assume "h_inv s" "s = sa" "t = put_thread i r" "enabled i c sa" "thread_section i c sa = Inr r"
  then have "tables_le (h_tables s) (h_tables (snd r))"
    using section_sound [of s i c] by (metis sum.inject(2))
  with \<open>t = _\<close> show ?thesis by (simp add: put_thread_def)
qed

interpretation handle_ts: transition_system init_hsys hstep h_inv
  by unfold_locales (auto intro: init_inv hstep_inv)

lemma run_le: "h_inv s \<Longrightarrow> hstep\<^sup>*\<^sup>* s t \<Longrightarrow> tables_le (h_tables s) (h_tables t)"
  by (rule handle_ts.run_mono [where f = h_tables and R = tables_le])
    (auto intro: hstep_le tables_le_trans)

end
