(* ===== verification/HandleTableProps.thy ===== *)
theory HandleTableProps
  imports HandleTableSafety
begin

text \<open>
  What holds of every run of handle-table operations by any number of threads on any number of
  tables, from a boot state on.
\<close>

section \<open>Safety\<close>

lemma reachable: "init_hsys s \<Longrightarrow> hstep\<^sup>*\<^sup>* s t \<Longrightarrow> h_inv t"
  by (rule handle_ts.reachable_inv)

text \<open>
  C6. No assertion of the handle table fails under any interleaving: whenever a thread can take
  its next critical section, the section completes without a panic, and the object layer has
  logged no double release.
\<close>

theorem handle_sections_never_panic:
  assumes "init_hsys s" and "hstep\<^sup>*\<^sup>* s t" and "enabled i c t"
  shows "(\<exists>r. thread_section i c t = Inr r) \<and> ko_warnings (h_world t) = []"
proof -
  have "h_inv t" by (rule reachable [OF assms(1,2)])
  then show ?thesis
    using section_sound [OF _ assms(3)] sys_invD(4) by (metis h_inv_def)
qed

lemma schedule_reaches: "run_schedule cs s \<noteq> None \<Longrightarrow> hstep\<^sup>*\<^sup>* s (the (run_schedule cs s))"
  using run_schedule_run by fastforce

text \<open>A lookup pins the row of a handle that another thread then closes; the closer waits.\<close>

definition race_schedule :: "(nat \<times> hcall) list" where
  "race_schedule =
    [(0, CallKObjectInit KTypeTest True), (0, CallInsert 0 (Some 0) kHandleRightAll),
     (0, CallLookupRef 0 0x1001 KTypeTest kHandleRightRead), (1, CallRemove 0 0x1001), (1, CallDrain 0)]"

definition race_state :: hsys where
  "race_state = the (run_schedule race_schedule (boot_hsys False 1 2))"

lemma race_reached: "init_hsys (boot_hsys False 1 2)" "hstep\<^sup>*\<^sup>* (boot_hsys False 1 2) race_state"
proof -
  show "init_hsys (boot_hsys False 1 2)" by (auto simp: init_hsys_def)
  show "hstep\<^sup>*\<^sup>* (boot_hsys False 1 2) race_state"
    unfolding race_state_def by (rule schedule_reaches) code_simp
qed

theorem handle_sections_never_panic_witness:
  "(\<exists>r. thread_section 1 (CallDrain 0) race_state = Inr r) \<and> ko_warnings (h_world race_state) = []"
proof (rule handle_sections_never_panic [OF race_reached])
  show "enabled 1 (CallDrain 0) race_state" by code_simp
qed

text \<open>
  C1. Reference counts are exact under any interleaving: the count of an object is the number of
  table rows that hold it, plus the references of callers, plus those of operations in progress.
  While one of them is left the destroy callback has not run; once none is left it has run
  exactly once.
\<close>

theorem handle_references_exact:
  assumes "init_hsys s" and "hstep\<^sup>*\<^sup>* s t" and "a < length (ko_objs (h_world t))"
  shows "unat (refs (h_world t) a) = owners (h_tables t) (h_held t) (h_threads t) a \<and>
    count_list (ko_destroyed (h_world t)) a =
      (if owners (h_tables t) (h_held t) (h_threads t) a = 0 \<and> ko_destroy (ko_objs (h_world t) ! a) then 1 else 0)"
proof -
  have inv: "sys_inv (h_world t) (h_tables t) (h_held t) (h_threads t)"
    using reachable [OF assms(1,2)] by (simp add: h_inv_def)
  have refs: "unat (refs (h_world t) a) = owners (h_tables t) (h_held t) (h_threads t) a"
    using sys_invD(6) [OF inv, of a] assms(3) by (simp add: refs_total_def)
  then show ?thesis
    using sys_invD(3) [OF inv] assms(3) by (auto simp: destroy_exact_def unat_eq_zero)
qed

theorem handle_references_exact_witness:
  "unat (refs (h_world race_state) 0) = owners (h_tables race_state) (h_held race_state) (h_threads race_state) 0 \<and>
    count_list (ko_destroyed (h_world race_state)) 0 =
      (if owners (h_tables race_state) (h_held race_state) (h_threads race_state) 0 = 0 \<and>
        ko_destroy (ko_objs (h_world race_state) ! 0) then 1 else 0)"
proof (rule handle_references_exact [OF race_reached])
  show "0 < length (ko_objs (h_world race_state))" by code_simp
qed

text \<open>The row that a handle names, if the handle is current.\<close>

definition resolve :: "HandleTable \<Rightarrow> Handle \<Rightarrow> HandleSlot option" where
  "resolve tb h = (case HandleDecode h of
     None \<Rightarrow> None
   | Some (slot, g) \<Rightarrow> if SlotMatches (slot_at tb slot) g then Some (slot_at tb slot) else None)"

lemma resolveD:
  assumes "resolve tb h = Some sl"
  obtains d where "decoded_ok d" and "HandleDecode h = Some (dec_slot d, dec_generation d)"
    and "sl = slot_at tb (dec_slot d)" and "SlotMatches sl (dec_generation d)"
proof -
  from assms obtain i g where "HandleDecode h = Some (i, g)" "sl = slot_at tb i" "SlotMatches sl g"
    by (auto simp: resolve_def split: option.splits if_splits prod.splits)
  moreover from this(1) have "valid_row i g"
    by (auto simp: HandleDecode_eq Let_def split: if_splits)
  ultimately show thesis
    using that [of "\<lparr>dec_slot = i, dec_generation = g\<rparr>"] by (simp add: decoded_ok_def)
qed

lemma row_rank_live [simp]: "row_rank st = Suc 0 \<longleftrightarrow> st = SlotLive"
  by (cases st) simp_all

lemma row_past:
  assumes ab: "row_le a b" and a: "hs_generation a = g" "hs_state a = SlotLive"
    and b: "\<not> (hs_generation b = g \<and> hs_state b = SlotLive)" and bc: "row_le b c"
  shows "\<not> (hs_generation c = g \<and> hs_state c = SlotLive)"
proof -
  have mono: "hs_generation b \<le> hs_generation c"
    using bc by (auto simp: row_le_def)
  show ?thesis
  proof (cases "hs_generation b = g")
    case False
    with ab a have "g < hs_generation b" by (simp add: row_le_def)
    from this mono have "g < hs_generation c" by (rule less_le_trans)
    then show ?thesis by (blast dest: less_imp_neq)
  next
    case True
    have later: "1 < row_rank (hs_state b)"
      using ab a b True by (cases "hs_state b") (simp_all add: row_le_def)
    show ?thesis
    proof
      assume "hs_generation c = g \<and> hs_state c = SlotLive"
      with bc True have "row_rank (hs_state b) \<le> 1" by (simp add: row_le_def)
      with later show False by simp
    qed
  qed
qed

lemma resolve_live:
  assumes ok: "table_ok w t tb ps" and d: "decoded_ok d" "HandleDecode h = Some (dec_slot d, dec_generation d)"
  shows "resolve tb h = None \<longleftrightarrow>
    \<not> (hs_generation (slot_at tb (dec_slot d)) = dec_generation d \<and> hs_state (slot_at tb (dec_slot d)) = SlotLive)"
proof -
  have "slot_ok w (slot_at tb (dec_slot d))"
    using table_ok_slots [OF ok] decoded_okD [OF d(1)] by blast
  with d(2) show ?thesis
    by (auto simp: resolve_def SlotMatches_def slot_ok_def owned_row_ok_def split: option.splits)
qed

text \<open>
  C15. Handles are not recycled. A handle that resolved once and no longer does (its row was
  closed, replaced or drained) never resolves again, whatever all threads do afterwards.
\<close>

theorem handle_stale_stays_dead:
  assumes "init_hsys s" and "hstep\<^sup>*\<^sup>* s t" and "n < length (h_tables t)"
    and "resolve (h_tables t ! n) h = Some sl" and "hstep\<^sup>*\<^sup>* t u" and "resolve (h_tables u ! n) h = None"
    and "hstep\<^sup>*\<^sup>* u v"
  shows "resolve (h_tables v ! n) h = None"
proof -
  have inv: "h_inv t" "h_inv u" "h_inv v"
    using reachable [OF assms(1)] assms(2,5,7) by (meson rtranclp_trans)+
  note tu = run_le [OF inv(1) assms(5)] and uv = run_le [OF inv(2) assms(7)]
  have n: "n < length (h_tables u)" "n < length (h_tables v)"
    using assms(3) tables_leD(1) [OF tu] tables_leD(1) [OF uv] by simp_all
  have ok: "table_ok (h_world x) n (h_tables x ! n) (h_threads x)" if "h_inv x" "n < length (h_tables x)" for x
    using that by (simp add: h_inv_def sys_inv_def)
  obtain d where d: "decoded_ok d" "HandleDecode h = Some (dec_slot d, dec_generation d)"
    using resolveD [OF assms(4)] by blast
  note res = resolve_live [OF ok d]
  let ?r = "\<lambda>x. slot_at (h_tables x ! n) (dec_slot d)"
  have i: "unat (dec_slot d) < 64" using decoded_okD [OF d(1)] by simp
  have le: "row_le (?r t) (?r u)" "row_le (?r u) (?r v)"
    using tables_leD(2) [OF tu assms(3) i] tables_leD(2) [OF uv n(1) i] by simp_all
  have "hs_generation (?r t) = dec_generation d" "hs_state (?r t) = SlotLive"
    using res [OF inv(1) assms(3)] assms(4) by simp_all
  moreover have "\<not> (hs_generation (?r u) = dec_generation d \<and> hs_state (?r u) = SlotLive)"
    using res [OF inv(2) n(1)] assms(6) by simp
  ultimately have "\<not> (hs_generation (?r v) = dec_generation d \<and> hs_state (?r v) = SlotLive)"
    using row_past [OF le(1) _ _ _ le(2)] by blast
  then show ?thesis
    using res [OF inv(3) n(2)] by simp
qed

definition insert_state :: hsys where
  "insert_state = the (run_schedule
     [(0, CallKObjectInit KTypeTest True), (0, CallInsert 0 (Some 0) kHandleRightAll)] (boot_hsys False 1 1))"

definition removed_state :: hsys where
  "removed_state = the (run_schedule [(0, CallRemove 0 0x1001), (0, CallDrain 0), (0, CallDrain 0)] insert_state)"

definition reused_state :: hsys where
  "reused_state = the (run_schedule
     [(0, CallKObjectInit KTypeTest True), (0, CallInsert 0 (Some 1) kHandleRightAll)] removed_state)"

lemma reuse_reached:
  "init_hsys (boot_hsys False 1 1)" "hstep\<^sup>*\<^sup>* (boot_hsys False 1 1) insert_state"
  "hstep\<^sup>*\<^sup>* insert_state removed_state" "hstep\<^sup>*\<^sup>* removed_state reused_state"
proof -
  show "init_hsys (boot_hsys False 1 1)" by (auto simp: init_hsys_def)
  show "hstep\<^sup>*\<^sup>* (boot_hsys False 1 1) insert_state"
    unfolding insert_state_def by (rule schedule_reaches) code_simp
  show "hstep\<^sup>*\<^sup>* insert_state removed_state"
    unfolding removed_state_def by (rule schedule_reaches) code_simp
  show "hstep\<^sup>*\<^sup>* removed_state reused_state"
    unfolding reused_state_def by (rule schedule_reaches) code_simp
qed

theorem handle_stale_stays_dead_witness: "resolve (h_tables reused_state ! 0) 0x1001 = None"
proof (rule handle_stale_stays_dead [OF reuse_reached(1,2) _ _ reuse_reached(3) _ reuse_reached(4)])
  show "0 < length (h_tables insert_state)" by code_simp
  show "resolve (h_tables insert_state ! 0) 0x1001 = Some (slot_at (h_tables insert_state ! 0) 1)" by code_simp
  show "resolve (h_tables removed_state ! 0) 0x1001 = None" by code_simp
qed

text \<open>
  C40. A current handle is type safe: its row holds an object that exists, has a valid type and
  at least one reference, and has not been destroyed, and the rights of the row are non-zero and
  within those the type of the object allows.
\<close>

theorem handle_resolves_to_live_object:
  assumes "init_hsys s" and "hstep\<^sup>*\<^sup>* s t" and "n < length (h_tables t)" and "resolve (h_tables t ! n) h = Some sl"
  shows "\<exists>a. hs_obj sl = Some a \<and> a < length (ko_objs (h_world t)) \<and> obj_type (h_world t) a \<noteq> KTypeInvalid \<and>
    refs (h_world t) a \<noteq> 0 \<and> a \<notin> set (ko_destroyed (h_world t)) \<and>
    hs_rights sl \<noteq> 0 \<and> within (hs_rights sl) (TypeAllowedRights (obj_type (h_world t) a))"
proof -
  have inv: "sys_inv (h_world t) (h_tables t) (h_held t) (h_threads t)"
    using reachable [OF assms(1,2)] by (simp add: h_inv_def)
  note ok = sys_invD(1) [OF inv assms(3)]
  obtain d where d: "decoded_ok d" "sl = slot_at (h_tables t ! n) (dec_slot d)" "SlotMatches sl (dec_generation d)"
    using resolveD [OF assms(4)] by blast
  have i: "unat (dec_slot d) < 64" using decoded_okD [OF d(1)] by simp
  then have "slot_ok (h_world t) sl" using table_ok_slots [OF ok] d(2) by blast
  from SlotMatches_owned [OF this d(3)] obtain a where
    a: "hs_obj sl = Some a" "a < length (ko_objs (h_world t))" "owned_row_ok (h_world t) sl" by blast
  have "sl \<in> set (ht_slots (h_tables t ! n))"
    using d(2) i table_okD(1) [OF ok] by simp
  then have "0 < rows_of a (h_tables t ! n)"
    using a(1) by (auto simp: rows_of_def length_greater_0_conv filter_empty_conv)
  moreover have "rows_of a (h_tables t ! n) \<le> sum_list (map (rows_of a) (h_tables t))"
    using assms(3) by (intro member_le_sum_list) simp_all
  ultimately have "0 < refs_total (h_world t) a"
    using sys_invD(6) [OF inv, of a] unfolding owners_def by linarith
  then have live: "refs (h_world t) a \<noteq> 0"
    by (auto simp: refs_total_def split: if_splits)
  then have "count_list (ko_destroyed (h_world t)) a = 0" "obj_type (h_world t) a \<noteq> KTypeInvalid"
    using sys_invD(3) [OF inv] a(2) by (simp_all add: destroy_exact_def)
  then show ?thesis
    using a live by (auto simp: owned_row_ok_def count_list_0_iff)
qed

theorem handle_resolves_to_live_object_witness:
  "\<exists>a. hs_obj (slot_at (h_tables insert_state ! 0) 1) = Some a \<and> a < length (ko_objs (h_world insert_state)) \<and>
    obj_type (h_world insert_state) a \<noteq> KTypeInvalid \<and> refs (h_world insert_state) a \<noteq> 0 \<and>
    a \<notin> set (ko_destroyed (h_world insert_state)) \<and> hs_rights (slot_at (h_tables insert_state ! 0) 1) \<noteq> 0 \<and>
    within (hs_rights (slot_at (h_tables insert_state ! 0) 1)) (TypeAllowedRights (obj_type (h_world insert_state) a))"
proof (rule handle_resolves_to_live_object [OF reuse_reached(1,2)])
  show "0 < length (h_tables insert_state)" by code_simp
  show "resolve (h_tables insert_state ! 0) 0x1001 = Some (slot_at (h_tables insert_state ! 0) 1)" by code_simp
qed

end
