(* ===== verification/HandleTableMap.thy ===== *)
theory HandleTableMap
  imports HandleTableProps
begin

text \<open>
  What a handle table promises its clients: a finite map from handles to an object with rights.
  Every operation is an operation on that map; pins, reservations and the generations of unused
  rows are invisible.
\<close>

section \<open>The map of a table\<close>

definition row_val :: "HandleSlot \<Rightarrow> u32 \<Rightarrow> (kaddr \<times> u64) option" where
  "row_val sl g = (if SlotMatches sl g then Some (the (hs_obj sl), hs_rights sl) else None)"

definition handle_map :: "HandleTable \<Rightarrow> Handle \<rightharpoonup> kaddr \<times> u64" where
  "handle_map tb h = (if ht_state tb \<noteq> TableOpen then None
     else case HandleDecode h of None \<Rightarrow> None | Some (i, g) \<Rightarrow> row_val (slot_at tb i) g)"

lemma decode_encode: "valid_row i g \<Longrightarrow> HandleDecode h = Some (i, g) \<longleftrightarrow> h = HandleEncode i g"
  using HandleDecode_iff [of h i g] HandleEncode_valid [of i g] by auto

lemma handle_map_encode: "ht_state tb = TableOpen \<Longrightarrow> valid_row i g \<Longrightarrow>
    handle_map tb (HandleEncode i g) = row_val (slot_at tb i) g"
  using decode_encode [of i g "HandleEncode i g"] by (simp add: handle_map_def)

lemma handle_map_update:
  assumes open': "ht_state tb = TableOpen" "ht_state tb' = TableOpen" and len: "unat i < length (ht_slots tb)"
    and slots: "ht_slots tb' = (ht_slots tb)[unat i := sl']" and valid: "valid_row i g0"
    and rest: "\<And>g. g \<noteq> g0 \<Longrightarrow> row_val sl' g = row_val (slot_at tb i) g"
  shows "handle_map tb' = (handle_map tb)(HandleEncode i g0 := row_val sl' g0)"
proof
  fix h
  show "handle_map tb' h = ((handle_map tb)(HandleEncode i g0 := row_val sl' g0)) h"
  proof (cases "HandleDecode h")
    case None
    then have "h \<noteq> HandleEncode i g0" using decode_encode [OF valid, of h] by auto
    with None show ?thesis by (simp add: handle_map_def)
  next
    case (Some r)
    obtain j g where r: "r = (j, g)" by (cases r)
    show ?thesis
    proof (cases "j = i \<and> g = g0")
      case True
      with Some r decode_encode [OF valid, of h] show ?thesis
        using open' len slots by (simp add: handle_map_def)
    next
      case False
      then have neq: "h \<noteq> HandleEncode i g0" using Some r decode_encode [OF valid, of h] by auto
      have "row_val (slot_at tb' j) g = row_val (slot_at tb j) g"
      proof (cases "j = i")
        case True
        with False rest len slots show ?thesis by simp
      next
        case False
        then have "unat j \<noteq> unat i" by (simp add: word_unat_eq_iff)
        with slots show ?thesis by simp
      qed
      with Some r neq open' show ?thesis by (simp add: handle_map_def)
    qed
  qed
qed

lemma handle_map_same:
  assumes "ht_state tb = TableOpen" "ht_state tb' = TableOpen" and "unat i < length (ht_slots tb)"
    and "ht_slots tb' = (ht_slots tb)[unat i := sl']" and "valid_row i g0"
    and "\<And>g. row_val sl' g = row_val (slot_at tb i) g"
  shows "handle_map tb' = handle_map tb"
  using handle_map_update [OF assms(1-5)] assms(6) handle_map_encode [OF assms(1,5)] by (simp add: fun_upd_idem)

lemma row_val_not_live: "hs_state sl \<noteq> SlotLive \<Longrightarrow> row_val sl g = None"
  by (simp add: row_val_def SlotMatches_def)

lemma row_val_live:
  "hs_state sl = SlotLive \<Longrightarrow> hs_obj sl = Some a \<Longrightarrow> hs_reservation_nonce sl = 0 \<Longrightarrow>
    hs_reserved_type sl = KTypeInvalid \<Longrightarrow>
    row_val sl g = (if g = hs_generation sl then Some (a, hs_rights sl) else None)"
  by (auto simp: row_val_def SlotMatches_def)

lemma matches_val:
  assumes "slot_ok w sl" and "SlotMatches sl g"
  obtains a where "row_val sl = (\<lambda>x. if x = g then Some (a, hs_rights sl) else None)" and "hs_obj sl = Some a"
    and "hs_state sl = SlotLive" and "hs_generation sl = g" and "owned_row_ok w sl"
proof -
  from SlotMatches_owned [OF assms] obtain a where
    a: "hs_obj sl = Some a" "hs_state sl = SlotLive" "hs_generation sl = g" "owned_row_ok w sl" by blast
  moreover from a have "row_val sl = (\<lambda>x. if x = g then Some (a, hs_rights sl) else None)"
    by (intro ext) (subst row_val_live [OF a(2,1)]; simp add: owned_row_ok_def)
  ultimately show thesis using that by blast
qed

section \<open>Operations on the map\<close>

lemma insert_map:
  assumes ok: "table_ok w t tb ps" and res: "HandleTableInsert w obj rights tb = Inr (Inr h, tb')"
  shows "\<exists>a. obj = Some a \<and> handle_map tb h = None \<and> handle_map tb' = (handle_map tb)(h \<mapsto> (a, rights))"
proof (cases rule: insert_result [OF ok, of obj rights, case_names Err Ok])
  case (Ok a i)
  define sl where "sl = slot_at tb i"
  define g where "g = hs_generation sl + 1"
  have free: "free_at tb i" by (rule first_free_Some [OF Ok(3)])
  then have i: "0 < unat i" "unat i < 64" and st: "hs_state sl = SlotFree"
    by (simp_all add: free_at_def sl_def)
  have open': "ht_state tb = TableOpen" using Ok(2) by (simp add: insert_guard_def)
  have h: "h = HandleEncode i g" "tb' = insert_row tb i a rights"
    using res Ok(4) by (simp_all add: g_def sl_def)
  have valid: "valid_row i g"
    using free_row(4) [OF ok free] HandleEncode_valid by (simp add: g_def sl_def kHandleInvalid_def)
  define sl' where "sl' = sl\<lparr>hs_generation := g, hs_obj := Some a, hs_rights := rights,
       hs_reservation_nonce := 0, hs_reserved_type := KTypeInvalid, hs_state := SlotLive\<rparr>"
  have val: "row_val sl' x = (if x = g then Some (a, rights) else None)" for x
    by (subst row_val_live [where a = a]) (simp_all add: sl'_def)
  have old: "row_val (slot_at tb i) x = None" for x
    using row_val_not_live st by (simp add: sl_def)
  have "handle_map tb' = (handle_map tb)(HandleEncode i g := row_val sl' g)"
    using i open' table_okD(1) [OF ok] val old
    by (intro handle_map_update [OF open' _ _ _ valid]) (simp_all add: h(2) insert_row_def Let_def sl'_def sl_def g_def)
  then show ?thesis
    using Ok(1) val handle_map_encode [OF open' valid] old h(1) by simp
qed (use res in simp)

lemma publish_map:
  assumes ok: "table_ok w t tb ps" and res: "HandleTablePublish w rsv obj tb = Inr (Inr h, tb')"
  shows "\<exists>a rights. obj = Some a \<and> h = rsv_handle rsv \<and> handle_map tb h = None \<and>
    handle_map tb' = (handle_map tb)(h \<mapsto> (a, rights)) \<and> within rights (TypeAllowedRights (obj_type w a))"
proof (cases rule: publish_result [of w rsv obj tb, case_names Err Ok])
  case (Ok d a)
  define sl where "sl = slot_at tb (dec_slot d)"
  have i: "unat (dec_slot d) < 64" using decoded_okD [OF Ok(1)] by simp
  have valid: "valid_row (dec_slot d) (dec_generation d)" using Ok(1) by (simp add: decoded_ok_def)
  note row = reserved_row [OF ok Ok(1,6), folded sl_def]
  have h: "h = rsv_handle rsv" "tb' = publish_row tb d a" "h = HandleEncode (dec_slot d) (dec_generation d)"
    using res Ok(8) decode_encode [OF valid, of h] Ok(2) by simp_all
  define sl' where "sl' = sl\<lparr>hs_obj := Some a, hs_reservation_nonce := 0, hs_reserved_type := KTypeInvalid,
    hs_state := SlotLive\<rparr>"
  have val: "row_val sl' x = (if x = dec_generation d then Some (a, hs_rights sl) else None)" for x
    using row(4) by (subst row_val_live [where a = a]) (simp_all add: sl'_def)
  have old: "row_val (slot_at tb (dec_slot d)) x = None" for x
    using row_val_not_live row(2) by (simp add: sl_def)
  have "handle_map tb' = (handle_map tb)(HandleEncode (dec_slot d) (dec_generation d) := row_val sl' (dec_generation d))"
    using i Ok(5) table_okD(1) [OF ok] val old
    by (intro handle_map_update [OF Ok(5) _ _ _ valid]) (simp_all add: h(2) publish_row_def sl'_def sl_def)
  then show ?thesis
    using Ok(3,5,7) val handle_map_encode [OF Ok(5) valid] old h(1,3) row(1)
    by (auto simp: reserved_row_ok_def sl_def [symmetric])
qed (use res in simp)

lemma replace_map:
  assumes ok: "table_ok w t tb ps" and res: "HandleReplace h rights tb = Inr (Inr h', tb')"
  shows "\<exists>a r. handle_map tb h = Some (a, r) \<and> within rights r \<and> handle_map tb h' = None \<and>
    handle_map tb' = (handle_map tb)(h := None, h' \<mapsto> (a, rights))"
proof (cases rule: replace_result [OF ok, of h rights, case_names Err Ok])
  case (Ok d)
  define sl where "sl = slot_at tb (dec_slot d)"
  define g where "g = dec_generation d"
  have i: "unat (dec_slot d) < 64" using decoded_okD [OF Ok(1)] by simp
  have valid: "valid_row (dec_slot d) g" using Ok(1) by (simp add: decoded_ok_def g_def)
  have "slot_ok w sl" using table_ok_slots [OF ok] i by (simp add: sl_def)
  from matches_val [OF this Ok(4) [folded sl_def g_def]] obtain a where
    a: "row_val sl = (\<lambda>x. if x = g then Some (a, hs_rights sl) else None)" "hs_obj sl = Some a" "hs_state sl = SlotLive"
      "hs_generation sl = g" "owned_row_ok w sl" "slot_ok w sl" using \<open>slot_ok w sl\<close> by blast
  have le: "g \<le> kHandleGenerationMax" using a(4,6) by (simp add: slot_ok_def)
  have succ: "g + 1 \<noteq> g" using generation_succ(3) [OF le] Ok(7) by (auto simp: g_def)
  have valid': "valid_row (dec_slot d) (g + 1)"
    using HandleEncode_succ [OF Ok(1) le] Ok(7) HandleEncode_valid by (simp add: g_def kHandleInvalid_def)
  have h: "h = HandleEncode (dec_slot d) g" "h' = HandleEncode (dec_slot d) (g + 1)"
    "tb' = set_slot (dec_slot d) (narrow_row sl rights) tb"
    using res Ok(8) decode_encode [OF valid, of h] Ok(2) by (simp_all add: g_def sl_def)
  define tb1 where "tb1 = set_slot (dec_slot d) (sl\<lparr>hs_state := SlotClosing\<rparr>) tb"
  have off: "row_val (sl\<lparr>hs_state := SlotClosing\<rparr>) x = None" for x by (simp add: row_val_not_live)
  have val: "row_val (narrow_row sl rights) x = (if x = g + 1 then Some (a, rights) else None)" for x
    using a by (subst row_val_live [where a = a]) (simp_all add: narrow_row_def owned_row_ok_def)
  have "handle_map tb1 = (handle_map tb)(h := row_val (sl\<lparr>hs_state := SlotClosing\<rparr>) g)"
    unfolding h(1) using i Ok(3) table_okD(1) [OF ok] off a(1)
    by (intro handle_map_update [OF Ok(3) _ _ _ valid]) (simp_all add: tb1_def sl_def [symmetric])
  moreover have "handle_map tb' = (handle_map tb1)(h' := row_val (narrow_row sl rights) (g + 1))"
    unfolding h(2) using i Ok(3) table_okD(1) [OF ok] off val
    by (intro handle_map_update [where tb = tb1 and tb' = tb', OF _ _ _ _ valid']) (simp_all add: tb1_def h(3))
  ultimately show ?thesis
    using handle_map_encode [OF Ok(3) valid] handle_map_encode [OF Ok(3) valid'] a(1) off val h(1,2) succ Ok(6)
    by (simp add: sl_def [symmetric])
qed (use res in simp)

lemma claim_map:
  assumes ok: "table_ok w t tb ps" and d: "decoded_ok d" "HandleDecode h = Some (dec_slot d, dec_generation d)"
    and guard: "claim_guard tb d"
  shows "\<exists>a. handle_map tb h = Some (a, hs_rights (slot_at tb (dec_slot d)))"
    and "handle_map (claim_row tb d) = (handle_map tb)(h := None)"
proof -
  define sl where "sl = slot_at tb (dec_slot d)"
  have i: "unat (dec_slot d) < 64" using decoded_okD [OF d(1)] by simp
  have valid: "valid_row (dec_slot d) (dec_generation d)" using d(1) by (simp add: decoded_ok_def)
  have g: "ht_state tb = TableOpen" "SlotMatches sl (dec_generation d)"
    using guard by (simp_all add: claim_guard_def sl_def)
  have "slot_ok w sl" using table_ok_slots [OF ok] i by (simp add: sl_def)
  from matches_val [OF this g(2)] obtain a where
    a: "row_val sl = (\<lambda>x. if x = dec_generation d then Some (a, hs_rights sl) else None)" by blast
  have h: "h = HandleEncode (dec_slot d) (dec_generation d)"
    using decode_encode [OF valid, of h] d(2) by simp
  show "\<exists>a. handle_map tb h = Some (a, hs_rights (slot_at tb (dec_slot d)))"
    using handle_map_encode [OF g(1) valid] a h by (simp add: sl_def)
  have off: "row_val (sl\<lparr>hs_state := SlotClosing\<rparr>) x = None" for x by (simp add: row_val_not_live)
  have "handle_map (claim_row tb d) = (handle_map tb)(h := row_val (sl\<lparr>hs_state := SlotClosing\<rparr>) (dec_generation d))"
    unfolding h using i g(1) table_okD(1) [OF ok] off a
    by (intro handle_map_update [OF g(1) _ _ _ valid]) (simp_all add: claim_row_def sl_def [symmetric])
  then show "handle_map (claim_row tb d) = (handle_map tb)(h := None)"
    by (simp add: off)
qed

lemma detach_map:
  assumes ok: "table_ok w t tb ps" and res: "HandleTableDetach_begin w h ty req tb = Inr (Inr d, tb')"
  shows "\<exists>a r. handle_map tb h = Some (a, r) \<and> r AND req = req \<and> handle_map tb' = (handle_map tb)(h := None)"
proof (cases rule: detach_begin_result [of w h ty req tb, case_names Err Ok])
  case (Ok d')
  with res claim_map [OF ok Ok(1,2,3)] show ?thesis by auto
qed (use res in simp)

lemma pin_map:
  assumes ok: "table_ok w t tb ps" and res: "RetainSnapshot_pin w h ty req tb = Inr (Inr (d, a, r), tb')"
  shows "handle_map tb h = Some (a, r) \<and> r AND req = req \<and> handle_map tb' = handle_map tb"
proof (cases rule: pin_result [of w h ty req tb, case_names Err Ok])
  case (Ok d')
  define sl where "sl = slot_at tb (dec_slot d')"
  have i: "unat (dec_slot d') < 64" using decoded_okD [OF Ok(1)] by simp
  have valid: "valid_row (dec_slot d') (dec_generation d')" using Ok(1) by (simp add: decoded_ok_def)
  have g: "ht_state tb = TableOpen" "SlotMatches sl (dec_generation d')" "hs_rights sl AND req = req"
    using Ok(3) by (simp_all add: pin_guard_def Let_def sl_def)
  have h: "h = HandleEncode (dec_slot d') (dec_generation d')"
    using decode_encode [OF valid, of h] Ok(2) by simp
  have "handle_map (pin_row tb d') = handle_map tb"
    using i g(1) table_okD(1) [OF ok]
    by (intro handle_map_same [OF g(1) _ _ _ valid, where sl' = "sl\<lparr>hs_acquisition_pins := hs_acquisition_pins sl + 1\<rparr>"])
      (simp_all add: pin_row_def Let_def sl_def row_val_def SlotMatches_def)
  then show ?thesis
    using res Ok(4) handle_map_encode [OF g(1) valid] g h by (simp add: row_val_def sl_def [symmetric])
qed (use res in simp)

lemma reserve_map:
  assumes ok: "table_ok w t tb ps" and res: "HandleTableReserve ty rights (tb, nonce) = Inr (r, tb', nonce')"
  shows "handle_map tb' = handle_map tb"
proof (cases rule: reserve_result [OF ok, of ty rights nonce, case_names Err Ok])
  case (Ok i)
  define sl where "sl = slot_at tb i"
  have free: "free_at tb i" by (rule first_free_Some [OF Ok(5)])
  then have i: "0 < unat i" "unat i < 64" and st: "hs_state sl = SlotFree"
    by (simp_all add: free_at_def sl_def)
  have "valid_row i 1" using i by (simp add: valid_row_def)
  then have "handle_map (reserve_row tb i ty rights (nonce + 1)) = handle_map tb"
    using i Ok(4) table_okD(1) [OF ok] st
    by (intro handle_map_same [OF Ok(4), where i = i and ?g0.0 = 1 and sl' = "sl\<lparr>hs_generation := hs_generation sl + 1,
        hs_rights := rights, hs_reservation_nonce := nonce + 1, hs_reserved_type := ty, hs_state := SlotReserved\<rparr>"])
      (simp_all add: reserve_row_def Let_def sl_def row_val_not_live)
  with Ok(7) res show ?thesis by auto
qed (use res in auto)

lemma abort_map:
  assumes ok: "table_ok w t tb ps" and res: "HandleTableAbort rsv tb = Inr (r, tb')"
  shows "handle_map tb' = handle_map tb"
proof (cases rule: abort_result [of rsv tb, case_names Err Ok])
  case (Ok d)
  have i: "unat (dec_slot d) < 64" using decoded_okD [OF Ok(1)] by simp
  have "row_val (abort_row (slot_at tb (dec_slot d))) g = None" for g
    by (rule row_val_not_live) (simp add: abort_row_def ClosedStateFor_def)
  then have "handle_map (set_slot (dec_slot d) (abort_row (slot_at tb (dec_slot d))) tb) = handle_map tb"
    using i Ok(1,3) table_okD(1) [OF ok] reserved_row(2) [OF ok Ok(1,4)]
    by (intro handle_map_same [OF Ok(3), where i = "dec_slot d" and ?g0.0 = "dec_generation d"])
      (simp_all add: row_val_not_live decoded_ok_def)
  with Ok(5) res show ?thesis by auto
qed (use res in auto)

lemma rights_map:
  "HandleTableRights h tb = Inr (case handle_map tb h of None \<Rightarrow> 0 | Some (a, r) \<Rightarrow> r)"
  by (auto simp: HandleTableRights_def DecodeHandleNospec_eq handle_map_def row_val_def Let_def split: option.splits)

lemma check_right_map:
  "HandleCheckRight h req tb = Inr (req \<noteq> 0 \<and> within req kHandleRightAll \<and>
     (case handle_map tb h of None \<Rightarrow> False | Some (a, r) \<Rightarrow> r AND req = req))"
  by (auto simp: HandleCheckRight_def DecodeHandleNospec_eq handle_map_def row_val_def Let_def exceeds_iff
      split: option.splits)

lemma drain_map: "handle_map (snd (HandleTableDrain_begin tb)) = Map.empty"
  by (rule ext) (simp add: HandleTableDrain_begin_def handle_map_def)

text \<open>
  C7. In every reachable state the table implements a map from handles to an object and its
  rights. Insertion and publication add one fresh handle; a retained lookup returns the entry,
  which carries the required rights, and changes nothing; a close removes the entry; a
  replacement moves it to a fresh handle with no more rights than before; reservations are
  invisible; the queries read the map; a drained table is empty.
\<close>

theorem handle_table_refines_map:
  assumes "init_hsys s" and "hstep\<^sup>*\<^sup>* s u" and "n < length (h_tables u)" and "w = h_world u" and "tb = h_tables u ! n"
  shows "(HandleTableInsert w obj rights tb = Inr (Inr h, tb') \<longrightarrow>
      (\<exists>a. obj = Some a \<and> handle_map tb h = None \<and> handle_map tb' = (handle_map tb)(h \<mapsto> (a, rights)))) \<and>
    (HandleTablePublish w rsv obj tb = Inr (Inr h, tb') \<longrightarrow>
      (\<exists>a r. obj = Some a \<and> h = rsv_handle rsv \<and> handle_map tb h = None \<and>
        handle_map tb' = (handle_map tb)(h \<mapsto> (a, r)) \<and> within r (TypeAllowedRights (obj_type w a)))) \<and>
    (RetainSnapshot_pin w h ty req tb = Inr (Inr (d, a, r), tb') \<longrightarrow>
      handle_map tb h = Some (a, r) \<and> r AND req = req \<and> handle_map tb' = handle_map tb) \<and>
    (HandleTableDetach_begin w h ty req tb = Inr (Inr d, tb') \<longrightarrow>
      (\<exists>a r. handle_map tb h = Some (a, r) \<and> r AND req = req \<and> handle_map tb' = (handle_map tb)(h := None))) \<and>
    (HandleReplace h rights tb = Inr (Inr h', tb') \<longrightarrow>
      (\<exists>a r. handle_map tb h = Some (a, r) \<and> within rights r \<and> handle_map tb h' = None \<and>
        handle_map tb' = (handle_map tb)(h := None, h' \<mapsto> (a, rights)))) \<and>
    (HandleTableReserve ty rights (tb, nonce) = Inr (rr, tb', nonce') \<longrightarrow> handle_map tb' = handle_map tb) \<and>
    (HandleTableAbort rsv tb = Inr (ra, tb') \<longrightarrow> handle_map tb' = handle_map tb) \<and>
    HandleTableRights h tb = Inr (case handle_map tb h of None \<Rightarrow> 0 | Some (a, r) \<Rightarrow> r) \<and>
    HandleCheckRight h req tb = Inr (req \<noteq> 0 \<and> within req kHandleRightAll \<and>
      (case handle_map tb h of None \<Rightarrow> False | Some (a, r) \<Rightarrow> r AND req = req)) \<and>
    handle_map (snd (HandleTableDrain_begin tb)) = Map.empty"
proof -
  have ok: "table_ok w n tb (h_threads u)"
    using reachable [OF assms(1,2)] assms(3-5) by (simp add: h_inv_def sys_inv_def)
  show ?thesis
  proof (intro conjI impI)
    show "\<exists>a. obj = Some a \<and> handle_map tb h = None \<and> handle_map tb' = (handle_map tb)(h \<mapsto> (a, rights))"
      if "HandleTableInsert w obj rights tb = Inr (Inr h, tb')" by (rule insert_map [OF ok that])
    show "\<exists>a r. obj = Some a \<and> h = rsv_handle rsv \<and> handle_map tb h = None \<and>
        handle_map tb' = (handle_map tb)(h \<mapsto> (a, r)) \<and> within r (TypeAllowedRights (obj_type w a))"
      if "HandleTablePublish w rsv obj tb = Inr (Inr h, tb')" by (rule publish_map [OF ok that])
    show "handle_map tb h = Some (a, r)" "r AND req = req" "handle_map tb' = handle_map tb"
      if "RetainSnapshot_pin w h ty req tb = Inr (Inr (d, a, r), tb')" using pin_map [OF ok that] by simp_all
    show "\<exists>a r. handle_map tb h = Some (a, r) \<and> r AND req = req \<and> handle_map tb' = (handle_map tb)(h := None)"
      if "HandleTableDetach_begin w h ty req tb = Inr (Inr d, tb')" by (rule detach_map [OF ok that])
    show "\<exists>a r. handle_map tb h = Some (a, r) \<and> within rights r \<and> handle_map tb h' = None \<and>
        handle_map tb' = (handle_map tb)(h := None, h' \<mapsto> (a, rights))"
      if "HandleReplace h rights tb = Inr (Inr h', tb')" by (rule replace_map [OF ok that])
    show "handle_map tb' = handle_map tb" if "HandleTableReserve ty rights (tb, nonce) = Inr (rr, tb', nonce')"
      by (rule reserve_map [OF ok that])
    show "handle_map tb' = handle_map tb" if "HandleTableAbort rsv tb = Inr (ra, tb')"
      by (rule abort_map [OF ok that])
  qed (rule rights_map check_right_map drain_map)+
qed

definition lookup_result :: "((DecodedHandle \<times> kaddr \<times> u64) \<times> HandleTable)" where
  "lookup_result = (case RetainSnapshot_pin (h_world insert_state) 0x1001 KTypeTest kHandleRightRead
     (h_tables insert_state ! 0) of Inr (Inr r, tb) \<Rightarrow> (r, tb))"

theorem handle_table_refines_map_witness:
  "handle_map (h_tables insert_state ! 0) 0x1001 = Some (0, kHandleRightAll) \<and>
   kHandleRightAll AND kHandleRightRead = kHandleRightRead \<and>
   handle_map (snd lookup_result) = handle_map (h_tables insert_state ! 0)"
proof -
  have "0 < length (h_tables insert_state)" by code_simp
  moreover have "RetainSnapshot_pin (h_world insert_state) 0x1001 KTypeTest kHandleRightRead (h_tables insert_state ! 0) =
      Inr (Inr (\<lparr>dec_slot = 1, dec_generation = 1\<rparr>, 0, kHandleRightAll), snd lookup_result)" by code_simp
  ultimately show ?thesis
    using handle_table_refines_map [OF reuse_reached(1,2) _ refl refl] by blast
qed

end
