(* ===== verification/HandleTableLive.thy ===== *)
theory HandleTableLive
  imports HandleTableProps
begin

text \<open>
  The spin loops of \<^verbatim>\<open>HandleTableDetach\<close>, \<^verbatim>\<open>HandleTableAdoptReplace\<close> and \<^verbatim>\<open>HandleTableDrain\<close> do
  not deadlock: a closer waits for pins only, a drainer for operations in progress, a second
  drainer for the first. In every reachable state with an unfinished operation some thread can
  move on, and all unfinished operations can complete.
\<close>

section \<open>Remaining work\<close>

primrec work :: "pc \<Rightarrow> nat" where
  "work (Returned r) = 0"
| "work (Pinned t d obj rights k) = 4"
| "work (Unpinning t d obj rights ok k) = 3"
| "work (Duplicating obj rights dst) = 2"
| "work (Releasing obj r) = 1"
| "work (Closing t d k) = 2"
| "work (DrainWaiting t) = 1"
| "work (DrainQuiescing t) = 66"
| "work (DrainCollecting t) = 65"
| "work (DrainReleasing t vs) = 1 + length vs"

lemma work_idle: "work p = 0 \<longleftrightarrow> is_idle p"
  by (cases p) (simp_all add: is_idle_def)

lemma drain_row_length: "drain_row (vs, tb) i = Inr (vs', tb') \<Longrightarrow> length vs' \<le> Suc (length vs)"
  by (auto simp: drain_row_def Let_def split: if_splits)

lemma drain_rows_length: "drain_rows (vs, tb) rows = Inr (vs', tb') \<Longrightarrow> length vs' \<le> length vs + length rows"
proof (induction rows arbitrary: vs tb)
  case (Cons i rows)
  then obtain vs1 tb1 where "drain_row (vs, tb) i = Inr (vs1, tb1)" "drain_rows (vs1, tb1) rows = Inr (vs', tb')"
    by (auto split: sum.splits)
  with Cons.IH [of vs1 tb1] drain_row_length [of vs tb i vs1 tb1] show ?case by simp
qed simp

lemma collect_length: "HandleTableDrain_collect tb = Inr (vs, tb') \<Longrightarrow> length vs \<le> 63"
  using drain_rows_length [of "[]" tb "map of_nat [1..<64]" vs tb']
  by (simp add: HandleTableDrain_collect_def kdefs split: if_splits)

definition moves :: "hsys \<Rightarrow> pc \<Rightarrow> bool" where
  "moves s p \<longleftrightarrow> (\<exists>p' s'. advance p s = Inr (p', s') \<and> work p' < work p)"

lemma advance_total:
  assumes "h_inv s" and "p \<in> set (h_threads s)" and "\<not> is_idle p"
  obtains p' s' where "advance p s = Inr (p', s')"
proof -
  obtain i where i: "i < length (h_threads s)" "p = h_threads s ! i"
    using assms(2) by (auto simp: in_set_conv_nth)
  have "enabled i (CallDrain 0) s"
    using i assms(3) by (simp add: enabled_def)
  from section_sound [OF assms(1) this] that i assms(3) show thesis
    by (auto simp: thread_section_def)
qed

lemma retained_ok_work: "retained_ok k obj rights s = (p', s') \<Longrightarrow> work p' < 3"
  by (cases k) (auto split: if_splits)

text \<open>Threads that never wait.\<close>

primrec runs :: "pc \<Rightarrow> bool" where
  "runs (Returned r) \<longleftrightarrow> False"
| "runs (Pinned t d obj rights k) \<longleftrightarrow> True"
| "runs (Unpinning t d obj rights ok k) \<longleftrightarrow> True"
| "runs (Duplicating obj rights dst) \<longleftrightarrow> True"
| "runs (Releasing obj r) \<longleftrightarrow> True"
| "runs (Closing t d k) \<longleftrightarrow> False"
| "runs (DrainWaiting t) \<longleftrightarrow> False"
| "runs (DrainQuiescing t) \<longleftrightarrow> False"
| "runs (DrainCollecting t) \<longleftrightarrow> True"
| "runs (DrainReleasing t vs) \<longleftrightarrow> True"

lemma runs_moves:
  assumes inv: "h_inv s" and p: "p \<in> set (h_threads s)" "runs p"
  shows "moves s p"
proof -
  have "\<not> is_idle p" using p(2) by (cases p) (simp_all add: is_idle_def)
  then obtain p' s' where adv: "advance p s = Inr (p', s')"
    using advance_total [OF inv p(1)] by blast
  then have "work p' < work p"
    using p(2) collect_length retained_ok_work
    by (cases p) (fastforce split: sum.splits prod.splits if_splits list.splits)+
  with adv show ?thesis by (auto simp: moves_def)
qed

section \<open>Waiting threads\<close>

lemma tally_pos: "0 < tally f ps \<Longrightarrow> \<exists>q\<in>set ps. 0 < f q"
  by (induction ps) auto

lemma pin_runs: "0 < pin_at t i q \<Longrightarrow> runs q"
  by (cases q) simp_all

lemma closing_moves:
  assumes inv: "h_inv s" and p: "Closing t d k \<in> set (h_threads s)"
  shows "\<exists>q\<in>set (h_threads s). moves s q"
proof -
  obtain i where i: "i < length (h_threads s)" "Closing t d k = h_threads s ! i"
    using p by (auto simp: in_set_conv_nth)
  define ps where "ps = others i (h_threads s)"
  have ok: "sys_ok s (Closing t d k # ps)"
    using inv h_inv_thread [OF i(1)] i(2) by (simp add: ps_def)
  have pc: "t < length (h_tables s)" "decoded_ok d" "hs_state (slot_at (h_tables s ! t) (dec_slot d)) = SlotClosing"
    "hs_generation (slot_at (h_tables s ! t) (dec_slot d)) = dec_generation d" "closing_ok (h_world s) d k"
    using own_pc [OF ok] by simp_all
  note tab = sys_table_ok [OF ok pc(1)]
  have sub: "set ps \<subseteq> set (h_threads s)"
    using set_split [OF i(1)] by (auto simp: ps_def)
  have pinned: "\<exists>q\<in>set (h_threads s). moves s q" if "0 < tally (pin_at t (unat (dec_slot d))) ps"
    using tally_pos [OF that] pin_runs runs_moves [OF inv] sub by blast
  have now: "\<exists>q\<in>set (h_threads s). moves s q" if "advance (Closing t d k) s = Inr (p', s')" "work p' < 2" for p' s'
    using p that unfolding moves_def by (metis work.simps(6))
  show ?thesis
  proof (cases k)
    case ForDetach
    from detach_try_ok [OF tab pc(2-4)] show ?thesis
      by cases (use pinned now ForDetach in auto)
  next
    case ForRemove
    from detach_try_ok [OF tab pc(2-4)] show ?thesis
      by cases (use pinned now ForRemove in auto)
  next
    case (ForAdoptReplace repl rights)
    with pc(5) have "repl < length (ko_objs (h_world s))" "rights \<noteq> 0"
      "within rights (TypeAllowedRights (obj_type (h_world s) repl))" "dec_generation d \<noteq> kHandleGenerationMax"
      by simp_all
    from adopt_try_ok [OF tab pc(2-4) this(4,1-3)] show ?thesis
      by cases (use pinned now ForAdoptReplace in auto)
  qed
qed

lemma active_moves:
  assumes inv: "h_inv s" and q: "q \<in> set (h_threads s)" "0 < active_at t q"
  shows "\<exists>q\<in>set (h_threads s). moves s q"
proof (cases q)
  case (Closing u d k)
  with closing_moves [OF inv] q show ?thesis by blast
qed (use q runs_moves [OF inv q(1)] in auto)

lemma quiescing_moves:
  assumes inv: "h_inv s" and p: "DrainQuiescing t \<in> set (h_threads s)"
  shows "\<exists>q\<in>set (h_threads s). moves s q"
proof (cases "ht_active_operations (h_tables s ! t) = 0")
  case True
  then have "moves s (DrainQuiescing t)" by (simp add: moves_def HandleTableDrain_quiescent_def)
  with p show ?thesis by blast
next
  case False
  have "t < length (h_tables s)" using inv p by (auto simp: h_inv_def dest!: sys_invD(2))
  then have "unat (ht_active_operations (h_tables s ! t)) = tally (active_at t) (h_threads s)"
    using inv table_okD(3) sys_invD(1) by (metis h_inv_def)
  with False have "0 < tally (active_at t) (h_threads s)" by (simp add: unat_gt_0 [symmetric])
  from tally_pos [OF this] active_moves [OF inv] show ?thesis by blast
qed

lemma waiting_moves:
  assumes inv: "h_inv s" and p: "DrainWaiting t \<in> set (h_threads s)"
  shows "\<exists>q\<in>set (h_threads s). moves s q"
proof (cases "ht_state (h_tables s ! t) = TableClosed")
  case True
  then have "moves s (DrainWaiting t)" by (simp add: moves_def HandleTableDrain_closed_def)
  with p show ?thesis by blast
next
  case False
  have t: "t < length (h_tables s)" "ht_state (h_tables s ! t) \<noteq> TableOpen"
    using inv p by (auto simp: h_inv_def dest!: sys_invD(2))
  then have "ht_state (h_tables s ! t) = TableDraining" using False by (cases "ht_state (h_tables s ! t)") simp_all
  then have "0 < tally (drain_at t) (h_threads s)"
    using table_okD(4) [OF sys_invD(1) [OF inv [unfolded h_inv_def] t(1)]] by simp
  then obtain q where q: "q \<in> set (h_threads s)" "0 < drain_at t q" using tally_pos by blast
  show ?thesis
  proof (cases q)
    case (DrainQuiescing u)
    with quiescing_moves [OF inv] q(1) show ?thesis by blast
  qed (use q runs_moves [OF inv q(1)] in auto)
qed

lemma some_thread_moves:
  assumes inv: "h_inv s" and p: "p \<in> set (h_threads s)" "\<not> is_idle p"
  shows "\<exists>q\<in>set (h_threads s). moves s q"
proof (cases "runs p")
  case True
  with runs_moves [OF inv p(1)] p(1) show ?thesis by blast
next
  case False
  then show ?thesis
    using p closing_moves [OF inv] waiting_moves [OF inv] quiescing_moves [OF inv]
    by (cases p) (auto simp: is_idle_def)
qed

section \<open>Completion\<close>

lemma moves_step:
  assumes inv: "h_inv s" and q: "q \<in> set (h_threads s)" "moves s q"
  obtains t where "hstep s t" and "h_inv t" and "tally work (h_threads t) < tally work (h_threads s)"
    and "length (h_threads t) = length (h_threads s)"
proof -
  obtain i where i: "i < length (h_threads s)" "q = h_threads s ! i"
    using q(1) by (auto simp: in_set_conv_nth)
  obtain p' s' where adv: "advance q s = Inr (p', s')" "work p' < work q"
    using q(2) by (auto simp: moves_def)
  then have busy: "\<not> is_idle q" using work_idle [of q] by auto
  have en: "enabled i (CallDrain 0) s" using i busy by (simp add: enabled_def)
  have sec: "thread_section i (CallDrain 0) s = Inr (p', s')"
    using i adv(1) busy by (simp add: thread_section_def)
  obtain r where r: "thread_section i (CallDrain 0) s = Inr r" "h_inv (put_thread i r)" "h_threads (snd r) = h_threads s"
    using section_sound [OF inv en] by metis
  have r': "r = (p', s')" using r(1) sec by simp
  have "tally work (h_threads (put_thread i r)) < tally work (h_threads s)"
    using tally_update [OF i(1), of work p'] tally_split [OF i(1), of work] adv(2) i(2) r(3) r'
    by (simp add: put_thread_def)
  then show thesis
    using that [OF run_section [OF en r(1)] r(2)] r(3) by (simp add: put_thread_def)
qed

lemma all_complete:
  "h_inv s \<Longrightarrow> \<exists>t. hstep\<^sup>*\<^sup>* s t \<and> list_all is_idle (h_threads t) \<and> length (h_threads t) = length (h_threads s)"
proof (induction "tally work (h_threads s)" arbitrary: s rule: less_induct)
  case less
  show ?case
  proof (cases "list_all is_idle (h_threads s)")
    case True
    then show ?thesis by blast
  next
    case False
    then obtain p where "p \<in> set (h_threads s)" "\<not> is_idle p" by (auto simp: list_all_iff)
    from some_thread_moves [OF less.prems this] obtain q where q: "q \<in> set (h_threads s)" "moves s q" by blast
    from moves_step [OF less.prems q] obtain u where u: "hstep s u" "h_inv u"
      "tally work (h_threads u) < tally work (h_threads s)" "length (h_threads u) = length (h_threads s)" by metis
    from less.hyps [OF u(3,2)] obtain t where "hstep\<^sup>*\<^sup>* u t" "list_all is_idle (h_threads t)"
      "length (h_threads t) = length (h_threads u)" by blast
    with u(1,4) show ?thesis by (metis converse_rtranclp_into_rtranclp)
  qed
qed

text \<open>
  C8. No deadlock between lookups, closes, replacements and drains: from every reachable state
  there is a continuation in which every operation in progress returns, and as long as one has
  not returned some thread can take a section that brings it closer to its return.
\<close>

theorem handle_operations_complete:
  assumes "init_hsys s" and "hstep\<^sup>*\<^sup>* s t"
  shows "(\<exists>u. hstep\<^sup>*\<^sup>* t u \<and> list_all is_idle (h_threads u) \<and> length (h_threads u) = length (h_threads t)) \<and>
    (list_all is_idle (h_threads t) \<or> list_ex (moves t) (h_threads t))"
proof -
  have inv: "h_inv t" by (rule reachable [OF assms])
  show ?thesis
    using all_complete [OF inv] some_thread_moves [OF inv] by (auto simp: list_all_iff list_ex_iff)
qed

theorem handle_operations_complete_witness:
  "(\<exists>u. hstep\<^sup>*\<^sup>* race_state u \<and> list_all is_idle (h_threads u) \<and> length (h_threads u) = length (h_threads race_state)) \<and>
    (list_all is_idle (h_threads race_state) \<or> list_ex (moves race_state) (h_threads race_state))"
  by (rule handle_operations_complete [OF race_reached])

end
