(* ===== verification/HandleTableFrame.thy ===== *)
theory HandleTableFrame
  imports HandleTableSafety
begin

text \<open>
  What code above the handle tables can rely on across the sections of other threads: objects keep
  their type, a reservation stays in place until its ticket is used or the table drains, and the
  references outside the tables change only by the one that a call takes or returns.
\<close>

section \<open>Reservation tickets\<close>

definition ticket_row :: "HandleTable \<Rightarrow> HandleTableReservation \<Rightarrow> HandleSlot option" where
  "ticket_row tb rsv = (case HandleDecode (rsv_handle rsv) of
     None \<Rightarrow> None
   | Some (i, g) \<Rightarrow>
      if HandleTableReservationIsValid rsv \<and> ReservationMatches (slot_at tb i) \<lparr>dec_slot = i, dec_generation = g\<rparr> rsv
      then Some (slot_at tb i) else None)"

lemma ticket_rowD:
  assumes "ticket_row tb rsv = Some sl"
  obtains d where "decoded_ok d" and "HandleDecode (rsv_handle rsv) = Some (dec_slot d, dec_generation d)"
    and "sl = slot_at tb (dec_slot d)" and "ReservationMatches sl d rsv" and "HandleTableReservationIsValid rsv"
proof -
  from assms obtain i g where r: "HandleDecode (rsv_handle rsv) = Some (i, g)" "sl = slot_at tb i"
    "ReservationMatches sl \<lparr>dec_slot = i, dec_generation = g\<rparr> rsv" "HandleTableReservationIsValid rsv"
    by (auto simp: ticket_row_def split: option.splits if_splits prod.splits)
  then have "valid_row i g"
    by (auto simp: HandleDecode_eq Let_def split: if_splits)
  with r that [of "\<lparr>dec_slot = i, dec_generation = g\<rparr>"] show thesis
    by (simp add: decoded_ok_def)
qed

lemma ticket_rowI:
  assumes "HandleDecode (rsv_handle rsv) = Some (dec_slot d, dec_generation d)"
    and "ReservationMatches (slot_at tb (dec_slot d)) d rsv" and "HandleTableReservationIsValid rsv"
  shows "ticket_row tb rsv = Some (slot_at tb (dec_slot d))"
  using assms by (simp add: ticket_row_def ReservationMatches_def)

definition keeps_reserved :: "HandleTable \<Rightarrow> HandleTable \<Rightarrow> bool" where
  "keeps_reserved tb tb' \<longleftrightarrow> (ht_state tb' = TableOpen \<longrightarrow>
     (\<forall>i. hs_state (ht_slots tb ! i) = SlotReserved \<longrightarrow> ht_slots tb' ! i = ht_slots tb ! i))"

lemma keeps_reserved_refl [simp]: "keeps_reserved tb tb"
  by (simp add: keeps_reserved_def)

lemma keeps_reserved_update:
  "hs_state (ht_slots tb ! i) \<noteq> SlotReserved \<Longrightarrow> ht_slots tb' = (ht_slots tb)[i := sl] \<Longrightarrow> keeps_reserved tb tb'"
  unfolding keeps_reserved_def by (metis nth_list_update_neq)

lemma keeps_ticket:
  assumes "keeps_reserved tb tb'" and "ticket_row tb rsv = Some sl" and "ht_state tb' = TableOpen"
  shows "ticket_row tb' rsv = Some sl"
proof -
  obtain d where d: "decoded_ok d" "HandleDecode (rsv_handle rsv) = Some (dec_slot d, dec_generation d)"
    "sl = slot_at tb (dec_slot d)" "ReservationMatches sl d rsv" "HandleTableReservationIsValid rsv"
    by (rule ticket_rowD [OF assms(2)])
  then have "slot_at tb' (dec_slot d) = sl"
    using assms(1,3) by (simp add: keeps_reserved_def ReservationMatches_def)
  with d ticket_rowI [of rsv d tb'] show ?thesis by simp
qed

section \<open>Sections on one table\<close>

lemma insert_keeps:
  assumes "table_ok w t tb ps" and "HandleTableInsert w obj rights tb = Inr (res, tb')"
  shows "keeps_reserved tb tb'"
  using insert_result [OF assms(1), of obj rights]
proof cases
  case (2 a i)
  then have "hs_state (slot_at tb i) \<noteq> SlotReserved"
    using first_free_Some by (auto simp: free_at_def)
  with 2 assms(2) show ?thesis
    by (intro keeps_reserved_update [of tb "unat i"]) (auto simp: insert_row_def Let_def)
qed (use assms(2) in simp)

lemma reserve_keeps:
  assumes "table_ok w t tb ps" and "HandleTableReserve ty rights (tb, n) = Inr (res, tb', n')"
  shows "keeps_reserved tb tb'"
  using reserve_result [OF assms(1), of ty rights n]
proof cases
  case (2 i)
  then have "hs_state (slot_at tb i) \<noteq> SlotReserved"
    using first_free_Some by (auto simp: free_at_def)
  with 2 assms(2) show ?thesis
    by (intro keeps_reserved_update [of tb "unat i"]) (auto simp: reserve_row_def Let_def)
qed (use assms(2) in simp)

lemma pin_keeps: "RetainSnapshot_pin w h ty req tb = Inr (res, tb') \<Longrightarrow> keeps_reserved tb tb'"
  by (rule pin_result [of w h ty req tb])
    (auto intro!: keeps_reserved_update simp: pin_row_def Let_def pin_guard_def SlotMatches_def)

lemma unpin_keeps:
  assumes "table_ok w t tb ps" and "decoded_ok d" and "RetainSnapshot_unpin d obj tb = Inr tb'"
  shows "keeps_reserved tb tb'"
proof -
  have "slot_ok w (slot_at tb (dec_slot d))"
    using table_ok_slots [OF assms(1)] decoded_okD [OF assms(2)] by blast
  with assms(3) show ?thesis
    by (intro keeps_reserved_update [of tb "unat (dec_slot d)"])
      (auto simp: RetainSnapshot_unpin_def Let_def slot_ok_def reserved_row_ok_def split: if_splits)
qed

lemma claim_row_keeps: "claim_guard tb d \<Longrightarrow> keeps_reserved tb (claim_row tb d)"
  by (rule keeps_reserved_update [of tb "unat (dec_slot d)"])
    (auto simp: claim_row_def claim_guard_def SlotMatches_def)

lemma detach_begin_keeps: "HandleTableDetach_begin w h ty req tb = Inr (res, tb') \<Longrightarrow> keeps_reserved tb tb'"
  by (rule detach_begin_result [of w h ty req tb]) (auto intro: claim_row_keeps)

lemma adopt_begin_keeps: "HandleTableAdoptReplace_begin w h obj rights ty tb = Inr (res, tb') \<Longrightarrow> keeps_reserved tb tb'"
  by (rule adopt_begin_result [of w h obj rights ty tb]) (auto intro: claim_row_keeps simp: adopt_guard_def)

lemma close_keeps:
  "HandleTableDetach_try d tb = Inr (res, tb') \<Longrightarrow> keeps_reserved tb tb'"
  "HandleTableAdoptReplace_try d repl rights tb = Inr (res', tb') \<Longrightarrow> keeps_reserved tb tb'"
  by (auto intro!: keeps_reserved_update simp: HandleTableDetach_try_def HandleTableAdoptReplace_try_def Let_def
    split: if_splits)

lemma replace_keeps:
  assumes "table_ok w t tb ps" and "HandleReplace h rights tb = Inr (res, tb')"
  shows "keeps_reserved tb tb'"
  by (rule replace_result [OF assms(1), of h rights])
    (use assms(2) in \<open>auto intro!: keeps_reserved_update simp: SlotMatches_def\<close>)

lemma drain_keeps:
  "keeps_reserved tb (snd (HandleTableDrain_begin tb))"
  "HandleTableDrain_finish tb = Inr tb' \<Longrightarrow> keeps_reserved tb tb'"
  by (auto simp: HandleTableDrain_begin_def HandleTableDrain_finish_def keeps_reserved_def split: if_splits)

lemma collect_keeps:
  assumes "table_ok w t tb (DrainCollecting t # ps)" and "ht_state tb = TableDraining" and "ht_active_operations tb = 0"
    and "HandleTableDrain_collect tb = Inr (vs, tb')"
  shows "keeps_reserved tb tb'"
  by (rule drain_collect_ok [OF assms(1-3)]) (use assms(4) in \<open>simp add: keeps_reserved_def\<close>)

text \<open>A publish or an abort uses up its own ticket only.\<close>

lemma ticket_other:
  assumes own: "decoded_ok d" "HandleDecode (rsv_handle rsv) = Some (dec_slot d, dec_generation d)"
      "ReservationMatches (slot_at tb (dec_slot d)) d rsv"
    and other: "ticket_row tb rsv' = Some sl" "rsv' \<noteq> rsv" and tb': "ht_slots tb' = (ht_slots tb)[unat (dec_slot d) := sl']"
  shows "ticket_row tb' rsv' = Some sl"
proof -
  obtain d' where d': "decoded_ok d'" "HandleDecode (rsv_handle rsv') = Some (dec_slot d', dec_generation d')"
    "sl = slot_at tb (dec_slot d')" "ReservationMatches sl d' rsv'" "HandleTableReservationIsValid rsv'"
    by (rule ticket_rowD [OF other(1)])
  have "dec_slot d' \<noteq> dec_slot d"
  proof
    assume same: "dec_slot d' = dec_slot d"
    then have "dec_generation d' = dec_generation d" "rsv_nonce rsv' = rsv_nonce rsv"
      using own(3) d'(3,4) by (simp_all add: ReservationMatches_def)
    with same d'(2) own(2) have "HandleDecode (rsv_handle rsv') = HandleDecode (rsv_handle rsv)" by simp
    then have "rsv_handle rsv' = rsv_handle rsv"
      using own(2) d'(2) by (metis HandleDecode_iff)
    with \<open>rsv_nonce rsv' = _\<close> other(2) show False by simp
  qed
  then have "unat (dec_slot d') \<noteq> unat (dec_slot d)"
    by (simp add: word_unat_eq_iff)
  then have "slot_at tb' (dec_slot d') = sl"
    using d'(3) tb' by simp
  with d' ticket_rowI [of rsv' d' tb'] show ?thesis by simp
qed

lemma publish_keeps_other:
  assumes "HandleTablePublish w rsv obj tb = Inr (res, tb')" and "ticket_row tb rsv' = Some sl" and "rsv' \<noteq> rsv"
  shows "ticket_row tb' rsv' = Some sl"
  by (rule publish_result [of w rsv obj tb])
    (use assms in \<open>auto intro: ticket_other simp: publish_row_def\<close>)

lemma abort_keeps_other:
  assumes "HandleTableAbort rsv tb = Inr (res, tb')" and "ticket_row tb rsv' = Some sl" and "rsv' \<noteq> rsv"
  shows "ticket_row tb' rsv' = Some sl"
  by (rule abort_result [of rsv tb]) (use assms in \<open>auto intro: ticket_other\<close>)

section \<open>Sections of the system\<close>

definition call_ticket :: "hcall \<Rightarrow> (nat \<times> HandleTableReservation) option" where
  "call_ticket c = (case c of CallPublish t rsv obj \<Rightarrow> Some (t, rsv) | CallAbort t rsv \<Rightarrow> Some (t, rsv) | _ \<Rightarrow> None)"

definition call_takes :: "hcall \<Rightarrow> kaddr option" where
  "call_takes c = (case c of CallInsert t obj rights \<Rightarrow> obj | CallPublish t rsv obj \<Rightarrow> obj
     | CallAdoptReplace t h obj rights ty \<Rightarrow> obj | CallKObjectRelease a \<Rightarrow> Some a | _ \<Rightarrow> None)"

definition tickets_kept :: "(nat \<times> HandleTableReservation) option \<Rightarrow> HandleTable list \<Rightarrow> HandleTable list \<Rightarrow> bool" where
  "tickets_kept used tbs tbs' \<longleftrightarrow> (\<forall>u rsv sl. u < length tbs \<longrightarrow> used \<noteq> Some (u, rsv) \<longrightarrow>
     ht_state (tbs' ! u) = TableOpen \<longrightarrow> ticket_row (tbs ! u) rsv = Some sl \<longrightarrow> ticket_row (tbs' ! u) rsv = Some sl)"

definition held_moves :: "kaddr option \<Rightarrow> kaddr list \<Rightarrow> kaddr list \<Rightarrow> bool" where
  "held_moves taken old new \<longleftrightarrow>
     new = old \<or> (\<exists>a. taken = Some a \<and> new = remove1 a old) \<or> (\<exists>a. new = a # old)"

lemma tickets_kept_refl [simp]: "tickets_kept used tbs tbs"
  by (simp add: tickets_kept_def)

lemma tickets_kept_update: "keeps_reserved (tbs ! t) tb' \<Longrightarrow> tickets_kept used tbs (tbs[t := tb'])"
proof -
  assume keeps: "keeps_reserved (tbs ! t) tb'"
  have "ticket_row (tbs[t := tb'] ! u) rsv = Some sl"
    if "u < length tbs" "ht_state (tbs[t := tb'] ! u) = TableOpen" "ticket_row (tbs ! u) rsv = Some sl" for u rsv sl
    using that keeps_ticket [OF keeps] by (cases "u = t") simp_all
  then show ?thesis by (simp add: tickets_kept_def)
qed

lemma held_moves_refl [simp]: "held_moves taken old old"
  by (simp add: held_moves_def)

lemma held_moves_cons [simp]: "held_moves taken old (a # old)"
  by (simp add: held_moves_def)

lemma held_moves_take: "held_moves (Some a) old (remove1 a old)"
  by (simp add: held_moves_def)

lemma world_le_refl [simp]: "world_le w w"
  by (simp add: world_le_def)

lemma set_refs_world_le: "world_le w (set_refs a n w)"
  by (cases "a < length (ko_objs w)") (auto simp: world_le_def set_refs_def nth_list_update list_update_beyond)

lemma acquire_world_le: "KObjectAcquire obj w = (ok, w') \<Longrightarrow> world_le w w'"
  using set_refs_world_le by (auto simp: KObjectAcquire_def split: option.splits if_splits prod.splits)

lemma release_world_le: "KObjectRelease obj w = Inr w' \<Longrightarrow> world_le w w'"
  using set_refs_world_le
  by (auto simp: KObjectRelease_def DebugPanicOrWarn_def Let_def world_le_def split: option.splits if_splits)

text \<open>What a section, with the ticket it uses and the reference it takes, leaves to the code above.\<close>

definition layer_step :: "(nat \<times> HandleTableReservation) option \<Rightarrow> kaddr option \<Rightarrow> hsys \<Rightarrow> hsys \<Rightarrow> bool" where
  "layer_step used taken s s' \<longleftrightarrow> world_le (h_world s) (h_world s') \<and> tickets_kept used (h_tables s) (h_tables s') \<and>
     held_moves taken (h_held s) (h_held s')"

lemma layer_step_refl [simp]: "layer_step used taken s s"
  by (simp add: layer_step_def)

lemma layer_table: "keeps_reserved (h_tables s ! t) tb' \<Longrightarrow> layer_step used taken s (set_table t tb' s)"
  by (simp add: layer_step_def tickets_kept_update)

lemma layer_table_give: "keeps_reserved (h_tables s ! t) tb' \<Longrightarrow> layer_step used taken s (give_ref a (set_table t tb' s))"
  by (simp add: layer_step_def tickets_kept_update)

lemma layer_table_take:
  "keeps_reserved (h_tables s ! t) tb' \<Longrightarrow> layer_step used taken s (take_ref taken (set_table t tb' s))"
  by (cases taken) (simp_all add: layer_step_def tickets_kept_update held_moves_take take_ref_def)

lemma begin_retain_layer: "begin_retain t h ty req k failed s = Inr (p', s') \<Longrightarrow> layer_step used taken s s'"
  by (auto simp: begin_retain_def split: sum.splits prod.splits intro!: layer_table intro: pin_keeps)

lemma begin_close_layer: "begin_close t h ty req k failed s = Inr (p', s') \<Longrightarrow> layer_step used taken s s'"
  by (auto simp: begin_close_def split: sum.splits prod.splits intro!: layer_table intro: detach_begin_keeps)

lemma other_table_kept:
  assumes "\<And>rsv' sl. ticket_row (tbs ! t) rsv' = Some sl \<Longrightarrow> rsv' \<noteq> rsv \<Longrightarrow> ticket_row tb' rsv' = Some sl"
  shows "tickets_kept (Some (t, rsv)) tbs (tbs[t := tb'])"
proof -
  have "ticket_row (tbs[t := tb'] ! u) rsv' = Some sl"
    if "u < length tbs" "(u, rsv') \<noteq> (t, rsv)" "ticket_row (tbs ! u) rsv' = Some sl" for u rsv' sl
    using that assms [of rsv' sl] by (cases "u = t") auto
  then show ?thesis by (auto simp: tickets_kept_def)
qed

lemma call_layer:
  assumes inv: "sys_ok s ps" and ok: "call_ok s c" and res: "call c s = Inr (p', s')"
  shows "layer_step (call_ticket c) (call_takes c) s s'"
proof (cases c)
  case (CallInsert t obj rights)
  with ok sys_table_ok [OF inv] have "table_ok (h_world s) t (h_tables s ! t) ps" by simp
  from insert_keeps [OF this] CallInsert res show ?thesis
    by (auto simp: call_takes_def split: sum.splits prod.splits intro!: layer_table layer_table_take)
next
  case (CallReserve t ty rights)
  with ok sys_table_ok [OF inv] have "table_ok (h_world s) t (h_tables s ! t) ps" by simp
  from reserve_keeps [OF this] CallReserve res show ?thesis
    by (auto simp: layer_step_def split: sum.splits prod.splits intro!: tickets_kept_update)
next
  case (CallPublish t rsv obj)
  have "layer_step (Some (t, rsv)) obj s (take_ref obj (set_table t tb s))"
    "layer_step (Some (t, rsv)) obj s (set_table t tb s)"
    if "HandleTablePublish (h_world s) rsv obj (h_tables s ! t) = Inr (r, tb)" for r tb
    using other_table_kept [OF publish_keeps_other [OF that]]
    by (cases obj; simp add: layer_step_def held_moves_take take_ref_def)+
  with CallPublish res show ?thesis
    by (auto simp: call_ticket_def call_takes_def split: sum.splits prod.splits)
next
  case (CallAbort t rsv)
  have "layer_step (Some (t, rsv)) None s (set_table t tb s)"
    if "HandleTableAbort rsv (h_tables s ! t) = Inr (r, tb)" for r tb
    using other_table_kept [OF abort_keeps_other [OF that]] by (simp add: layer_step_def)
  with CallAbort res show ?thesis
    by (auto simp: call_ticket_def call_takes_def split: sum.splits prod.splits)
next
  case (CallReplace t h rights)
  with ok sys_table_ok [OF inv] have "table_ok (h_world s) t (h_tables s ! t) ps" by simp
  from replace_keeps [OF this] CallReplace res show ?thesis
    by (auto split: sum.splits prod.splits intro!: layer_table)
next
  case (CallAdoptReplace t h obj rights ty)
  with res show ?thesis
    by (auto simp: call_takes_def split: sum.splits prod.splits intro!: layer_table layer_table_take intro: adopt_begin_keeps)
next
  case (CallDrain t)
  with res drain_keeps(1) [of "h_tables s ! t"] show ?thesis
    by (auto split: prod.splits intro!: layer_table)
next
  case (CallKObjectAcquire a)
  with res acquire_world_le show ?thesis
    by (auto simp: layer_step_def split: prod.splits if_splits)
next
  case (CallKObjectRelease a)
  with res show ?thesis
    by (auto simp: layer_step_def call_takes_def held_moves_take)
next
  case (CallKObjectInit ty destroy)
  with res show ?thesis
    by (auto simp: layer_step_def Let_def KObjectInit_def DebugPanicOrWarn_def world_le_def nth_append
      split: sum.splits if_splits)
qed (use res in \<open>auto intro: begin_retain_layer begin_close_layer split: if_splits\<close>)

lemma close_row_layer: "close_row k t d s = Inr (p', s') \<Longrightarrow> layer_step used taken s s'"
  by (cases k) (auto split: sum.splits prod.splits option.splits
    intro!: layer_table layer_table_give intro: close_keeps)

lemma advance_layer:
  assumes inv: "sys_ok s (p # ps)" and res: "advance p s = Inr (p', s')"
  shows "layer_step used taken s s'"
proof (cases p)
  case (Pinned t d obj rights k)
  with res acquire_world_le show ?thesis
    by (auto simp: layer_step_def split: prod.splits)
next
  case (Unpinning t d obj rights ok k)
  with own_pc [OF inv] sys_table_ok [OF inv] have "table_ok (h_world s) t (h_tables s ! t) (p # ps)" "decoded_ok d"
    by simp_all
  from unpin_keeps [OF this] Unpinning res show ?thesis
    by (cases k) (auto split: sum.splits if_splits intro!: layer_table layer_table_give)
next
  case (Duplicating obj rights dst)
  with own_pc [OF inv] sys_table_ok [OF inv] have "table_ok (h_world s) dst (h_tables s ! dst) (p # ps)" by simp
  from insert_keeps [OF this] Duplicating res show ?thesis
    by (auto split: sum.splits prod.splits intro!: layer_table)
next
  case (Releasing obj r)
  with res release_world_le show ?thesis
    by (auto simp: layer_step_def split: sum.splits)
next
  case (DrainCollecting t)
  with own_pc [OF inv] sys_table_ok [OF inv]
  have "table_ok (h_world s) t (h_tables s ! t) (DrainCollecting t # ps)" "ht_state (h_tables s ! t) = TableDraining"
    "ht_active_operations (h_tables s ! t) = 0" by simp_all
  from collect_keeps [OF this] DrainCollecting res show ?thesis
    by (auto split: sum.splits prod.splits intro!: layer_table)
next
  case (DrainReleasing t vs)
  with res release_world_le drain_keeps(2) show ?thesis
    by (auto simp: layer_step_def tickets_kept_update split: sum.splits list.splits)
qed (use res close_row_layer in \<open>auto split: if_splits\<close>)

section \<open>What callers get\<close>

lemma lookup_call:
  assumes "call (CallLookupRef t h ty req) s = Inr (p', s')"
  shows "h_world s' = h_world s" and "h_held s' = h_held s"
    and "p' = Returned (ResPointer None) \<or> (\<exists>d obj rights. p' = Pinned t d obj rights ForLookup \<and>
      (ty = KTypeInvalid \<or> obj_type (h_world s) obj = ty))"
proof -
  show "h_world s' = h_world s" and "h_held s' = h_held s"
    using assms by (auto simp: begin_retain_def split: sum.splits prod.splits)
  show "p' = Returned (ResPointer None) \<or> (\<exists>d obj rights. p' = Pinned t d obj rights ForLookup \<and>
      (ty = KTypeInvalid \<or> obj_type (h_world s) obj = ty))"
  proof (rule pin_result [of "h_world s" h ty req "h_tables s ! t"])
    fix err
    assume "RetainSnapshot_pin (h_world s) h ty req (h_tables s ! t) = Inr (Inl err, h_tables s ! t)"
    with assms show ?thesis by (simp add: begin_retain_def)
  next
    fix d :: DecodedHandle
    let ?sl = "slot_at (h_tables s ! t) (dec_slot d)"
    assume "pin_guard (h_world s) ty req (h_tables s ! t) d"
      "RetainSnapshot_pin (h_world s) h ty req (h_tables s ! t) =
        Inr (Inr (d, the (hs_obj ?sl), hs_rights ?sl), pin_row (h_tables s ! t) d)"
    with assms show ?thesis by (auto simp: begin_retain_def pin_guard_def Let_def)
  qed
qed

lemma retain_advance:
  assumes "advance p s = Inr (p', s')"
  shows "p = Pinned t d obj rights ForLookup \<Longrightarrow> h_held s' = h_held s \<and> (\<exists>ok. p' = Unpinning t d obj rights ok ForLookup)"
    and "p = Unpinning t d obj rights ok ForLookup \<Longrightarrow>
      p' = Returned (ResPointer None) \<and> h_held s' = h_held s \<or>
      p' = Returned (ResPointer (Some obj)) \<and> h_held s' = obj # h_held s"
  using assms by (auto split: prod.splits sum.splits if_splits)

lemma acquire_call:
  assumes "call (CallKObjectAcquire a) s = Inr (p', s')"
  shows "p' = Returned (ResPointer None) \<and> h_held s' = h_held s \<or>
    p' = Returned (ResPointer (Some a)) \<and> h_held s' = a # h_held s"
  using assms by (auto split: prod.splits if_splits)

text \<open>A ticket that is not used up: in an open table its row is reserved for it.\<close>

definition ticket_live :: "HandleTable \<Rightarrow> HandleTableReservation \<Rightarrow> KObjectType \<Rightarrow> u64 \<Rightarrow> bool" where
  "ticket_live tb rsv ty rights \<longleftrightarrow> HandleTableReservationIsValid rsv \<and> HandleDecode (rsv_handle rsv) \<noteq> None \<and>
     (ht_state tb = TableOpen \<longrightarrow>
       (\<exists>sl. ticket_row tb rsv = Some sl \<and> hs_reserved_type sl = ty \<and> hs_rights sl = rights))"

lemma ticket_live_step:
  assumes "tickets_kept used tbs tbs'" and "tables_le tbs tbs'" and "u < length tbs" and "used \<noteq> Some (u, rsv)"
    and live: "ticket_live (tbs ! u) rsv ty rights"
  shows "ticket_live (tbs' ! u) rsv ty rights"
proof -
  have "\<exists>sl. ticket_row (tbs' ! u) rsv = Some sl \<and> hs_reserved_type sl = ty \<and> hs_rights sl = rights"
    if o: "ht_state (tbs' ! u) = TableOpen"
  proof -
    have "ht_state (tbs ! u) = TableOpen"
      using tables_leD(3) [OF assms(2,3)] o by auto
    with live obtain sl where "ticket_row (tbs ! u) rsv = Some sl" "hs_reserved_type sl = ty" "hs_rights sl = rights"
      by (auto simp: ticket_live_def)
    with assms(1,3,4) o show ?thesis by (auto simp: tickets_kept_def)
  qed
  with live show ?thesis by (simp add: ticket_live_def)
qed

lemma reserve_call:
  assumes inv: "sys_ok s ps" and t: "t < length (h_tables s)"
    and res: "call (CallReserve t ty rights) s = Inr (p', s')"
  shows "h_world s' = h_world s" and "h_held s' = h_held s"
    and "(\<exists>e. p' = Returned (ResReservation (Inl e))) \<or> (\<exists>rsv. p' = Returned (ResReservation (Inr rsv)) \<and>
      ht_state (h_tables s ! t) = TableOpen \<and> ticket_row (h_tables s ! t) rsv = None \<and>
      ticket_live (h_tables s' ! t) rsv ty rights)"
proof -
  show "h_world s' = h_world s" and "h_held s' = h_held s"
    using res by (auto split: sum.splits prod.splits)
  have ok: "table_ok (h_world s) t (h_tables s ! t) ps"
    using sys_table_ok [OF inv t] .
  show "(\<exists>e. p' = Returned (ResReservation (Inl e))) \<or> (\<exists>rsv. p' = Returned (ResReservation (Inr rsv)) \<and>
      ht_state (h_tables s ! t) = TableOpen \<and> ticket_row (h_tables s ! t) rsv = None \<and>
      ticket_live (h_tables s' ! t) rsv ty rights)"
  proof (rule reserve_result [OF ok, of ty rights "h_last_nonce s"])
    fix err last'
    assume "HandleTableReserve ty rights (h_tables s ! t, h_last_nonce s) = Inr (Inl err, h_tables s ! t, last')"
    with res show ?thesis by auto
  next
    fix i
    define tb where "tb = h_tables s ! t"
    define g where "g = hs_generation (slot_at tb i) + 1"
    define rsv where "rsv = \<lparr>rsv_handle = HandleEncode i g, rsv_nonce = h_last_nonce s + 1\<rparr>"
    assume a: "ty \<noteq> KTypeInvalid" "rights \<noteq> 0" "ht_state (h_tables s ! t) = TableOpen"
      "first_free (h_tables s ! t) = Some i" "h_last_nonce s \<noteq> kU64Max"
      "HandleTableReserve ty rights (h_tables s ! t, h_last_nonce s) =
        Inr (Inr \<lparr>rsv_handle = HandleEncode i (hs_generation (slot_at (h_tables s ! t) i) + 1),
          rsv_nonce = h_last_nonce s + 1\<rparr>, reserve_row (h_tables s ! t) i ty rights (h_last_nonce s + 1),
          h_last_nonce s + 1)"
    have free: "free_at tb i" using first_free_Some a(4) by (simp add: tb_def)
    then have i: "unat i < length (ht_slots tb)"
      using table_okD(1) [OF ok] by (simp add: tb_def free_at_def)
    have enc: "HandleEncode i g \<noteq> kHandleInvalid"
      using free_row(4) [OF ok] free by (simp add: tb_def g_def)
    then have dec: "HandleDecode (rsv_handle rsv) = Some (i, g)"
      by (simp add: rsv_def HandleDecode_iff kdefs)
    have valid: "HandleTableReservationIsValid rsv"
      using enc u64_succ_nonzero [OF a(5)] by (simp add: rsv_def HandleTableReservationIsValid_def)
    have none: "ticket_row tb rsv = None"
      using dec free by (simp add: ticket_row_def ReservationMatches_def free_at_def)
    let ?tb' = "reserve_row tb i ty rights (h_last_nonce s + 1)"
    have new: "slot_at ?tb' i = (slot_at tb i)\<lparr>hs_generation := g, hs_rights := rights,
        hs_reservation_nonce := h_last_nonce s + 1, hs_reserved_type := ty, hs_state := SlotReserved\<rparr>"
      using i by (simp add: reserve_row_def Let_def g_def)
    have "hs_obj (slot_at tb i) = None"
      using free_row(1) [OF ok] free by (simp add: tb_def free_slot_clear_def)
    then have "ticket_row ?tb' rsv = Some (slot_at ?tb' i)"
      using dec valid a(1,2) new by (simp add: ticket_row_def ReservationMatches_def) (simp add: rsv_def)
    then have "ticket_live ?tb' rsv ty rights"
      using valid dec new by (simp add: ticket_live_def)
    moreover have "p' = Returned (ResReservation (Inr rsv))" "h_tables s' ! t = ?tb'"
      using res a(6) t by (auto simp: rsv_def g_def tb_def)
    ultimately show ?thesis
      using none a(3) by (simp add: tb_def)
  qed
qed

lemma abort_call:
  assumes "ticket_live (h_tables s ! t) rsv ty rights" and "call (CallAbort t rsv) s = Inr (p', s')"
  shows "h_held s' = h_held s" and "p' = Returned (ResVoid (Inr ())) \<or> p' = Returned (ResVoid (Inl ErrBadState))"
proof -
  show "h_held s' = h_held s"
    using assms(2) by (auto split: sum.splits prod.splits)
  show "p' = Returned (ResVoid (Inr ())) \<or> p' = Returned (ResVoid (Inl ErrBadState))"
  proof (cases "ht_state (h_tables s ! t) = TableOpen")
    case True
    with assms(1) obtain sl where row: "ticket_row (h_tables s ! t) rsv = Some sl"
      by (auto simp: ticket_live_def)
    obtain d where "HandleDecode (rsv_handle rsv) = Some (dec_slot d, dec_generation d)"
      "ReservationMatches (slot_at (h_tables s ! t) (dec_slot d)) d rsv" "HandleTableReservationIsValid rsv"
      using ticket_rowD [OF row] by metis
    with True assms(2) show ?thesis
      by (auto simp: HandleTableAbort_def with_decoded_def DecodeHandleNospec_eq Let_def ReservationMatches_def)
  next
    case False
    with assms show ?thesis
      by (auto simp: ticket_live_def HandleTableAbort_def with_decoded_def DecodeHandleNospec_eq)
  qed
qed

lemma publish_call:
  assumes inv: "sys_ok s ps" and t: "t < length (h_tables s)"
    and live: "ticket_live (h_tables s ! t) rsv (obj_type (h_world s) a) rights"
    and obj: "refs (h_world s) a \<noteq> 0" "obj_type (h_world s) a \<noteq> KTypeInvalid"
    and res: "call (CallPublish t rsv (Some a)) s = Inr (p', s')"
  shows "p' = Returned (ResHandle (Inr (rsv_handle rsv))) \<and> h_held s' = remove1 a (h_held s) \<or>
    p' = Returned (ResHandle (Inl ErrBadState)) \<and> h_held s' = h_held s \<and> ht_state (h_tables s' ! t) \<noteq> TableOpen"
proof (cases "ht_state (h_tables s ! t) = TableOpen")
  case True
  with live obtain sl where row: "ticket_row (h_tables s ! t) rsv = Some sl"
    and sl: "hs_reserved_type sl = obj_type (h_world s) a"
    by (auto simp: ticket_live_def)
  obtain d where d: "decoded_ok d" "HandleDecode (rsv_handle rsv) = Some (dec_slot d, dec_generation d)"
    "sl = slot_at (h_tables s ! t) (dec_slot d)" "ReservationMatches sl d rsv" "HandleTableReservationIsValid rsv"
    by (rule ticket_rowD [OF row])
  have "reserved_row_ok sl"
    using reserved_row(1) [OF sys_table_ok [OF inv t] d(1)] d(3,4) by simp
  then have "\<not> exceeds (hs_rights sl) (TypeAllowedRights (obj_type (h_world s) a))"
    using sl by (simp add: reserved_row_ok_def exceeds_iff)
  with True d sl obj res show ?thesis
    by (auto simp: HandleTablePublish_def with_decoded_def DecodeHandleNospec_eq Let_def KObjectRefcount_def
      ReservationMatches_def)
next
  case False
  with live obj res t show ?thesis
    by (auto simp: ticket_live_def HandleTablePublish_def with_decoded_def DecodeHandleNospec_eq KObjectRefcount_def)
qed

end
