(* ===== verification/ObjectTransfer.thy ===== *)
theory ObjectTransfer
  imports HandleTable
begin

text \<open>
  The object-transfer table of an IPC endpoint (\<^verbatim>\<open>kernel/ipc/object_transfer.h\<close>,
  \<^verbatim>\<open>kernel/ipc/object_transfer.cpp\<close>): a sender exports an object out of its handle table into a
  row, a receiver imports the row into its own handle table. Every part that runs under the
  table's lock is one definition; \<^verbatim>\<open>ObjectTransferSystem\<close> composes them with the handle-table
  operations that the source calls between them.
\<close>

section \<open>References\<close>

type_synonym ObjectTransferRef = u32

definition kObjectTransferRefInvalid :: ObjectTransferRef where [kdefs]: "kObjectTransferRefInvalid = 0"
definition kObjectTransferSlotBits :: nat where [kdefs]: "kObjectTransferSlotBits = 6"
definition kObjectTransferSlotMask :: ObjectTransferRef where
  [kdefs]: "kObjectTransferSlotMask = push_bit kObjectTransferSlotBits 1 - 1"
definition kObjectTransferGenerationBits :: nat where
  [kdefs]: "kObjectTransferGenerationBits = 31 - kObjectTransferSlotBits"
definition kObjectTransferGenerationMax :: u32 where
  [kdefs]: "kObjectTransferGenerationMax = push_bit kObjectTransferGenerationBits 1 - 1"
definition kObjectTransferPositiveMax :: ObjectTransferRef where [kdefs]: "kObjectTransferPositiveMax = 0x7FFFFFFF"
definition kObjectTransferTableCapacity :: u32 where [kdefs]: "kObjectTransferTableCapacity = 32"

definition ObjectTransferRefEncode :: "u32 \<Rightarrow> u32 \<Rightarrow> ObjectTransferRef" where
  "ObjectTransferRefEncode slot generation =
    (if slot > 0 \<and> slot < kObjectTransferTableCapacity \<and> generation > 0 \<and> generation \<le> kObjectTransferGenerationMax
     then push_bit kObjectTransferSlotBits generation OR slot else kObjectTransferRefInvalid)"

record ObjectTransferDecodedRef =
  xd_slot :: u32
  xd_generation :: u32

definition kInvalidObjectTransferDecodedRef :: ObjectTransferDecodedRef where
  "kInvalidObjectTransferDecodedRef = \<lparr>xd_slot = 0, xd_generation = 0\<rparr>"

definition ObjectTransferDecodedRefIsValid :: "ObjectTransferDecodedRef \<Rightarrow> bool" where
  "ObjectTransferDecodedRefIsValid decoded \<longleftrightarrow>
    xd_slot decoded > 0 \<and> xd_slot decoded < kObjectTransferTableCapacity \<and> xd_generation decoded > 0 \<and>
    xd_generation decoded \<le> kObjectTransferGenerationMax"

definition ObjectTransferRefDecode :: "ObjectTransferRef \<Rightarrow> ObjectTransferDecodedRef" where
  "ObjectTransferRefDecode reference =
    (if reference = kObjectTransferRefInvalid \<or> reference > kObjectTransferPositiveMax
     then kInvalidObjectTransferDecodedRef
     else let slot = reference AND kObjectTransferSlotMask; generation = drop_bit kObjectTransferSlotBits reference
       in if slot = 0 \<or> slot \<ge> kObjectTransferTableCapacity \<or> generation = 0 \<or>
             generation > kObjectTransferGenerationMax
          then kInvalidObjectTransferDecodedRef else \<lparr>xd_slot = slot, xd_generation = generation\<rparr>)"

definition DecodeTransferRefNospec :: "ObjectTransferRef \<Rightarrow> ObjectTransferDecodedRef" where
  "DecodeTransferRefNospec reference =
    (let decoded = ObjectTransferRefDecode reference in
     if \<not> ObjectTransferDecodedRefIsValid decoded then kInvalidObjectTransferDecodedRef
     else let masked_slot = MaskedIndex32 (xd_slot decoded) kObjectTransferTableCapacity
       in if masked_slot \<noteq> xd_slot decoded then kInvalidObjectTransferDecodedRef
          else \<lparr>xd_slot = masked_slot, xd_generation = xd_generation decoded\<rparr>)"

section \<open>Authority\<close>

definition kObjectTransferMetadataSealed :: u32 where [kdefs]: "kObjectTransferMetadataSealed = push_bit 0 1"
definition kObjectTransferMetadataKnownFlags :: u32 where
  [kdefs]: "kObjectTransferMetadataKnownFlags = kObjectTransferMetadataSealed"

record ObjectTransferImmutableMetadata =
  xm_identity :: u64
  xm_object_size :: u64
  xm_content_hash :: "u8 list"
  xm_flags :: u32
  xm_reserved :: u32

record ObjectTransferAuthority =
  xa_type :: KObjectType
  xa_rights :: u64
  xa_metadata :: ObjectTransferImmutableMetadata

definition zero_metadata :: ObjectTransferImmutableMetadata where
  "zero_metadata = \<lparr>xm_identity = 0, xm_object_size = 0, xm_content_hash = replicate 32 0, xm_flags = 0,
     xm_reserved = 0\<rparr>"

definition MetadataIsZero :: "ObjectTransferImmutableMetadata \<Rightarrow> bool" where
  "MetadataIsZero metadata \<longleftrightarrow>
    \<not> (xm_identity metadata \<noteq> 0 \<or> xm_object_size metadata \<noteq> 0 \<or> xm_flags metadata \<noteq> 0 \<or> xm_reserved metadata \<noteq> 0) \<and>
    (\<forall>index\<in>set [0..<32]. xm_content_hash metadata ! index = 0)"

definition MetadataValid :: "ObjectTransferImmutableMetadata \<Rightarrow> bool" where
  "MetadataValid metadata \<longleftrightarrow>
    xm_identity metadata \<noteq> 0 \<and> xm_flags metadata AND NOT kObjectTransferMetadataKnownFlags = 0 \<and>
    xm_flags metadata AND kObjectTransferMetadataSealed \<noteq> 0 \<and> xm_reserved metadata = 0"

definition AuthorityValid :: "ObjectTransferAuthority \<Rightarrow> bool" where
  "AuthorityValid authority =
    (if xa_type authority = KTypeInvalid \<or> xa_rights authority = 0 \<or> exceeds (xa_rights authority) kHandleRightAll
     then False
     else \<not> exceeds (xa_rights authority) (TypeAllowedRights (xa_type authority)) \<and>
       MetadataValid (xa_metadata authority))"

definition RequestedRightsValid :: "KObjectType \<Rightarrow> u64 \<Rightarrow> bool" where
  "RequestedRightsValid expected_type requested_rights \<longleftrightarrow>
    expected_type \<noteq> KTypeInvalid \<and> requested_rights \<noteq> 0 \<and> \<not> exceeds requested_rights kHandleRightAll \<and>
    \<not> exceeds requested_rights (TypeAllowedRights expected_type)"

definition EmptyAuthority :: ObjectTransferAuthority where
  "EmptyAuthority = \<lparr>xa_type = KTypeInvalid, xa_rights = 0, xa_metadata = zero_metadata\<rparr>"

section \<open>Results\<close>

datatype ObjectTransferStatus = XferOk | XferInvalidArgument | XferNotInitialized | XferAlreadyInitialized |
  XferClosed | XferFull | XferIdentityExhausted | XferSourceRejected | XferInvalidReference | XferStaleReference |
  XferReferenceReplayed | XferRightsDenied | XferTypeMismatch | XferRetainFailed | XferDestinationRejected |
  XferOperationOverflow | XferBusy | XferCorruptState

record ObjectTransferExportResult =
  xe_status :: ObjectTransferStatus
  xe_reference :: ObjectTransferRef

record ObjectTransferImportResult =
  xi_status :: ObjectTransferStatus
  xi_destination_error :: ErrorCode
  xi_handle :: Handle
  xi_authority :: ObjectTransferAuthority

definition ExportFailure :: "ObjectTransferStatus \<Rightarrow> ObjectTransferExportResult" where
  "ExportFailure status = \<lparr>xe_status = status, xe_reference = kObjectTransferRefInvalid\<rparr>"

definition ImportFailure :: "ObjectTransferStatus \<Rightarrow> ErrorCode \<Rightarrow> ObjectTransferImportResult" where
  "ImportFailure status destination_error =
    \<lparr>xi_status = status, xi_destination_error = destination_error, xi_handle = kHandleInvalid,
     xi_authority = EmptyAuthority\<rparr>"

primrec ObjectTransferStatusName :: "ObjectTransferStatus \<Rightarrow> string" where
  "ObjectTransferStatusName XferOk = ''ok''"
| "ObjectTransferStatusName XferInvalidArgument = ''invalid-argument''"
| "ObjectTransferStatusName XferNotInitialized = ''not-initialized''"
| "ObjectTransferStatusName XferAlreadyInitialized = ''already-initialized''"
| "ObjectTransferStatusName XferClosed = ''closed''"
| "ObjectTransferStatusName XferFull = ''full''"
| "ObjectTransferStatusName XferIdentityExhausted = ''identity-exhausted''"
| "ObjectTransferStatusName XferSourceRejected = ''source-rejected''"
| "ObjectTransferStatusName XferInvalidReference = ''invalid-reference''"
| "ObjectTransferStatusName XferStaleReference = ''stale-reference''"
| "ObjectTransferStatusName XferReferenceReplayed = ''reference-replayed''"
| "ObjectTransferStatusName XferRightsDenied = ''rights-denied''"
| "ObjectTransferStatusName XferTypeMismatch = ''type-mismatch''"
| "ObjectTransferStatusName XferRetainFailed = ''retain-failed''"
| "ObjectTransferStatusName XferDestinationRejected = ''destination-rejected''"
| "ObjectTransferStatusName XferOperationOverflow = ''operation-overflow''"
| "ObjectTransferStatusName XferBusy = ''busy''"
| "ObjectTransferStatusName XferCorruptState = ''corrupt-state''"

section \<open>The table\<close>

datatype ObjectTransferSlotState = XSlotFree | XSlotLive | XSlotClosing | XSlotRetired
datatype ObjectTransferTableState = XTableUninitialized | XTableOpen | XTableDraining | XTableClosed

record ObjectTransferSlot =
  xs_object :: "kaddr option"
  xs_metadata :: ObjectTransferImmutableMetadata
  xs_rights :: u64
  xs_generation :: u32
  xs_acquisition_pins :: u32
  xs_type :: KObjectType
  xs_state :: ObjectTransferSlotState

record ObjectTransferTable =
  xt_slots :: "ObjectTransferSlot list"
  xt_next_free_hint :: u32
  xt_active_operations :: u32
  xt_initialized :: u32
  xt_state :: ObjectTransferTableState

definition zero_transfer_slot :: ObjectTransferSlot where
  "zero_transfer_slot = \<lparr>xs_object = None, xs_metadata = zero_metadata, xs_rights = 0, xs_generation = 0,
     xs_acquisition_pins = 0, xs_type = KTypeInvalid, xs_state = XSlotFree\<rparr>"

definition zero_transfer_table :: ObjectTransferTable where
  "zero_transfer_table = \<lparr>xt_slots = replicate (unat kObjectTransferTableCapacity) zero_transfer_slot,
     xt_next_free_hint = 0, xt_active_operations = 0, xt_initialized = 0, xt_state = XTableUninitialized\<rparr>"

abbreviation xslot_at :: "ObjectTransferTable \<Rightarrow> u32 \<Rightarrow> ObjectTransferSlot" where
  "xslot_at table i \<equiv> xt_slots table ! unat i"

definition set_xslot :: "u32 \<Rightarrow> ObjectTransferSlot \<Rightarrow> ObjectTransferTable \<Rightarrow> ObjectTransferTable" where
  "set_xslot i slot table = table\<lparr>xt_slots := (xt_slots table)[unat i := slot]\<rparr>"

definition TransferSlotMatches :: "ObjectTransferSlot \<Rightarrow> u32 \<Rightarrow> bool" where
  "TransferSlotMatches slot generation \<longleftrightarrow>
    xs_state slot = XSlotLive \<and> xs_object slot \<noteq> None \<and> xs_generation slot = generation"

definition ReferenceFailure :: "ObjectTransferSlot \<Rightarrow> u32 \<Rightarrow> ObjectTransferStatus" where
  "ReferenceFailure slot generation =
    (if xs_generation slot \<noteq> 0 \<and> generation \<le> xs_generation slot then XferReferenceReplayed else XferStaleReference)"

definition TransferClosedStateFor :: "ObjectTransferSlot \<Rightarrow> ObjectTransferSlotState" where
  "TransferClosedStateFor slot =
    (if xs_generation slot = kObjectTransferGenerationMax then XSlotRetired else XSlotFree)"

definition ClearSlot :: "ObjectTransferSlot \<Rightarrow> ObjectTransferSlot" where
  "ClearSlot slot = slot\<lparr>xs_object := None, xs_metadata := zero_metadata, xs_rights := 0, xs_acquisition_pins := 0,
     xs_type := KTypeInvalid, xs_state := TransferClosedStateFor slot\<rparr>"

primrec StateFailure :: "ObjectTransferTableState \<Rightarrow> ObjectTransferStatus" where
  "StateFailure XTableUninitialized = XferNotInitialized"
| "StateFailure XTableDraining = XferClosed"
| "StateFailure XTableClosed = XferClosed"
| "StateFailure XTableOpen = XferCorruptState"

section \<open>Initialization\<close>

definition TableIsCanonicalUninitialized :: "ObjectTransferTable \<Rightarrow> bool" where
  "TableIsCanonicalUninitialized table =
    (if xt_initialized table \<noteq> 0 \<or> xt_state table \<noteq> XTableUninitialized \<or> xt_next_free_hint table \<noteq> 0 \<or>
        xt_active_operations table \<noteq> 0 then False
     else \<forall>index\<in>set [0..<unat kObjectTransferTableCapacity]. let slot = xt_slots table ! index in
       \<not> (xs_object slot \<noteq> None \<or> \<not> MetadataIsZero (xs_metadata slot) \<or> xs_rights slot \<noteq> 0 \<or>
          xs_generation slot \<noteq> 0 \<or> xs_acquisition_pins slot \<noteq> 0 \<or> xs_type slot \<noteq> KTypeInvalid \<or>
          xs_state slot \<noteq> XSlotFree))"

definition ObjectTransferTableInitialize ::
    "ObjectTransferTable option \<Rightarrow> u32 \<Rightarrow> ObjectTransferStatus \<times> ObjectTransferTable option" where
  "ObjectTransferTableInitialize table first_generation =
    (case table of
       None \<Rightarrow> (XferInvalidArgument, None)
     | Some tb \<Rightarrow>
        if first_generation = 0 \<or> first_generation > kObjectTransferGenerationMax then (XferInvalidArgument, table)
        else if xt_initialized tb = 1 then (XferAlreadyInitialized, table)
        else if \<not> TableIsCanonicalUninitialized tb then (XferCorruptState, table)
        else (XferOk, Some \<lparr>xt_slots =
            map (\<lambda>index. \<lparr>xs_object = None, xs_metadata = zero_metadata, xs_rights = 0,
              xs_generation = first_generation - 1, xs_acquisition_pins = 0, xs_type = KTypeInvalid,
              xs_state = if index = 0 then XSlotRetired else XSlotFree\<rparr>) [0..<unat kObjectTransferTableCapacity],
          xt_next_free_hint = 0, xt_active_operations = 0, xt_initialized = 1, xt_state = XTableOpen\<rparr>))"

section \<open>Export: the row adopts the retained object\<close>

definition xscan_index :: "u32 \<Rightarrow> u32 \<Rightarrow> u32" where
  "xscan_index start step =
    (let index = start + step in
     if index \<ge> kObjectTransferTableCapacity then index - kObjectTransferTableCapacity else index)"

fun install_scan ::
    "kaddr \<Rightarrow> ObjectTransferAuthority \<Rightarrow> u32 \<Rightarrow> u32 list \<Rightarrow> bool \<Rightarrow> ObjectTransferTable \<Rightarrow>
      ObjectTransferStatus \<times> ObjectTransferRef \<times> ObjectTransferTable" where
  "install_scan retained authority start [] future_capacity table =
    (if \<not> future_capacity then XferIdentityExhausted else XferFull, kObjectTransferRefInvalid, table)"
| "install_scan retained authority start (step # steps) future_capacity table =
    (let index = xscan_index start step in
     if index = 0 then install_scan retained authority start steps future_capacity table
     else let slot = xslot_at table index in
       if xs_state slot = XSlotRetired then install_scan retained authority start steps future_capacity table
       else if xs_state slot = XSlotFree \<and> xs_generation slot = kObjectTransferGenerationMax
         then install_scan retained authority start steps future_capacity
           (set_xslot index (slot\<lparr>xs_state := XSlotRetired\<rparr>) table)
       else if xs_state slot \<noteq> XSlotFree then install_scan retained authority start steps True table
       else if xs_object slot \<noteq> None \<or> xs_rights slot \<noteq> 0 \<or> xs_acquisition_pins slot \<noteq> 0 \<or>
           xs_type slot \<noteq> KTypeInvalid
         then (XferCorruptState, kObjectTransferRefInvalid, table)
       else let slot1 = slot\<lparr>xs_generation := xs_generation slot + 1\<rparr>;
                reference = ObjectTransferRefEncode index (xs_generation slot1)
         in if reference = kObjectTransferRefInvalid
            then (XferCorruptState, kObjectTransferRefInvalid, set_xslot index slot1 table)
            else (XferOk, reference, (set_xslot index (slot1\<lparr>xs_object := Some retained,
              xs_metadata := xa_metadata authority, xs_rights := xa_rights authority, xs_type := xa_type authority,
              xs_state := XSlotLive\<rparr>) table)\<lparr>xt_next_free_hint := index\<rparr>))"

definition xscan_steps :: "u32 list" where
  "xscan_steps = map of_nat [0..<unat kObjectTransferTableCapacity]"

definition ObjectTransferExport_install ::
    "kaddr \<Rightarrow> ObjectTransferAuthority \<Rightarrow> ObjectTransferTable \<Rightarrow>
      ObjectTransferStatus \<times> ObjectTransferRef \<times> ObjectTransferTable" where
  "ObjectTransferExport_install retained authority table =
    (if xt_state table \<noteq> XTableOpen then (StateFailure (xt_state table), kObjectTransferRefInvalid, table)
     else install_scan retained authority ((xt_next_free_hint table + 1) mod kObjectTransferTableCapacity)
       xscan_steps False table)"

section \<open>Import: pin and unpin\<close>

definition ObjectTransferImport_pin ::
    "kworld \<Rightarrow> ObjectTransferDecodedRef \<Rightarrow> KObjectType \<Rightarrow> u64 \<Rightarrow> ObjectTransferTable \<Rightarrow>
      (ObjectTransferStatus + kaddr \<times> ObjectTransferImmutableMetadata) \<times> ObjectTransferTable" where
  "ObjectTransferImport_pin w decoded expected_type requested_rights table =
    (if xt_state table \<noteq> XTableOpen then (Inl (StateFailure (xt_state table)), table)
     else let slot = xslot_at table (xd_slot decoded) in
       if \<not> TransferSlotMatches slot (xd_generation decoded)
         then (Inl (if xs_state slot = XSlotClosing \<and> xs_generation slot = xd_generation decoded then XferBusy
                    else ReferenceFailure slot (xd_generation decoded)), table)
       else let object = the (xs_object slot) in
         if xs_type slot \<noteq> expected_type \<or> obj_type w object \<noteq> expected_type then (Inl XferTypeMismatch, table)
         else if exceeds requested_rights (xs_rights slot) then (Inl XferRightsDenied, table)
         else if xs_acquisition_pins slot = 0xFFFFFFFF \<or> xt_active_operations table = 0xFFFFFFFF
           then (Inl XferOperationOverflow, table)
         else (Inr (object, xs_metadata slot),
           (set_xslot (xd_slot decoded) (slot\<lparr>xs_acquisition_pins := xs_acquisition_pins slot + 1\<rparr>) table)
             \<lparr>xt_active_operations := xt_active_operations table + 1\<rparr>))"

definition ObjectTransferImport_unpin ::
    "ObjectTransferDecodedRef \<Rightarrow> kaddr \<Rightarrow> ObjectTransferTable \<Rightarrow> bool \<times> ObjectTransferTable" where
  "ObjectTransferImport_unpin decoded object table =
    (let slot = xslot_at table (xd_slot decoded);
         identity_intact = (xs_generation slot = xd_generation decoded \<and> xs_object slot = Some object \<and>
           (xs_state slot = XSlotLive \<or> xs_state slot = XSlotClosing) \<and>
           xs_acquisition_pins slot > 0 \<and> xt_active_operations table > 0);
         table1 = (if xs_acquisition_pins slot > 0
           then set_xslot (xd_slot decoded) (slot\<lparr>xs_acquisition_pins := xs_acquisition_pins slot - 1\<rparr>) table
           else table);
         table2 = (if xt_active_operations table1 > 0
           then table1\<lparr>xt_active_operations := xt_active_operations table1 - 1\<rparr> else table1)
     in (identity_intact, table2))"

section \<open>Revoke and close\<close>

definition ObjectTransferRevoke_detach ::
    "ObjectTransferDecodedRef \<Rightarrow> ObjectTransferTable \<Rightarrow> (ObjectTransferStatus + kaddr option) \<times> ObjectTransferTable" where
  "ObjectTransferRevoke_detach decoded table =
    (if xt_state table \<noteq> XTableOpen then (Inl (StateFailure (xt_state table)), table)
     else let slot = xslot_at table (xd_slot decoded);
              detach = (\<lambda>slot. if xs_acquisition_pins slot \<noteq> 0
                then (Inl XferBusy, set_xslot (xd_slot decoded) slot table)
                else (Inr (xs_object slot), set_xslot (xd_slot decoded) (ClearSlot slot) table))
       in if xs_state slot = XSlotClosing \<and> xs_generation slot = xd_generation decoded
          then if xs_object slot = None then (Inl XferCorruptState, table) else detach slot
          else if TransferSlotMatches slot (xd_generation decoded) then detach (slot\<lparr>xs_state := XSlotClosing\<rparr>)
          else (Inl (ReferenceFailure slot (xd_generation decoded)), table))"

definition close_live :: "ObjectTransferSlot \<Rightarrow> ObjectTransferSlot" where
  "close_live slot = (if xs_state slot = XSlotLive then slot\<lparr>xs_state := XSlotClosing\<rparr> else slot)"

text \<open>The sum of the pins, or \<open>None\<close> where the code's overflow test refuses it.\<close>

fun observe_pins :: "ObjectTransferSlot list \<Rightarrow> u32 \<Rightarrow> u32 option" where
  "observe_pins [] observed = Some observed"
| "observe_pins (slot # slots) observed =
    (if xs_acquisition_pins slot > 0xFFFFFFFF - observed then None
     else observe_pins slots (observed + xs_acquisition_pins slot))"

definition close_row_detach ::
    "ObjectTransferStatus \<times> kaddr list \<times> ObjectTransferTable \<Rightarrow> nat \<Rightarrow>
      ObjectTransferStatus \<times> kaddr list \<times> ObjectTransferTable" where
  "close_row_detach = (\<lambda>(result, detached, table) index.
    let slot = xt_slots table ! index in
    case xs_object slot of
      Some object \<Rightarrow>
       (if xs_state slot \<noteq> XSlotClosing then XferCorruptState else result, detached @ [object],
        table\<lparr>xt_slots := (xt_slots table)[index := ClearSlot slot]\<rparr>)
    | None \<Rightarrow>
       if xs_state slot = XSlotClosing \<or> xs_state slot = XSlotLive
       then (XferCorruptState, detached, table\<lparr>xt_slots := (xt_slots table)[index := ClearSlot slot]\<rparr>)
       else (result, detached, table))"

definition close_begin :: "ObjectTransferTable \<Rightarrow> ObjectTransferTable" where
  "close_begin table =
    (if xt_state table = XTableOpen
     then table\<lparr>xt_state := XTableDraining, xt_slots := hd (xt_slots table) # map close_live (tl (xt_slots table))\<rparr>
     else table)"

definition ObjectTransferTableClose_detach ::
    "ObjectTransferTable \<Rightarrow> ObjectTransferStatus \<times> kaddr list \<times> ObjectTransferTable" where
  "ObjectTransferTableClose_detach table =
    (if xt_state table = XTableUninitialized then (XferNotInitialized, [], table)
     else if xt_state table = XTableClosed then (XferOk, [], table)
     else let table1 = close_begin table in
       if xt_state table1 \<noteq> XTableDraining then (XferCorruptState, [], table1)
       else case observe_pins (xt_slots table1) 0 of
           None \<Rightarrow> (XferCorruptState, [], table1)
         | Some observed_pins \<Rightarrow>
            if observed_pins \<noteq> xt_active_operations table1 then (XferCorruptState, [], table1)
            else if observed_pins \<noteq> 0 then (XferBusy, [], table1)
            else case foldl close_row_detach (XferOk, [], table1) [1..<unat kObjectTransferTableCapacity] of
              (result, detached, table2) \<Rightarrow> (result, detached, table2\<lparr>xt_state := XTableClosed\<rparr>))"

definition ObjectTransferLiveCount :: "ObjectTransferTable option \<Rightarrow> u32" where
  "ObjectTransferLiveCount table =
    (case table of
       None \<Rightarrow> 0
     | Some tb \<Rightarrow>
        if xt_initialized tb \<noteq> 1 then 0
        else if xt_state tb = XTableUninitialized then 0
        else foldl (\<lambda>count index. if xs_state (xt_slots tb ! index) = XSlotLive then count + 1 else count) 0
          [1..<unat kObjectTransferTableCapacity])"

end
