(* ===== verification/ObjectTransferSystem.thy ===== *)
theory ObjectTransferSystem
  imports HandleTableFrame ObjectTransfer
begin

text \<open>
  Threads that export, import, revoke and close over the object-transfer tables of
  \<^verbatim>\<open>kernel/ipc/object_transfer.cpp\<close>, on top of the handle-table threads of \<^verbatim>\<open>HandleTableSystem\<close>.
  Thread \<open>i\<close> of this system is thread \<open>i\<close> of the handle layer as well: where the source calls a
  handle-table or object operation the handle thread runs it, one critical section at a time, and
  the transfer operation goes on with its result. Client code may call both layers.
\<close>

section \<open>Threads\<close>

datatype xresult =
    XNothing
  | XStatus ObjectTransferStatus
  | XExported ObjectTransferExportResult
  | XImported ObjectTransferImportResult

record import_call =
  im_table :: nat
  im_ref :: ObjectTransferDecodedRef
  im_destination :: nat
  im_type :: KObjectType
  im_rights :: u64

text \<open>What follows an abort of the reservation, and what follows the releases of a thread.\<close>

datatype after_abort =
    AbortValidation ObjectTransferStatus
  | AbortPublish ErrorCode

datatype after_release =
    XFinish xresult
  | XAbort nat HandleTableReservation after_abort

datatype xpc =
    XReturned xresult
  | ExportLookup nat ObjectTransferAuthority
  | ImportReserve import_call
  | ImportPinned import_call HandleTableReservation kaddr ObjectTransferImmutableMetadata
  | ImportRetain import_call HandleTableReservation kaddr ObjectTransferImmutableMetadata
  | ImportUnpinned import_call HandleTableReservation kaddr ObjectTransferImmutableMetadata
  | ImportPublish import_call HandleTableReservation kaddr ObjectTransferImmutableMetadata
  | XReleasing "kaddr list" after_release
  | XAborting after_abort

text \<open>\<open>x_held\<close> are the references of client code; the references of transfer rows and of transfer
  operations in progress are, with them, those that the handle layer sees outside its tables.
  \<open>x_exports\<close> is a record of all successful exports (table, reference, object, authority) that no
  operation reads.\<close>

record xsys =
  x_h :: hsys
  x_tables :: "ObjectTransferTable list"
  x_threads :: "xpc list"
  x_held :: "kaddr list"
  x_exports :: "(nat \<times> ObjectTransferRef \<times> kaddr \<times> ObjectTransferAuthority) list"

definition set_xtable :: "nat \<Rightarrow> ObjectTransferTable \<Rightarrow> xsys \<Rightarrow> xsys" where
  "set_xtable x table s = s\<lparr>x_tables := (x_tables s)[x := table]\<rparr>"

definition goes_to :: "nat \<Rightarrow> xpc \<Rightarrow> xsys \<Rightarrow> xsys" where
  "goes_to i p s = s\<lparr>x_threads := (x_threads s)[i := p]\<rparr>"

text \<open>\<open>held\<close> after a section of client code in the handle layer, whose references changed from
  \<open>old\<close> to \<open>new\<close>.\<close>

definition held_change :: "kaddr list \<Rightarrow> kaddr list \<Rightarrow> kaddr list \<Rightarrow> kaddr list" where
  "held_change old new held = fold remove1 (fold remove1 new old) held @ fold remove1 old new"

definition client_section :: "nat \<Rightarrow> string + pc \<times> hsys \<Rightarrow> xsys \<Rightarrow> string + xsys" where
  "client_section i r s =
    (case r of
       Inl e \<Rightarrow> Inl e
     | Inr r \<Rightarrow> Inr (s\<lparr>x_h := put_thread i r, x_held := held_change (h_held (x_h s)) (h_held (snd r)) (x_held s)\<rparr>))"

definition transfer_section :: "nat \<Rightarrow> string + pc \<times> hsys \<Rightarrow> xpc \<Rightarrow> xsys \<Rightarrow> string + xsys" where
  "transfer_section i r p s =
    (case r of Inl e \<Rightarrow> Inl e | Inr r \<Rightarrow> Inr (goes_to i p (s\<lparr>x_h := put_thread i r\<rparr>)))"

abbreviation handle_call :: "nat \<Rightarrow> hcall \<Rightarrow> xpc \<Rightarrow> xsys \<Rightarrow> string + xsys" where
  "handle_call i c p s \<equiv> transfer_section i (call c (x_h s)) p s"

section \<open>Calls\<close>

datatype xcall =
    HandleCall hcall
  | CallInitialize "nat option" u32
  | CallExport "nat option" "nat option" Handle ObjectTransferAuthority
  | CallImport "nat option" ObjectTransferRef "nat option" KObjectType u64
  | CallRevoke "nat option" ObjectTransferRef
  | CallClose "nat option"

text \<open>The entry of each operation up to its first critical section.\<close>

definition begin_initialize :: "nat \<Rightarrow> nat option \<Rightarrow> u32 \<Rightarrow> xsys \<Rightarrow> xsys" where
  "begin_initialize i table first_generation s =
    (case ObjectTransferTableInitialize (map_option (\<lambda>x. x_tables s ! x) table) first_generation of
       (status, table') \<Rightarrow> goes_to i (XReturned (XStatus status))
         (case (table, table') of (Some x, Some tb) \<Rightarrow> set_xtable x tb s | _ \<Rightarrow> s))"

definition begin_export ::
    "nat \<Rightarrow> nat option \<Rightarrow> nat option \<Rightarrow> Handle \<Rightarrow> ObjectTransferAuthority \<Rightarrow> xsys \<Rightarrow> string + xsys" where
  "begin_export i table source source_handle authority s =
    (let failure = (\<lambda>status. Inr (goes_to i (XReturned (XExported (ExportFailure status))) s)) in
     case (table, source) of
       (Some x, Some t) \<Rightarrow>
        if source_handle = kHandleInvalid then failure XferInvalidArgument
        else if xt_initialized (x_tables s ! x) \<noteq> 1 then failure XferNotInitialized
        else if \<not> AuthorityValid authority then failure XferInvalidArgument
        else handle_call i (CallLookupRef t source_handle (xa_type authority)
            (kHandleRightTransfer OR kHandleRightDuplicate OR xa_rights authority)) (ExportLookup x authority) s
     | _ \<Rightarrow> failure XferInvalidArgument)"

definition begin_import ::
    "nat \<Rightarrow> nat option \<Rightarrow> ObjectTransferRef \<Rightarrow> nat option \<Rightarrow> KObjectType \<Rightarrow> u64 \<Rightarrow> xsys \<Rightarrow> string + xsys" where
  "begin_import i table reference destination expected_type requested_rights s =
    (let failure = (\<lambda>status. Inr (goes_to i (XReturned (XImported (ImportFailure status ErrOk))) s)) in
     case (table, destination) of
       (Some x, Some t) \<Rightarrow>
        if \<not> RequestedRightsValid expected_type requested_rights then failure XferInvalidArgument
        else if xt_initialized (x_tables s ! x) \<noteq> 1 then failure XferNotInitialized
        else let decoded = DecodeTransferRefNospec reference in
          if \<not> ObjectTransferDecodedRefIsValid decoded then failure XferInvalidReference
          else handle_call i (CallReserve t expected_type requested_rights)
            (ImportReserve \<lparr>im_table = x, im_ref = decoded, im_destination = t, im_type = expected_type,
              im_rights = requested_rights\<rparr>) s
     | _ \<Rightarrow> failure XferInvalidArgument)"

definition begin_revoke :: "nat \<Rightarrow> nat option \<Rightarrow> ObjectTransferRef \<Rightarrow> xsys \<Rightarrow> xsys" where
  "begin_revoke i table reference s =
    (case table of
       None \<Rightarrow> goes_to i (XReturned (XStatus XferInvalidArgument)) s
     | Some x \<Rightarrow>
        if xt_initialized (x_tables s ! x) \<noteq> 1 then goes_to i (XReturned (XStatus XferNotInitialized)) s
        else let decoded = DecodeTransferRefNospec reference in
          if \<not> ObjectTransferDecodedRefIsValid decoded then goes_to i (XReturned (XStatus XferInvalidReference)) s
          else case ObjectTransferRevoke_detach decoded (x_tables s ! x) of
              (Inl status, tb) \<Rightarrow> goes_to i (XReturned (XStatus status)) (set_xtable x tb s)
            | (Inr detached, tb) \<Rightarrow>
               goes_to i (XReleasing (case detached of None \<Rightarrow> [] | Some a \<Rightarrow> [a]) (XFinish (XStatus XferOk)))
                 (set_xtable x tb s))"

definition begin_table_close :: "nat \<Rightarrow> nat option \<Rightarrow> xsys \<Rightarrow> xsys" where
  "begin_table_close i table s =
    (case table of
       None \<Rightarrow> goes_to i (XReturned (XStatus XferInvalidArgument)) s
     | Some x \<Rightarrow>
        if xt_initialized (x_tables s ! x) \<noteq> 1 then goes_to i (XReturned (XStatus XferNotInitialized)) s
        else case ObjectTransferTableClose_detach (x_tables s ! x) of
          (result, detached, tb) \<Rightarrow> goes_to i (XReleasing detached (XFinish (XStatus result))) (set_xtable x tb s))"

primrec enter :: "nat \<Rightarrow> xcall \<Rightarrow> xsys \<Rightarrow> string + xsys" where
  "enter i (HandleCall c) s = client_section i (call c (x_h s)) s"
| "enter i (CallInitialize table g) s = Inr (begin_initialize i table g s)"
| "enter i (CallExport table source h authority) s = begin_export i table source h authority s"
| "enter i (CallImport table reference destination type rights) s =
    begin_import i table reference destination type rights s"
| "enter i (CallRevoke table reference) s = Inr (begin_revoke i table reference s)"
| "enter i (CallClose table) s = Inr (begin_table_close i table s)"

section \<open>The sections that follow\<close>

text \<open>The result of the handle-layer call that the thread has just made.\<close>

definition res_pointer :: "hresult \<Rightarrow> kaddr option" where
  "res_pointer r = (case r of ResPointer p \<Rightarrow> p | _ \<Rightarrow> None)"

definition res_reservation :: "hresult \<Rightarrow> ErrorCode + HandleTableReservation" where
  "res_reservation r = (case r of ResReservation x \<Rightarrow> x | _ \<Rightarrow> Inl ErrUnknown)"

definition res_handle :: "hresult \<Rightarrow> ErrorCode + Handle" where
  "res_handle r = (case r of ResHandle x \<Rightarrow> x | _ \<Rightarrow> Inl ErrUnknown)"

definition res_void :: "hresult \<Rightarrow> ErrorCode + unit" where
  "res_void r = (case r of ResVoid x \<Rightarrow> x | _ \<Rightarrow> Inl ErrUnknown)"

definition reservation_gone :: "ErrorCode + unit \<Rightarrow> bool" where
  "reservation_gone aborted \<longleftrightarrow> aborted = Inr () \<or> aborted = Inl ErrBadState"

primrec abort_result :: "after_abort \<Rightarrow> ErrorCode + unit \<Rightarrow> ObjectTransferImportResult" where
  "abort_result (AbortValidation status) aborted =
    (if reservation_gone aborted then ImportFailure status ErrOk
     else ImportFailure XferCorruptState (case aborted of Inl err \<Rightarrow> err | Inr _ \<Rightarrow> ErrOk))"
| "abort_result (AbortPublish error) aborted =
    (if error = ErrBadState \<and> reservation_gone aborted then ImportFailure XferDestinationRejected error
     else ImportFailure XferCorruptState (case aborted of Inl err \<Rightarrow> err | Inr _ \<Rightarrow> error))"

definition export_install :: "nat \<Rightarrow> nat \<Rightarrow> ObjectTransferAuthority \<Rightarrow> kaddr \<Rightarrow> xsys \<Rightarrow> xsys" where
  "export_install i x authority retained s =
    (case ObjectTransferExport_install retained authority (x_tables s ! x) of
       (status, reference, tb) \<Rightarrow>
        if status = XferOk
        then goes_to i (XReturned (XExported \<lparr>xe_status = status, xe_reference = reference\<rparr>))
          ((set_xtable x tb s)\<lparr>x_exports := (x, reference, retained, authority) # x_exports s\<rparr>)
        else goes_to i (XReleasing [retained] (XFinish (XExported (ExportFailure status)))) (set_xtable x tb s))"

definition import_pin :: "nat \<Rightarrow> import_call \<Rightarrow> HandleTableReservation \<Rightarrow> xsys \<Rightarrow> xsys" where
  "import_pin i c reservation s =
    (case ObjectTransferImport_pin (h_world (x_h s)) (im_ref c) (im_type c) (im_rights c) (x_tables s ! im_table c) of
       (Inl status, tb) \<Rightarrow>
        goes_to i (XReleasing [] (XAbort (im_destination c) reservation (AbortValidation status)))
          (set_xtable (im_table c) tb s)
     | (Inr (object, metadata), tb) \<Rightarrow>
        goes_to i (ImportPinned c reservation object metadata) (set_xtable (im_table c) tb s))"

definition import_unpin ::
    "nat \<Rightarrow> import_call \<Rightarrow> HandleTableReservation \<Rightarrow> kaddr \<Rightarrow> ObjectTransferImmutableMetadata \<Rightarrow> bool \<Rightarrow> xsys \<Rightarrow> xsys" where
  "import_unpin i c reservation object metadata retained s =
    (case ObjectTransferImport_unpin (im_ref c) object (x_tables s ! im_table c) of
       (identity_intact, tb) \<Rightarrow>
        let next = (if \<not> identity_intact
            then XReleasing (if retained then [object] else [])
              (XAbort (im_destination c) reservation (AbortValidation XferCorruptState))
          else if \<not> retained
            then XReleasing [] (XAbort (im_destination c) reservation (AbortValidation XferRetainFailed))
          else ImportUnpinned c reservation object metadata)
        in goes_to i next (set_xtable (im_table c) tb s))"

definition import_done ::
    "import_call \<Rightarrow> HandleTableReservation \<Rightarrow> kaddr \<Rightarrow> ObjectTransferImmutableMetadata \<Rightarrow> ErrorCode + Handle \<Rightarrow> xpc" where
  "import_done c reservation object metadata published =
    (case published of
       Inl error \<Rightarrow> XReleasing [object] (XAbort (im_destination c) reservation (AbortPublish error))
     | Inr h \<Rightarrow> XReturned (XImported \<lparr>xi_status = XferOk, xi_destination_error = ErrOk, xi_handle = h,
         xi_authority = \<lparr>xa_type = im_type c, xa_rights = im_rights c, xa_metadata = metadata\<rparr>\<rparr>))"

primrec then_do :: "nat \<Rightarrow> after_release \<Rightarrow> xsys \<Rightarrow> string + xsys" where
  "then_do i (XFinish r) s = Inr (goes_to i (XReturned r) s)"
| "then_do i (XAbort t reservation k) s = handle_call i (CallAbort t reservation) (XAborting k) s"

primrec xadvance :: "nat \<Rightarrow> hresult \<Rightarrow> xpc \<Rightarrow> xsys \<Rightarrow> string + xsys" where
  "xadvance i r (XReturned res) s = Inr s"
| "xadvance i r (ExportLookup x authority) s =
    (case res_pointer r of
       None \<Rightarrow> Inr (goes_to i (XReturned (XExported (ExportFailure XferSourceRejected))) s)
     | Some retained \<Rightarrow> Inr (export_install i x authority retained s))"
| "xadvance i r (ImportReserve c) s =
    (case res_reservation r of
       Inl error \<Rightarrow> Inr (goes_to i (XReturned (XImported (ImportFailure XferDestinationRejected error))) s)
     | Inr reservation \<Rightarrow> Inr (import_pin i c reservation s))"
| "xadvance i r (ImportPinned c reservation object metadata) s =
    handle_call i (CallKObjectAcquire object) (ImportRetain c reservation object metadata) s"
| "xadvance i r (ImportRetain c reservation object metadata) s =
    Inr (import_unpin i c reservation object metadata (res_pointer r \<noteq> None) s)"
| "xadvance i r (ImportUnpinned c reservation object metadata) s =
    handle_call i (CallPublish (im_destination c) reservation (Some object))
      (ImportPublish c reservation object metadata) s"
| "xadvance i r (ImportPublish c reservation object metadata) s =
    Inr (goes_to i (import_done c reservation object metadata (res_handle r)) s)"
| "xadvance i r (XReleasing objects k) s =
    (case objects of
       a # rest \<Rightarrow> handle_call i (CallKObjectRelease a) (XReleasing rest k) s
     | [] \<Rightarrow> then_do i k s)"
| "xadvance i r (XAborting k) s = Inr (goes_to i (XReturned (XImported (abort_result k (res_void r)))) s)"

section \<open>Interleavings\<close>

definition x_idle :: "xpc \<Rightarrow> bool" where
  "x_idle p \<longleftrightarrow> (case p of XReturned _ \<Rightarrow> True | _ \<Rightarrow> False)"

definition hresult_of :: "pc \<Rightarrow> hresult" where
  "hresult_of p = (case p of Returned r \<Rightarrow> r | _ \<Rightarrow> ResNothing)"

text \<open>The next section of thread \<open>i\<close>: that of its handle-layer call if there is one in progress,
  that of its transfer operation otherwise, the call \<open>c\<close> when the thread is between two calls.\<close>

definition xsection :: "nat \<Rightarrow> xcall \<Rightarrow> xsys \<Rightarrow> string + xsys" where
  "xsection i c s =
    (let hp = h_threads (x_h s) ! i; p = x_threads s ! i in
     if \<not> is_idle hp then
       if x_idle p then client_section i (advance hp (x_h s)) s else transfer_section i (advance hp (x_h s)) p s
     else if x_idle p then enter i c s else xadvance i (hresult_of hp) p s)"

text \<open>The reservation that an import owns between its reserve and its publish or abort.\<close>

primrec abort_ticket :: "after_release \<Rightarrow> (nat \<times> HandleTableReservation) option" where
  "abort_ticket (XFinish r) = None"
| "abort_ticket (XAbort t reservation k) = Some (t, reservation)"

primrec ticket_at :: "pc \<Rightarrow> xpc \<Rightarrow> (nat \<times> HandleTableReservation) option" where
  "ticket_at hp (XReturned r) = None"
| "ticket_at hp (ExportLookup x authority) = None"
| "ticket_at hp (ImportReserve c) =
    (case res_reservation (hresult_of hp) of Inl e \<Rightarrow> None | Inr reservation \<Rightarrow> Some (im_destination c, reservation))"
| "ticket_at hp (ImportPinned c reservation object metadata) = Some (im_destination c, reservation)"
| "ticket_at hp (ImportRetain c reservation object metadata) = Some (im_destination c, reservation)"
| "ticket_at hp (ImportUnpinned c reservation object metadata) = Some (im_destination c, reservation)"
| "ticket_at hp (ImportPublish c reservation object metadata) =
    (case res_handle (hresult_of hp) of Inl e \<Rightarrow> Some (im_destination c, reservation) | Inr h \<Rightarrow> None)"
| "ticket_at hp (XReleasing objects k) = abort_ticket k"
| "ticket_at hp (XAborting k) = None"

definition ticket :: "xpc \<times> pc \<Rightarrow> (nat \<times> HandleTableReservation) option" where
  "ticket pr = ticket_at (snd pr) (fst pr)"

abbreviation x_pairs :: "xsys \<Rightarrow> (xpc \<times> pc) list" where
  "x_pairs s \<equiv> zip (x_threads s) (h_threads (x_h s))"

text \<open>Client code passes references of its own, and publishes or aborts only reservations that it
  obtained itself.\<close>

definition client_ok :: "xsys \<Rightarrow> hcall \<Rightarrow> bool" where
  "client_ok s c \<longleftrightarrow> call_ok ((x_h s)\<lparr>h_held := x_held s\<rparr>) c \<and>
    (call_ticket c = None \<or> call_ticket c \<notin> ticket ` set (x_pairs s))"

definition table_in :: "'a list \<Rightarrow> nat option \<Rightarrow> bool" where
  "table_in tables x \<longleftrightarrow> (case x of None \<Rightarrow> True | Some x \<Rightarrow> x < length tables)"

primrec xcall_ok :: "xsys \<Rightarrow> xcall \<Rightarrow> bool" where
  "xcall_ok s (HandleCall c) \<longleftrightarrow> client_ok s c"
| "xcall_ok s (CallInitialize x g) \<longleftrightarrow> table_in (x_tables s) x"
| "xcall_ok s (CallExport x t h authority) \<longleftrightarrow> table_in (x_tables s) x \<and> table_in (h_tables (x_h s)) t"
| "xcall_ok s (CallImport x reference t type rights) \<longleftrightarrow> table_in (x_tables s) x \<and> table_in (h_tables (x_h s)) t"
| "xcall_ok s (CallRevoke x reference) \<longleftrightarrow> table_in (x_tables s) x"
| "xcall_ok s (CallClose x) \<longleftrightarrow> table_in (x_tables s) x"

definition xenabled :: "nat \<Rightarrow> xcall \<Rightarrow> xsys \<Rightarrow> bool" where
  "xenabled i c s \<longleftrightarrow> i < length (x_threads s) \<and>
    (is_idle (h_threads (x_h s) ! i) \<and> x_idle (x_threads s ! i) \<longrightarrow> xcall_ok s c)"

inductive xstep :: "xsys \<Rightarrow> xsys \<Rightarrow> bool" where
  run_xsection: "xenabled i c s \<Longrightarrow> xsection i c s = Inr s' \<Longrightarrow> xstep s s'"

definition boot_xsys :: "bool \<Rightarrow> nat \<Rightarrow> nat \<Rightarrow> nat \<Rightarrow> xsys" where
  "boot_xsys debug tables endpoints threads =
    \<lparr>x_h = boot_hsys debug tables threads, x_tables = replicate endpoints zero_transfer_table,
     x_threads = replicate threads (XReturned XNothing), x_held = [], x_exports = []\<rparr>"

definition init_xsys :: "xsys \<Rightarrow> bool" where
  "init_xsys s \<longleftrightarrow> (\<exists>debug tables endpoints threads. s = boot_xsys debug tables endpoints threads)"

fun run_xschedule :: "(nat \<times> xcall) list \<Rightarrow> xsys \<Rightarrow> xsys option" where
  "run_xschedule [] s = Some s"
| "run_xschedule ((i, c) # cs) s =
    (if \<not> xenabled i c s then None
     else case xsection i c s of Inl e \<Rightarrow> None | Inr s' \<Rightarrow> run_xschedule cs s')"

lemma run_xschedule_run: "run_xschedule cs s = Some t \<Longrightarrow> xstep\<^sup>*\<^sup>* s t"
proof (induction cs s rule: run_xschedule.induct)
  case (2 i c cs s)
  then obtain s' where "xenabled i c s" "xsection i c s = Inr s'" "run_xschedule cs s' = Some t"
    by (auto split: if_splits sum.splits)
  with 2(1) run_xsection show ?case
    by (metis converse_rtranclp_into_rtranclp)
qed simp

end
