(* ===== verification/ObjectTransferInv.thy ===== *)
theory ObjectTransferInv
  imports ObjectTransferSystem
begin

text \<open>
  What every locked section keeps of an object-transfer table: references and rows correspond,
  rows in use hold one object with its type and rights, pin counts equal the number of imports
  between their two sections, and the operation counter is their sum.
\<close>

section \<open>References\<close>

definition xvalid :: "u32 \<Rightarrow> u32 \<Rightarrow> bool" where
  "xvalid s g \<longleftrightarrow> 0 < unat s \<and> unat s < 32 \<and> 0 < unat g \<and> unat g \<le> 0x1FFFFFF"

lemma xdecoded_valid: "ObjectTransferDecodedRefIsValid d \<longleftrightarrow> xvalid (xd_slot d) (xd_generation d)"
  by (simp add: ObjectTransferDecodedRefIsValid_def xvalid_def kdefs word_less_nat_alt word_le_nat_alt)

lemma ObjectTransferRefEncode_eq: "ObjectTransferRefEncode s g = (if xvalid s g then push_bit 6 g OR s else 0)"
  by (simp add: ObjectTransferRefEncode_def xvalid_def kdefs word_less_nat_alt word_le_nat_alt)

lemma xref_fields:
  assumes "xvalid s g"
  shows "(push_bit 6 g OR s) AND mask 6 = s" and "drop_bit 6 (push_bit 6 g OR s) = g"
    and "unat (push_bit 6 g OR s) = unat g * 64 + unat s"
proof -
  have *: "unat s < 2 ^ 6" "unat g * 2 ^ 6 < 2 ^ 32"
    using assms by (simp_all add: xvalid_def)
  show "(push_bit 6 g OR s) AND mask 6 = s" by (rule packed_low [OF *(1)])
  show "drop_bit 6 (push_bit 6 g OR s) = g" by (rule packed_high [OF *])
  show "unat (push_bit 6 g OR s) = unat g * 64 + unat s" using packed_unat [OF *] by simp
qed

lemma ObjectTransferRefEncode_valid: "ObjectTransferRefEncode s g \<noteq> kObjectTransferRefInvalid \<longleftrightarrow> xvalid s g"
proof
  assume v: "xvalid s g"
  then have "unat (ObjectTransferRefEncode s g) \<noteq> 0"
    using xref_fields(3) [OF v] by (simp add: ObjectTransferRefEncode_eq xvalid_def)
  then show "ObjectTransferRefEncode s g \<noteq> kObjectTransferRefInvalid"
    by (metis unat_0 kObjectTransferRefInvalid_def)
qed (simp add: ObjectTransferRefEncode_eq kdefs split: if_splits)

lemma ObjectTransferRefDecode_eq:
  "ObjectTransferRefDecode r = (let s = r AND mask 6; g = drop_bit 6 r in
     if xvalid s g then \<lparr>xd_slot = s, xd_generation = g\<rparr> else kInvalidObjectTransferDecodedRef)"
proof -
  have split: "unat r = unat (drop_bit 6 r) * 64 + unat (r AND mask 6)"
    using packed_fields [where n = 6 and h = r] by simp
  have "0 < unat r \<and> unat r \<le> 0x7FFFFFFF" if "xvalid (r AND mask 6) (drop_bit 6 r)"
    using that by (subst (1 2) split) (simp add: xvalid_def)
  moreover have "kObjectTransferSlotMask = mask 6"
    by (simp add: kdefs mask_eq_exp_minus_1)
  ultimately show ?thesis
    unfolding ObjectTransferRefDecode_def
    by (auto simp: Let_def xvalid_def kdefs word_less_nat_alt word_le_nat_alt unat_gt_0)
qed

lemma DecodeTransferRefNospec_eq: "DecodeTransferRefNospec r = ObjectTransferRefDecode r"
proof (cases "ObjectTransferDecodedRefIsValid (ObjectTransferRefDecode r)")
  case True
  then show ?thesis
    by (simp add: DecodeTransferRefNospec_def MaskedIndex32_eq ObjectTransferDecodedRefIsValid_def Let_def)
next
  case False
  then have "ObjectTransferRefDecode r = kInvalidObjectTransferDecodedRef"
    by (auto simp: ObjectTransferRefDecode_eq Let_def xdecoded_valid split: if_splits)
  with False show ?thesis by (simp add: DecodeTransferRefNospec_def)
qed

lemma decode_ref_iff:
  "ObjectTransferDecodedRefIsValid d \<and> DecodeTransferRefNospec r = d \<longleftrightarrow>
     xvalid (xd_slot d) (xd_generation d) \<and> r = ObjectTransferRefEncode (xd_slot d) (xd_generation d)"
proof
  assume "ObjectTransferDecodedRefIsValid d \<and> DecodeTransferRefNospec r = d"
  then have d: "xvalid (xd_slot d) (xd_generation d)" "ObjectTransferRefDecode r = d"
    by (simp_all add: xdecoded_valid DecodeTransferRefNospec_eq)
  then have "xd_slot d = r AND mask 6" "xd_generation d = drop_bit 6 r"
    by (auto simp: ObjectTransferRefDecode_eq Let_def kInvalidObjectTransferDecodedRef_def xvalid_def split: if_splits)
  with d packed_split [of 6 r] show "xvalid (xd_slot d) (xd_generation d) \<and>
      r = ObjectTransferRefEncode (xd_slot d) (xd_generation d)"
    by (simp add: ObjectTransferRefEncode_eq)
next
  assume "xvalid (xd_slot d) (xd_generation d) \<and> r = ObjectTransferRefEncode (xd_slot d) (xd_generation d)"
  then have v: "xvalid (xd_slot d) (xd_generation d)" and r: "r = push_bit 6 (xd_generation d) OR xd_slot d"
    by (simp_all add: ObjectTransferRefEncode_eq)
  have "ObjectTransferRefDecode r = d"
    unfolding ObjectTransferRefDecode_eq Let_def r xref_fields(1,2) [OF v] using v by simp
  with v show "ObjectTransferDecodedRefIsValid d \<and> DecodeTransferRefNospec r = d"
    by (simp add: xdecoded_valid DecodeTransferRefNospec_eq)
qed

lemma encode_ref_inj:
  assumes "xvalid s g" and "ObjectTransferRefEncode s g = ObjectTransferRefEncode s' g'"
  shows "s' = s" and "g' = g"
proof -
  have v': "xvalid s' g'"
    using assms ObjectTransferRefEncode_valid by metis
  with assms have "push_bit 6 g OR s = push_bit 6 g' OR s'"
    by (simp add: ObjectTransferRefEncode_eq)
  then show "s' = s" and "g' = g"
    using xref_fields(1,2) [OF assms(1)] xref_fields(1,2) [OF v'] by simp_all
qed

section \<open>What a thread contributes\<close>

primrec pinning :: "xpc \<Rightarrow> import_call option" where
  "pinning (XReturned r) = None"
| "pinning (ExportLookup x authority) = None"
| "pinning (ImportReserve c) = None"
| "pinning (ImportPinned c reservation object metadata) = Some c"
| "pinning (ImportRetain c reservation object metadata) = Some c"
| "pinning (ImportUnpinned c reservation object metadata) = None"
| "pinning (ImportPublish c reservation object metadata) = None"
| "pinning (XReleasing objects k) = None"
| "pinning (XAborting k) = None"

type_synonym xpair = "xpc \<times> pc"

definition xpin_at :: "nat \<Rightarrow> nat \<Rightarrow> xpair \<Rightarrow> nat" where
  "xpin_at x i pr = (case pinning (fst pr) of None \<Rightarrow> 0
     | Some c \<Rightarrow> if im_table c = x \<and> unat (xd_slot (im_ref c)) = i then 1 else 0)"

definition xactive_at :: "nat \<Rightarrow> xpair \<Rightarrow> nat" where
  "xactive_at x pr = (case pinning (fst pr) of None \<Rightarrow> 0 | Some c \<Rightarrow> if im_table c = x then 1 else 0)"

text \<open>The references of the transfer layer: rows, and operations in progress.\<close>

primrec xrefs_of :: "kaddr \<Rightarrow> pc \<Rightarrow> xpc \<Rightarrow> nat" where
  "xrefs_of a hp (XReturned r) = 0"
| "xrefs_of a hp (ExportLookup x authority) = (if res_pointer (hresult_of hp) = Some a then 1 else 0)"
| "xrefs_of a hp (ImportReserve c) = 0"
| "xrefs_of a hp (ImportPinned c reservation object metadata) = 0"
| "xrefs_of a hp (ImportRetain c reservation object metadata) =
    (if res_pointer (hresult_of hp) = Some a then 1 else 0)"
| "xrefs_of a hp (ImportUnpinned c reservation object metadata) = (if object = a then 1 else 0)"
| "xrefs_of a hp (ImportPublish c reservation object metadata) =
    (case res_handle (hresult_of hp) of Inl e \<Rightarrow> if object = a then 1 else 0 | Inr h \<Rightarrow> 0)"
| "xrefs_of a hp (XReleasing objects k) = count_list objects a"
| "xrefs_of a hp (XAborting k) = 0"

definition xrefs_at :: "kaddr \<Rightarrow> xpair \<Rightarrow> nat" where
  "xrefs_at a pr = xrefs_of a (snd pr) (fst pr)"

definition xrows_of :: "kaddr \<Rightarrow> ObjectTransferTable \<Rightarrow> nat" where
  "xrows_of a tb = length (filter (\<lambda>sl. xs_object sl = Some a) (xt_slots tb))"

section \<open>Well-formed tables\<close>

definition xclear :: "ObjectTransferSlot \<Rightarrow> bool" where
  "xclear sl \<longleftrightarrow> xs_object sl = None \<and> xs_rights sl = 0 \<and> xs_acquisition_pins sl = 0 \<and> xs_type sl = KTypeInvalid"

definition xowned :: "kworld \<Rightarrow> ObjectTransferSlot \<Rightarrow> bool" where
  "xowned w sl \<longleftrightarrow> (case xs_object sl of None \<Rightarrow> False | Some a \<Rightarrow> a < length (ko_objs w) \<and> xs_type sl = obj_type w a) \<and>
     xs_type sl \<noteq> KTypeInvalid \<and> xs_rights sl \<noteq> 0 \<and> within (xs_rights sl) (TypeAllowedRights (xs_type sl)) \<and>
     xs_generation sl \<noteq> 0"

lemma xowned_update [simp]:
  "xowned w (sl\<lparr>xs_acquisition_pins := n\<rparr>) = xowned w sl" "xowned w (sl\<lparr>xs_state := st\<rparr>) = xowned w sl"
  by (simp_all add: xowned_def split: option.split)

definition xslot_ok :: "kworld \<Rightarrow> ObjectTransferSlot \<Rightarrow> bool" where
  "xslot_ok w sl \<longleftrightarrow> xs_generation sl \<le> kObjectTransferGenerationMax \<and>
    (case xs_state sl of
       XSlotFree \<Rightarrow> xclear sl \<and> xs_generation sl \<noteq> kObjectTransferGenerationMax
     | XSlotRetired \<Rightarrow> xclear sl
     | XSlotLive \<Rightarrow> xowned w sl
     | XSlotClosing \<Rightarrow> xowned w sl)"

definition state_allows :: "ObjectTransferTableState \<Rightarrow> ObjectTransferSlotState \<Rightarrow> bool" where
  "state_allows ts ss \<longleftrightarrow> (ts = XTableOpen \<or> ss \<noteq> XSlotLive) \<and> (ts = XTableClosed \<longrightarrow> ss \<noteq> XSlotClosing)"

definition xopen_ok :: "kworld \<Rightarrow> nat \<Rightarrow> ObjectTransferTable \<Rightarrow> xpair list \<Rightarrow> bool" where
  "xopen_ok w x tb prs \<longleftrightarrow> xt_initialized tb = 1 \<and> xt_state tb \<noteq> XTableUninitialized \<and>
     length (xt_slots tb) = 32 \<and> unat (xt_next_free_hint tb) < 32 \<and>
     (\<forall>i<32. xslot_ok w (xt_slots tb ! i) \<and> state_allows (xt_state tb) (xs_state (xt_slots tb ! i)) \<and>
       unat (xs_acquisition_pins (xt_slots tb ! i)) = tally (xpin_at x i) prs) \<and>
     xs_state (xt_slots tb ! 0) = XSlotRetired \<and>
     unat (xt_active_operations tb) = tally (xactive_at x) prs"

definition xtable_ok :: "kworld \<Rightarrow> nat \<Rightarrow> ObjectTransferTable \<Rightarrow> xpair list \<Rightarrow> bool" where
  "xtable_ok w x tb prs \<longleftrightarrow> tb = zero_transfer_table \<and> tally (xactive_at x) prs = 0 \<or> xopen_ok w x tb prs"

lemma xopen_okD:
  assumes "xopen_ok w x tb prs"
  shows "length (xt_slots tb) = 32" and "i < 32 \<Longrightarrow> xslot_ok w (xt_slots tb ! i)"
    and "i < 32 \<Longrightarrow> state_allows (xt_state tb) (xs_state (xt_slots tb ! i))"
    and "i < 32 \<Longrightarrow> unat (xs_acquisition_pins (xt_slots tb ! i)) = tally (xpin_at x i) prs"
    and "unat (xt_active_operations tb) = tally (xactive_at x) prs" and "unat (xt_next_free_hint tb) < 32"
    and "xt_initialized tb = 1" and "xt_state tb \<noteq> XTableUninitialized" and "xs_state (xt_slots tb ! 0) = XSlotRetired"
  using assms by (simp_all add: xopen_ok_def)

lemma xtable_initialized: "xtable_ok w x tb prs \<Longrightarrow> xt_initialized tb = 1 \<longleftrightarrow> xopen_ok w x tb prs"
  by (auto simp: xtable_ok_def xopen_ok_def zero_transfer_table_def)

lemma set_xslot_fields [simp]:
  "xt_slots (set_xslot i sl tb) = (xt_slots tb)[unat i := sl]" "xt_state (set_xslot i sl tb) = xt_state tb"
  "xt_next_free_hint (set_xslot i sl tb) = xt_next_free_hint tb"
  "xt_active_operations (set_xslot i sl tb) = xt_active_operations tb"
  "xt_initialized (set_xslot i sl tb) = xt_initialized tb"
  by (simp_all add: set_xslot_def)

text \<open>What a section may change under the other imports: not the identity of a row they pin. Rows
  only advance in their life.\<close>

primrec xrank :: "ObjectTransferSlotState \<Rightarrow> nat" where
  "xrank XSlotLive = 0"
| "xrank XSlotClosing = 1"
| "xrank XSlotFree = 2"
| "xrank XSlotRetired = 2"

definition xrow_down :: "ObjectTransferSlot \<Rightarrow> ObjectTransferSlot \<Rightarrow> bool" where
  "xrow_down sl sl' \<longleftrightarrow> xs_generation sl' = xs_generation sl \<and> xrank (xs_state sl) \<le> xrank (xs_state sl')"

definition xrow_le :: "ObjectTransferSlot \<Rightarrow> ObjectTransferSlot \<Rightarrow> bool" where
  "xrow_le sl sl' \<longleftrightarrow> xs_state sl = XSlotFree \<and> xs_generation sl < xs_generation sl' \<or> xrow_down sl sl'"

lemma xrow_le_down: "xrow_le a b \<Longrightarrow> xrow_down b c \<Longrightarrow> xrow_le a c"
  by (auto simp: xrow_le_def xrow_down_def)

text \<open>A transfer row is reused only when it is free, under a larger generation.\<close>

interpretation transfer_rows: generation_rows xs_generation "\<lambda>sl. xs_state sl \<noteq> XSlotLive" xrow_le
proof
  fix r r'
  assume "xrow_le r r'"
  then show "xs_generation r' = xs_generation r \<and> (xs_state r \<noteq> XSlotLive \<longrightarrow> xs_state r' \<noteq> XSlotLive) \<or>
      xs_state r \<noteq> XSlotLive \<and> xs_generation r < xs_generation r'"
    by (cases "xs_state r") (auto simp: xrow_le_def xrow_down_def)
qed

definition pinned_same :: "ObjectTransferSlot \<Rightarrow> ObjectTransferSlot \<Rightarrow> bool" where
  "pinned_same sl sl' \<longleftrightarrow> xs_generation sl' = xs_generation sl \<and> xs_object sl' = xs_object sl \<and>
     xs_state sl' \<in> {xs_state sl, XSlotClosing}"

definition xstable :: "nat \<Rightarrow> ObjectTransferTable \<Rightarrow> ObjectTransferTable \<Rightarrow> xpair list \<Rightarrow> bool" where
  "xstable x tb tb' prs \<longleftrightarrow> (\<forall>i<32. xrow_le (xt_slots tb ! i) (xt_slots tb' ! i) \<and>
     (0 < tally (xpin_at x i) prs \<longrightarrow> pinned_same (xt_slots tb ! i) (xt_slots tb' ! i)))"

lemma xrow_down_refl [simp]: "xrow_down sl sl"
  by (simp add: xrow_down_def)

lemma xrow_le_refl [simp]: "xrow_le sl sl"
  by (simp add: xrow_le_def)

lemma pinned_same_refl [simp]: "pinned_same sl sl"
  by (simp add: pinned_same_def)

lemma xstable_refl [simp]: "xstable x tb tb prs"
  by (simp add: xstable_def)

text \<open>One row changes.\<close>

lemma xrow_change:
  assumes ok: "xopen_ok w x tb (pr # prs)" and i: "0 < i" "i < 32"
    and tb': "xt_slots tb' = (xt_slots tb)[i := sl]" "xt_state tb' = xt_state tb"
      "xt_initialized tb' = xt_initialized tb" "unat (xt_next_free_hint tb') < 32"
    and sl: "xslot_ok w sl" "state_allows (xt_state tb) (xs_state sl)"
      "unat (xs_acquisition_pins sl) = tally (xpin_at x i) (pr' # prs)"
    and rest: "\<And>k. k \<noteq> i \<Longrightarrow> xpin_at x k pr' = xpin_at x k pr"
    and act: "unat (xt_active_operations tb') = tally (xactive_at x) (pr' # prs)"
    and life: "xrow_le (xt_slots tb ! i) sl"
    and pins: "0 < tally (xpin_at x i) prs \<Longrightarrow> pinned_same (xt_slots tb ! i) sl"
  shows "xopen_ok w x tb' (pr' # prs) \<and> xstable x tb tb' prs \<and>
    (\<forall>a. xrows_of a tb' + (if xs_object (xt_slots tb ! i) = Some a then 1 else 0) =
      xrows_of a tb + (if xs_object sl = Some a then 1 else 0))"
proof (intro conjI allI)
  note len = xopen_okD(1) [OF ok]
  have row: "xslot_ok w (xt_slots tb' ! k) \<and> state_allows (xt_state tb') (xs_state (xt_slots tb' ! k)) \<and>
      unat (xs_acquisition_pins (xt_slots tb' ! k)) = tally (xpin_at x k) (pr' # prs)" if k: "k < 32" for k
  proof (cases "k = i")
    case True
    with sl len i show ?thesis by (simp add: tb')
  next
    case False
    with xopen_okD(2-4) [OF ok k] rest [OF False] show ?thesis by (simp add: tb')
  qed
  have "xs_state (xt_slots tb' ! 0) = XSlotRetired"
    using xopen_okD(9) [OF ok] i by (simp add: tb')
  then show "xopen_ok w x tb' (pr' # prs)"
    unfolding xopen_ok_def using row xopen_okD(7,8) [OF ok] len act tb'(1-4) by simp
  show "xstable x tb tb' prs"
    using life pins len i by (auto simp: xstable_def tb' nth_list_update)
  show "xrows_of a tb' + (if xs_object (xt_slots tb ! i) = Some a then 1 else 0) =
      xrows_of a tb + (if xs_object sl = Some a then 1 else 0)" for a
    unfolding xrows_of_def length_filter_sum tb'(1) using len i by (intro sum_list_map_update) simp
qed

section \<open>Initialization\<close>

lemma initialize_result:
  assumes ok: "xtable_ok w x tb prs" and none: "\<And>i. tally (xpin_at x i) prs \<le> tally (xactive_at x) prs"
  obtains status where "ObjectTransferTableInitialize (Some tb) g = (status, Some tb)" and "status \<noteq> XferCorruptState"
  | tb' where "ObjectTransferTableInitialize (Some tb) g = (XferOk, Some tb')" and "tb = zero_transfer_table"
    and "xopen_ok w x tb' prs" and "xstable x tb tb' prs" and "\<And>a. xrows_of a tb' = 0"
proof (cases "g = 0 \<or> g > kObjectTransferGenerationMax \<or> xt_initialized tb = 1")
  case True
  then have "\<exists>status. ObjectTransferTableInitialize (Some tb) g = (status, Some tb) \<and> status \<noteq> XferCorruptState"
    by (auto simp: ObjectTransferTableInitialize_def)
  with that(1) show thesis by blast
next
  case False
  then have tb: "tb = zero_transfer_table" "tally (xactive_at x) prs = 0"
    using ok by (auto simp: xtable_ok_def xopen_ok_def)
  have canon: "TableIsCanonicalUninitialized tb"
    by (simp add: tb(1) TableIsCanonicalUninitialized_def zero_transfer_table_def zero_transfer_slot_def
      MetadataIsZero_def zero_metadata_def kdefs)
  define slot where "slot = (\<lambda>index :: nat. \<lparr>xs_object = None, xs_metadata = zero_metadata, xs_rights = 0,
      xs_generation = g - 1, xs_acquisition_pins = 0, xs_type = KTypeInvalid,
      xs_state = if index = 0 then XSlotRetired else XSlotFree\<rparr>)"
  define tb' where "tb' = \<lparr>xt_slots = map slot [0..<32], xt_next_free_hint = 0, xt_active_operations = 0,
      xt_initialized = 1, xt_state = XTableOpen\<rparr>"
  have g: "unat (g - 1) < 0x1FFFFFF"
  proof -
    have "0 < unat g" "unat g \<le> 0x1FFFFFF"
      using False by (simp_all add: unat_gt_0 word_less_nat_alt kdefs)
    then show ?thesis using False unat_minus_one [of g] by simp
  qed
  have slots: "xt_slots tb' ! i = slot i" if "i < 32" for i
    using that by (simp add: tb'_def)
  have gen: "g - 1 \<le> kObjectTransferGenerationMax" "g - 1 \<noteq> kObjectTransferGenerationMax"
    using g by (auto simp: word_le_nat_alt kdefs)
  have "xslot_ok w (slot i)" for i
    using gen by (simp add: slot_def xslot_ok_def xclear_def)
  moreover have "tally (xpin_at x i) prs = 0" for i
    using none [of i] tb(2) by simp
  ultimately have "xopen_ok w x tb' prs"
    using slots tb(2) by (simp add: xopen_ok_def state_allows_def) (simp add: slot_def tb'_def)
  moreover have "0 < g - 1" if "g \<noteq> 1"
    using that by (simp add: word_neq_0_conv [symmetric])
  then have "xstable x tb tb' prs"
    using slots none tb
    by (auto simp: xstable_def xrow_le_def xrow_down_def slot_def zero_transfer_table_def zero_transfer_slot_def kdefs)
  moreover have "xrows_of a tb' = 0" for a
    by (simp add: xrows_of_def tb'_def slot_def)
  moreover have "ObjectTransferTableInitialize (Some tb) g = (XferOk, Some tb')"
    using False canon by (simp add: ObjectTransferTableInitialize_def tb'_def slot_def kdefs)
  ultimately show thesis using that(2) tb(1) by blast
qed

section \<open>Export\<close>

definition xfree_at :: "ObjectTransferTable \<Rightarrow> u32 \<Rightarrow> bool" where
  "xfree_at tb i \<longleftrightarrow> 0 < unat i \<and> unat i < 32 \<and> xs_state (xslot_at tb i) = XSlotFree"

definition install_row :: "ObjectTransferTable \<Rightarrow> u32 \<Rightarrow> kaddr \<Rightarrow> ObjectTransferAuthority \<Rightarrow> ObjectTransferTable" where
  "install_row tb i a authority = (let sl = xslot_at tb i in
     (set_xslot i (sl\<lparr>xs_generation := xs_generation sl + 1, xs_object := Some a, xs_metadata := xa_metadata authority,
       xs_rights := xa_rights authority, xs_type := xa_type authority, xs_state := XSlotLive\<rparr>) tb)
       \<lparr>xt_next_free_hint := i\<rparr>)"

lemma xgeneration_succ:
  assumes "g \<le> kObjectTransferGenerationMax" and "g \<noteq> kObjectTransferGenerationMax"
  shows "unat (g + 1) = unat g + 1" and "unat g < 0x1FFFFFF" and "g < g + 1"
proof -
  have "g < kObjectTransferGenerationMax" using assms by simp
  then show lt: "unat g < 0x1FFFFFF" by (simp add: word_less_nat_alt kdefs)
  then show "unat (g + 1) = unat g + 1" by (subst unat_add_lt) simp_all
  then show "g < g + 1" by (simp add: word_less_nat_alt)
qed

lemma xfree_row:
  assumes "xopen_ok w x tb prs" and "xfree_at tb i"
  shows "xclear (xslot_at tb i)" and "xs_generation (xslot_at tb i) \<le> kObjectTransferGenerationMax"
    and "xs_generation (xslot_at tb i) \<noteq> kObjectTransferGenerationMax"
    and "xvalid i (xs_generation (xslot_at tb i) + 1)"
proof -
  show s: "xclear (xslot_at tb i)" "xs_generation (xslot_at tb i) \<le> kObjectTransferGenerationMax"
    "xs_generation (xslot_at tb i) \<noteq> kObjectTransferGenerationMax"
    using xopen_okD(2) [OF assms(1), of "unat i"] assms(2) by (simp_all add: xslot_ok_def xfree_at_def)
  show "xvalid i (xs_generation (xslot_at tb i) + 1)"
    using xgeneration_succ [OF s(2,3)] assms(2) by (simp add: xvalid_def xfree_at_def)
qed

lemma xscan_index_bound:
  assumes "unat start < 32" and "unat step < 32"
  shows "unat (xscan_index start step) = (unat start + unat step) mod 32"
proof -
  have sum: "unat (start + step) = unat start + unat step"
    using assms by (subst unat_add_lt) simp_all
  show ?thesis
  proof (cases "unat start + unat step < 32")
    case True
    then have "\<not> start + step \<ge> 32" using sum by (simp add: word_le_nat_alt)
    with True sum show ?thesis by (simp add: xscan_index_def kdefs)
  next
    case False
    then have ge: "start + step \<ge> 32" using sum by (simp add: word_le_nat_alt)
    then have "unat (start + step - 32) = unat start + unat step - 32"
      using sum by (simp add: unat_sub)
    with False ge assms show ?thesis by (simp add: xscan_index_def kdefs mod_if)
  qed
qed

lemma install_scan_result:
  assumes ok: "xopen_ok w x tb prs" and "unat start < 32" and "\<forall>n\<in>set steps. unat n < 32"
  shows "(\<exists>status. install_scan a authority start steps future tb = (status, kObjectTransferRefInvalid, tb) \<and>
      status \<in> {XferFull, XferIdentityExhausted} \<and> (\<forall>n\<in>set steps. \<not> xfree_at tb (xscan_index start n))) \<or>
    (\<exists>i. xfree_at tb i \<and> install_scan a authority start steps future tb =
      (XferOk, ObjectTransferRefEncode i (xs_generation (xslot_at tb i) + 1), install_row tb i a authority))"
  using assms(3)
proof (induction steps arbitrary: future)
  case (Cons n steps)
  define i where "i = xscan_index start n"
  have i: "unat i < 32"
    using xscan_index_bound [OF assms(2), of n] Cons.prems by (simp add: i_def)
  have zero: "i = 0 \<longleftrightarrow> unat i = 0" by (simp add: unat_eq_zero)
  show ?case
  proof (cases "xfree_at tb i")
    case True
    note row = xfree_row [OF ok True]
    have "ObjectTransferRefEncode i (xs_generation (xslot_at tb i) + 1) \<noteq> kObjectTransferRefInvalid"
      using row(4) ObjectTransferRefEncode_valid by blast
    with True row have "install_scan a authority start (n # steps) future tb =
      (XferOk, ObjectTransferRefEncode i (xs_generation (xslot_at tb i) + 1), install_row tb i a authority)"
      by (simp add: i_def [symmetric] xfree_at_def xclear_def zero Let_def install_row_def)
    with True show ?thesis by blast
  next
    case False
    with i have skip: "i = 0 \<or> xs_state (xslot_at tb i) \<noteq> XSlotFree" by (auto simp: xfree_at_def zero)
    obtain future' where "install_scan a authority start (n # steps) future tb =
        install_scan a authority start steps future' tb"
      using skip by (cases "i = 0"; cases "xs_state (xslot_at tb i) = XSlotRetired")
        (auto simp: i_def [symmetric] Let_def)
    with Cons.IH [of future'] Cons.prems False show ?thesis by (auto simp: i_def)
  qed
qed auto

lemma install_result:
  assumes ok: "xopen_ok w x tb prs"
  obtains status where "ObjectTransferExport_install a authority tb = (status, kObjectTransferRefInvalid, tb)"
    and "status \<noteq> XferOk" and "status \<noteq> XferCorruptState" and "xt_state tb = XTableOpen \<Longrightarrow> \<forall>i. \<not> xfree_at tb i"
  | i where "xt_state tb = XTableOpen" and "xfree_at tb i"
    and "ObjectTransferExport_install a authority tb =
      (XferOk, ObjectTransferRefEncode i (xs_generation (xslot_at tb i) + 1), install_row tb i a authority)"
proof (cases "xt_state tb = XTableOpen")
  case False
  then have "StateFailure (xt_state tb) \<noteq> XferOk \<and> StateFailure (xt_state tb) \<noteq> XferCorruptState"
    by (cases "xt_state tb") simp_all
  with False that(1) show thesis by (simp add: ObjectTransferExport_install_def)
next
  case True
  define start where "start = (xt_next_free_hint tb + 1) mod kObjectTransferTableCapacity"
  have start: "unat start < 32" by (simp add: start_def kdefs unat_mod)
  have steps: "\<forall>n\<in>set xscan_steps. unat n < 32"
    by (auto simp: xscan_steps_def kdefs unat_of_nat_u32)
  have all: "\<exists>n\<in>set xscan_steps. xscan_index start n = i" if i: "unat i < 32" for i
  proof -
    define n where "n = (unat i + 32 - unat start) mod 32"
    have n: "n < 32" by (simp add: n_def)
    have "(unat start + n) mod 32 = unat i"
      using i start by (simp add: n_def mod_add_right_eq)
    then have "unat (xscan_index start (of_nat n)) = unat i"
      using xscan_index_bound [OF start, of "of_nat n"] n by (simp add: unat_of_nat_u32)
    moreover have "of_nat n \<in> set xscan_steps"
      using n by (simp add: xscan_steps_def kdefs)
    ultimately show ?thesis by (auto simp: word_unat_eq_iff)
  qed
  have eq: "ObjectTransferExport_install a authority tb = install_scan a authority start xscan_steps False tb"
    using True by (simp add: ObjectTransferExport_install_def start_def)
  from install_scan_result [OF ok start steps, of a authority False] show thesis
  proof (elim disjE exE conjE)
    fix status
    assume r: "install_scan a authority start xscan_steps False tb = (status, kObjectTransferRefInvalid, tb)"
      "status \<in> {XferFull, XferIdentityExhausted}" "\<forall>n\<in>set xscan_steps. \<not> xfree_at tb (xscan_index start n)"
    have "\<not> xfree_at tb i" for i
    proof
      assume free: "xfree_at tb i"
      then obtain n where "n \<in> set xscan_steps" "xscan_index start n = i"
        using all [of i] by (auto simp: xfree_at_def)
      with r(3) free show False by blast
    qed
    with r that(1) eq show thesis by auto
  next
    fix i
    assume "xfree_at tb i" "install_scan a authority start xscan_steps False tb =
      (XferOk, ObjectTransferRefEncode i (xs_generation (xslot_at tb i) + 1), install_row tb i a authority)"
    with that(2) eq True show thesis by simp
  qed
qed

lemma install_row_ok:
  assumes ok: "xopen_ok w x tb (pr # prs)" and idle: "pinning (fst pr) = None" "pinning (fst pr') = None"
    and open': "xt_state tb = XTableOpen" and free: "xfree_at tb i"
    and auth: "AuthorityValid authority" and a: "a < length (ko_objs w)" "obj_type w a = xa_type authority"
  shows "xopen_ok w x (install_row tb i a authority) (pr' # prs)" and "xstable x tb (install_row tb i a authority) prs"
    and "xrows_of b (install_row tb i a authority) = xrows_of b tb + (if a = b then 1 else 0)"
proof -
  define sl where "sl = xslot_at tb i"
  define sl' where "sl' = sl\<lparr>xs_generation := xs_generation sl + 1, xs_object := Some a,
    xs_metadata := xa_metadata authority, xs_rights := xa_rights authority, xs_type := xa_type authority,
    xs_state := XSlotLive\<rparr>"
  define tb' where "tb' = install_row tb i a authority"
  have tb': "xt_slots tb' = (xt_slots tb)[unat i := sl']" "xt_state tb' = xt_state tb"
    "xt_initialized tb' = xt_initialized tb" "xt_next_free_hint tb' = i"
    "xt_active_operations tb' = xt_active_operations tb"
    by (simp_all add: tb'_def install_row_def Let_def sl'_def sl_def)
  note row = xfree_row [OF ok free, folded sl_def]
  have i: "0 < unat i" "unat i < 32" using free by (simp_all add: xfree_at_def)
  note succ = xgeneration_succ [OF row(2,3)]
  have zero: "xpin_at x k pr = 0" "xpin_at x k pr' = 0" "xactive_at x pr = 0" "xactive_at x pr' = 0" for k
    using idle by (simp_all add: xpin_at_def xactive_at_def)
  have pins: "tally (xpin_at x (unat i)) prs = 0" "unat (xs_acquisition_pins sl') = 0"
    using xopen_okD(4) [OF ok i(2)] row(1) by (simp_all add: xclear_def sl_def sl'_def zero)
  have "xslot_ok w sl'"
    using auth a succ row(2)
    by (auto simp: xslot_ok_def xowned_def sl'_def AuthorityValid_def exceeds_iff word_le_nat_alt kdefs split: if_splits)
  then have *: "xopen_ok w x tb' (pr' # prs) \<and> xstable x tb tb' prs \<and>
    (\<forall>b. xrows_of b tb' + (if xs_object (xt_slots tb ! unat i) = Some b then 1 else 0) =
      xrows_of b tb + (if xs_object sl' = Some b then 1 else 0))"
    using xopen_okD(5) [OF ok] pins zero i succ(3) open' free
    by (intro xrow_change [OF ok i tb'(1-3)])
      (simp_all add: tb' state_allows_def xrow_le_def xfree_at_def sl'_def sl_def)
  then show "xopen_ok w x (install_row tb i a authority) (pr' # prs)" "xstable x tb (install_row tb i a authority) prs"
    by (simp_all add: tb'_def)
  show "xrows_of b (install_row tb i a authority) = xrows_of b tb + (if a = b then 1 else 0)"
    using * row(1) by (simp add: tb'_def xclear_def sl_def sl'_def)
qed

section \<open>Import\<close>

definition xpin_row :: "ObjectTransferTable \<Rightarrow> ObjectTransferDecodedRef \<Rightarrow> ObjectTransferTable" where
  "xpin_row tb d = (let sl = xslot_at tb (xd_slot d) in
     (set_xslot (xd_slot d) (sl\<lparr>xs_acquisition_pins := xs_acquisition_pins sl + 1\<rparr>) tb)
       \<lparr>xt_active_operations := xt_active_operations tb + 1\<rparr>)"

definition xpin_guard :: "kworld \<Rightarrow> KObjectType \<Rightarrow> u64 \<Rightarrow> ObjectTransferTable \<Rightarrow> ObjectTransferDecodedRef \<Rightarrow> bool" where
  "xpin_guard w ty req tb d \<longleftrightarrow> (let sl = xslot_at tb (xd_slot d) in
     xt_state tb = XTableOpen \<and> TransferSlotMatches sl (xd_generation d) \<and> xs_type sl = ty \<and>
     obj_type w (the (xs_object sl)) = ty \<and> within req (xs_rights sl) \<and>
     xs_acquisition_pins sl \<noteq> 0xFFFFFFFF \<and> xt_active_operations tb \<noteq> 0xFFFFFFFF)"

lemma StateFailure_not_corrupt: "ts \<noteq> XTableOpen \<Longrightarrow> StateFailure ts \<noteq> XferCorruptState \<and> StateFailure ts \<noteq> XferOk"
  by (cases ts) simp_all

lemma ReferenceFailure_not_corrupt: "ReferenceFailure sl g \<noteq> XferCorruptState \<and> ReferenceFailure sl g \<noteq> XferOk"
  by (simp add: ReferenceFailure_def)

lemma import_pin_result:
  obtains status where "ObjectTransferImport_pin w d ty req tb = (Inl status, tb)" and "status \<noteq> XferCorruptState"
    and "status \<noteq> XferOk" and "\<not> xpin_guard w ty req tb d"
  | "xpin_guard w ty req tb d" and "ObjectTransferImport_pin w d ty req tb =
      (Inr (the (xs_object (xslot_at tb (xd_slot d))), xs_metadata (xslot_at tb (xd_slot d))), xpin_row tb d)"
proof (cases "xpin_guard w ty req tb d")
  case True
  with that(2) show thesis
    by (simp add: ObjectTransferImport_pin_def xpin_guard_def Let_def exceeds_iff xpin_row_def)
next
  case False
  then have "\<exists>status. ObjectTransferImport_pin w d ty req tb = (Inl status, tb) \<and> status \<noteq> XferCorruptState \<and> status \<noteq> XferOk"
    using StateFailure_not_corrupt [of "xt_state tb"] ReferenceFailure_not_corrupt
    by (auto simp: ObjectTransferImport_pin_def xpin_guard_def Let_def exceeds_iff)
  with that(1) False show thesis by blast
qed

lemma u32_succ: "(n :: u32) \<noteq> 0xFFFFFFFF \<Longrightarrow> unat (n + 1) = unat n + 1"
proof -
  assume "n \<noteq> 0xFFFFFFFF"
  then have "unat n \<noteq> 0xFFFFFFFF" by (simp add: word_unat_eq_iff)
  then have "unat n + 1 < 2 ^ 32" using unsigned_less [of n, where ?'a = nat] by simp
  then show ?thesis by (subst unat_add_lt) simp_all
qed

lemma xpin_at_simps [simp]:
  "pinning (fst pr) = None \<Longrightarrow> xpin_at x i pr = 0" "pinning (fst pr) = None \<Longrightarrow> xactive_at x pr = 0"
  "pinning (fst pr) = Some c \<Longrightarrow> xpin_at x i pr = (if im_table c = x \<and> unat (xd_slot (im_ref c)) = i then 1 else 0)"
  "pinning (fst pr) = Some c \<Longrightarrow> xactive_at x pr = (if im_table c = x then 1 else 0)"
  by (simp_all add: xpin_at_def xactive_at_def)

lemma xpin_row_ok:
  assumes ok: "xopen_ok w (im_table c) tb (pr # prs)" and pr: "pinning (fst pr) = None" "pinning (fst pr') = Some c"
    and d: "ObjectTransferDecodedRefIsValid (im_ref c)" and guard: "xpin_guard w ty req tb (im_ref c)"
  shows "xopen_ok w (im_table c) (xpin_row tb (im_ref c)) (pr' # prs)"
    and "xstable (im_table c) tb (xpin_row tb (im_ref c)) prs" and "xrows_of a (xpin_row tb (im_ref c)) = xrows_of a tb"
proof -
  define i where "i = unat (xd_slot (im_ref c))"
  define sl where "sl = xt_slots tb ! i"
  define sl' where "sl' = sl\<lparr>xs_acquisition_pins := xs_acquisition_pins sl + 1\<rparr>"
  define tb' where "tb' = xpin_row tb (im_ref c)"
  have i: "0 < i" "i < 32" using d by (simp_all add: xdecoded_valid xvalid_def i_def)
  have tb': "xt_slots tb' = (xt_slots tb)[i := sl']" "xt_state tb' = xt_state tb"
    "xt_initialized tb' = xt_initialized tb" "xt_next_free_hint tb' = xt_next_free_hint tb"
    "xt_active_operations tb' = xt_active_operations tb + 1"
    by (simp_all add: tb'_def xpin_row_def Let_def sl'_def sl_def i_def)
  have g: "xs_state sl = XSlotLive" "xt_state tb = XTableOpen" "xs_acquisition_pins sl \<noteq> 0xFFFFFFFF"
    "xt_active_operations tb \<noteq> 0xFFFFFFFF"
    using guard by (simp_all add: xpin_guard_def TransferSlotMatches_def Let_def sl_def i_def)
  have sl: "xslot_ok w sl" "unat (xs_acquisition_pins sl) = tally (xpin_at (im_table c) i) prs"
    using xopen_okD(2,4) [OF ok i(2)] pr by (simp_all add: sl_def)
  have "xslot_ok w sl'" using sl(1) g(1) by (simp add: xslot_ok_def sl'_def)
  then have "xopen_ok w (im_table c) tb' (pr' # prs) \<and> xstable (im_table c) tb tb' prs \<and>
    (\<forall>a. xrows_of a tb' + (if xs_object (xt_slots tb ! i) = Some a then 1 else 0) =
      xrows_of a tb + (if xs_object sl' = Some a then 1 else 0))"
    using xopen_okD(5,6) [OF ok] pr sl(2) u32_succ [OF g(3)] u32_succ [OF g(4)] g(1,2)
    by (intro xrow_change [OF ok i tb'(1-3)])
      (simp_all add: tb' state_allows_def xrow_le_def xrow_down_def pinned_same_def sl'_def i_def [symmetric] sl_def)
  then show "xopen_ok w (im_table c) (xpin_row tb (im_ref c)) (pr' # prs)"
    "xstable (im_table c) tb (xpin_row tb (im_ref c)) prs" "xrows_of a (xpin_row tb (im_ref c)) = xrows_of a tb"
    by (simp_all add: tb'_def sl'_def sl_def)
qed

definition xpinned :: "ObjectTransferTable \<Rightarrow> ObjectTransferDecodedRef \<Rightarrow> kaddr \<Rightarrow> bool" where
  "xpinned tb d a \<longleftrightarrow> (let sl = xslot_at tb (xd_slot d) in xs_generation sl = xd_generation d \<and> xs_object sl = Some a \<and>
     (xs_state sl = XSlotLive \<or> xs_state sl = XSlotClosing))"

lemma import_unpin_ok:
  assumes ok: "xopen_ok w (im_table c) tb (pr # prs)" and pr: "pinning (fst pr) = Some c" "pinning (fst pr') = None"
    and d: "ObjectTransferDecodedRefIsValid (im_ref c)" and pin: "xpinned tb (im_ref c) a"
  obtains tb' where "ObjectTransferImport_unpin (im_ref c) a tb = (True, tb')"
    and "xopen_ok w (im_table c) tb' (pr' # prs)" and "xstable (im_table c) tb tb' prs"
    and "\<And>b. xrows_of b tb' = xrows_of b tb"
proof -
  define i where "i = unat (xd_slot (im_ref c))"
  define sl where "sl = xt_slots tb ! i"
  define sl' where "sl' = sl\<lparr>xs_acquisition_pins := xs_acquisition_pins sl - 1\<rparr>"
  define tb' where "tb' = (set_xslot (xd_slot (im_ref c)) sl' tb)\<lparr>xt_active_operations := xt_active_operations tb - 1\<rparr>"
  have i: "0 < i" "i < 32" using d by (simp_all add: xdecoded_valid xvalid_def i_def)
  have tb': "xt_slots tb' = (xt_slots tb)[i := sl']" "xt_state tb' = xt_state tb"
    "xt_initialized tb' = xt_initialized tb" "xt_next_free_hint tb' = xt_next_free_hint tb"
    "xt_active_operations tb' = xt_active_operations tb - 1"
    by (simp_all add: tb'_def i_def)
  have sl: "xslot_ok w sl" "unat (xs_acquisition_pins sl) = Suc (tally (xpin_at (im_table c) i) prs)"
    "state_allows (xt_state tb) (xs_state sl)"
    using xopen_okD(2-4) [OF ok i(2)] pr by (simp_all add: sl_def i_def)
  have act: "unat (xt_active_operations tb) = Suc (tally (xactive_at (im_table c)) prs)"
    using xopen_okD(5) [OF ok] pr by simp
  note pred = u32_pos_pred [OF sl(2)] u32_pos_pred [OF act]
  have ident: "xs_generation sl = xd_generation (im_ref c)" "xs_object sl = Some a"
    "xs_state sl = XSlotLive \<or> xs_state sl = XSlotClosing"
    using pin by (simp_all add: xpinned_def Let_def sl_def i_def)
  have "xslot_ok w sl'" using sl(1) ident(3) by (auto simp: xslot_ok_def sl'_def)
  then have "xopen_ok w (im_table c) tb' (pr' # prs) \<and> xstable (im_table c) tb tb' prs \<and>
    (\<forall>b. xrows_of b tb' + (if xs_object (xt_slots tb ! i) = Some b then 1 else 0) =
      xrows_of b tb + (if xs_object sl' = Some b then 1 else 0))"
    using xopen_okD(6) [OF ok] pr pred sl(3)
    by (intro xrow_change [OF ok i tb'(1-3)])
      (auto simp: tb' xrow_le_def xrow_down_def pinned_same_def sl'_def i_def [symmetric] sl_def)
  then have "xopen_ok w (im_table c) tb' (pr' # prs)" "xstable (im_table c) tb tb' prs" "xrows_of b tb' = xrows_of b tb" for b
    by (auto simp: sl'_def sl_def)
  moreover have "ObjectTransferImport_unpin (im_ref c) a tb = (True, tb')"
    using ident pred by (simp add: ObjectTransferImport_unpin_def Let_def i_def [symmetric] sl_def [symmetric] tb'_def sl'_def)
  ultimately show thesis using that by blast
qed

section \<open>Revoke\<close>

lemma ClearSlot_ok:
  assumes "xslot_ok w sl"
  shows "xslot_ok w (ClearSlot sl)" and "state_allows ts (xs_state (ClearSlot sl))" and "xrow_down sl (ClearSlot sl)"
proof -
  have "xrank (xs_state sl) \<le> 2" by (cases "xs_state sl") simp_all
  then show "xrow_down sl (ClearSlot sl)"
    by (simp add: ClearSlot_def xrow_down_def TransferClosedStateFor_def)
qed (use assms in \<open>simp_all add: ClearSlot_def xslot_ok_def xclear_def TransferClosedStateFor_def state_allows_def\<close>)

definition closable :: "ObjectTransferTable \<Rightarrow> ObjectTransferDecodedRef \<Rightarrow> bool" where
  "closable tb d \<longleftrightarrow> (let sl = xslot_at tb (xd_slot d) in xt_state tb = XTableOpen \<and>
     xs_generation sl = xd_generation d \<and> (xs_state sl = XSlotLive \<or> xs_state sl = XSlotClosing))"

lemma owned_object:
  assumes "xslot_ok w sl" and "xs_state sl = XSlotLive \<or> xs_state sl = XSlotClosing"
  obtains a where "xs_object sl = Some a" and "a < length (ko_objs w)" and "obj_type w a = xs_type sl"
    and "xs_type sl \<noteq> KTypeInvalid"
  using assms by (auto simp: xslot_ok_def xowned_def split: option.splits)

lemma revoke_result:
  assumes ok: "xopen_ok w x tb (pr # prs)" and pr: "pinning (fst pr) = None" "pinning (fst pr') = None"
    and d: "ObjectTransferDecodedRefIsValid d"
  defines "sl \<equiv> xslot_at tb (xd_slot d)"
  obtains status where "\<not> closable tb d" and "ObjectTransferRevoke_detach d tb = (Inl status, tb)"
    and "status \<noteq> XferCorruptState" and "status \<noteq> XferOk"
  | tb' where "closable tb d" and "xs_acquisition_pins sl \<noteq> 0" and "ObjectTransferRevoke_detach d tb = (Inl XferBusy, tb')"
    and "xopen_ok w x tb' (pr' # prs)" and "xstable x tb tb' prs" and "\<And>b. xrows_of b tb' = xrows_of b tb"
    and "xs_state (xslot_at tb' (xd_slot d)) = XSlotClosing"
  | a tb' where "closable tb d" and "xs_acquisition_pins sl = 0" and "xs_object sl = Some a"
    and "ObjectTransferRevoke_detach d tb = (Inr (Some a), tb')"
    and "xopen_ok w x tb' (pr' # prs)" and "xstable x tb tb' prs"
    and "\<And>b. xrows_of b tb' + (if a = b then 1 else 0) = xrows_of b tb"
    and "xs_object (xslot_at tb' (xd_slot d)) = None" and "a < length (ko_objs w)"
proof -
  define i where "i = unat (xd_slot d)"
  have i: "0 < i" "i < 32" using d by (simp_all add: xdecoded_valid xvalid_def i_def)
  have sl: "xslot_ok w sl" "unat (xs_acquisition_pins sl) = tally (xpin_at x i) prs" "sl = xt_slots tb ! i"
    using xopen_okD(2,4) [OF ok i(2)] pr by (simp_all add: sl_def i_def)
  define closing where "closing = sl\<lparr>xs_state := XSlotClosing\<rparr>"
  have change: "xopen_ok w x (set_xslot (xd_slot d) sl' tb) (pr' # prs) \<and> xstable x tb (set_xslot (xd_slot d) sl' tb) prs \<and>
      (\<forall>b. xrows_of b (set_xslot (xd_slot d) sl' tb) + (if xs_object sl = Some b then 1 else 0) =
        xrows_of b tb + (if xs_object sl' = Some b then 1 else 0)) \<and> xslot_at (set_xslot (xd_slot d) sl' tb) (xd_slot d) = sl'"
    if "xslot_ok w sl'" "state_allows (xt_state tb) (xs_state sl')" "xs_acquisition_pins sl' = xs_acquisition_pins sl"
      "xrow_le sl sl'" "xs_acquisition_pins sl \<noteq> 0 \<longrightarrow> pinned_same sl sl'" for sl'
  proof -
    let ?tb = "set_xslot (xd_slot d) sl' tb"
    have tb': "xt_slots ?tb = (xt_slots tb)[i := sl']" "xt_state ?tb = xt_state tb"
      "xt_initialized ?tb = xt_initialized tb" by (simp_all add: i_def)
    have "xopen_ok w x ?tb (pr' # prs) \<and> xstable x tb ?tb prs \<and>
      (\<forall>b. xrows_of b ?tb + (if xs_object (xt_slots tb ! i) = Some b then 1 else 0) =
        xrows_of b tb + (if xs_object sl' = Some b then 1 else 0))"
      by (rule xrow_change [OF ok i tb', where pr' = pr'])
        (use that xopen_okD(5,6) [OF ok] pr sl in \<open>auto simp: unat_gt_0\<close>)
    then show ?thesis
      using sl(3) xopen_okD(1) [OF ok] i by (simp add: i_def)
  qed
  show thesis
  proof (cases "closable tb d")
    case False
    then have "\<exists>status. ObjectTransferRevoke_detach d tb = (Inl status, tb) \<and> status \<noteq> XferCorruptState \<and> status \<noteq> XferOk"
      using StateFailure_not_corrupt [of "xt_state tb"] ReferenceFailure_not_corrupt
      by (auto simp: ObjectTransferRevoke_detach_def closable_def Let_def TransferSlotMatches_def)
    with that(1) False show thesis by blast
  next
    case True
    then have st: "xt_state tb = XTableOpen" "xs_generation sl = xd_generation d"
      "xs_state sl = XSlotLive \<or> xs_state sl = XSlotClosing"
      by (simp_all add: closable_def Let_def sl_def)
    obtain a where a: "xs_object sl = Some a" "a < length (ko_objs w)" by (rule owned_object [OF sl(1) st(3)])
    have closing: "xslot_ok w closing" "xrow_le sl closing" "pinned_same sl closing"
      using sl(1) st(3) by (auto simp: closing_def xslot_ok_def xrow_le_def xrow_down_def pinned_same_def)
    have def: "ObjectTransferRevoke_detach d tb = (if xs_acquisition_pins sl \<noteq> 0
        then (Inl XferBusy, set_xslot (xd_slot d) closing tb)
        else (Inr (Some a), set_xslot (xd_slot d) (ClearSlot closing) tb))"
    proof (cases "xs_state sl = XSlotClosing")
      case True
      then have "closing = sl" by (simp add: closing_def)
      with True a st show ?thesis
        by (simp add: ObjectTransferRevoke_detach_def Let_def sl_def [symmetric])
    next
      case False
      with a st show ?thesis
        by (simp add: ObjectTransferRevoke_detach_def Let_def sl_def [symmetric] TransferSlotMatches_def closing_def)
    qed
    show thesis
    proof (cases "xs_acquisition_pins sl = 0")
      case pinless: True
      have clear: "xs_object (ClearSlot closing) = None" "xs_acquisition_pins (ClearSlot closing) = 0"
        by (simp_all add: ClearSlot_def)
      have le: "xrow_le sl (ClearSlot closing)"
        by (rule xrow_le_down [OF closing(2) ClearSlot_ok(3) [OF closing(1)]])
      note ch = change [OF ClearSlot_ok(1,2) [OF closing(1)] _ le]
      show thesis
        using that(3) [OF True pinless a(1) _ _ _ _ _ a(2)] ch def clear pinless a(1) by simp
    next
      case pins: False
      have "state_allows (xt_state tb) (xs_state closing)" "xs_acquisition_pins closing = xs_acquisition_pins sl"
        "xs_object closing = xs_object sl"
        using st(1) by (simp_all add: closing_def state_allows_def)
      note ch = change [OF closing(1) this(1,2) closing(2)] and obj = this(3)
      show thesis
        using that(2) [OF True pins] ch def pins closing(3) obj by (simp add: closing_def)
    qed
  qed
qed

section \<open>Close\<close>

lemma observe_pins_sum:
  "unat n + sum_list (map (\<lambda>sl. unat (xs_acquisition_pins sl)) slots) < 2 ^ 32 \<Longrightarrow>
    \<exists>m. observe_pins slots n = Some m \<and> unat m = unat n + sum_list (map (\<lambda>sl. unat (xs_acquisition_pins sl)) slots)"
proof (induction slots arbitrary: n)
  case (Cons sl slots)
  let ?p = "xs_acquisition_pins sl"
  have lt: "unat n + unat ?p < 2 ^ 32" using Cons.prems by simp
  then have add: "unat (n + ?p) = unat n + unat ?p"
    by (subst unat_add_lt) simp_all
  have "unat (0xFFFFFFFF - n) = 0xFFFFFFFF - unat n"
    by (subst unat_sub) (simp_all add: word_le_nat_alt, use unsigned_less [of n, where ?'a = nat] in simp)
  then have "\<not> ?p > 0xFFFFFFFF - n"
    using lt by (simp add: word_less_nat_alt)
  with Cons.IH [of "n + ?p"] Cons.prems add show ?case by (simp add: add.assoc)
qed simp

lemma tally_sum: "sum_list (map (\<lambda>i. tally (f i) ps) is') = tally (\<lambda>p. sum_list (map (\<lambda>i. f i p) is')) ps"
  by (induction ps) (simp_all add: sum_list_addf)

lemma tally_cong: "(\<And>p. p \<in> set ps \<Longrightarrow> f p = g p) \<Longrightarrow> tally f ps = tally g ps"
  by (simp add: tally_def cong: map_cong)

definition pins_valid :: "xpair list \<Rightarrow> bool" where
  "pins_valid prs \<longleftrightarrow> (\<forall>q\<in>set prs. \<forall>c. pinning (fst q) = Some c \<longrightarrow> ObjectTransferDecodedRefIsValid (im_ref c))"

lemma pins_total:
  assumes "pins_valid prs"
  shows "sum_list (map (\<lambda>i. tally (xpin_at x i) prs) [0..<32]) = tally (xactive_at x) prs"
  unfolding tally_sum
proof (rule tally_cong)
  fix q assume q: "q \<in> set prs"
  show "sum_list (map (\<lambda>i. xpin_at x i q) [0..<32]) = xactive_at x q"
  proof (cases "pinning (fst q)")
    case None
    then show ?thesis by (simp add: xpin_at_def xactive_at_def)
  next
    case (Some c)
    then have "unat (xd_slot (im_ref c)) < 32"
      using assms q by (auto simp: pins_valid_def xdecoded_valid xvalid_def)
    then show ?thesis
      using Some by (simp add: interv_sum_list_conv_sum_set_nat)
  qed
qed

lemma pin_le_active: "tally (xpin_at x i) prs \<le> tally (xactive_at x) prs"
  by (rule tally_mono) (auto simp: xpin_at_def xactive_at_def split: option.split)

lemma slots_pins:
  assumes ok: "xopen_ok w x tb prs" and valid: "pins_valid prs"
  shows "observe_pins (xt_slots tb) 0 = Some (xt_active_operations tb)"
proof -
  have "map (\<lambda>sl. unat (xs_acquisition_pins sl)) (xt_slots tb) = map (\<lambda>i. tally (xpin_at x i) prs) [0..<32]"
    using xopen_okD(1,4) [OF ok] by (intro nth_equalityI) simp_all
  then have sum: "sum_list (map (\<lambda>sl. unat (xs_acquisition_pins sl)) (xt_slots tb)) = unat (xt_active_operations tb)"
    using pins_total [OF valid, of x] xopen_okD(5) [OF ok] by simp
  then have "unat (0 :: u32) + sum_list (map (\<lambda>sl. unat (xs_acquisition_pins sl)) (xt_slots tb)) < 2 ^ 32"
    using unsigned_less [of "xt_active_operations tb", where ?'a = nat] by simp
  from observe_pins_sum [OF this] sum show ?thesis
    by (auto simp: word_unat_eq_iff)
qed

lemma close_live_row:
  assumes "xslot_ok w sl"
  shows "xslot_ok w (close_live sl)" and "xrow_le sl (close_live sl)" and "pinned_same sl (close_live sl)"
    and "xs_object (close_live sl) = xs_object sl" and "xs_acquisition_pins (close_live sl) = xs_acquisition_pins sl"
    and "xs_state (close_live sl) \<noteq> XSlotLive"
  using assms by (auto simp: close_live_def xslot_ok_def xrow_le_def xrow_down_def pinned_same_def)

lemma close_begin_ok:
  assumes ok: "xopen_ok w x tb (pr # prs)" and pr: "pinning (fst pr) = None" "pinning (fst pr') = None"
    and st: "xt_state tb \<noteq> XTableClosed"
  shows "xopen_ok w x (close_begin tb) (pr' # prs)" and "xt_state (close_begin tb) = XTableDraining"
    and "xstable x tb (close_begin tb) prs" and "xrows_of a (close_begin tb) = xrows_of a tb"
    and "xt_active_operations (close_begin tb) = xt_active_operations tb"
proof -
  have same: "xopen_ok w x tb (pr' # prs)"
    using ok pr by (simp add: xopen_ok_def)
  have "xopen_ok w x (close_begin tb) (pr' # prs) \<and> xt_state (close_begin tb) = XTableDraining \<and>
    xstable x tb (close_begin tb) prs \<and> xrows_of a (close_begin tb) = xrows_of a tb \<and>
    xt_active_operations (close_begin tb) = xt_active_operations tb"
  proof (cases "xt_state tb = XTableOpen")
    case False
    with st xopen_okD(8) [OF ok] have "close_begin tb = tb" "xt_state tb = XTableDraining"
      by (cases "xt_state tb"; simp add: close_begin_def)+
    with same show ?thesis by simp
  next
    case True
    have zero: "close_live (hd (xt_slots tb)) = hd (xt_slots tb)"
      using xopen_okD(1,9) [OF ok] by (cases "xt_slots tb") (simp_all add: close_live_def)
    then have "hd (xt_slots tb) # map close_live (tl (xt_slots tb)) = map close_live (xt_slots tb)"
      using xopen_okD(1) [OF ok] by (cases "xt_slots tb") simp_all
    with True have tb': "close_begin tb = tb\<lparr>xt_state := XTableDraining, xt_slots := map close_live (xt_slots tb)\<rparr>"
      by (simp add: close_begin_def)
    note row = close_live_row [OF xopen_okD(2) [OF ok]]
    have "xs_object (close_live sl) = xs_object sl" for sl
      by (simp add: close_live_def)
    then have "xrows_of a (close_begin tb) = xrows_of a tb"
      by (simp add: tb' xrows_of_def filter_map o_def)
    moreover have "xs_state (close_live (xt_slots tb ! 0)) = XSlotRetired"
      using xopen_okD(9) [OF ok] by (simp add: close_live_def)
    ultimately show ?thesis
      using same row xopen_okD(1) [OF ok] by (simp add: tb' xopen_ok_def xstable_def state_allows_def)
  qed
  then show "xopen_ok w x (close_begin tb) (pr' # prs)" "xt_state (close_begin tb) = XTableDraining"
    "xstable x tb (close_begin tb) prs" "xrows_of a (close_begin tb) = xrows_of a tb"
    "xt_active_operations (close_begin tb) = xt_active_operations tb" by simp_all
qed

text \<open>The loop that detaches the rows: \<open>is'\<close> are the rows still to visit.\<close>

definition detached_slot :: "ObjectTransferSlot \<Rightarrow> ObjectTransferSlot" where
  "detached_slot sl = (if xs_object sl = None then sl else ClearSlot sl)"

definition closing_row :: "ObjectTransferSlot \<Rightarrow> bool" where
  "closing_row sl \<longleftrightarrow> (if xs_object sl = None then xs_state sl = XSlotFree \<or> xs_state sl = XSlotRetired
     else xs_state sl = XSlotClosing)"

definition detached ::
    "kaddr list \<Rightarrow> ObjectTransferTable \<Rightarrow> nat list \<Rightarrow> kaddr list \<Rightarrow> ObjectTransferTable \<Rightarrow> bool" where
  "detached ds0 tb is' ds tb' \<longleftrightarrow>
     foldl close_row_detach (XferOk, ds0, tb) is' = (XferOk, ds0 @ ds, tb') \<and>
     length (xt_slots tb') = length (xt_slots tb) \<and>
     (\<forall>j. xt_slots tb' ! j = (if j \<in> set is' then detached_slot (xt_slots tb ! j) else xt_slots tb ! j)) \<and>
     (\<forall>a. count_list ds a = length (filter (\<lambda>i. xs_object (xt_slots tb ! i) = Some a) is')) \<and>
     xt_state tb' = xt_state tb \<and> xt_next_free_hint tb' = xt_next_free_hint tb \<and>
     xt_active_operations tb' = xt_active_operations tb \<and> xt_initialized tb' = xt_initialized tb"

lemma detach_rows:
  assumes "distinct is'" and "\<forall>i\<in>set is'. i < length (xt_slots tb) \<and> closing_row (xt_slots tb ! i)"
  shows "\<exists>ds tb'. detached ds0 tb is' ds tb'"
  using assms
proof (induction is' arbitrary: ds0 tb)
  case Nil
  then show ?case by (auto simp: detached_def)
next
  case (Cons i is')
  let ?sl = "xt_slots tb ! i"
  define tb1 where "tb1 = (if xs_object ?sl = None then tb else tb\<lparr>xt_slots := (xt_slots tb)[i := ClearSlot ?sl]\<rparr>)"
  define d where "d = (case xs_object ?sl of None \<Rightarrow> [] | Some a \<Rightarrow> [a])"
  have first: "close_row_detach (XferOk, ds0, tb) i = (XferOk, ds0 @ d, tb1)"
    using Cons.prems(2) by (auto simp: close_row_detach_def tb1_def d_def closing_row_def split: option.splits if_splits)
  have i: "i < length (xt_slots tb)" "i \<notin> set is'" using Cons.prems by auto
  have tb1: "length (xt_slots tb1) = length (xt_slots tb)" "\<And>j. j \<noteq> i \<Longrightarrow> xt_slots tb1 ! j = xt_slots tb ! j"
    "xt_slots tb1 ! i = detached_slot ?sl"
    using i by (simp_all add: tb1_def detached_slot_def)
  have "closing_row (xt_slots tb1 ! j) \<and> j < length (xt_slots tb1)" if "j \<in> set is'" for j
    using Cons.prems(2) tb1 i(2) that by (cases "j = i") auto
  then obtain ds tb' where r: "detached (ds0 @ d) tb1 is' ds tb'"
    using Cons.IH [of tb1 "ds0 @ d"] Cons.prems(1) by auto
  have "filter (\<lambda>k. xs_object (xt_slots tb1 ! k) = Some a) is' = filter (\<lambda>k. xs_object (xt_slots tb ! k) = Some a) is'" for a
    using tb1(2) i(2) by (intro filter_cong refl) metis
  then have count: "count_list (d @ ds) a = length (filter (\<lambda>k. xs_object (xt_slots tb ! k) = Some a) (i # is'))" for a
    using r by (auto simp: detached_def d_def split: option.split)
  have slots: "xt_slots tb' ! j = (if j \<in> set (i # is') then detached_slot (xt_slots tb ! j) else xt_slots tb ! j)" for j
    using r tb1(2) [of j] tb1(3) i(2) by (cases "j = i") (simp_all add: detached_def)
  have "detached ds0 tb (i # is') (d @ ds) tb'"
    unfolding detached_def using first r tb1(1) slots count by (simp add: detached_def) (simp add: tb1_def)
  then show ?case by blast
qed

lemma xrows_count:
  assumes ok: "xopen_ok w x tb prs"
  shows "length (filter (\<lambda>i. xs_object (xt_slots tb ! i) = Some a) [1..<32]) = xrows_of a tb"
proof -
  have zero: "xs_object (xt_slots tb ! 0) = None"
    using xopen_okD(2) [OF ok, of 0] xopen_okD(9) [OF ok] by (simp add: xslot_ok_def xclear_def)
  have slots: "map (nth (xt_slots tb)) [0..<32] = xt_slots tb"
    using map_nth [of "xt_slots tb"] xopen_okD(1) [OF ok] by simp
  have "xrows_of a tb = length (filter (\<lambda>sl. xs_object sl = Some a) (map (nth (xt_slots tb)) [0..<32]))"
    unfolding slots xrows_of_def by (rule refl)
  also have "\<dots> = length (filter (\<lambda>i. xs_object (xt_slots tb ! i) = Some a) [0..<32])"
    by (simp add: filter_map o_def del: upt.simps)
  also have "[0..<32] = 0 # [1..<32::nat]" by (simp add: upt_conv_Cons)
  finally show ?thesis using zero by simp
qed

lemma close_result:
  assumes ok: "xopen_ok w x tb (pr # prs)" and pr: "pinning (fst pr) = None" "pinning (fst pr') = None"
    and valid: "pins_valid prs"
  obtains "xt_state tb = XTableClosed" and "ObjectTransferTableClose_detach tb = (XferOk, [], tb)"
  | "xt_state tb \<noteq> XTableClosed" and "xt_active_operations tb \<noteq> 0"
    and "ObjectTransferTableClose_detach tb = (XferBusy, [], close_begin tb)"
  | ds tb' where "xt_state tb \<noteq> XTableClosed" and "xt_active_operations tb = 0"
    and "ObjectTransferTableClose_detach tb = (XferOk, ds, tb')"
    and "xopen_ok w x tb' (pr' # prs)" and "xstable x tb tb' prs" and "xt_state tb' = XTableClosed"
    and "\<And>a. count_list ds a = xrows_of a tb" and "\<And>a. xrows_of a tb' = 0"
proof (cases "xt_state tb = XTableClosed")
  case True
  with that(1) show thesis by (simp add: ObjectTransferTableClose_detach_def)
next
  case False
  define tb1 where "tb1 = close_begin tb"
  note b = close_begin_ok [OF ok pr False, folded tb1_def]
  have "pins_valid (pr' # prs)" using valid pr by (simp add: pins_valid_def)
  note obs = slots_pins [OF b(1) this]
  note def = ObjectTransferTableClose_detach_def [of tb, folded tb1_def]
  show thesis
  proof (cases "xt_active_operations tb = 0")
    case False
    with that(2) \<open>xt_state tb \<noteq> XTableClosed\<close> xopen_okD(8) [OF ok] b(2,5) obs def show thesis
      by (simp add: tb1_def)
  next
    case True
    have quiet: "tally (xpin_at x i) (pr' # prs) = 0" for i
      using pin_le_active [of x i "pr' # prs"] xopen_okD(5) [OF b(1)] b(5) True by simp
    have "closing_row (xt_slots tb1 ! i)" if "i < 32" for i
      using xopen_okD(2,3) [OF b(1) that] b(2)
      by (cases "xs_state (xt_slots tb1 ! i)")
        (auto simp: xslot_ok_def closing_row_def xclear_def xowned_def state_allows_def split: option.splits)
    then have rows: "\<forall>i\<in>set [1..<32]. i < length (xt_slots tb1) \<and> closing_row (xt_slots tb1 ! i)"
      using xopen_okD(1) [OF b(1)] by simp
    then obtain ds tb2 where "detached [] tb1 [1..<32] ds tb2"
      using detach_rows [OF distinct_upt] by blast
    then have r: "foldl close_row_detach (XferOk, [], tb1) [1..<32] = (XferOk, ds, tb2)"
      "length (xt_slots tb2) = length (xt_slots tb1)"
      "\<And>j. xt_slots tb2 ! j = (if j \<in> set [1..<32] then detached_slot (xt_slots tb1 ! j) else xt_slots tb1 ! j)"
      "\<And>a. count_list ds a = length (filter (\<lambda>i. xs_object (xt_slots tb1 ! i) = Some a) [1..<32])"
      "xt_state tb2 = xt_state tb1" "xt_next_free_hint tb2 = xt_next_free_hint tb1"
      "xt_active_operations tb2 = xt_active_operations tb1" "xt_initialized tb2 = xt_initialized tb1"
      unfolding detached_def by simp_all
    have count: "count_list ds a = xrows_of a tb" for a
      using r(4) [of a] xrows_count [OF b(1), of a] b(4) by simp
    define tb' where "tb' = tb2\<lparr>xt_state := XTableClosed\<rparr>"
    have slot: "xslot_ok w (xt_slots tb' ! i) \<and> xs_state (xt_slots tb' ! i) \<in> {XSlotFree, XSlotRetired} \<and>
        xs_object (xt_slots tb' ! i) = None \<and> xs_acquisition_pins (xt_slots tb' ! i) = 0 \<and>
        xrow_down (xt_slots tb1 ! i) (xt_slots tb' ! i)" if i: "i < 32" for i
    proof (cases "xs_object (xt_slots tb1 ! i) = None")
      case True
      then have "xt_slots tb' ! i = xt_slots tb1 ! i"
        using r(3) [of i] by (simp add: tb'_def detached_slot_def)
      with True xopen_okD(2,4) [OF b(1) i] quiet [of i] show ?thesis
        by (cases "xs_state (xt_slots tb1 ! i)") (auto simp: xslot_ok_def xowned_def unat_eq_zero)
    next
      case False
      then have "i \<noteq> 0"
        using xopen_okD(2) [OF b(1), of 0] xopen_okD(9) [OF b(1)] by (cases "i = 0") (auto simp: xslot_ok_def xclear_def)
      with False i have "xt_slots tb' ! i = ClearSlot (xt_slots tb1 ! i)"
        using r(3) [of i] by (auto simp: tb'_def detached_slot_def)
      with ClearSlot_ok [OF xopen_okD(2) [OF b(1) i]] show ?thesis
        by (simp add: ClearSlot_def TransferClosedStateFor_def)
    qed
    have zero: "xt_slots tb' ! 0 = xt_slots tb1 ! 0" using r(3) [of 0] by (simp add: tb'_def)
    have "xslot_ok w (xt_slots tb' ! i) \<and> state_allows XTableClosed (xs_state (xt_slots tb' ! i)) \<and>
        unat (xs_acquisition_pins (xt_slots tb' ! i)) = tally (xpin_at x i) (pr' # prs)" if "i < 32" for i
      using slot [OF that] quiet [of i] by (auto simp: state_allows_def)
    moreover have "xt_state tb' = XTableClosed" "length (xt_slots tb') = 32" "xt_initialized tb' = xt_initialized tb1"
      "xt_next_free_hint tb' = xt_next_free_hint tb1" "xt_active_operations tb' = xt_active_operations tb1"
      using r(2,6-8) xopen_okD(1) [OF b(1)] by (simp_all add: tb'_def)
    ultimately have "xopen_ok w x tb' (pr' # prs)"
      unfolding xopen_ok_def using xopen_okD(5-7,9) [OF b(1)] zero by simp
    moreover have "xstable x tb tb' prs"
      unfolding xstable_def
    proof (intro allI impI conjI)
      fix i :: nat assume "i < 32"
      then have "xrow_le (xt_slots tb ! i) (xt_slots tb1 ! i)" "xrow_down (xt_slots tb1 ! i) (xt_slots tb' ! i)"
        using b(3) slot by (simp_all add: xstable_def)
      then show "xrow_le (xt_slots tb ! i) (xt_slots tb' ! i)" by (rule xrow_le_down)
    qed (use quiet in simp)
    moreover have "xrows_of a tb' = 0" for a
      using slot r(2) xopen_okD(1) [OF b(1)]
      by (auto simp: xrows_of_def filter_empty_conv in_set_conv_nth tb'_def)
    moreover have "ObjectTransferTableClose_detach tb = (XferOk, ds, tb')"
      using def \<open>xt_state tb \<noteq> XTableClosed\<close> xopen_okD(8) [OF ok] b(2,5) obs True r(1) by (simp add: tb'_def kdefs)
    ultimately show thesis
      using that(3) [of ds tb'] \<open>xt_state tb \<noteq> XTableClosed\<close> True count by (simp add: tb'_def)
  qed
qed

end
