(* ===== verification/ObjectTransferSafety.thy ===== *)
theory ObjectTransferSafety
  imports ObjectTransferInv
begin

text \<open>
  The invariant of every interleaving of transfer operations, handle operations and client code.
  It accounts for each reference outside the handle tables: client code, transfer rows and
  transfer operations in progress own them, exactly. Every section of the composed system is a
  section of the handle layer or leaves that layer alone.
\<close>

section \<open>The invariant\<close>

primrec result_ok :: "xresult \<Rightarrow> bool" where
  "result_ok XNothing \<longleftrightarrow> True"
| "result_ok (XStatus status) \<longleftrightarrow> status \<noteq> XferCorruptState"
| "result_ok (XExported r) \<longleftrightarrow> xe_status r \<noteq> XferCorruptState"
| "result_ok (XImported r) \<longleftrightarrow> xi_status r \<noteq> XferCorruptState"

primrec abort_ok :: "after_abort \<Rightarrow> bool" where
  "abort_ok (AbortValidation status) \<longleftrightarrow> status \<noteq> XferCorruptState"
| "abort_ok (AbortPublish e) \<longleftrightarrow> e = ErrBadState"

primrec after_ok :: "HandleTable list \<Rightarrow> after_release \<Rightarrow> bool" where
  "after_ok tbs (XFinish r) \<longleftrightarrow> result_ok r"
| "after_ok tbs (XAbort t rsv k) \<longleftrightarrow> t < length tbs \<and> (\<exists>ty rights. ticket_live (tbs ! t) rsv ty rights) \<and> abort_ok k"

type_synonym exports = "(nat \<times> ObjectTransferRef \<times> kaddr \<times> ObjectTransferAuthority) list"

definition import_ok :: "HandleTable list \<Rightarrow> ObjectTransferTable list \<Rightarrow> import_call \<Rightarrow> bool" where
  "import_ok tbs xtbs c \<longleftrightarrow> im_table c < length xtbs \<and> xt_initialized (xtbs ! im_table c) = 1 \<and>
     im_destination c < length tbs \<and> ObjectTransferDecodedRefIsValid (im_ref c) \<and>
     RequestedRightsValid (im_type c) (im_rights c)"

text \<open>The import is covered by an export of its reference.\<close>

definition backed :: "exports \<Rightarrow> import_call \<Rightarrow> kaddr \<Rightarrow> ObjectTransferImmutableMetadata \<Rightarrow> bool" where
  "backed exps c a metadata \<longleftrightarrow> (\<exists>authority.
     (im_table c, ObjectTransferRefEncode (xd_slot (im_ref c)) (xd_generation (im_ref c)), a, authority) \<in> set exps \<and>
     xa_type authority = im_type c \<and> within (im_rights c) (xa_rights authority) \<and> xa_metadata authority = metadata)"

definition holds_ticket :: "HandleTable list \<Rightarrow> import_call \<Rightarrow> HandleTableReservation \<Rightarrow> bool" where
  "holds_ticket tbs c rsv \<longleftrightarrow> ticket_live (tbs ! im_destination c) rsv (im_type c) (im_rights c)"

definition typed :: "kworld \<Rightarrow> kaddr \<Rightarrow> KObjectType \<Rightarrow> bool" where
  "typed w a ty \<longleftrightarrow> a < length (ko_objs w) \<and> obj_type w a = ty"

definition lookup_pc :: "kworld \<Rightarrow> KObjectType \<Rightarrow> pc \<Rightarrow> bool" where
  "lookup_pc w ty hp \<longleftrightarrow> (case hp of
     Pinned t d a rights k \<Rightarrow> k = ForLookup \<and> typed w a ty
   | Unpinning t d a rights ok k \<Rightarrow> k = ForLookup \<and> typed w a ty
   | Returned r \<Rightarrow> (\<exists>p. r = ResPointer p \<and> (\<forall>a. p = Some a \<longrightarrow> typed w a ty))
   | _ \<Rightarrow> False)"

primrec xpc_ok ::
    "kworld \<Rightarrow> HandleTable list \<Rightarrow> ObjectTransferTable list \<Rightarrow> exports \<Rightarrow> pc \<Rightarrow> xpc \<Rightarrow> bool" where
  "xpc_ok w tbs xtbs exps hp (XReturned r) \<longleftrightarrow> result_ok r"
| "xpc_ok w tbs xtbs exps hp (ExportLookup x authority) \<longleftrightarrow> x < length xtbs \<and> xt_initialized (xtbs ! x) = 1 \<and>
     AuthorityValid authority \<and> lookup_pc w (xa_type authority) hp"
| "xpc_ok w tbs xtbs exps hp (ImportReserve c) \<longleftrightarrow> import_ok tbs xtbs c \<and>
     (\<exists>r. hp = Returned (ResReservation r) \<and> (\<forall>rsv. r = Inr rsv \<longrightarrow> holds_ticket tbs c rsv))"
| "xpc_ok w tbs xtbs exps hp (ImportPinned c rsv a metadata) \<longleftrightarrow> import_ok tbs xtbs c \<and> holds_ticket tbs c rsv \<and>
     typed w a (im_type c) \<and> backed exps c a metadata \<and> xpinned (xtbs ! im_table c) (im_ref c) a \<and> is_idle hp"
| "xpc_ok w tbs xtbs exps hp (ImportRetain c rsv a metadata) \<longleftrightarrow> import_ok tbs xtbs c \<and> holds_ticket tbs c rsv \<and>
     typed w a (im_type c) \<and> backed exps c a metadata \<and> xpinned (xtbs ! im_table c) (im_ref c) a \<and>
     (hp = Returned (ResPointer None) \<or> hp = Returned (ResPointer (Some a)))"
| "xpc_ok w tbs xtbs exps hp (ImportUnpinned c rsv a metadata) \<longleftrightarrow> import_ok tbs xtbs c \<and> holds_ticket tbs c rsv \<and>
     typed w a (im_type c) \<and> backed exps c a metadata \<and> is_idle hp"
| "xpc_ok w tbs xtbs exps hp (ImportPublish c rsv a metadata) \<longleftrightarrow> import_ok tbs xtbs c \<and>
     typed w a (im_type c) \<and> backed exps c a metadata \<and> (\<exists>r. hp = Returned (ResHandle r) \<and>
       (\<forall>e. r = Inl e \<longrightarrow> e = ErrBadState \<and> holds_ticket tbs c rsv))"
| "xpc_ok w tbs xtbs exps hp (XReleasing as k) \<longleftrightarrow> after_ok tbs k \<and> (is_idle hp \<or> (\<exists>a r. hp = Releasing a r))"
| "xpc_ok w tbs xtbs exps hp (XAborting k) \<longleftrightarrow> abort_ok k \<and> (\<exists>r. hp = Returned (ResVoid r) \<and> reservation_gone r)"

definition in_use :: "ObjectTransferSlot \<Rightarrow> bool" where
  "in_use sl \<longleftrightarrow> xs_state sl = XSlotLive \<or> xs_state sl = XSlotClosing"

definition entry_of :: "nat \<Rightarrow> nat \<Rightarrow> ObjectTransferSlot \<Rightarrow> nat \<times> ObjectTransferRef \<times> kaddr \<times> ObjectTransferAuthority" where
  "entry_of x i sl = (x, ObjectTransferRefEncode (of_nat i) (xs_generation sl), the (xs_object sl),
     \<lparr>xa_type = xs_type sl, xa_rights = xs_rights sl, xa_metadata = xs_metadata sl\<rparr>)"

text \<open>Each reference was issued once, at a generation its row has reached; rows in use are exports.\<close>

definition exports_ok :: "exports \<Rightarrow> ObjectTransferTable list \<Rightarrow> bool" where
  "exports_ok exps xtbs \<longleftrightarrow> distinct (map (\<lambda>(x, r, a, authority). (x, r)) exps) \<and>
     (\<forall>(x, r, a, authority)\<in>set exps. x < length xtbs \<and> (\<exists>i g. xvalid i g \<and> r = ObjectTransferRefEncode i g \<and>
        g \<le> xs_generation (xslot_at (xtbs ! x) i))) \<and>
     (\<forall>x<length xtbs. \<forall>i<32. in_use (xt_slots (xtbs ! x) ! i) \<longrightarrow> entry_of x i (xt_slots (xtbs ! x) ! i) \<in> set exps)"

definition ticket_count :: "nat \<Rightarrow> HandleTableReservation \<Rightarrow> xpair \<Rightarrow> nat" where
  "ticket_count t rsv pr = (if ticket pr = Some (t, rsv) then 1 else 0)"

definition xs_inv ::
    "kworld \<Rightarrow> HandleTable list \<Rightarrow> kaddr list \<Rightarrow> ObjectTransferTable list \<Rightarrow> kaddr list \<Rightarrow> exports \<Rightarrow> xpair list \<Rightarrow> bool" where
  "xs_inv w tbs hheld xtbs xheld exps prs \<longleftrightarrow>
     (\<forall>x<length xtbs. xtable_ok w x (xtbs ! x) prs) \<and>
     (\<forall>pr\<in>set prs. xpc_ok w tbs xtbs exps (snd pr) (fst pr)) \<and>
     (\<forall>t rsv. tally (ticket_count t rsv) prs \<le> 1) \<and>
     (\<forall>a. count_list hheld a = count_list xheld a + sum_list (map (xrows_of a) xtbs) + tally (xrefs_at a) prs) \<and>
     exports_ok exps xtbs"

definition x_inv :: "xsys \<Rightarrow> bool" where
  "x_inv s \<longleftrightarrow> h_inv (x_h s) \<and> length (x_threads s) = length (h_threads (x_h s)) \<and>
     xs_inv (h_world (x_h s)) (h_tables (x_h s)) (h_held (x_h s)) (x_tables s) (x_held s) (x_exports s) (x_pairs s)"

lemma xs_invD:
  assumes "xs_inv w tbs hheld xtbs xheld exps prs"
  shows "x < length xtbs \<Longrightarrow> xtable_ok w x (xtbs ! x) prs" and "pr \<in> set prs \<Longrightarrow> xpc_ok w tbs xtbs exps (snd pr) (fst pr)"
    and "tally (ticket_count t rsv) prs \<le> 1"
    and "count_list hheld a = count_list xheld a + sum_list (map (xrows_of a) xtbs) + tally (xrefs_at a) prs"
    and "exports_ok exps xtbs"
  using assms by (auto simp: xs_inv_def)

section \<open>A section of the handle layer\<close>

lemma typed_mono: "world_le w w' \<Longrightarrow> typed w a ty \<Longrightarrow> typed w' a ty"
  by (simp add: typed_def world_le_def)

lemma lookup_pc_mono: "world_le w w' \<Longrightarrow> lookup_pc w ty hp \<Longrightarrow> lookup_pc w' ty hp"
  by (auto simp: lookup_pc_def split: pc.splits intro: typed_mono)

lemma xslot_ok_mono: "world_le w w' \<Longrightarrow> xslot_ok w sl \<Longrightarrow> xslot_ok w' sl"
  by (auto simp: xslot_ok_def xowned_def world_le_def split: ObjectTransferSlotState.splits option.splits)

lemma xtable_ok_mono: "world_le w w' \<Longrightarrow> xtable_ok w x tb prs \<Longrightarrow> xtable_ok w' x tb prs"
  using xslot_ok_mono by (auto simp: xtable_ok_def xopen_ok_def)

lemma xpc_ok_layer:
  assumes ok: "xpc_ok w tbs xtbs exps hp q" and w: "world_le w w'" and tk: "tickets_kept used tbs tbs'"
    and le: "tables_le tbs tbs'" and used: "used = None \<or> ticket (q, hp) \<noteq> used"
  shows "xpc_ok w' tbs' xtbs exps hp q"
proof -
  note len = tables_leD(1) [OF le]
  have live: "ticket_live (tbs' ! t) rsv ty rights"
    if "ticket_live (tbs ! t) rsv ty rights" "t < length tbs" "ticket (q, hp) = Some (t, rsv)" for t rsv ty rights
    using ticket_live_step [OF tk le that(2) _ that(1)] used that(3) by auto
  have imp: "import_ok tbs xtbs c \<Longrightarrow> import_ok tbs' xtbs c" for c
    using len by (simp add: import_ok_def)
  have dest: "import_ok tbs xtbs c \<Longrightarrow> im_destination c < length tbs" for c
    by (simp add: import_ok_def)
  show ?thesis
  proof (cases q)
    case (XReleasing as k)
    with ok live len show ?thesis
      by (cases k) (auto simp: ticket_def, blast+)
  qed (use ok live imp dest typed_mono [OF w] lookup_pc_mono [OF w] in
    \<open>auto simp: holds_ticket_def ticket_def res_reservation_def res_handle_def hresult_of_def\<close>)
qed

lemma ticket_zero: "tally (ticket_count t rsv) prs = 0 \<Longrightarrow> pr \<in> set prs \<Longrightarrow> ticket pr \<noteq> Some (t, rsv)"
  using tally_member [of pr prs "ticket_count t rsv"] by (auto simp: ticket_count_def)

lemma xs_layer_step:
  assumes inv: "xs_inv w tbs hheld xtbs xheld exps ((p, hp) # prs)" and w: "world_le w w'"
    and tk: "tickets_kept used tbs tbs'" and le: "tables_le tbs tbs'"
    and used: "\<And>t rsv. used = Some (t, rsv) \<Longrightarrow> tally (ticket_count t rsv) prs = 0"
    and pin: "pinning p' = pinning p" and new: "xpc_ok w' tbs' xtbs exps hp' p'"
    and tick: "\<And>t rsv. ticket (p', hp') = Some (t, rsv) \<Longrightarrow> tally (ticket_count t rsv) prs = 0"
    and bal: "\<And>a. count_list hheld' a + count_list xheld a + xrefs_at a (p, hp) =
      count_list hheld a + count_list xheld' a + xrefs_at a (p', hp')"
  shows "xs_inv w' tbs' hheld' xtbs xheld' exps ((p', hp') # prs)"
  unfolding xs_inv_def
proof (intro conjI allI impI ballI)
  have eq: "xpin_at x i (p', hp') = xpin_at x i (p, hp)" "xactive_at x (p', hp') = xactive_at x (p, hp)" for x i
    using pin by (simp_all add: xpin_at_def xactive_at_def)
  show "xtable_ok w' x (xtbs ! x) ((p', hp') # prs)" if "x < length xtbs" for x
    using xtable_ok_mono [OF w xs_invD(1) [OF inv that]] by (simp add: xtable_ok_def xopen_ok_def eq)
  show "xpc_ok w' tbs' xtbs exps (snd pr) (fst pr)" if "pr \<in> set ((p', hp') # prs)" for pr
  proof (cases "pr = (p', hp')")
    case False
    with that have pr: "pr \<in> set prs" by simp
    have "used = None \<or> ticket (fst pr, snd pr) \<noteq> used"
      using used ticket_zero [OF _ pr] by (cases used) auto
    from xpc_ok_layer [OF xs_invD(2) [OF inv] w tk le this] pr show ?thesis by simp
  qed (use new in simp)
  show "tally (ticket_count t rsv) ((p', hp') # prs) \<le> 1" for t rsv
    using tick [of t rsv] xs_invD(3) [OF inv, of t rsv] by (auto simp: ticket_count_def)
  show "count_list hheld' a = count_list xheld' a + sum_list (map (xrows_of a) xtbs) + tally (xrefs_at a) ((p', hp') # prs)" for a
    using bal [of a] xs_invD(4) [OF inv, of a] by simp
qed (rule xs_invD(5) [OF inv])

text \<open>A thread that only moves on.\<close>

lemma xs_local_step:
  assumes inv: "xs_inv w tbs hheld xtbs xheld exps ((p, hp) # prs)" and pin: "pinning p' = pinning p"
    and new: "xpc_ok w tbs xtbs exps hp p'" and tick: "ticket (p', hp) = None \<or> ticket (p', hp) = ticket (p, hp)"
    and refs: "\<And>a. xrefs_at a (p', hp) = xrefs_at a (p, hp)"
  shows "xs_inv w tbs hheld xtbs xheld exps ((p', hp) # prs)"
proof (rule xs_layer_step [OF inv _ _ _ _ pin new, of None])
  fix t rsv
  assume "ticket (p', hp) = Some (t, rsv)"
  with tick xs_invD(3) [OF inv, of t rsv] show "tally (ticket_count t rsv) prs = 0"
    by (simp add: ticket_count_def)
qed (use refs in simp_all)

section \<open>A section of a transfer table\<close>

lemma xstable_pinned:
  assumes st: "xstable x tb tb' prs" and pr: "pr \<in> set prs" "pinning (fst pr) = Some c" "im_table c = x"
    and d: "ObjectTransferDecodedRefIsValid (im_ref c)" and pin: "xpinned tb (im_ref c) a"
  shows "xpinned tb' (im_ref c) a"
proof -
  let ?i = "unat (xd_slot (im_ref c))"
  have i: "?i < 32" using d by (simp add: xdecoded_valid xvalid_def)
  have "0 < tally (xpin_at x ?i) prs"
    using tally_member [OF pr(1), of "xpin_at x ?i"] pr(2,3) by (simp add: xpin_at_def)
  then have "pinned_same (xt_slots tb ! ?i) (xt_slots tb' ! ?i)"
    using st i by (simp add: xstable_def)
  with pin show ?thesis by (auto simp: xpinned_def Let_def pinned_same_def)
qed

lemma xpc_ok_table:
  assumes ok: "xpc_ok w tbs xtbs exps (snd pr) (fst pr)" and pr: "pr \<in> set prs" and x: "x < length xtbs"
    and st: "xstable x (xtbs ! x) tb' prs" and ini: "xt_initialized (xtbs ! x) = 1 \<Longrightarrow> xt_initialized tb' = 1"
    and exps: "set exps \<subseteq> set exps'"
  shows "xpc_ok w tbs (xtbs[x := tb']) exps' (snd pr) (fst pr)"
proof -
  have imp: "import_ok tbs xtbs c \<Longrightarrow> import_ok tbs (xtbs[x := tb']) c" for c
    using ini x by (cases "im_table c = x") (auto simp: import_ok_def)
  have bk: "backed exps c a md \<Longrightarrow> backed exps' c a md" for c a md
    using exps by (auto simp: backed_def)
  have pin: "xpinned (xtbs[x := tb'] ! im_table c) (im_ref c) a"
    if "pinning (fst pr) = Some c" "import_ok tbs xtbs c" "xpinned (xtbs ! im_table c) (im_ref c) a" for c a
    using xstable_pinned [OF st pr that(1)] that(2,3) x by (cases "im_table c = x") (auto simp: import_ok_def)
  have "xt_initialized (xtbs ! y) = 1 \<Longrightarrow> xt_initialized (xtbs[x := tb'] ! y) = 1" for y
    using ini x by (cases "y = x") auto
  then show ?thesis
    using ok imp bk pin by (cases "fst pr") auto
qed

lemma xs_table_step:
  assumes inv: "xs_inv w tbs hheld xtbs xheld exps ((p, hp) # prs)" and x: "x < length xtbs"
    and tab: "xtable_ok w x tb' ((p', hp) # prs)" and st: "xstable x (xtbs ! x) tb' prs"
    and ini: "xt_initialized (xtbs ! x) = 1 \<Longrightarrow> xt_initialized tb' = 1"
    and loc: "\<And>y i. y \<noteq> x \<Longrightarrow> xpin_at y i (p', hp) = xpin_at y i (p, hp) \<and> xactive_at y (p', hp) = xactive_at y (p, hp)"
    and new: "xpc_ok w tbs (xtbs[x := tb']) exps' hp p'"
    and tick: "ticket (p', hp) = None \<or> ticket (p', hp) = ticket (p, hp)"
    and bal: "\<And>a. xrows_of a tb' + xrefs_at a (p', hp) = xrows_of a (xtbs ! x) + xrefs_at a (p, hp)"
    and exps: "set exps \<subseteq> set exps'" "exports_ok exps' (xtbs[x := tb'])"
  shows "xs_inv w tbs hheld (xtbs[x := tb']) xheld exps' ((p', hp) # prs)"
  unfolding xs_inv_def
proof (intro conjI allI impI ballI)
  show "xtable_ok w y (xtbs[x := tb'] ! y) ((p', hp) # prs)" if "y < length (xtbs[x := tb'])" for y
  proof (cases "y = x")
    case True
    with tab x show ?thesis by simp
  next
    case False
    with xs_invD(1) [OF inv, of y] that loc [OF False] show ?thesis
      by (simp add: xtable_ok_def xopen_ok_def)
  qed
  show "xpc_ok w tbs (xtbs[x := tb']) exps' (snd pr) (fst pr)" if "pr \<in> set ((p', hp) # prs)" for pr
  proof (cases "pr = (p', hp)")
    case False
    with that have pr: "pr \<in> set prs" by simp
    from xpc_ok_table [OF xs_invD(2) [OF inv] pr x st ini exps(1)] pr show ?thesis by simp
  qed (use new in simp)
  show "tally (ticket_count t rsv) ((p', hp) # prs) \<le> 1" for t rsv
    using tick xs_invD(3) [OF inv, of t rsv] by (auto simp: ticket_count_def)
  show "count_list hheld a = count_list xheld a + sum_list (map (xrows_of a) (xtbs[x := tb'])) +
      tally (xrefs_at a) ((p', hp) # prs)" for a
    using sum_list_map_update [OF x, of "xrows_of a" tb'] bal [of a] xs_invD(4) [OF inv, of a] by simp
qed (rule exps(2))

section \<open>The record of exports\<close>

definition no_new :: "ObjectTransferTable \<Rightarrow> ObjectTransferTable \<Rightarrow> bool" where
  "no_new tb tb' \<longleftrightarrow> (\<forall>i<32. in_use (xt_slots tb' ! i) \<longrightarrow> in_use (xt_slots tb ! i) \<and>
     (\<forall>x. entry_of x i (xt_slots tb' ! i) = entry_of x i (xt_slots tb ! i)))"

lemma no_new_refl [simp]: "no_new tb tb"
  by (simp add: no_new_def)

lemma no_new_update:
  assumes "xt_slots tb' = (xt_slots tb)[i := sl]"
    and "in_use sl \<Longrightarrow> in_use (xt_slots tb ! i) \<and> (\<forall>x. entry_of x i sl = entry_of x i (xt_slots tb ! i))"
  shows "no_new tb tb'"
  unfolding no_new_def
proof (intro allI impI)
  fix k :: nat assume "in_use (xt_slots tb' ! k)"
  then show "in_use (xt_slots tb ! k) \<and> (\<forall>x. entry_of x k (xt_slots tb' ! k) = entry_of x k (xt_slots tb ! k))"
    using assms by (cases "k = i \<and> i < length (xt_slots tb)") (auto simp: list_update_beyond)
qed

lemma entry_pins [simp]: "entry_of x i (sl\<lparr>xs_acquisition_pins := n\<rparr>) = entry_of x i sl"
  and entry_state [simp]: "entry_of x i (sl\<lparr>xs_state := st\<rparr>) = entry_of x i sl"
  and in_use_pins [simp]: "in_use (sl\<lparr>xs_acquisition_pins := n\<rparr>) = in_use sl"
  and in_use_clear [simp]: "\<not> in_use (ClearSlot sl)"
  by (simp_all add: entry_of_def in_use_def ClearSlot_def TransferClosedStateFor_def)

lemma xrow_le_generation: "xrow_le sl sl' \<Longrightarrow> xs_generation sl \<le> xs_generation sl'"
  by (rule transfer_rows.gen_mono)

lemma exports_okD:
  assumes "exports_ok exps xtbs"
  shows "distinct (map (\<lambda>(x, r, a, authority). (x, r)) exps)"
    and "(x, r, a, authority) \<in> set exps \<Longrightarrow> x < length xtbs \<and> (\<exists>i g. xvalid i g \<and> r = ObjectTransferRefEncode i g \<and>
        g \<le> xs_generation (xslot_at (xtbs ! x) i))"
    and "x < length xtbs \<Longrightarrow> i < 32 \<Longrightarrow> in_use (xt_slots (xtbs ! x) ! i) \<Longrightarrow> entry_of x i (xt_slots (xtbs ! x) ! i) \<in> set exps"
  using assms unfolding exports_ok_def by blast+

lemma exports_reached:
  assumes ok: "exports_ok exps xtbs" and x: "x < length xtbs" and st: "xstable x (xtbs ! x) tb' prs"
    and e: "(y, r, a, authority) \<in> set exps"
  shows "y < length (xtbs[x := tb']) \<and> (\<exists>i g. xvalid i g \<and> r = ObjectTransferRefEncode i g \<and>
    g \<le> xs_generation (xslot_at (xtbs[x := tb'] ! y) i))"
proof -
  obtain i g where i: "y < length xtbs" "xvalid i g" "r = ObjectTransferRefEncode i g"
    "g \<le> xs_generation (xslot_at (xtbs ! y) i)"
    using exports_okD(2) [OF ok e] by blast
  have "unat i < 32" using i(2) by (simp add: xvalid_def)
  then have "xs_generation (xslot_at (xtbs ! y) i) \<le> xs_generation (xslot_at (xtbs[x := tb'] ! y) i)"
    using st x xrow_le_generation by (cases "y = x") (simp_all add: xstable_def)
  with i(4) have "g \<le> xs_generation (xslot_at (xtbs[x := tb'] ! y) i)" by (rule order_trans)
  with i(1-3) show ?thesis by (intro conjI exI [of _ i] exI [of _ g]) simp_all
qed

lemma exports_same:
  assumes ok: "exports_ok exps xtbs" and x: "x < length xtbs" and st: "xstable x (xtbs ! x) tb' prs"
    and no: "no_new (xtbs ! x) tb'"
  shows "exports_ok exps (xtbs[x := tb'])"
  unfolding exports_ok_def
proof (intro conjI allI impI)
  show "\<forall>(y, r, a, authority)\<in>set exps. y < length (xtbs[x := tb']) \<and> (\<exists>i g. xvalid i g \<and>
      r = ObjectTransferRefEncode i g \<and> g \<le> xs_generation (xslot_at (xtbs[x := tb'] ! y) i))"
    using exports_reached [OF ok x st] by blast
  fix y i :: nat
  assume y: "y < length (xtbs[x := tb'])" "i < 32" "in_use (xt_slots (xtbs[x := tb'] ! y) ! i)"
  then have "in_use (xt_slots (xtbs ! y) ! i)"
    "entry_of y i (xt_slots (xtbs[x := tb'] ! y) ! i) = entry_of y i (xt_slots (xtbs ! y) ! i)"
    using no x by (cases "y = x"; simp add: no_new_def)+
  then show "entry_of y i (xt_slots (xtbs[x := tb'] ! y) ! i) \<in> set exps"
    using exports_okD(3) [OF ok _ y(2)] y(1) by simp
qed (rule exports_okD(1) [OF ok])

lemma exports_new:
  assumes ok: "exports_ok exps xtbs" and x: "x < length xtbs" and st: "xstable x (xtbs ! x) tb' prs"
    and i: "unat i < 32" "xvalid i (xs_generation (xslot_at (xtbs ! x) i) + 1)"
      "xs_generation (xslot_at (xtbs ! x) i) < xs_generation (xslot_at (xtbs ! x) i) + 1"
    and tb': "xt_slots tb' = (xt_slots (xtbs ! x))[unat i := sl]" "unat i < length (xt_slots (xtbs ! x))"
      "xs_generation sl = xs_generation (xslot_at (xtbs ! x) i) + 1" "entry_of x (unat i) sl = (x, r, a, authority)"
  shows "exports_ok ((x, r, a, authority) # exps) (xtbs[x := tb'])"
proof -
  let ?g = "xs_generation (xslot_at (xtbs ! x) i)"
  have r: "r = ObjectTransferRefEncode i (?g + 1)"
    using tb'(3,4) by (simp add: entry_of_def)
  have "(x, r) \<noteq> (y, r')" if mem: "(y, r', b, au) \<in> set exps" for y r' b au
  proof
    assume same: "(x, r) = (y, r')"
    obtain i' g' where e: "r' = ObjectTransferRefEncode i' g'" "g' \<le> xs_generation (xslot_at (xtbs ! y) i')"
      using exports_okD(2) [OF ok mem] by blast
    have y: "y = x" "r' = r" using same by auto
    have "ObjectTransferRefEncode i (?g + 1) = ObjectTransferRefEncode i' g'"
      by (rule trans [OF r [symmetric] trans [OF y(2) [symmetric] e(1)]])
    note encode_ref_inj [OF i(2) this]
    with e(2) y(1) have "?g + 1 \<le> ?g" by simp
    with i(3) show False by simp
  qed
  then have "(x, r) \<notin> set (map (\<lambda>(x, r, a, authority). (x, r)) exps)" by force
  then have dist: "distinct (map (\<lambda>(x, r, a, authority). (x, r)) ((x, r, a, authority) # exps))"
    using exports_okD(1) [OF ok] by simp
  have own: "xslot_at (xtbs[x := tb'] ! x) i = sl" using x tb'(1,2) by simp
  have reached: "y < length (xtbs[x := tb']) \<and> (\<exists>i g. xvalid i g \<and> r' = ObjectTransferRefEncode i g \<and>
      g \<le> xs_generation (xslot_at (xtbs[x := tb'] ! y) i))"
    if "(y, r', b, au) \<in> set ((x, r, a, authority) # exps)" for y r' b au
  proof (cases "(y, r', b, au) \<in> set exps")
    case True
    then show ?thesis by (rule exports_reached [OF ok x st])
  next
    case False
    with that have "y = x" "r' = ObjectTransferRefEncode i (?g + 1)" using r by simp_all
    with x i(2) own tb'(3) show ?thesis by (intro conjI exI [of _ i] exI [of _ "?g + 1"]) simp_all
  qed
  have entries: "entry_of y k (xt_slots (xtbs[x := tb'] ! y) ! k) \<in> set ((x, r, a, authority) # exps)"
    if y: "y < length xtbs" "k < 32" "in_use (xt_slots (xtbs[x := tb'] ! y) ! k)" for y k
  proof (cases "y = x \<and> k = unat i")
    case True
    with own tb'(4) show ?thesis by simp
  next
    case False
    then have "xt_slots (xtbs[x := tb'] ! y) ! k = xt_slots (xtbs ! y) ! k"
      using x tb'(1) by (cases "y = x") auto
    with exports_okD(3) [OF ok y(1,2)] y(3) show ?thesis by simp
  qed
  show ?thesis
    unfolding exports_ok_def
  proof (intro conjI allI impI)
    show "\<forall>(y, r', b, au)\<in>set ((x, r, a, authority) # exps). y < length (xtbs[x := tb']) \<and> (\<exists>i g. xvalid i g \<and>
        r' = ObjectTransferRefEncode i g \<and> g \<le> xs_generation (xslot_at (xtbs[x := tb'] ! y) i))"
      using reached by blast
  qed (use dist entries in simp_all)
qed

section \<open>The result of a section\<close>

definition xtables_le :: "ObjectTransferTable list \<Rightarrow> ObjectTransferTable list \<Rightarrow> bool" where
  "xtables_le xtbs xtbs' \<longleftrightarrow> length xtbs' = length xtbs \<and>
     (\<forall>x<length xtbs. \<forall>i<32. xrow_le (xt_slots (xtbs ! x) ! i) (xt_slots (xtbs' ! x) ! i))"

lemma xtables_le_refl [simp]: "xtables_le xtbs xtbs"
  by (simp add: xtables_le_def)

lemma xtables_le_update: "xstable x (xtbs ! x) tb' prs \<Longrightarrow> xtables_le xtbs (xtbs[x := tb'])"
  by (cases "x < length xtbs") (auto simp: xtables_le_def xstable_def nth_list_update list_update_beyond)

text \<open>A section of the composed system does not panic, keeps the invariant, and is at most one
  section of the handle layer.\<close>

definition xgood :: "xsys \<Rightarrow> string + xsys \<Rightarrow> bool" where
  "xgood s r \<longleftrightarrow> (case r of Inl e \<Rightarrow> False | Inr s' \<Rightarrow> x_inv s' \<and> (x_h s' = x_h s \<or> hstep (x_h s) (x_h s')) \<and>
     xtables_le (x_tables s) (x_tables s'))"

abbreviation x_rest :: "nat \<Rightarrow> xsys \<Rightarrow> xpair list" where
  "x_rest i s \<equiv> others i (x_pairs s)"

definition x_local :: "nat \<Rightarrow> xsys \<Rightarrow> xpc \<Rightarrow> pc \<Rightarrow> bool" where
  "x_local i s p hp \<longleftrightarrow> xs_inv (h_world (x_h s)) (h_tables (x_h s)) (h_held (x_h s)) (x_tables s) (x_held s) (x_exports s)
     ((p, hp) # x_rest i s)"

lemma xs_inv_cong:
  assumes "set ps = set qs" and "\<And>f. tally f ps = tally f qs"
  shows "xs_inv w tbs hheld xtbs xheld exps ps = xs_inv w tbs hheld xtbs xheld exps qs"
  by (simp add: xs_inv_def xtable_ok_def xopen_ok_def assms)

lemma x_inv_thread:
  assumes inv: "x_inv s" and i: "i < length (x_threads s)"
  shows "x_local i s (x_threads s ! i) (h_threads (x_h s) ! i)" and "i < length (h_threads (x_h s))"
proof -
  have len: "length (x_threads s) = length (h_threads (x_h s))" using inv by (simp add: x_inv_def)
  with i show "i < length (h_threads (x_h s))" by simp
  have i': "i < length (x_pairs s)" using i len by simp
  have nth: "x_pairs s ! i = (x_threads s ! i, h_threads (x_h s) ! i)" using i len by simp
  show "x_local i s (x_threads s ! i) (h_threads (x_h s) ! i)"
    unfolding x_local_def
    using inv xs_inv_cong [OF set_split [OF i'] tally_split [OF i']] nth by (simp add: x_inv_def)
qed

lemma x_inv_put:
  assumes i: "i < length (x_threads s)" and len: "length (x_threads s) = length (h_threads (x_h s))"
    and h: "h_inv h'" "h_threads h' = (h_threads (x_h s))[i := hp']"
    and s': "x_h s' = h'" "x_threads s' = (x_threads s)[i := p']"
    and xs: "xs_inv (h_world h') (h_tables h') (h_held h') (x_tables s') (x_held s') (x_exports s') ((p', hp') # x_rest i s)"
  shows "x_inv s'"
proof -
  have pairs: "x_pairs s' = (x_pairs s)[i := (p', hp')]"
    by (simp add: s' h(2) update_zip)
  have i': "i < length (x_pairs s)" using i len by simp
  have "xs_inv (h_world h') (h_tables h') (h_held h') (x_tables s') (x_held s') (x_exports s') (x_pairs s')"
    unfolding pairs using xs_inv_cong [OF set_update [OF i'] tally_update [OF i']] xs by blast
  with h len s' show ?thesis by (simp add: x_inv_def)
qed

lemma xgood_internal:
  assumes inv: "x_inv s" and i: "i < length (x_threads s)" and hp: "hp = h_threads (x_h s) ! i"
    and xs: "xs_inv (h_world (x_h s)) (h_tables (x_h s)) (h_held (x_h s)) (x_tables s') (x_held s) (x_exports s')
      ((p', hp) # x_rest i s)"
    and s': "x_h s' = x_h s" "x_threads s' = (x_threads s)[i := p']" "x_held s' = x_held s"
    and le: "xtables_le (x_tables s) (x_tables s')"
  shows "xgood s (Inr s')"
proof -
  have "x_inv s'"
  proof (rule x_inv_put [OF i])
    show "length (x_threads s) = length (h_threads (x_h s))" "h_inv (x_h s)" using inv by (simp_all add: x_inv_def)
    show "h_threads (x_h s) = (h_threads (x_h s))[i := hp]" using hp by simp
  qed (use xs s' in simp_all)
  with s' le show ?thesis by (simp add: xgood_def)
qed

lemma xgood_layer:
  assumes inv: "x_inv s" and i: "i < length (x_threads s)"
    and h: "h_inv (put_thread i (hp', h'))" "h_threads h' = h_threads (x_h s)" "hstep (x_h s) (put_thread i (hp', h'))"
    and xs: "xs_inv (h_world h') (h_tables h') (h_held h') (x_tables s) xheld' (x_exports s) ((p', hp') # x_rest i s)"
    and s': "x_h s' = put_thread i (hp', h')" "x_threads s' = (x_threads s)[i := p']" "x_tables s' = x_tables s"
      "x_held s' = xheld'" "x_exports s' = x_exports s"
  shows "xgood s (Inr s')"
proof -
  have len: "length (x_threads s) = length (h_threads (x_h s))" using inv by (simp add: x_inv_def)
  have "x_inv s'"
    by (rule x_inv_put [OF i len h(1)]) (use h(2) xs s' in \<open>simp_all add: put_thread_def\<close>)
  with s' h(3) show ?thesis by (simp add: xgood_def)
qed

text \<open>What the handle layer guarantees for one of its sections.\<close>

definition layer_result ::
    "nat \<Rightarrow> xsys \<Rightarrow> (nat \<times> HandleTableReservation) option \<Rightarrow> kaddr option \<Rightarrow> pc \<Rightarrow> hsys \<Rightarrow> bool" where
  "layer_result i s used taken hp' h' \<longleftrightarrow> h_inv (put_thread i (hp', h')) \<and> hstep (x_h s) (put_thread i (hp', h')) \<and>
     h_threads h' = h_threads (x_h s) \<and> tables_le (h_tables (x_h s)) (h_tables h') \<and> layer_step used taken (x_h s) h'"

lemma layer_call:
  assumes inv: "x_inv s" and i: "i < length (x_threads s)" and idle: "is_idle (h_threads (x_h s) ! i)"
    and ok: "call_ok (x_h s) c"
  obtains hp' h' where "call c (x_h s) = Inr (hp', h')" and "layer_result i s (call_ticket c) (call_takes c) hp' h'"
proof -
  have h: "h_inv (x_h s)" "i < length (h_threads (x_h s))"
    using inv x_inv_thread(2) [OF inv i] by (simp_all add: x_inv_def)
  have en: "enabled i c (x_h s)" using h(2) ok by (simp add: enabled_def)
  obtain r where r: "thread_section i c (x_h s) = Inr r" "h_inv (put_thread i r)"
    "tables_le (h_tables (x_h s)) (h_tables (snd r))" "h_threads (snd r) = h_threads (x_h s)"
    by (rule section_sound [OF h(1) en])
  have c: "call c (x_h s) = Inr (fst r, snd r)" using r(1) idle by (simp add: thread_section_def)
  have "layer_step (call_ticket c) (call_takes c) (x_h s) (snd r)"
    using call_layer [OF _ ok c] h h_inv_thread [OF h(2)] by blast
  with that [OF c] r run_section [OF en r(1)] show thesis by (simp add: layer_result_def)
qed

lemma layer_advance:
  assumes inv: "x_inv s" and i: "i < length (x_threads s)" and busy: "\<not> is_idle (h_threads (x_h s) ! i)"
  obtains hp' h' where "advance (h_threads (x_h s) ! i) (x_h s) = Inr (hp', h')" and "layer_result i s None None hp' h'"
proof -
  have h: "h_inv (x_h s)" "i < length (h_threads (x_h s))"
    using inv x_inv_thread(2) [OF inv i] by (simp_all add: x_inv_def)
  have en: "enabled i c (x_h s)" for c using h(2) busy by (simp add: enabled_def)
  obtain r where r: "thread_section i undefined (x_h s) = Inr r" "h_inv (put_thread i r)"
    "tables_le (h_tables (x_h s)) (h_tables (snd r))" "h_threads (snd r) = h_threads (x_h s)"
    by (rule section_sound [OF h(1) en])
  have c: "advance (h_threads (x_h s) ! i) (x_h s) = Inr (fst r, snd r)" using r(1) busy by (simp add: thread_section_def)
  have "layer_step None None (x_h s) (snd r)"
    using advance_layer [OF _ c] h h_inv_thread [OF h(2)] by blast
  with that [OF c] r run_section [OF en r(1)] show thesis by (simp add: layer_result_def)
qed

lemma layer_good:
  assumes inv: "x_inv s" and i: "i < length (x_threads s)"
    and p: "p = x_threads s ! i" "hp = h_threads (x_h s) ! i"
    and lr: "layer_result i s used taken hp' h'"
    and used: "\<And>t rsv. used = Some (t, rsv) \<Longrightarrow> tally (ticket_count t rsv) (x_rest i s) = 0"
    and pin: "pinning p' = pinning p" and new: "xpc_ok (h_world h') (h_tables h') (x_tables s) (x_exports s) hp' p'"
    and tick: "\<And>t rsv. ticket (p', hp') = Some (t, rsv) \<Longrightarrow> tally (ticket_count t rsv) (x_rest i s) = 0"
    and bal: "\<And>a. count_list (h_held h') a + count_list (x_held s) a + xrefs_at a (p, hp) =
      count_list (h_held (x_h s)) a + count_list xheld' a + xrefs_at a (p', hp')"
    and s': "x_h s' = put_thread i (hp', h')" "x_threads s' = (x_threads s)[i := p']" "x_tables s' = x_tables s"
      "x_held s' = xheld'" "x_exports s' = x_exports s"
  shows "xgood s (Inr s')"
proof (rule xgood_layer [OF inv i _ _ _ _ s'])
  show "h_inv (put_thread i (hp', h'))" "h_threads h' = h_threads (x_h s)" "hstep (x_h s) (put_thread i (hp', h'))"
    using lr by (simp_all add: layer_result_def)
  show "xs_inv (h_world h') (h_tables h') (h_held h') (x_tables s) xheld' (x_exports s) ((p', hp') # x_rest i s)"
  proof (rule xs_layer_step [OF _ _ _ _ used pin new tick bal])
    show "xs_inv (h_world (x_h s)) (h_tables (x_h s)) (h_held (x_h s)) (x_tables s) (x_held s) (x_exports s)
        ((p, hp) # x_rest i s)"
      using x_inv_thread(1) [OF inv i] by (simp add: x_local_def p)
    show "world_le (h_world (x_h s)) (h_world h')" "tickets_kept used (h_tables (x_h s)) (h_tables h')"
      "tables_le (h_tables (x_h s)) (h_tables h')"
      using lr unfolding layer_result_def layer_step_def by blast+
  qed
qed

text \<open>A transfer operation that runs a section of the handle layer.\<close>

lemma transfer_good:
  assumes "x_inv s" and "i < length (x_threads s)" and "p = x_threads s ! i" "hp = h_threads (x_h s) ! i"
    and "layer_result i s used taken hp' h'"
    and "\<And>t rsv. used = Some (t, rsv) \<Longrightarrow> tally (ticket_count t rsv) (x_rest i s) = 0"
    and "pinning p' = pinning p" and "xpc_ok (h_world h') (h_tables h') (x_tables s) (x_exports s) hp' p'"
    and "\<And>t rsv. ticket (p', hp') = Some (t, rsv) \<Longrightarrow> tally (ticket_count t rsv) (x_rest i s) = 0"
    and bal: "\<And>a. count_list (h_held h') a + xrefs_at a (p, hp) = count_list (h_held (x_h s)) a + xrefs_at a (p', hp')"
  shows "xgood s (transfer_section i (Inr (hp', h')) p' s)"
  unfolding transfer_section_def sum.case
proof (rule layer_good [OF assms(1-9), of "x_held s"])
  show "count_list (h_held h') a + count_list (x_held s) a + xrefs_at a (p, hp) =
      count_list (h_held (x_h s)) a + count_list (x_held s) a + xrefs_at a (p', hp')" for a
    using bal [of a] by simp
qed (simp_all add: goes_to_def)

section \<open>Client code in the handle layer\<close>

lemma count_fold_remove1: "count_list (fold remove1 ys xs) a = count_list xs a - count_list ys a"
proof (induction ys arbitrary: xs)
  case (Cons y ys)
  have "count_list (remove1 y xs) a = count_list xs a - (if y = a then 1 else 0)"
    by (induction xs) (auto simp: count_list_0_iff)
  with Cons show ?case by simp
qed simp

lemma count_held_change:
  "count_list (held_change old new held) a =
    count_list held a - (count_list old a - count_list new a) + (count_list new a - count_list old a)"
  by (simp add: held_change_def count_fold_remove1)

lemma held_change_balance:
  assumes "held_moves taken old new" and "\<And>a. taken = Some a \<Longrightarrow> a \<in> set held"
    and "\<And>a. count_list held a \<le> count_list old a"
  shows "count_list new a + count_list held a = count_list old a + count_list (held_change old new held) a"
  using assms(1) unfolding held_moves_def
proof (elim disjE exE conjE)
  fix b
  assume b: "taken = Some b" "new = remove1 b old"
  then have "b \<in> set held" using assms(2) by simp
  then have pos: "0 < count_list held b" by (simp add: count_list_0_iff neq0_conv [symmetric])
  then have "0 < count_list old b" using assms(3) [of b] by simp
  then have "b \<in> set old" by (metis count_list_0_iff neq0_conv)
  from count_remove1 [OF this, of a] pos b(2) show ?thesis
    by (auto simp: count_held_change split: if_splits)
qed (simp_all add: count_held_change)

lemma x_held_le: "x_inv s \<Longrightarrow> count_list (x_held s) a \<le> count_list (h_held (x_h s)) a"
  using xs_invD(4) [of "h_world (x_h s)" "h_tables (x_h s)" "h_held (x_h s)" "x_tables s" "x_held s" "x_exports s" "x_pairs s" a]
  by (simp add: x_inv_def)

lemma x_held_sub: "x_inv s \<Longrightarrow> a \<in> set (x_held s) \<Longrightarrow> a \<in> set (h_held (x_h s))"
  using x_held_le [of s a] by (metis count_list_0_iff le_zero_eq)

lemma call_takes_owned: "call_ok h c \<Longrightarrow> call_takes c = Some a \<Longrightarrow> a \<in> set (h_held h)"
  by (cases c) (auto simp: call_takes_def owns_def)

lemma call_ok_held:
  assumes "call_ok (h\<lparr>h_held := held\<rparr>) c" and "set held \<subseteq> set (h_held h)"
  shows "call_ok h c"
  using assms by (cases c) (auto simp: owns_def split: option.splits)

lemma ticket_free: "used = None \<or> used \<notin> ticket ` set prs \<Longrightarrow> used = Some (t, rsv) \<Longrightarrow> tally (ticket_count t rsv) prs = 0"
  by (force simp: tally_def ticket_count_def)

lemma others_subset: "set (others i ps) \<subseteq> set ps"
  by (auto simp: others_def dest: in_set_takeD in_set_dropD)

lemma client_layer_good:
  assumes inv: "x_inv s" and i: "i < length (x_threads s)" and idle: "x_idle (x_threads s ! i)"
    and lr: "layer_result i s used taken hp' h'"
    and used: "used = None \<or> used \<notin> ticket ` set (x_pairs s)"
    and own: "\<And>a. taken = Some a \<Longrightarrow> a \<in> set (x_held s)"
  shows "xgood s (client_section i (Inr (hp', h')) s)"
  unfolding client_section_def sum.case
proof (rule layer_good [OF inv i refl refl lr, of "x_threads s ! i" "held_change (h_held (x_h s)) (h_held h') (x_held s)"])
  obtain r where r: "x_threads s ! i = XReturned r" using idle by (auto simp: x_idle_def split: xpc.splits)
  have "xpc_ok (h_world (x_h s)) (h_tables (x_h s)) (x_tables s) (x_exports s) (h_threads (x_h s) ! i) (x_threads s ! i)"
    using xs_invD(2) [of _ _ _ _ _ _ "(x_threads s ! i, h_threads (x_h s) ! i) # x_rest i s"] x_inv_thread(1) [OF inv i]
    by (fastforce simp: x_local_def)
  with r show "xpc_ok (h_world h') (h_tables h') (x_tables s) (x_exports s) hp' (x_threads s ! i)" by simp
  show "tally (ticket_count t rsv) (x_rest i s) = 0" if "used = Some (t, rsv)" for t rsv
    using ticket_free [of used "x_rest i s"] used that others_subset [of i "x_pairs s"] by blast
  show "tally (ticket_count t rsv) (x_rest i s) = 0" if "ticket (x_threads s ! i, hp') = Some (t, rsv)" for t rsv
    using that r by (simp add: ticket_def)
  have "held_moves taken (h_held (x_h s)) (h_held h')" using lr by (simp add: layer_result_def layer_step_def)
  from held_change_balance [OF this own x_held_le [OF inv]]
  show "count_list (h_held h') a + count_list (x_held s) a + xrefs_at a (x_threads s ! i, h_threads (x_h s) ! i) =
      count_list (h_held (x_h s)) a + count_list (held_change (h_held (x_h s)) (h_held h') (x_held s)) a +
      xrefs_at a (x_threads s ! i, hp')" for a
    by (simp add: r xrefs_at_def)
qed simp_all

lemma client_call_good:
  assumes inv: "x_inv s" and i: "i < length (x_threads s)" and idle: "x_idle (x_threads s ! i)" "is_idle (h_threads (x_h s) ! i)"
    and ok: "client_ok s c"
  shows "xgood s (enter i (HandleCall c) s)"
proof -
  have c: "call_ok (x_h s) c"
    using ok x_held_sub [OF inv] by (auto simp: client_ok_def intro: call_ok_held)
  obtain hp' h' where r: "call c (x_h s) = Inr (hp', h')" "layer_result i s (call_ticket c) (call_takes c) hp' h'"
    by (rule layer_call [OF inv i idle(2) c])
  have "a \<in> set (x_held s)" if "call_takes c = Some a" for a
    using call_takes_owned [OF _ that, of "(x_h s)\<lparr>h_held := x_held s\<rparr>"] ok by (simp add: client_ok_def)
  with client_layer_good [OF inv i idle(1) r(2)] ok r(1) show ?thesis
    by (simp add: client_ok_def)
qed

lemma client_advance_good:
  assumes inv: "x_inv s" and i: "i < length (x_threads s)" and idle: "x_idle (x_threads s ! i)" "\<not> is_idle (h_threads (x_h s) ! i)"
  shows "xgood s (client_section i (advance (h_threads (x_h s) ! i) (x_h s)) s)"
proof -
  obtain hp' h' where "advance (h_threads (x_h s) ! i) (x_h s) = Inr (hp', h')" "layer_result i s None None hp' h'"
    by (rule layer_advance [OF inv i idle(2)])
  with client_layer_good [OF inv i idle(1), of None None] show ?thesis by simp
qed

end
