(* ===== verification/ObjectTransferSteps.thy ===== *)
theory ObjectTransferSteps
  imports ObjectTransferSafety
begin

text \<open>
  Every section of every transfer operation keeps the invariant of the composed system.
\<close>

section \<open>The thread that moves\<close>

lemma own_xpc:
  assumes "x_inv s" and "i < length (x_threads s)"
  shows "xpc_ok (h_world (x_h s)) (h_tables (x_h s)) (x_tables s) (x_exports s) (h_threads (x_h s) ! i) (x_threads s ! i)"
  using x_inv_thread(1) [OF assms] by (fastforce simp: x_local_def dest: xs_invD(2))

lemma own_ticket:
  assumes "x_inv s" and "i < length (x_threads s)"
    and "ticket (x_threads s ! i, h_threads (x_h s) ! i) = Some (t, rsv)"
  shows "tally (ticket_count t rsv) (x_rest i s) = 0"
  using xs_invD(3) [OF x_inv_thread(1) [OF assms(1,2), unfolded x_local_def], of t rsv] assms(3)
  by (simp add: ticket_count_def)

lemma x_sys_ok:
  assumes "x_inv s" and "i < length (x_threads s)"
  shows "sys_ok (x_h s) (h_threads (x_h s) ! i # others i (h_threads (x_h s)))"
  using h_inv_thread [OF x_inv_thread(2) [OF assms]] assms(1) by (simp add: x_inv_def)

lemma new_pc_ok:
  assumes "layer_result i s used taken hp' h'" and "i < length (h_threads (x_h s))"
  shows "pc_ok (h_world h') (h_tables h') hp'"
proof -
  have "hp' \<in> set (h_threads (put_thread i (hp', h')))"
    using assms by (auto simp: put_thread_def layer_result_def set_update_memI)
  moreover have "sys_inv (h_world h') (h_tables h') (h_held h') (h_threads (put_thread i (hp', h')))"
    using assms(1) by (auto simp: layer_result_def h_inv_def put_thread_def)
  ultimately show ?thesis using sys_invD(2) by blast
qed

lemma layer_resultD:
  assumes "layer_result i s used taken hp' h'"
  shows "world_le (h_world (x_h s)) (h_world h')" and "tables_le (h_tables (x_h s)) (h_tables h')"
    and "tickets_kept used (h_tables (x_h s)) (h_tables h')" and "h_threads h' = h_threads (x_h s)"
  using assms unfolding layer_result_def layer_step_def by blast+

text \<open>The invariant that a thread keeps when the handle layer moves under a ticket it does not use.\<close>

lemma xpc_ok_kept:
  assumes ok: "xpc_ok w tbs xtbs exps hp p" and lr: "layer_result i s None taken hp' h'"
    and s: "w = h_world (x_h s)" "tbs = h_tables (x_h s)"
  shows "xpc_ok (h_world h') (h_tables h') xtbs exps hp p"
  using xpc_ok_layer [OF ok _ _ _ disjI1 [OF refl]] layer_resultD [OF lr] s by blast

section \<open>A handle-layer call in progress\<close>

lemma transfer_advance_good:
  assumes inv: "x_inv s" and i: "i < length (x_threads s)" and busy: "\<not> x_idle (x_threads s ! i)" "\<not> is_idle (h_threads (x_h s) ! i)"
  shows "xgood s (transfer_section i (advance (h_threads (x_h s) ! i) (x_h s)) (x_threads s ! i) s)"
proof -
  define p where "p = x_threads s ! i"
  define hp where "hp = h_threads (x_h s) ! i"
  obtain hp' h' where r: "advance hp (x_h s) = Inr (hp', h')" "layer_result i s None None hp' h'"
    unfolding hp_def by (rule layer_advance [OF inv i busy(2)])
  have ok: "xpc_ok (h_world (x_h s)) (h_tables (x_h s)) (x_tables s) (x_exports s) hp p"
    using own_xpc [OF inv i] by (simp add: p_def hp_def)
  have w: "world_le (h_world (x_h s)) (h_world h')" by (rule layer_resultD(1) [OF r(2)])
  have "xpc_ok (h_world h') (h_tables h') (x_tables s) (x_exports s) hp' p \<and>
      (\<forall>a. count_list (h_held h') a + xrefs_at a (p, hp) = count_list (h_held (x_h s)) a + xrefs_at a (p, hp')) \<and>
      ticket (p, hp') = ticket (p, hp)"
  proof (cases p)
    case (ExportLookup x authority)
    then have look: "lookup_pc (h_world (x_h s)) (xa_type authority) hp" using ok by simp
    have "lookup_pc (h_world h') (xa_type authority) hp' \<and>
        (\<forall>a. count_list (h_held h') a + xrefs_of a hp p = count_list (h_held (x_h s)) a + xrefs_of a hp' p)"
    proof (cases hp)
      case (Pinned t d obj rights k)
      with look have k: "k = ForLookup" "typed (h_world (x_h s)) obj (xa_type authority)" by (simp_all add: lookup_pc_def)
      from retain_advance(1) [OF r(1)] Pinned k(1) obtain okk where
        "h_held h' = h_held (x_h s)" "hp' = Unpinning t d obj rights okk ForLookup" by blast
      with Pinned ExportLookup typed_mono [OF w k(2)] show ?thesis
        by (simp add: lookup_pc_def hresult_of_def res_pointer_def)
    next
      case (Unpinning t d obj rights okk k)
      with look have k: "k = ForLookup" "typed (h_world (x_h s)) obj (xa_type authority)" by (simp_all add: lookup_pc_def)
      from retain_advance(2) [OF r(1)] Unpinning k(1) have
        "hp' = Returned (ResPointer None) \<and> h_held h' = h_held (x_h s) \<or>
         hp' = Returned (ResPointer (Some obj)) \<and> h_held h' = obj # h_held (x_h s)" by blast
      with Unpinning ExportLookup typed_mono [OF w k(2)] show ?thesis
        by (auto simp: lookup_pc_def hresult_of_def res_pointer_def)
    qed (use look busy(2) in \<open>simp_all add: lookup_pc_def is_idle_def hp_def\<close>)
    with ExportLookup ok show ?thesis by (simp add: xrefs_at_def ticket_def)
  next
    case (XReleasing as k)
    with ok busy(2) obtain a res where hp: "hp = Releasing a res" by (auto simp: hp_def)
    with r(1) have "hp' = Returned res" "h_held h' = h_held (x_h s)"
      by (auto split: sum.splits)
    with XReleasing xpc_ok_kept [OF ok r(2)] show ?thesis
      by (simp add: xrefs_at_def ticket_def is_idle_def)
  qed (use ok busy in \<open>auto simp: p_def hp_def x_idle_def is_idle_def split: pc.splits\<close>)
  then show ?thesis
    using transfer_good [OF inv i p_def hp_def r(2), of p] own_ticket [OF inv i] r(1) unfolding p_def hp_def by simp
qed

section \<open>Sections without the handle layer\<close>

lemma local_good:
  assumes inv: "x_inv s" and i: "i < length (x_threads s)" and p: "p = x_threads s ! i" "hp = h_threads (x_h s) ! i"
    and pin: "pinning p' = pinning p"
    and new: "xpc_ok (h_world (x_h s)) (h_tables (x_h s)) (x_tables s) (x_exports s) hp p'"
    and tick: "ticket (p', hp) = None \<or> ticket (p', hp) = ticket (p, hp)"
    and refs: "\<And>a. xrefs_at a (p', hp) = xrefs_at a (p, hp)"
  shows "xgood s (Inr (goes_to i p' s))"
proof (rule xgood_internal [OF inv i p(2)])
  show "xs_inv (h_world (x_h s)) (h_tables (x_h s)) (h_held (x_h s)) (x_tables (goes_to i p' s)) (x_held s)
      (x_exports (goes_to i p' s)) ((p', hp) # x_rest i s)"
    using xs_local_step [OF _ pin new tick refs] x_inv_thread(1) [OF inv i] by (simp add: x_local_def p goes_to_def)
qed (simp_all add: goes_to_def)

lemma table_good:
  assumes inv: "x_inv s" and i: "i < length (x_threads s)" and p: "p = x_threads s ! i" "hp = h_threads (x_h s) ! i"
    and x: "x < length (x_tables s)" and tab: "xtable_ok (h_world (x_h s)) x tb' ((p', hp) # x_rest i s)"
    and st: "xstable x (x_tables s ! x) tb' (x_rest i s)"
    and ini: "xt_initialized (x_tables s ! x) = 1 \<Longrightarrow> xt_initialized tb' = 1"
    and loc: "\<And>c. pinning p = Some c \<or> pinning p' = Some c \<Longrightarrow> im_table c = x"
    and new: "xpc_ok (h_world (x_h s)) (h_tables (x_h s)) ((x_tables s)[x := tb']) exps' hp p'"
    and tick: "ticket (p', hp) = None \<or> ticket (p', hp) = ticket (p, hp)"
    and bal: "\<And>a. xrows_of a tb' + xrefs_at a (p', hp) = xrows_of a (x_tables s ! x) + xrefs_at a (p, hp)"
    and exps: "set (x_exports s) \<subseteq> set exps'" "exports_ok exps' ((x_tables s)[x := tb'])"
    and s': "s' = goes_to i p' ((set_xtable x tb' s)\<lparr>x_exports := exps'\<rparr>)"
  shows "xgood s (Inr s')"
proof (rule xgood_internal [OF inv i p(2), where p' = p'])
  have loc': "xpin_at y k (p', hp) = xpin_at y k (p, hp) \<and> xactive_at y (p', hp) = xactive_at y (p, hp)" if "y \<noteq> x" for y k
    using loc that by (auto simp: xpin_at_def xactive_at_def split: option.splits)
  show "xs_inv (h_world (x_h s)) (h_tables (x_h s)) (h_held (x_h s)) (x_tables s') (x_held s) (x_exports s')
      ((p', hp) # x_rest i s)"
    using xs_table_step [OF _ x tab st ini loc' new tick bal exps] x_inv_thread(1) [OF inv i]
    by (simp add: x_local_def p s' goes_to_def set_xtable_def)
  show "xtables_le (x_tables s) (x_tables s')"
    using xtables_le_update [OF st] by (simp add: s' goes_to_def set_xtable_def)
qed (simp_all add: s' goes_to_def set_xtable_def)

text \<open>The same when the table keeps its entries in use, so that the record of exports stays.\<close>

lemma plain_good:
  assumes "x_inv s" and "i < length (x_threads s)" and "p = x_threads s ! i" "hp = h_threads (x_h s) ! i"
    and x: "x < length (x_tables s)" and "xtable_ok (h_world (x_h s)) x tb' ((p', hp) # x_rest i s)"
    and st: "xstable x (x_tables s ! x) tb' (x_rest i s)"
    and "xt_initialized (x_tables s ! x) = 1 \<Longrightarrow> xt_initialized tb' = 1"
    and "\<And>c. pinning p = Some c \<or> pinning p' = Some c \<Longrightarrow> im_table c = x"
    and "xpc_ok (h_world (x_h s)) (h_tables (x_h s)) ((x_tables s)[x := tb']) (x_exports s) hp p'"
    and "ticket (p', hp) = None \<or> ticket (p', hp) = ticket (p, hp)"
    and "\<And>a. xrows_of a tb' + xrefs_at a (p', hp) = xrows_of a (x_tables s ! x) + xrefs_at a (p, hp)"
    and no: "no_new (x_tables s ! x) tb'"
  shows "xgood s (Inr (goes_to i p' (set_xtable x tb' s)))"
proof (rule table_good [OF assms(1-12)])
  show "exports_ok (x_exports s) ((x_tables s)[x := tb'])"
    using exports_same [OF _ x st no] x_inv_thread(1) [OF assms(1,2)] by (auto simp: x_local_def dest: xs_invD(5))
qed (simp_all add: goes_to_def set_xtable_def)

lemma x_table_ok:
  assumes "x_inv s" and "i < length (x_threads s)" and "x < length (x_tables s)"
  shows "xtable_ok (h_world (x_h s)) x (x_tables s ! x) ((x_threads s ! i, h_threads (x_h s) ! i) # x_rest i s)"
  using xs_invD(1) [OF x_inv_thread(1) [OF assms(1,2), unfolded x_local_def] assms(3)] .

lemma rest_valid:
  assumes "x_inv s" and "i < length (x_threads s)"
  shows "pins_valid (x_rest i s)"
  unfolding pins_valid_def
proof (intro ballI allI impI)
  fix q c
  assume q: "q \<in> set (x_rest i s)" "pinning (fst q) = Some c"
  have "xpc_ok (h_world (x_h s)) (h_tables (x_h s)) (x_tables s) (x_exports s) (snd q) (fst q)"
    using xs_invD(2) [OF x_inv_thread(1) [OF assms, unfolded x_local_def]] q(1) by simp
  with q(2) show "ObjectTransferDecodedRefIsValid (im_ref c)"
    by (cases "fst q") (auto simp: import_ok_def)
qed

text \<open>The sections that issue no reference.\<close>

lemma empty_no_new:
  assumes ok: "xopen_ok w x tb' prs" and none: "\<And>a. xrows_of a tb' = 0"
  shows "no_new tb tb'"
proof -
  have "\<not> in_use (xt_slots tb' ! k)" if k: "k < 32" for k
  proof
    assume "in_use (xt_slots tb' ! k)"
    then obtain a where "xs_object (xt_slots tb' ! k) = Some a"
      using owned_object [OF xopen_okD(2) [OF ok k]] by (auto simp: in_use_def)
    then have "xt_slots tb' ! k \<in> set (filter (\<lambda>sl. xs_object sl = Some a) (xt_slots tb'))"
      using k xopen_okD(1) [OF ok] by simp
    with none [of a] show False by (auto simp: xrows_of_def)
  qed
  then show ?thesis by (simp add: no_new_def)
qed

lemma pin_no_new: "no_new tb (xpin_row tb d)"
proof -
  let ?sl = "xslot_at tb (xd_slot d)"
  have "xt_slots (xpin_row tb d) =
      (xt_slots tb)[unat (xd_slot d) := ?sl\<lparr>xs_acquisition_pins := xs_acquisition_pins ?sl + 1\<rparr>]"
    by (simp add: xpin_row_def Let_def)
  then show ?thesis by (rule no_new_update) simp
qed

lemma unpin_no_new:
  assumes "ObjectTransferImport_unpin d a tb = (r, tb')"
  shows "no_new tb tb'"
proof -
  let ?sl = "xslot_at tb (xd_slot d)"
  have "\<exists>n. xt_slots tb' = (xt_slots tb)[unat (xd_slot d) := ?sl\<lparr>xs_acquisition_pins := n\<rparr>]"
  proof (cases "xs_acquisition_pins ?sl > 0")
    case True
    with assms show ?thesis by (auto simp: ObjectTransferImport_unpin_def Let_def)
  next
    case False
    with assms have "xt_slots tb' = xt_slots tb" by (auto simp: ObjectTransferImport_unpin_def Let_def)
    then have "xt_slots tb' = (xt_slots tb)[unat (xd_slot d) := ?sl\<lparr>xs_acquisition_pins := xs_acquisition_pins ?sl\<rparr>]"
      by simp
    then show ?thesis ..
  qed
  then obtain n where "xt_slots tb' = (xt_slots tb)[unat (xd_slot d) := ?sl\<lparr>xs_acquisition_pins := n\<rparr>]" ..
  then show ?thesis by (rule no_new_update) simp
qed

lemma in_useI: "xs_state sl = XSlotLive \<Longrightarrow> in_use sl" "xs_state sl = XSlotClosing \<Longrightarrow> in_use sl"
  by (simp_all add: in_use_def)

lemma revoke_no_new: "ObjectTransferRevoke_detach d tb = (r, tb') \<Longrightarrow> no_new tb tb'"
  by (auto simp: ObjectTransferRevoke_detach_def Let_def TransferSlotMatches_def split: if_splits
    intro!: no_new_update intro: in_useI)

lemma close_begin_no_new:
  assumes "xopen_ok w x tb prs"
  shows "no_new tb (close_begin tb)"
proof (cases "xt_state tb = XTableOpen")
  case True
  have "entry_of y k (close_live sl) = entry_of y k sl" "in_use (close_live sl) \<Longrightarrow> in_use sl" for y k sl
    by (auto simp: close_live_def in_use_def split: if_splits)
  with True xopen_okD(1) [OF assms] show ?thesis
    by (cases "xt_slots tb") (auto simp: no_new_def close_begin_def nth_Cons split: nat.splits)
qed (simp add: close_begin_def)

lemma xopen_same:
  assumes "xopen_ok w x tb (pr # prs)" and "pinning (fst pr) = None" and "pinning (fst pr') = None"
  shows "xtable_ok w x tb (pr' # prs)"
  using assms by (simp add: xtable_ok_def xopen_ok_def)

section \<open>Entering an operation\<close>

lemma return_good:
  assumes "x_inv s" and "i < length (x_threads s)" and "x_idle (x_threads s ! i)" and "result_ok r"
  shows "xgood s (Inr (goes_to i (XReturned r) s))"
  by (rule local_good [OF assms(1,2) refl refl])
    (use assms(3,4) in \<open>auto simp: x_idle_def ticket_def xrefs_at_def split: xpc.splits\<close>)

lemma idle_pc: "x_idle p \<Longrightarrow> pinning p = None \<and> ticket (p, hp) = None \<and> xrefs_at a (p, hp) = 0"
  by (auto simp: x_idle_def ticket_def xrefs_at_def split: xpc.splits)

lemma initialize_good:
  assumes inv: "x_inv s" and i: "i < length (x_threads s)" and idle: "x_idle (x_threads s ! i)"
    and x: "table_in (x_tables s) table"
  shows "xgood s (Inr (begin_initialize i table g s))"
proof (cases table)
  case None
  then show ?thesis
    using return_good [OF inv i idle, of "XStatus XferInvalidArgument"]
    by (simp add: begin_initialize_def ObjectTransferTableInitialize_def)
next
  case (Some x)
  then have x: "x < length (x_tables s)" using x by (simp add: table_in_def)
  define p where "p = x_threads s ! i"
  define hp where "hp = h_threads (x_h s) ! i"
  note ip = idle_pc [OF idle, folded p_def]
  note ok = x_table_ok [OF inv i x, folded p_def hp_def]
  from ok pin_le_active show ?thesis
  proof (rule initialize_result [where g = g])
    fix status
    assume "ObjectTransferTableInitialize (Some (x_tables s ! x)) g = (status, Some (x_tables s ! x))"
      "status \<noteq> XferCorruptState"
    with return_good [OF inv i idle, of "XStatus status"] x show ?thesis
      by (simp add: Some begin_initialize_def set_xtable_def)
  next
    fix tb'
    assume r: "ObjectTransferTableInitialize (Some (x_tables s ! x)) g = (XferOk, Some tb')"
      "x_tables s ! x = zero_transfer_table" "xopen_ok (h_world (x_h s)) x tb' ((p, hp) # x_rest i s)"
      "xstable x (x_tables s ! x) tb' ((p, hp) # x_rest i s)" "\<And>a. xrows_of a tb' = 0"
    have st: "xstable x (x_tables s ! x) tb' (x_rest i s)"
      using r(4) ip by (simp add: xstable_def xpin_at_def)
    have no: "no_new (x_tables s ! x) tb'" by (rule empty_no_new [OF r(3,5)])
    have tab: "xtable_ok (h_world (x_h s)) x tb' ((XReturned (XStatus XferOk), hp) # x_rest i s)"
      using r(3) ip by (simp add: xtable_ok_def xopen_ok_def xpin_at_def xactive_at_def)
    have zero: "xrows_of a (x_tables s ! x) = 0" for a
      by (simp add: r(2) xrows_of_def zero_transfer_table_def zero_transfer_slot_def)
    have "xgood s (Inr (goes_to i (XReturned (XStatus XferOk)) (set_xtable x tb' s)))"
      by (rule plain_good [OF inv i p_def hp_def x tab st _ _ _ _ _ no])
        (use ip r(5) zero xopen_okD(7) [OF r(3)] in \<open>simp_all add: ticket_def xrefs_at_def\<close>)
    with r(1) show ?thesis by (simp add: Some begin_initialize_def)
  qed
qed

lemma export_entry_good:
  assumes inv: "x_inv s" and i: "i < length (x_threads s)" and idle: "x_idle (x_threads s ! i)" "is_idle (h_threads (x_h s) ! i)"
    and tabs: "table_in (x_tables s) table" "table_in (h_tables (x_h s)) source"
  shows "xgood s (begin_export i table source h authority s)"
proof (cases "\<exists>x t. table = Some x \<and> source = Some t \<and> h \<noteq> kHandleInvalid \<and> xt_initialized (x_tables s ! x) = 1 \<and>
    AuthorityValid authority")
  case False
  then have "\<exists>status. begin_export i table source h authority s =
      Inr (goes_to i (XReturned (XExported (ExportFailure status))) s) \<and> status \<noteq> XferCorruptState"
    by (cases table; cases source; auto simp: begin_export_def Let_def)
  with return_good [OF inv i idle(1)] show ?thesis by (auto simp: ExportFailure_def)
next
  case True
  then obtain x t where a: "table = Some x" "source = Some t" "h \<noteq> kHandleInvalid" "xt_initialized (x_tables s ! x) = 1"
    "AuthorityValid authority" by blast
  define req where "req = kHandleRightTransfer OR kHandleRightDuplicate OR xa_rights authority"
  define c where "c = CallLookupRef t h (xa_type authority) req"
  have "call_ok (x_h s) c" using tabs a(2) by (simp add: c_def table_in_def)
  then obtain hp' h' where r: "call c (x_h s) = Inr (hp', h')" "layer_result i s (call_ticket c) (call_takes c) hp' h'"
    by (rule layer_call [OF inv i idle(2)])
  note look = lookup_call [OF r(1) [unfolded c_def]]
  have ty: "xa_type authority \<noteq> KTypeInvalid" using a(5) by (simp add: AuthorityValid_def split: if_splits)
  note pcok = new_pc_ok [OF r(2) x_inv_thread(2) [OF inv i]]
  have pc: "lookup_pc (h_world h') (xa_type authority) hp'"
    using look(1,3) ty pcok by (auto simp: lookup_pc_def typed_def)
  have "xgood s (transfer_section i (Inr (hp', h')) (ExportLookup x authority) s)"
  proof (rule transfer_good [OF inv i refl refl r(2)])
    show "xpc_ok (h_world h') (h_tables h') (x_tables s) (x_exports s) hp' (ExportLookup x authority)"
      using tabs(1) a pc by (simp add: table_in_def)
    have "res_pointer (hresult_of hp') = None"
      using look(3) by (auto simp: hresult_of_def res_pointer_def)
    then show "count_list (h_held h') a + xrefs_at a (x_threads s ! i, h_threads (x_h s) ! i) =
        count_list (h_held (x_h s)) a + xrefs_at a (ExportLookup x authority, hp')" for a
      using look(2) idle_pc [OF idle(1), of "h_threads (x_h s) ! i" a] by (simp add: xrefs_at_def)
  qed (use idle_pc [OF idle(1)] in \<open>simp_all add: c_def call_ticket_def ticket_def\<close>)
  with a r(1) show ?thesis by (simp add: begin_export_def c_def req_def)
qed

lemma RequestedRights_within: "RequestedRightsValid ty rights \<Longrightarrow> ty \<noteq> KTypeInvalid \<and> rights \<noteq> 0 \<and> within rights (TypeAllowedRights ty)"
  by (simp add: RequestedRightsValid_def exceeds_iff)

text \<open>A fresh reservation is not held by any other import.\<close>

lemma fresh_ticket:
  assumes inv: "x_inv s" and i: "i < length (x_threads s)" and t: "t < length (h_tables (x_h s))"
    and new: "ht_state (h_tables (x_h s) ! t) = TableOpen" "ticket_row (h_tables (x_h s) ! t) rsv = None"
  shows "tally (ticket_count t rsv) (x_rest i s) = 0"
proof -
  have "ticket pr \<noteq> Some (t, rsv)" if pr: "pr \<in> set (x_rest i s)" for pr
  proof
    assume tick: "ticket pr = Some (t, rsv)"
    have ok: "xpc_ok (h_world (x_h s)) (h_tables (x_h s)) (x_tables s) (x_exports s) (snd pr) (fst pr)"
      using xs_invD(2) [OF x_inv_thread(1) [OF inv i, unfolded x_local_def]] pr by simp
    have "\<exists>ty rights. ticket_live (h_tables (x_h s) ! t) rsv ty rights"
    proof (cases "fst pr")
      case (XReleasing as k)
      with ok tick show ?thesis by (cases k) (auto simp: ticket_def)
    qed (use ok tick in \<open>auto simp: ticket_def holds_ticket_def res_reservation_def res_handle_def hresult_of_def
        split: sum.splits\<close>)
    with new show False by (auto simp: ticket_live_def)
  qed
  then show ?thesis by (auto simp: tally_def ticket_count_def)
qed

lemma import_entry_good:
  assumes inv: "x_inv s" and i: "i < length (x_threads s)" and idle: "x_idle (x_threads s ! i)" "is_idle (h_threads (x_h s) ! i)"
    and tabs: "table_in (x_tables s) table" "table_in (h_tables (x_h s)) destination"
  shows "xgood s (begin_import i table reference destination ty rights s)"
proof (cases "\<exists>x t. table = Some x \<and> destination = Some t \<and> RequestedRightsValid ty rights \<and>
    xt_initialized (x_tables s ! x) = 1 \<and> ObjectTransferDecodedRefIsValid (DecodeTransferRefNospec reference)")
  case False
  then have "\<exists>status. begin_import i table reference destination ty rights s =
      Inr (goes_to i (XReturned (XImported (ImportFailure status ErrOk))) s) \<and> status \<noteq> XferCorruptState"
    by (cases table; cases destination; auto simp: begin_import_def Let_def)
  with return_good [OF inv i idle(1)] show ?thesis by (auto simp: ImportFailure_def)
next
  case True
  then obtain x t where a: "table = Some x" "destination = Some t" "RequestedRightsValid ty rights"
    "xt_initialized (x_tables s ! x) = 1" "ObjectTransferDecodedRefIsValid (DecodeTransferRefNospec reference)" by blast
  define m where "m = \<lparr>im_table = x, im_ref = DecodeTransferRefNospec reference, im_destination = t, im_type = ty,
    im_rights = rights\<rparr>"
  define c where "c = CallReserve t ty rights"
  have t: "t < length (h_tables (x_h s))" using tabs a(2) by (simp add: table_in_def)
  then have "call_ok (x_h s) c" by (simp add: c_def)
  then obtain hp' h' where r: "call c (x_h s) = Inr (hp', h')" "layer_result i s (call_ticket c) (call_takes c) hp' h'"
    by (rule layer_call [OF inv i idle(2)])
  note res = reserve_call [OF x_sys_ok [OF inv i] t r(1) [unfolded c_def]]
  have len: "length (h_tables h') = length (h_tables (x_h s))" by (rule tables_leD(1) [OF layer_resultD(2) [OF r(2)]])
  have "xgood s (transfer_section i (Inr (hp', h')) (ImportReserve m) s)"
  proof (rule transfer_good [OF inv i refl refl r(2)])
    have "import_ok (h_tables h') (x_tables s) m"
      using a t tabs(1) len by (simp add: import_ok_def m_def table_in_def)
    then show "xpc_ok (h_world h') (h_tables h') (x_tables s) (x_exports s) hp' (ImportReserve m)"
      using res(3) by (auto simp: holds_ticket_def m_def)
    show "tally (ticket_count u rsv) (x_rest i s) = 0" if "ticket (ImportReserve m, hp') = Some (u, rsv)" for u rsv
      using that res(3) fresh_ticket [OF inv i t]
      by (auto simp: ticket_def hresult_of_def res_reservation_def m_def)
  qed (use idle_pc [OF idle(1)] res(2) in \<open>simp_all add: c_def call_ticket_def ticket_def xrefs_at_def\<close>)
  with a r(1) show ?thesis by (simp add: begin_import_def Let_def c_def m_def)
qed

lemma revoke_good:
  assumes inv: "x_inv s" and i: "i < length (x_threads s)" and idle: "x_idle (x_threads s ! i)" "is_idle (h_threads (x_h s) ! i)"
    and tab: "table_in (x_tables s) table"
  shows "xgood s (Inr (begin_revoke i table reference s))"
proof (cases "\<exists>x. table = Some x \<and> xt_initialized (x_tables s ! x) = 1 \<and>
    ObjectTransferDecodedRefIsValid (DecodeTransferRefNospec reference)")
  case False
  then have "\<exists>status. begin_revoke i table reference s = goes_to i (XReturned (XStatus status)) s \<and> status \<noteq> XferCorruptState"
    by (cases table) (auto simp: begin_revoke_def Let_def)
  with return_good [OF inv i idle(1)] show ?thesis by auto
next
  case True
  then obtain x where a: "table = Some x" "xt_initialized (x_tables s ! x) = 1" by blast
  define d where "d = DecodeTransferRefNospec reference"
  have d: "ObjectTransferDecodedRefIsValid d" using True by (auto simp: d_def)
  have x: "x < length (x_tables s)" using tab a(1) by (simp add: table_in_def)
  define p where "p = x_threads s ! i"
  define hp where "hp = h_threads (x_h s) ! i"
  note ip = idle_pc [OF idle(1), folded p_def]
  have ok: "xopen_ok (h_world (x_h s)) x (x_tables s ! x) ((p, hp) # x_rest i s)"
    using xtable_initialized [OF x_table_ok [OF inv i x]] a(2) by (simp add: p_def hp_def)
  have pn: "pinning (fst (p, hp)) = None" using ip by simp
  note def = begin_revoke_def [of i "Some x" reference s, folded d_def]
  show ?thesis
  proof (rule revoke_result [OF ok pn pn d])
    fix status
    assume "ObjectTransferRevoke_detach d (x_tables s ! x) = (Inl status, x_tables s ! x)" "status \<noteq> XferCorruptState"
    with return_good [OF inv i idle(1), of "XStatus status"] a d x show ?thesis
      by (simp add: def Let_def set_xtable_def)
  next
    fix tb'
    assume r: "ObjectTransferRevoke_detach d (x_tables s ! x) = (Inl XferBusy, tb')"
      "xopen_ok (h_world (x_h s)) x tb' ((p, hp) # x_rest i s)" "xstable x (x_tables s ! x) tb' (x_rest i s)"
      "\<And>b. xrows_of b tb' = xrows_of b (x_tables s ! x)"
    have "xgood s (Inr (goes_to i (XReturned (XStatus XferBusy)) (set_xtable x tb' s)))"
      by (rule plain_good [OF inv i p_def hp_def x xopen_same [OF r(2) pn] r(3) _ _ _ _ _ revoke_no_new [OF r(1)]])
        (use ip r(4) xopen_okD(7) [OF r(2)] in \<open>simp_all add: ticket_def xrefs_at_def\<close>)
    with a d r(1) show ?thesis by (simp add: def Let_def)
  next
    fix b tb'
    assume r: "ObjectTransferRevoke_detach d (x_tables s ! x) = (Inr (Some b), tb')"
      "xopen_ok (h_world (x_h s)) x tb' ((p, hp) # x_rest i s)" "xstable x (x_tables s ! x) tb' (x_rest i s)"
      "\<And>e. xrows_of e tb' + (if b = e then 1 else 0) = xrows_of e (x_tables s ! x)"
    have bal: "Suc (xrows_of b tb') = xrows_of b (x_tables s ! x)" "b \<noteq> e \<Longrightarrow> xrows_of e tb' = xrows_of e (x_tables s ! x)" for e
      using r(4) [of b] r(4) [of e] by simp_all
    have "xgood s (Inr (goes_to i (XReleasing [b] (XFinish (XStatus XferOk))) (set_xtable x tb' s)))"
      by (rule plain_good [OF inv i p_def hp_def x xopen_same [OF r(2) pn] r(3) _ _ _ _ _ revoke_no_new [OF r(1)]])
        (use ip bal xopen_okD(7) [OF r(2)] idle(2) in \<open>auto simp: ticket_def xrefs_at_def hp_def\<close>)
    with a d r(1) show ?thesis by (simp add: def Let_def)
  qed
qed

lemma close_good:
  assumes inv: "x_inv s" and i: "i < length (x_threads s)" and idle: "x_idle (x_threads s ! i)" "is_idle (h_threads (x_h s) ! i)"
    and tab: "table_in (x_tables s) table"
  shows "xgood s (Inr (begin_table_close i table s))"
proof (cases "\<exists>x. table = Some x \<and> xt_initialized (x_tables s ! x) = 1")
  case False
  then have "\<exists>status. begin_table_close i table s = goes_to i (XReturned (XStatus status)) s \<and> status \<noteq> XferCorruptState"
    by (cases table) (auto simp: begin_table_close_def)
  with return_good [OF inv i idle(1)] show ?thesis by auto
next
  case True
  then obtain x where a: "table = Some x" "xt_initialized (x_tables s ! x) = 1" by blast
  have x: "x < length (x_tables s)" using tab a(1) by (simp add: table_in_def)
  define p where "p = x_threads s ! i"
  define hp where "hp = h_threads (x_h s) ! i"
  note ip = idle_pc [OF idle(1), folded p_def]
  have ok: "xopen_ok (h_world (x_h s)) x (x_tables s ! x) ((p, hp) # x_rest i s)"
    using xtable_initialized [OF x_table_ok [OF inv i x]] a(2) by (simp add: p_def hp_def)
  have pn: "pinning (fst (p, hp)) = None" using ip by simp
  have good: "xgood s (Inr (goes_to i (XReleasing ds (XFinish (XStatus status))) (set_xtable x tb' s)))"
    if "xopen_ok (h_world (x_h s)) x tb' ((p, hp) # x_rest i s)" "xstable x (x_tables s ! x) tb' (x_rest i s)"
      "\<And>b. xrows_of b tb' + count_list ds b = xrows_of b (x_tables s ! x)" "no_new (x_tables s ! x) tb'"
      "status \<noteq> XferCorruptState" for ds tb' status
    by (rule plain_good [OF inv i p_def hp_def x xopen_same [OF that(1) pn] that(2) _ _ _ _ _ that(4)])
      (use ip that(3,5) xopen_okD(7) [OF that(1)] idle(2) in \<open>simp_all add: ticket_def xrefs_at_def hp_def\<close>)
  note def = begin_table_close_def [of i "Some x" s]
  show ?thesis
  proof (rule close_result [OF ok pn pn rest_valid [OF inv i]])
    assume "ObjectTransferTableClose_detach (x_tables s ! x) = (XferOk, [], x_tables s ! x)"
    with good [OF ok, of "[]" XferOk] a show ?thesis by (simp add: def)
  next
    assume st: "xt_state (x_tables s ! x) \<noteq> XTableClosed"
      and r: "ObjectTransferTableClose_detach (x_tables s ! x) = (XferBusy, [], close_begin (x_tables s ! x))"
    note b = close_begin_ok [OF ok pn pn st]
    from good [OF b(1,3), of "[]" XferBusy] b(4) close_begin_no_new [OF ok] r a show ?thesis by (simp add: def)
  next
    fix ds tb'
    assume r: "ObjectTransferTableClose_detach (x_tables s ! x) = (XferOk, ds, tb')"
      "xopen_ok (h_world (x_h s)) x tb' ((p, hp) # x_rest i s)" "xstable x (x_tables s ! x) tb' (x_rest i s)"
      "\<And>b. count_list ds b = xrows_of b (x_tables s ! x)" "\<And>b. xrows_of b tb' = 0"
    from good [OF r(2,3), of ds XferOk] r empty_no_new [OF r(2,5)] a show ?thesis by (simp add: def)
  qed
qed

section \<open>Continuing an operation\<close>

lemma export_install_good:
  assumes inv: "x_inv s" and i: "i < length (x_threads s)" and p: "x_threads s ! i = ExportLookup x authority"
    and hp: "h_threads (x_h s) ! i = Returned (ResPointer (Some a))"
  shows "xgood s (Inr (export_install i x authority a s))"
proof -
  define w where "w = h_world (x_h s)"
  define hp where "hp = h_threads (x_h s) ! i"
  have own: "x < length (x_tables s)" "xt_initialized (x_tables s ! x) = 1" "AuthorityValid authority"
    "typed w a (xa_type authority)"
    using own_xpc [OF inv i] p hp by (auto simp: lookup_pc_def w_def)
  have ok: "xopen_ok w x (x_tables s ! x) ((ExportLookup x authority, hp) # x_rest i s)"
    using xtable_initialized [OF x_table_ok [OF inv i own(1)]] own(2) p by (simp add: hp_def w_def)
  have refs: "xrefs_at b (ExportLookup x authority, hp) = (if a = b then 1 else 0)" for b
    using assms(4) by (simp add: xrefs_at_def hp_def hresult_of_def res_pointer_def)
  note def = export_install_def [of i x authority a s]
  show ?thesis
  proof (rule install_result [OF ok, of a authority])
    fix status
    assume r: "ObjectTransferExport_install a authority (x_tables s ! x) = (status, kObjectTransferRefInvalid, x_tables s ! x)"
      "status \<noteq> XferOk" "status \<noteq> XferCorruptState"
    have "xgood s (Inr (goes_to i (XReleasing [a] (XFinish (XExported (ExportFailure status)))) s))"
      by (rule local_good [OF inv i refl refl])
        (use r(3) p assms(4) refs in \<open>simp_all add: ExportFailure_def ticket_def is_idle_def hp_def xrefs_at_def\<close>)
    with r own(1) show ?thesis by (simp add: def set_xtable_def)
  next
    fix j
    let ?tb = "x_tables s ! x" let ?tb' = "install_row ?tb j a authority"
    let ?ref = "ObjectTransferRefEncode j (xs_generation (xslot_at ?tb j) + 1)"
    let ?res = "XReturned (XExported \<lparr>xe_status = XferOk, xe_reference = ?ref\<rparr>)"
    assume r: "xt_state ?tb = XTableOpen" "xfree_at ?tb j"
      "ObjectTransferExport_install a authority ?tb = (XferOk, ?ref, ?tb')"
    have typed: "a < length (ko_objs w)" "obj_type w a = xa_type authority" using own(4) by (simp_all add: typed_def)
    note rows = install_row_ok [OF ok _ _ r(1,2) own(3) typed, of "(?res, hp)"]
    note free = xfree_row [OF ok r(2)]
    have j: "unat j < 32" using r(2) by (simp add: xfree_at_def)
    have "exports_ok ((x, ?ref, a, authority) # x_exports s) ((x_tables s)[x := ?tb'])"
    proof (rule exports_new [OF _ own(1) _ j free(4), where sl = "xslot_at ?tb' j"])
      show "exports_ok (x_exports s) (x_tables s)"
        using x_inv_thread(1) [OF inv i] by (auto simp: x_local_def dest: xs_invD(5))
      show "xstable x ?tb ?tb' (x_rest i s)" using rows by simp
      show "unat j < length (xt_slots ?tb)" using j xopen_okD(1) [OF ok] by simp
    qed (use xgeneration_succ(3) [OF free(2,3)] j xopen_okD(1) [OF ok] in
        \<open>simp_all add: install_row_def Let_def entry_of_def set_xslot_def\<close>)
    then have "xgood s (Inr (goes_to i ?res ((set_xtable x ?tb' s)\<lparr>x_exports := (x, ?ref, a, authority) # x_exports s\<rparr>)))"
      by (intro table_good [OF inv i refl refl own(1), of ?tb'])
        (use rows refs p xopen_okD(7) [OF ok] in
          \<open>auto simp: xtable_ok_def hp_def [symmetric] w_def [symmetric] ticket_def xrefs_at_def install_row_def Let_def\<close>)
    with r(3) show ?thesis by (simp add: def)
  qed
qed

lemma rows_pos:
  assumes "k < length (xt_slots tb)" and "xs_object (xt_slots tb ! k) = Some a"
  shows "0 < xrows_of a tb"
proof -
  have "xt_slots tb ! k \<in> set (filter (\<lambda>sl. xs_object sl = Some a) (xt_slots tb))"
    using assms by simp
  then show ?thesis using length_pos_if_in_set unfolding xrows_of_def by fastforce
qed

lemma held_member:
  assumes inv: "x_inv s" and i: "i < length (x_threads s)"
    and own: "0 < xrefs_at a (x_threads s ! i, h_threads (x_h s) ! i) \<or> (\<exists>x<length (x_tables s). 0 < xrows_of a (x_tables s ! x))"
  shows "a \<in> set (h_held (x_h s))"
proof -
  have rows: "xrows_of a (x_tables s ! x) \<le> sum_list (map (xrows_of a) (x_tables s))" if "x < length (x_tables s)" for x
    using that by (intro member_le_sum_list) simp_all
  have "0 < count_list (h_held (x_h s)) a"
    using own xs_invD(4) [OF x_inv_thread(1) [OF inv i, unfolded x_local_def], of a]
  proof (elim disjE exE conjE)
    fix x
    assume "x < length (x_tables s)" "0 < xrows_of a (x_tables s ! x)"
      "count_list (h_held (x_h s)) a = count_list (x_held s) a + sum_list (map (xrows_of a) (x_tables s)) +
        tally (xrefs_at a) ((x_threads s ! i, h_threads (x_h s) ! i) # x_rest i s)"
    with rows [of x] show ?thesis by linarith
  qed simp
  then show ?thesis using count_list_0_iff [of "h_held (x_h s)" a] by auto
qed

lemma held_live:
  assumes "x_inv s" and "a \<in> set (h_held (x_h s))"
  shows "refs (h_world (x_h s)) a \<noteq> 0"
proof -
  have inv: "sys_inv (h_world (x_h s)) (h_tables (x_h s)) (h_held (x_h s)) (h_threads (x_h s))"
    using assms(1) by (simp add: x_inv_def h_inv_def)
  have "count_list (h_held (x_h s)) a \<noteq> 0" using assms(2) count_list_0_iff by fastforce
  with sys_invD(6) [OF inv, of a] sys_invD(5) [OF inv assms(2)] show ?thesis
    by (auto simp: refs_total_def owners_def)
qed

lemma import_pin_good:
  assumes inv: "x_inv s" and i: "i < length (x_threads s)" and p: "x_threads s ! i = ImportReserve c"
    and hp: "h_threads (x_h s) ! i = Returned (ResReservation (Inr rsv))"
  shows "xgood s (Inr (import_pin i c rsv s))"
proof -
  let ?x = "im_table c" and ?w = "h_world (x_h s)" and ?hp = "h_threads (x_h s) ! i"
  let ?tb = "x_tables s ! ?x" let ?sl = "xslot_at ?tb (xd_slot (im_ref c))"
  have own: "import_ok (h_tables (x_h s)) (x_tables s) c" "holds_ticket (h_tables (x_h s)) c rsv"
    using own_xpc [OF inv i] p hp by auto
  then have x: "?x < length (x_tables s)" "xt_initialized ?tb = 1" "ObjectTransferDecodedRefIsValid (im_ref c)"
    by (simp_all add: import_ok_def)
  have ok: "xopen_ok ?w ?x ?tb ((ImportReserve c, ?hp) # x_rest i s)"
    using xtable_initialized [OF x_table_ok [OF inv i x(1)]] x(2) p by simp
  show ?thesis
  proof (rule import_pin_result [of ?w "im_ref c" "im_type c" "im_rights c" ?tb])
    fix status
    assume r: "ObjectTransferImport_pin ?w (im_ref c) (im_type c) (im_rights c) ?tb = (Inl status, ?tb)"
      "status \<noteq> XferCorruptState"
    have "xgood s (Inr (goes_to i (XReleasing [] (XAbort (im_destination c) rsv (AbortValidation status))) s))"
      by (rule local_good [OF inv i refl refl])
        (use p hp own r(2) in \<open>auto simp: import_ok_def holds_ticket_def is_idle_def ticket_def xrefs_at_def res_reservation_def
          hresult_of_def\<close>)
    with r(1) show ?thesis by (simp add: import_pin_def set_xtable_def)
  next
    let ?p' = "ImportPinned c rsv (the (xs_object ?sl)) (xs_metadata ?sl)"
    assume guard: "xpin_guard ?w (im_type c) (im_rights c) ?tb (im_ref c)"
      and r: "ObjectTransferImport_pin ?w (im_ref c) (im_type c) (im_rights c) ?tb =
        (Inr (the (xs_object ?sl), xs_metadata ?sl), xpin_row ?tb (im_ref c))"
    have k: "unat (xd_slot (im_ref c)) < 32" using x(3) by (simp add: xdecoded_valid xvalid_def)
    have g: "xs_state ?sl = XSlotLive" "xs_generation ?sl = xd_generation (im_ref c)" "xs_type ?sl = im_type c"
      "within (im_rights c) (xs_rights ?sl)"
      using guard by (simp_all add: xpin_guard_def Let_def TransferSlotMatches_def)
    obtain a where a: "xs_object ?sl = Some a" "a < length (ko_objs ?w)" "obj_type ?w a = xs_type ?sl"
      using owned_object [OF xopen_okD(2) [OF ok k]] g(1) by auto
    have "entry_of ?x (unat (xd_slot (im_ref c))) ?sl \<in> set (x_exports s)"
      using exports_okD(3) [OF xs_invD(5) [OF x_inv_thread(1) [OF inv i, unfolded x_local_def]] x(1) k] g(1)
      by (simp add: in_use_def)
    then have "backed (x_exports s) c a (xs_metadata ?sl)"
      using a(1) g by (force simp: backed_def entry_of_def)
    moreover have "xpinned (xpin_row ?tb (im_ref c)) (im_ref c) a"
      using a(1) g(1,2) k xopen_okD(1) [OF ok] by (simp add: xpinned_def xpin_row_def Let_def)
    moreover have "xt_initialized (xpin_row ?tb (im_ref c)) = 1"
      using x(2) by (simp add: xpin_row_def Let_def)
    moreover note rows = xpin_row_ok [OF ok _ _ x(3) guard, of "(?p', ?hp)"]
    ultimately have "xgood s (Inr (goes_to i ?p' (set_xtable ?x (xpin_row ?tb (im_ref c)) s)))"
      using own x a g p hp
      by (intro plain_good [OF inv i refl refl x(1) _ _ _ _ _ _ _ pin_no_new])
        (auto simp: xtable_ok_def ticket_def xrefs_at_def res_reservation_def hresult_of_def is_idle_def import_ok_def
          holds_ticket_def typed_def)
    with r show ?thesis by (simp add: import_pin_def)
  qed
qed

lemma import_acquire_good:
  assumes inv: "x_inv s" and i: "i < length (x_threads s)" and p: "x_threads s ! i = ImportPinned c rsv a metadata"
  shows "xgood s (handle_call i (CallKObjectAcquire a) (ImportRetain c rsv a metadata) s)"
proof -
  have own: "import_ok (h_tables (x_h s)) (x_tables s) c" "holds_ticket (h_tables (x_h s)) c rsv"
    "typed (h_world (x_h s)) a (im_type c)" "backed (x_exports s) c a metadata"
    "xpinned (x_tables s ! im_table c) (im_ref c) a" "is_idle (h_threads (x_h s) ! i)"
    using own_xpc [OF inv i] p by auto
  have x: "im_table c < length (x_tables s)" "xt_initialized (x_tables s ! im_table c) = 1" "unat (xd_slot (im_ref c)) < 32"
    using own(1) by (simp_all add: import_ok_def xdecoded_valid xvalid_def)
  have "length (xt_slots (x_tables s ! im_table c)) = 32"
    using xtable_initialized [OF x_table_ok [OF inv i x(1)]] x(2) xopen_okD(1) by blast
  then have "0 < xrows_of a (x_tables s ! im_table c)"
    using own(5) x(3) by (intro rows_pos [of "unat (xd_slot (im_ref c))"]) (simp_all add: xpinned_def Let_def)
  then have "call_ok (x_h s) (CallKObjectAcquire a)"
    using held_member [OF inv i] x(1) by auto
  then obtain hp' h' where r: "call (CallKObjectAcquire a) (x_h s) = Inr (hp', h')"
    "layer_result i s None None hp' h'"
    by (rule layer_call [OF inv i own(6)]) (simp add: call_ticket_def call_takes_def)
  have tick: "ticket (x_threads s ! i, h_threads (x_h s) ! i) = Some (im_destination c, rsv)"
    by (simp add: p ticket_def)
  have kept: "xpc_ok (h_world h') (h_tables h') (x_tables s) (x_exports s) (h_threads (x_h s) ! i) (x_threads s ! i)"
    by (rule xpc_ok_kept [OF own_xpc [OF inv i] r(2) refl refl])
  have "xgood s (transfer_section i (Inr (hp', h')) (ImportRetain c rsv a metadata) s)"
    by (rule transfer_good [OF inv i refl refl r(2)])
      (use acquire_call [OF r(1)] kept p own_ticket [OF inv i tick] in
        \<open>auto simp: ticket_def xrefs_at_def hresult_of_def res_pointer_def\<close>)
  with r(1) show ?thesis by simp
qed

lemma import_unpin_good:
  assumes inv: "x_inv s" and i: "i < length (x_threads s)" and p: "x_threads s ! i = ImportRetain c rsv a metadata"
  shows "xgood s (Inr (import_unpin i c rsv a metadata (res_pointer (hresult_of (h_threads (x_h s) ! i)) \<noteq> None) s))"
proof -
  let ?x = "im_table c" and ?w = "h_world (x_h s)" and ?hp = "h_threads (x_h s) ! i"
  let ?tb = "x_tables s ! ?x"
  have own: "import_ok (h_tables (x_h s)) (x_tables s) c" "holds_ticket (h_tables (x_h s)) c rsv"
    "typed ?w a (im_type c)" "backed (x_exports s) c a metadata" "xpinned ?tb (im_ref c) a"
    "?hp = Returned (ResPointer None) \<or> ?hp = Returned (ResPointer (Some a))"
    using own_xpc [OF inv i] p by auto
  have x: "?x < length (x_tables s)" "xt_initialized ?tb = 1" "ObjectTransferDecodedRefIsValid (im_ref c)"
    using own(1) by (simp_all add: import_ok_def)
  have ok: "xopen_ok ?w ?x ?tb ((ImportRetain c rsv a metadata, ?hp) # x_rest i s)"
    using xtable_initialized [OF x_table_ok [OF inv i x(1)]] x(2) p by simp
  define retained where "retained = (res_pointer (hresult_of ?hp) \<noteq> None)"
  define p' where "p' = (if retained then ImportUnpinned c rsv a metadata
    else XReleasing [] (XAbort (im_destination c) rsv (AbortValidation XferRetainFailed)))"
  have pn: "pinning p' = None" by (simp add: p'_def)
  obtain tb' where r: "ObjectTransferImport_unpin (im_ref c) a ?tb = (True, tb')"
    "xopen_ok ?w ?x tb' ((p', ?hp) # x_rest i s)" "xstable ?x ?tb tb' (x_rest i s)" "\<And>b. xrows_of b tb' = xrows_of b ?tb"
    by (rule import_unpin_ok [OF ok _ _ x(3) own(5), of "(p', ?hp)"]) (use pn in auto)
  have "xgood s (Inr (goes_to i p' (set_xtable ?x tb' s)))"
    by (rule plain_good [OF inv i refl refl x(1) _ r(3) _ _ _ _ _ unpin_no_new [OF r(1)]])
      (use r(2,4) own x p xopen_okD(7) [OF r(2)] in
        \<open>auto simp: xtable_ok_def ticket_def xrefs_at_def res_pointer_def hresult_of_def is_idle_def import_ok_def
          holds_ticket_def p'_def retained_def\<close>)
  with r(1) show ?thesis
    unfolding retained_def [symmetric] by (cases retained) (simp_all add: import_unpin_def p'_def)
qed

lemma import_publish_good:
  assumes inv: "x_inv s" and i: "i < length (x_threads s)" and p: "x_threads s ! i = ImportUnpinned c rsv a metadata"
  shows "xgood s (handle_call i (CallPublish (im_destination c) rsv (Some a)) (ImportPublish c rsv a metadata) s)"
proof -
  let ?c = "CallPublish (im_destination c) rsv (Some a)" and ?w = "h_world (x_h s)"
  have own: "import_ok (h_tables (x_h s)) (x_tables s) c" "holds_ticket (h_tables (x_h s)) c rsv"
    "typed ?w a (im_type c)" "backed (x_exports s) c a metadata" "is_idle (h_threads (x_h s) ! i)"
    using own_xpc [OF inv i] p by auto
  have t: "im_destination c < length (h_tables (x_h s))" "im_type c \<noteq> KTypeInvalid"
    using own(1) RequestedRights_within by (auto simp: import_ok_def)
  have held: "a \<in> set (h_held (x_h s))"
    using p by (intro held_member [OF inv i]) (simp add: xrefs_at_def)
  with t have "call_ok (x_h s) ?c" by (simp add: owns_def)
  then obtain hp' h' where r: "call ?c (x_h s) = Inr (hp', h')"
    "layer_result i s (Some (im_destination c, rsv)) (Some a) hp' h'"
    by (rule layer_call [OF inv i own(5)]) (simp add: call_ticket_def call_takes_def)
  have live: "ticket_live (h_tables (x_h s) ! im_destination c) rsv (obj_type ?w a) (im_rights c)"
    using own(2,3) by (simp add: holds_ticket_def typed_def)
  have obj: "obj_type ?w a \<noteq> KTypeInvalid" using own(3) t(2) by (simp add: typed_def)
  have res: "hp' = Returned (ResHandle (Inr (rsv_handle rsv))) \<and> h_held h' = remove1 a (h_held (x_h s)) \<or>
    hp' = Returned (ResHandle (Inl ErrBadState)) \<and> h_held h' = h_held (x_h s) \<and>
      ht_state (h_tables h' ! im_destination c) \<noteq> TableOpen"
    by (rule publish_call [OF x_sys_ok [OF inv i] t(1) live held_live [OF inv held] obj r(1)])
  have tick: "ticket (x_threads s ! i, h_threads (x_h s) ! i) = Some (im_destination c, rsv)"
    by (simp add: p ticket_def)
  note free = own_ticket [OF inv i tick]
  have new: "xpc_ok (h_world h') (h_tables h') (x_tables s) (x_exports s) hp' (ImportPublish c rsv a metadata)"
    using own(1-4) res typed_mono [OF layer_resultD(1) [OF r(2)]] tables_leD(1) [OF layer_resultD(2) [OF r(2)]]
    by (auto simp: import_ok_def holds_ticket_def ticket_live_def)
  have bal: "count_list (h_held h') b + xrefs_at b (x_threads s ! i, h_threads (x_h s) ! i) =
      count_list (h_held (x_h s)) b + xrefs_at b (ImportPublish c rsv a metadata, hp')" for b
    using res held count_list_0_iff [of "h_held (x_h s)" a]
    by (auto simp: p xrefs_at_def hresult_of_def res_handle_def count_list_remove1)
  have "xgood s (transfer_section i (Inr (hp', h')) (ImportPublish c rsv a metadata) s)"
    by (rule transfer_good [OF inv i refl refl r(2) _ _ new _ bal])
      (use free p in \<open>auto simp: ticket_def split: sum.splits\<close>)
  with r(1) show ?thesis by simp
qed

lemma import_done_good:
  assumes inv: "x_inv s" and i: "i < length (x_threads s)" and p: "x_threads s ! i = ImportPublish c rsv a metadata"
  shows "xgood s (Inr (goes_to i (import_done c rsv a metadata (res_handle (hresult_of (h_threads (x_h s) ! i)))) s))"
proof -
  let ?hp = "h_threads (x_h s) ! i"
  obtain r where own: "import_ok (h_tables (x_h s)) (x_tables s) c" "?hp = Returned (ResHandle r)"
    "\<And>e. r = Inl e \<Longrightarrow> e = ErrBadState \<and> holds_ticket (h_tables (x_h s)) c rsv"
    using own_xpc [OF inv i] p by auto
  show ?thesis
    by (cases r; rule local_good [OF inv i refl refl])
      (use own p in \<open>auto simp: import_done_def hresult_of_def res_handle_def ticket_def xrefs_at_def is_idle_def import_ok_def
        holds_ticket_def\<close>)
qed

lemma release_good:
  assumes inv: "x_inv s" and i: "i < length (x_threads s)" and p: "x_threads s ! i = XReleasing (a # rest) k"
    and idle: "is_idle (h_threads (x_h s) ! i)"
  shows "xgood s (handle_call i (CallKObjectRelease a) (XReleasing rest k) s)"
proof -
  have held: "a \<in> set (h_held (x_h s))"
    using p by (intro held_member [OF inv i]) (simp add: xrefs_at_def)
  then have "call_ok (x_h s) (CallKObjectRelease a)" by simp
  then obtain hp' h' where r: "call (CallKObjectRelease a) (x_h s) = Inr (hp', h')" "layer_result i s None (Some a) hp' h'"
    by (rule layer_call [OF inv i idle]) (simp add: call_ticket_def call_takes_def)
  have res: "hp' = Releasing a ResNothing" "h_held h' = remove1 a (h_held (x_h s))"
    using r(1) by (auto simp: take_ref_def)
  have kept: "xpc_ok (h_world h') (h_tables h') (x_tables s) (x_exports s) (h_threads (x_h s) ! i) (x_threads s ! i)"
    by (rule xpc_ok_kept [OF own_xpc [OF inv i] r(2) refl refl])
  have bal: "count_list (h_held h') b + xrefs_at b (x_threads s ! i, h_threads (x_h s) ! i) =
      count_list (h_held (x_h s)) b + xrefs_at b (XReleasing rest k, hp')" for b
    using res held count_list_0_iff [of "h_held (x_h s)" a] by (auto simp: p xrefs_at_def count_list_remove1)
  have "xgood s (transfer_section i (Inr (hp', h')) (XReleasing rest k) s)"
    by (rule transfer_good [OF inv i refl refl r(2) _ _ _ _ bal])
      (use kept res p own_ticket [OF inv i] in \<open>auto simp: ticket_def\<close>)
  with r(1) show ?thesis by simp
qed

lemma then_do_good:
  assumes inv: "x_inv s" and i: "i < length (x_threads s)" and p: "x_threads s ! i = XReleasing [] k"
    and idle: "is_idle (h_threads (x_h s) ! i)"
  shows "xgood s (then_do i k s)"
proof (cases k)
  case (XFinish r)
  have "xgood s (Inr (goes_to i (XReturned r) s))"
    by (rule local_good [OF inv i refl refl])
      (use own_xpc [OF inv i] p XFinish in \<open>auto simp: ticket_def xrefs_at_def\<close>)
  with XFinish show ?thesis by simp
next
  case (XAbort t rsv k')
  let ?c = "CallAbort t rsv"
  obtain ty rights where own: "t < length (h_tables (x_h s))" "ticket_live (h_tables (x_h s) ! t) rsv ty rights" "abort_ok k'"
    using own_xpc [OF inv i] p XAbort by auto
  then have "call_ok (x_h s) ?c" by simp
  then obtain hp' h' where r: "call ?c (x_h s) = Inr (hp', h')" "layer_result i s (Some (t, rsv)) None hp' h'"
    by (rule layer_call [OF inv i idle]) (simp add: call_ticket_def call_takes_def)
  note res = abort_call [OF own(2) r(1)]
  have tick: "ticket (x_threads s ! i, h_threads (x_h s) ! i) = Some (t, rsv)"
    by (simp add: p XAbort ticket_def)
  have "xgood s (transfer_section i (Inr (hp', h')) (XAborting k') s)"
    by (rule transfer_good [OF inv i refl refl r(2)])
      (use res own p own_ticket [OF inv i tick] in \<open>auto simp: ticket_def xrefs_at_def reservation_gone_def\<close>)
  with r(1) XAbort show ?thesis by simp
qed

lemma aborting_good:
  assumes inv: "x_inv s" and i: "i < length (x_threads s)" and p: "x_threads s ! i = XAborting k"
  shows "xgood s (Inr (goes_to i (XReturned (XImported (abort_result k (res_void (hresult_of (h_threads (x_h s) ! i)))))) s))"
proof -
  obtain r where own: "abort_ok k" "h_threads (x_h s) ! i = Returned (ResVoid r)" "reservation_gone r"
    using own_xpc [OF inv i] p by auto
  then have "xi_status (abort_result k r) \<noteq> XferCorruptState"
    by (cases k) (auto simp: ImportFailure_def)
  with own show ?thesis
    by (intro local_good [OF inv i refl refl])
      (auto simp: p ticket_def xrefs_at_def hresult_of_def res_void_def)
qed

section \<open>Every section\<close>

lemma enter_good:
  assumes inv: "x_inv s" and i: "i < length (x_threads s)" and idle: "x_idle (x_threads s ! i)" "is_idle (h_threads (x_h s) ! i)"
    and ok: "xcall_ok s c"
  shows "xgood s (enter i c s)"
proof (cases c)
  case (HandleCall hc)
  with ok client_call_good [OF inv i idle, of hc] show ?thesis by (simp only: xcall_ok.simps)
next
  case (CallInitialize x g)
  with ok initialize_good [OF inv i idle(1)] show ?thesis by simp
next
  case (CallExport x t h authority)
  with ok export_entry_good [OF inv i idle] show ?thesis by simp
next
  case (CallImport x reference t ty rights)
  with ok import_entry_good [OF inv i idle] show ?thesis by simp
next
  case (CallRevoke x reference)
  with ok revoke_good [OF inv i idle] show ?thesis by simp
next
  case (CallClose x)
  with ok close_good [OF inv i idle] show ?thesis by simp
qed

lemma xadvance_good:
  assumes inv: "x_inv s" and i: "i < length (x_threads s)" and busy: "\<not> x_idle (x_threads s ! i)"
    and idle: "is_idle (h_threads (x_h s) ! i)"
  shows "xgood s (xadvance i (hresult_of (h_threads (x_h s) ! i)) (x_threads s ! i) s)"
proof (cases "x_threads s ! i")
  case (XReturned r)
  with busy show ?thesis by (simp add: x_idle_def)
next
  case p: (ExportLookup x authority)
  then obtain q where hp: "h_threads (x_h s) ! i = Returned (ResPointer q)"
    using own_xpc [OF inv i] idle by (auto simp: lookup_pc_def is_idle_def split: pc.splits)
  show ?thesis
  proof (cases q)
    case None
    have "xgood s (Inr (goes_to i (XReturned (XExported (ExportFailure XferSourceRejected))) s))"
      by (rule local_good [OF inv i refl refl])
        (use p hp None in \<open>simp_all add: ExportFailure_def ticket_def xrefs_at_def hresult_of_def res_pointer_def\<close>)
    with p hp None show ?thesis by (simp add: hresult_of_def res_pointer_def)
  next
    case (Some a)
    with p hp export_install_good [OF inv i p] show ?thesis by (simp add: hresult_of_def res_pointer_def)
  qed
next
  case p: (ImportReserve c)
  then obtain r where hp: "h_threads (x_h s) ! i = Returned (ResReservation r)"
    using own_xpc [OF inv i] by auto
  show ?thesis
  proof (cases r)
    case (Inl e)
    have "xgood s (Inr (goes_to i (XReturned (XImported (ImportFailure XferDestinationRejected e))) s))"
      by (rule local_good [OF inv i refl refl])
        (use p hp Inl in \<open>simp_all add: ImportFailure_def ticket_def xrefs_at_def\<close>)
    with p hp Inl show ?thesis by (simp add: hresult_of_def res_reservation_def)
  next
    case (Inr rsv)
    with p hp import_pin_good [OF inv i p] show ?thesis by (simp add: hresult_of_def res_reservation_def)
  qed
next
  case p: (XReleasing objects k)
  show ?thesis
  proof (cases objects)
    case Nil
    with p then_do_good [OF inv i _ idle] show ?thesis by simp
  next
    case (Cons a rest)
    with p release_good [OF inv i _ idle] show ?thesis by simp
  qed
qed (use import_acquire_good [OF inv i] import_unpin_good [OF inv i] import_publish_good [OF inv i]
    import_done_good [OF inv i] aborting_good [OF inv i] in simp_all)

theorem xsection_good:
  assumes inv: "x_inv s" and en: "xenabled i c s"
  shows "xgood s (xsection i c s)"
  using en client_advance_good [OF inv] transfer_advance_good [OF inv] enter_good [OF inv] xadvance_good [OF inv]
  by (simp add: xsection_def Let_def xenabled_def)

section \<open>The composed system as a layer\<close>

lemma zero_xrows: "xrows_of a zero_transfer_table = 0"
  by (simp add: xrows_of_def zero_transfer_table_def zero_transfer_slot_def)

lemma init_x_inv: "init_xsys s \<Longrightarrow> x_inv s"
proof -
  assume "init_xsys s"
  then obtain debug n e m where s: "s = boot_xsys debug n e m" by (auto simp: init_xsys_def)
  have h: "init_hsys (x_h s)" by (auto simp: s boot_xsys_def init_hsys_def)
  have len: "length (x_threads s) = length (h_threads (x_h s))" by (simp add: s boot_xsys_def boot_hsys_def)
  have pairs: "x_pairs s = replicate m (XReturned XNothing, Returned ResNothing)"
    by (simp add: s boot_xsys_def boot_hsys_def zip_replicate)
  have zero: "tally f (x_pairs s) = 0" if "f (XReturned XNothing, Returned ResNothing) = 0" for f
    using that by (simp add: pairs tally_def sum_list_replicate)
  have tabs: "x_tables s = replicate e zero_transfer_table" and none: "h_held (x_h s) = []" "x_held s = []" "x_exports s = []"
    by (simp_all add: s boot_xsys_def boot_hsys_def)
  have unused: "\<not> in_use (xt_slots zero_transfer_table ! k)" if "k < 32" for k
    using that by (simp add: zero_transfer_table_def zero_transfer_slot_def in_use_def kdefs)
  have "xs_inv (h_world (x_h s)) (h_tables (x_h s)) (h_held (x_h s)) (x_tables s) (x_held s) (x_exports s) (x_pairs s)"
    unfolding xs_inv_def none
  proof (intro conjI allI impI ballI)
    show "xtable_ok (h_world (x_h s)) x (x_tables s ! x) (x_pairs s)" if "x < length (x_tables s)" for x
      using that by (simp add: tabs xtable_ok_def zero)
    show "xpc_ok (h_world (x_h s)) (h_tables (x_h s)) (x_tables s) [] (snd pr) (fst pr)" if "pr \<in> set (x_pairs s)" for pr
      using that unfolding pairs by (auto dest: in_set_replicate [THEN iffD1])
    show "tally (ticket_count t rsv) (x_pairs s) \<le> 1" for t rsv
      by (subst zero) (simp_all add: ticket_count_def ticket_def)
    show "count_list [] a = count_list [] a + sum_list (map (xrows_of a) (x_tables s)) + tally (xrefs_at a) (x_pairs s)" for a
      by (subst zero) (simp_all add: xrefs_at_def tabs zero_xrows sum_list_replicate)
    show "exports_ok [] (x_tables s)"
      using unused by (simp add: exports_ok_def tabs)
  qed
  with handle_ts.init_inv [OF h] len show ?thesis by (simp add: x_inv_def)
qed

lemma xstep_good: "x_inv s \<Longrightarrow> xstep s t \<Longrightarrow> xgood s (Inr t)"
  by (erule xstep.cases) (metis xsection_good)

lemma xstep_layer: "x_inv s \<Longrightarrow> xstep s t \<Longrightarrow> x_h t = x_h s \<or> hstep (x_h s) (x_h t)"
  using xstep_good [of s t] by (simp add: xgood_def)

interpretation transfer_ts: layered_system init_xsys xstep x_inv x_h init_hsys hstep
proof unfold_locales
  show "x_inv t" if "x_inv s" "xstep s t" for s t
    using xstep_good [OF that] by (simp add: xgood_def)
  show "init_hsys (x_h s)" if "init_xsys s" for s
    using that unfolding init_xsys_def init_hsys_def boot_xsys_def by fastforce
qed (use init_x_inv xstep_layer in blast)+

end
