(* ===== verification/ObjectTransferProps.thy ===== *)
theory ObjectTransferProps
  imports ObjectTransferSteps HandleTableProps
begin

text \<open>
  What holds of every run of object transfers, handle operations and client code, by any number of
  threads on any number of transfer and handle tables, from a boot state on.
\<close>

section \<open>Safety\<close>

lemma x_reachable: "init_xsys s \<Longrightarrow> xstep\<^sup>*\<^sup>* s t \<Longrightarrow> x_inv t"
  by (rule transfer_ts.reachable_inv)

text \<open>A client exports a handle of one table; another thread imports the reference into a second
  table, with fewer rights.\<close>

definition sealed :: ObjectTransferImmutableMetadata where
  "sealed = \<lparr>xm_identity = 7, xm_object_size = 0, xm_content_hash = replicate 32 0,
     xm_flags = kObjectTransferMetadataSealed, xm_reserved = 0\<rparr>"

definition shared :: ObjectTransferAuthority where
  "shared = \<lparr>xa_type = KTypeTest, xa_rights = kHandleRightRead OR kHandleRightWrite, xa_metadata = sealed\<rparr>"

abbreviation go :: "nat \<Rightarrow> nat \<times> xcall" where
  "go i \<equiv> (i, CallClose None)"

definition export_schedule :: "(nat \<times> xcall) list" where
  "export_schedule =
    [(0, CallInitialize (Some 0) 1), (0, HandleCall (CallKObjectInit KTypeTest True)),
     (0, HandleCall (CallInsert 0 (Some 0) kHandleRightAll)), (0, CallExport (Some 0) (Some 0) 0x1001 shared),
     go 0, go 0, go 0]"

definition boot2 :: xsys where
  "boot2 = boot_xsys False 2 1 2"

definition exported_state :: xsys where
  "exported_state = the (run_xschedule export_schedule boot2)"

definition importing_state :: xsys where
  "importing_state = the (run_xschedule
     [(1, CallImport (Some 0) 65 (Some 1) KTypeTest kHandleRightRead), go 1, go 1, go 1] exported_state)"

lemma xschedule_reaches: "run_xschedule cs s \<noteq> None \<Longrightarrow> xstep\<^sup>*\<^sup>* s (the (run_xschedule cs s))"
  using run_xschedule_run by fastforce

lemma boot2_init: "init_xsys boot2"
  by (auto simp: init_xsys_def boot2_def)

lemma exported_reached: "xstep\<^sup>*\<^sup>* boot2 exported_state"
  unfolding exported_state_def by (rule xschedule_reaches) code_simp

lemma importing_reached: "xstep\<^sup>*\<^sup>* boot2 importing_state"
proof -
  have "xstep\<^sup>*\<^sup>* exported_state importing_state"
    unfolding importing_state_def by (rule xschedule_reaches) code_simp
  with exported_reached show ?thesis by (rule rtranclp_trans)
qed

text \<open>The results of the operations that threads have completed last.\<close>

definition x_results :: "xsys \<Rightarrow> xresult list" where
  "x_results s = List.map_filter (\<lambda>p. case p of XReturned r \<Rightarrow> Some r | _ \<Rightarrow> None) (x_threads s)"

text \<open>
  C16. No transfer fails internally, under any interleaving with other transfers, handle operations
  and client code: each critical section that a thread can take completes without a panic, and no
  transfer operation has returned the corrupt-state status.
\<close>

theorem transfer_never_corrupt:
  assumes "init_xsys s" and "xstep\<^sup>*\<^sup>* s t" and "xenabled i c t"
  shows "(\<exists>t'. xsection i c t = Inr t') \<and> list_all result_ok (x_results t)"
proof
  have inv: "x_inv t" by (rule x_reachable [OF assms(1,2)])
  show "\<exists>t'. xsection i c t = Inr t'"
    using xsection_good [OF inv assms(3)] by (auto simp: xgood_def split: sum.splits)
  have "result_ok r" if "XReturned r \<in> set (x_threads t)" for r
    using that own_xpc [OF inv] by (fastforce simp: in_set_conv_nth)
  then show "list_all result_ok (x_results t)"
    by (auto simp: x_results_def list_all_iff map_filter_def split: xpc.splits)
qed

theorem transfer_never_corrupt_witness:
  "(\<exists>t'. xsection 1 (CallClose (Some 0)) importing_state = Inr t') \<and> list_all result_ok (x_results importing_state)"
proof (rule transfer_never_corrupt [OF boot2_init importing_reached])
  show "xenabled 1 (CallClose (Some 0)) importing_state" by code_simp
qed

text \<open>The owners of references: handle rows, transfer rows, client code, and the operations of both
  layers in progress.\<close>

definition x_owners :: "xsys \<Rightarrow> kaddr \<Rightarrow> nat" where
  "x_owners s a = sum_list (map (rows_of a) (h_tables (x_h s))) + sum_list (map (xrows_of a) (x_tables s)) +
     count_list (x_held s) a + tally (refs_at a) (h_threads (x_h s)) + tally (xrefs_at a) (x_pairs s)"

text \<open>
  C14. Reference counts stay exact across both layers: the count of an object is the number of handle
  rows and transfer rows that hold it, plus the references of client code and of operations in
  progress. The destroy callback has run exactly once when none of them is left and not at all before.
\<close>

theorem transfer_references_exact:
  assumes "init_xsys s" and "xstep\<^sup>*\<^sup>* s t" and "a < length (ko_objs (h_world (x_h t)))"
  shows "unat (refs (h_world (x_h t)) a) = x_owners t a \<and>
    count_list (ko_destroyed (h_world (x_h t))) a =
      (if x_owners t a = 0 \<and> ko_destroy (ko_objs (h_world (x_h t)) ! a) then 1 else 0)"
proof -
  have x: "xs_inv (h_world (x_h t)) (h_tables (x_h t)) (h_held (x_h t)) (x_tables t) (x_held t) (x_exports t) (x_pairs t)"
    using x_reachable [OF assms(1,2)] by (simp add: x_inv_def)
  have inv: "sys_inv (h_world (x_h t)) (h_tables (x_h t)) (h_held (x_h t)) (h_threads (x_h t))"
    using reachable [OF transfer_ts.low_reachable [OF assms(1,2)]] by (simp add: h_inv_def)
  have "owners (h_tables (x_h t)) (h_held (x_h t)) (h_threads (x_h t)) a = x_owners t a"
    using xs_invD(4) [OF x, of a] by (simp add: owners_def x_owners_def)
  then have refs: "unat (refs (h_world (x_h t)) a) = x_owners t a"
    using sys_invD(6) [OF inv, of a] assms(3) by (simp add: refs_total_def)
  then show ?thesis
    using sys_invD(3) [OF inv] assms(3) by (auto simp: destroy_exact_def unat_eq_zero)
qed

theorem transfer_references_exact_witness:
  "unat (refs (h_world (x_h importing_state)) 0) = x_owners importing_state 0 \<and>
    count_list (ko_destroyed (h_world (x_h importing_state))) 0 =
      (if x_owners importing_state 0 = 0 \<and> ko_destroy (ko_objs (h_world (x_h importing_state)) ! 0) then 1 else 0)"
proof (rule transfer_references_exact [OF boot2_init importing_reached])
  show "0 < length (ko_objs (h_world (x_h importing_state)))" by code_simp
qed

section \<open>Authority\<close>

lemma publish_resolves:
  assumes inv: "sys_ok s ps" and t: "t < length (h_tables s)"
    and live: "ticket_live (h_tables s ! t) rsv (obj_type (h_world s) a) rights"
    and res: "call (CallPublish t rsv (Some a)) s = Inr (Returned (ResHandle (Inr h)), s')"
  shows "\<exists>sl. resolve (h_tables s' ! t) h = Some sl \<and> hs_obj sl = Some a \<and> hs_rights sl = rights"
proof (rule publish_result [of "h_world s" rsv "Some a" "h_tables s ! t"])
  fix err
  assume "HandleTablePublish (h_world s) rsv (Some a) (h_tables s ! t) = Inr (Inl err, h_tables s ! t)"
  with res show ?thesis by simp
next
  fix d b
  let ?tb = "h_tables s ! t"
  assume r: "decoded_ok d" "HandleDecode (rsv_handle rsv) = Some (dec_slot d, dec_generation d)" "Some a = Some b"
    "ht_state ?tb = TableOpen" "ReservationMatches (slot_at ?tb (dec_slot d)) d rsv"
    "HandleTablePublish (h_world s) rsv (Some a) ?tb = Inr (Inr (rsv_handle rsv), publish_row ?tb d b)"
  note ok = sys_table_ok [OF inv t]
  have i: "unat (dec_slot d) < length (ht_slots ?tb)" using decoded_okD [OF r(1)] table_okD(1) [OF ok] by simp
  have "hs_rights (slot_at ?tb (dec_slot d)) = rights"
    using live r by (auto simp: ticket_live_def ticket_row_def split: if_splits)
  moreover have "h = rsv_handle rsv" "h_tables s' ! t = publish_row ?tb d a"
    using res r t by auto
  ultimately show ?thesis
    using r(2) i reserved_row(4) [OF ok r(1,5)]
    by (simp add: resolve_def SlotMatches_def publish_row_def)
qed

text \<open>
  C2. An import gives what one export gave away, and no more. When an import publishes a handle, its
  reference was issued by exactly one export; the new handle resolves to the object of that export,
  with the type it declared, with the rights the import asked for, which are within those exported,
  and under the metadata sealed there.
\<close>

theorem import_within_export:
  assumes "init_xsys s" and "xstep\<^sup>*\<^sup>* s t" and "i < length (x_threads t)"
    and "x_threads t ! i = ImportUnpinned m rsv a metadata" and "xsection i c t = Inr t'"
    and "h_threads (x_h t') ! i = Returned (ResHandle (Inr h))"
  shows "\<exists>authority sl.
    {e \<in> set (x_exports t). fst e = im_table m \<and>
       fst (snd e) = ObjectTransferRefEncode (xd_slot (im_ref m)) (xd_generation (im_ref m))} =
      {(im_table m, ObjectTransferRefEncode (xd_slot (im_ref m)) (xd_generation (im_ref m)), a, authority)} \<and>
    xa_type authority = im_type m \<and> within (im_rights m) (xa_rights authority) \<and> xa_metadata authority = metadata \<and>
    resolve (h_tables (x_h t') ! im_destination m) h = Some sl \<and> hs_obj sl = Some a \<and> hs_rights sl = im_rights m \<and>
    obj_type (h_world (x_h t')) a = im_type m"
proof -
  let ?r = "ObjectTransferRefEncode (xd_slot (im_ref m)) (xd_generation (im_ref m))"
  have inv: "x_inv t" by (rule x_reachable [OF assms(1,2)])
  have own: "import_ok (h_tables (x_h t)) (x_tables t) m" "holds_ticket (h_tables (x_h t)) m rsv"
    "typed (h_world (x_h t)) a (im_type m)" "backed (x_exports t) m a metadata" "is_idle (h_threads (x_h t) ! i)"
    using own_xpc [OF inv assms(3)] assms(4) by auto
  obtain authority where e: "(im_table m, ?r, a, authority) \<in> set (x_exports t)" "xa_type authority = im_type m"
    "within (im_rights m) (xa_rights authority)" "xa_metadata authority = metadata"
    using own(4) by (auto simp: backed_def)
  have dist: "distinct (map (\<lambda>(x, r, a, authority). (x, r)) (x_exports t))"
    using inv exports_okD(1) by (auto simp: x_inv_def xs_inv_def)
  have uniq: "e' = (im_table m, ?r, a, authority)" if "e' \<in> set (x_exports t)" "fst e' = im_table m" "fst (snd e') = ?r" for e'
    using inj_onD [OF distinct_map [THEN iffD1, OF dist, THEN conjunct2], of e' "(im_table m, ?r, a, authority)"] that e(1)
    by (cases e') simp
  have one: "{e \<in> set (x_exports t). fst e = im_table m \<and> fst (snd e) = ?r} = {(im_table m, ?r, a, authority)}"
  proof (rule set_eqI)
    fix e'
    show "e' \<in> {e \<in> set (x_exports t). fst e = im_table m \<and> fst (snd e) = ?r} \<longleftrightarrow> e' \<in> {(im_table m, ?r, a, authority)}"
    proof (cases "e' = (im_table m, ?r, a, authority)")
      case True
      with e(1) show ?thesis by simp
    next
      case False
      with uniq [of e'] show ?thesis by auto
    qed
  qed
  have t: "im_destination m < length (h_tables (x_h t))" using own(1) by (simp add: import_ok_def)
  obtain hp' h' where r: "call (CallPublish (im_destination m) rsv (Some a)) (x_h t) = Inr (hp', h')"
    "x_h t' = put_thread i (hp', h')"
    using assms(4,5) own(5) by (auto simp: xsection_def x_idle_def transfer_section_def goes_to_def split: sum.splits)
  have i: "i < length (h_threads h')"
    using x_inv_thread(2) [OF inv assms(3)] r(1) by (auto split: sum.splits prod.splits)
  have hp': "hp' = Returned (ResHandle (Inr h))" using assms(6) r(2) i by (simp add: put_thread_def)
  have live: "ticket_live (h_tables (x_h t) ! im_destination m) rsv (obj_type (h_world (x_h t)) a) (im_rights m)"
    using own(2,3) by (simp add: holds_ticket_def typed_def)
  from publish_resolves [OF x_sys_ok [OF inv assms(3)] t live] r(1) hp'
  obtain sl where "resolve (h_tables h' ! im_destination m) h = Some sl" "hs_obj sl = Some a" "hs_rights sl = im_rights m"
    by auto
  moreover have "obj_type (h_world h') a = im_type m"
    using own(3) r(1) hp' by (auto simp: typed_def split: sum.splits prod.splits)
  ultimately show ?thesis
    using one e(2-4) r(2) by (intro exI [of _ authority] exI [of _ sl]) (simp add: put_thread_def)
qed

theorem import_within_export_witness:
  "\<exists>authority sl. {e \<in> set (x_exports importing_state). fst e = 0 \<and> fst (snd e) = ObjectTransferRefEncode 1 1} =
      {(0, ObjectTransferRefEncode 1 1, 0, authority)} \<and>
    xa_type authority = KTypeTest \<and> within kHandleRightRead (xa_rights authority) \<and> xa_metadata authority = sealed \<and>
    resolve (h_tables (x_h (projr (xsection 1 (CallClose None) importing_state))) ! 1) 0x1001 = Some sl \<and>
    hs_obj sl = Some 0 \<and> hs_rights sl = kHandleRightRead \<and>
    obj_type (h_world (x_h (projr (xsection 1 (CallClose None) importing_state)))) 0 = KTypeTest"
proof -
  let ?m = "\<lparr>im_table = 0, im_ref = \<lparr>xd_slot = 1, xd_generation = 1\<rparr>, im_destination = 1, im_type = KTypeTest,
    im_rights = kHandleRightRead\<rparr>"
  have "1 < length (x_threads importing_state)" by code_simp
  moreover have "x_threads importing_state ! 1 = ImportUnpinned ?m \<lparr>rsv_handle = 0x1001, rsv_nonce = 1\<rparr> 0 sealed"
    by code_simp
  moreover have "xsection 1 (CallClose None) importing_state = Inr (projr (xsection 1 (CallClose None) importing_state))"
    by code_simp
  moreover have "h_threads (x_h (projr (xsection 1 (CallClose None) importing_state))) ! 1 = Returned (ResHandle (Inr 0x1001))"
    by code_simp
  ultimately show ?thesis
    using import_within_export [OF boot2_init importing_reached] by fastforce
qed

section \<open>Revocation\<close>

lemma xtables_run:
  assumes "xstep\<^sup>*\<^sup>* s t" and "x_inv s" and "x < length (x_tables s)" and "k < 32"
  shows "xrow_le\<^sup>*\<^sup>* (xt_slots (x_tables s ! x) ! k) (xt_slots (x_tables t ! x) ! k)"
proof -
  define R where "R xs ys \<longleftrightarrow> length ys = length xs \<and> (\<forall>x<length xs. \<forall>k<32.
    xrow_le\<^sup>*\<^sup>* (xt_slots (xs ! x) ! k) (xt_slots (ys ! x) ! k))"
    for xs ys :: "ObjectTransferTable list"
  have "R (x_tables s) (x_tables t)"
  proof (rule transfer_ts.run_mono [where f = x_tables and R = R, OF _ _ _ assms(1,2)])
    show "R (x_tables a) (x_tables b)" if "x_inv a" "xstep a b" for a b
      using xstep_good [OF that] by (auto simp: xgood_def xtables_le_def R_def)
    show "R x z" if "R x y" "R y z" for x y z
      using that unfolding R_def by (metis rtranclp_trans)
  qed (simp add: R_def)
  with assms(3,4) show ?thesis by (simp add: R_def)
qed

definition xdead :: "u32 \<Rightarrow> ObjectTransferSlot \<Rightarrow> bool" where
  "xdead g sl \<longleftrightarrow> g < xs_generation sl \<or> g = xs_generation sl \<and> xs_state sl \<noteq> XSlotLive"

lemma xdead_run: "xrow_le\<^sup>*\<^sup>* sl sl' \<Longrightarrow> xdead g sl \<Longrightarrow> xdead g sl'"
  unfolding xdead_def by (rule transfer_rows.dead_run)

lemma xdeadI: "g \<le> xs_generation sl \<Longrightarrow> xs_state sl \<noteq> XSlotLive \<Longrightarrow> xdead g sl"
  by (auto simp: xdead_def)

lemma dead_refused:
  assumes "xdead (xd_generation d) (xslot_at tb (xd_slot d))"
  shows "\<exists>status. ObjectTransferImport_pin w d ty rights tb = (Inl status, tb) \<and> status \<noteq> XferOk"
proof (rule import_pin_result [of w d ty rights tb])
  assume "xpin_guard w ty rights tb d"
  with assms show ?thesis by (auto simp: xpin_guard_def Let_def TransferSlotMatches_def xdead_def)
qed blast

lemma not_open_dead:
  assumes "xopen_ok w x tb prs" and "xt_state tb \<noteq> XTableOpen" and "k < 32"
  shows "xs_state (xt_slots tb ! k) \<noteq> XSlotLive"
  using xopen_okD(3) [OF assms(1,3)] assms(2) by (simp add: state_allows_def)

lemma revoke_kills:
  assumes ok: "xopen_ok w x tb (pr # prs)" and pr: "pinning (fst pr) = None" and d: "ObjectTransferDecodedRefIsValid d"
    and g: "xd_generation d \<le> xs_generation (xslot_at tb (xd_slot d))"
  shows "xdead (xd_generation d) (xslot_at (snd (ObjectTransferRevoke_detach d tb)) (xd_slot d))"
proof -
  have k: "unat (xd_slot d) < 32" using d by (simp add: xdecoded_valid xvalid_def)
  have grown: "xd_generation d \<le> xs_generation (xslot_at tb' (xd_slot d))" if "xstable x tb tb' prs" for tb'
    using that k g xrow_le_generation by (auto simp: xstable_def intro: order_trans)
  show ?thesis
  proof (rule revoke_result [OF ok pr pr d])
    fix status
    assume r: "\<not> closable tb d" "ObjectTransferRevoke_detach d tb = (Inl status, tb)"
    have "xdead (xd_generation d) (xslot_at tb (xd_slot d))"
      using r(1) g not_open_dead [OF ok _ k] by (auto simp: closable_def Let_def xdead_def)
    with r(2) show ?thesis by simp
  next
    fix tb'
    assume "ObjectTransferRevoke_detach d tb = (Inl XferBusy, tb')" "xstable x tb tb' prs"
      "xs_state (xslot_at tb' (xd_slot d)) = XSlotClosing"
    with grown show ?thesis by (simp add: xdeadI)
  next
    fix a tb'
    assume r: "ObjectTransferRevoke_detach d tb = (Inr (Some a), tb')" "xopen_ok w x tb' (pr # prs)" "xstable x tb tb' prs"
      "xs_object (xslot_at tb' (xd_slot d)) = None"
    have "xs_state (xslot_at tb' (xd_slot d)) \<noteq> XSlotLive"
      using xopen_okD(2) [OF r(2) k] r(4) by (auto simp: xslot_ok_def xowned_def)
    with grown r(1,3) show ?thesis by (simp add: xdeadI)
  qed
qed

lemma close_kills:
  assumes ok: "xopen_ok w x tb (pr # prs)" and pr: "pinning (fst pr) = None" and valid: "pins_valid prs" and k: "k < 32"
    and g: "g \<le> xs_generation (xt_slots tb ! k)"
  shows "xdead g (xt_slots (snd (snd (ObjectTransferTableClose_detach tb))) ! k)"
proof -
  have grown: "xdead g (xt_slots tb' ! k)"
    if "xstable x tb tb' prs" "xopen_ok w x tb' (pr # prs)" "xt_state tb' \<noteq> XTableOpen" for tb'
  proof (rule xdeadI)
    have "xs_generation (xt_slots tb ! k) \<le> xs_generation (xt_slots tb' ! k)"
      using that(1) k xrow_le_generation by (simp add: xstable_def)
    with g show "g \<le> xs_generation (xt_slots tb' ! k)" by (rule order_trans)
  qed (rule not_open_dead [OF that(2,3) k])
  show ?thesis
  proof (rule close_result [OF ok pr pr valid])
    assume "xt_state tb = XTableClosed" "ObjectTransferTableClose_detach tb = (XferOk, [], tb)"
    with g not_open_dead [OF ok _ k] show ?thesis by (simp add: xdeadI)
  next
    assume "xt_state tb \<noteq> XTableClosed" "ObjectTransferTableClose_detach tb = (XferBusy, [], close_begin tb)"
    with grown close_begin_ok [OF ok pr pr] show ?thesis by simp
  next
    fix ds tb'
    assume "ObjectTransferTableClose_detach tb = (XferOk, ds, tb')" "xopen_ok w x tb' (pr # prs)" "xstable x tb tb' prs"
      "xt_state tb' = XTableClosed"
    with grown show ?thesis by simp
  qed
qed

lemma issued_reference:
  assumes inv: "x_inv s" and e: "(x, r, a, authority) \<in> set (x_exports s)"
  defines "d \<equiv> DecodeTransferRefNospec r"
  shows "x < length (x_tables s)" and "ObjectTransferDecodedRefIsValid d" and "xt_initialized (x_tables s ! x) = 1"
    and "xd_generation d \<le> xs_generation (xslot_at (x_tables s ! x) (xd_slot d))" and "unat (xd_slot d) < 32"
proof -
  have "exports_ok (x_exports s) (x_tables s)" using inv by (simp add: x_inv_def xs_inv_def)
  from exports_okD(2) [OF this e] obtain k g where r: "x < length (x_tables s)" "xvalid k g" "r = ObjectTransferRefEncode k g"
    "g \<le> xs_generation (xslot_at (x_tables s ! x) k)" by blast
  then have d: "ObjectTransferDecodedRefIsValid d" "d = \<lparr>xd_slot = k, xd_generation = g\<rparr>"
    using decode_ref_iff [of "\<lparr>xd_slot = k, xd_generation = g\<rparr>" r] by (simp_all add: d_def)
  show "x < length (x_tables s)" "ObjectTransferDecodedRefIsValid d"
    "xd_generation d \<le> xs_generation (xslot_at (x_tables s ! x) (xd_slot d))" "unat (xd_slot d) < 32"
    using r d by (simp_all add: xvalid_def)
  have "x_tables s ! x \<noteq> zero_transfer_table"
  proof
    assume "x_tables s ! x = zero_transfer_table"
    with r(2,4) show False
      by (simp add: zero_transfer_table_def zero_transfer_slot_def xvalid_def kdefs)
  qed
  moreover have "xtable_ok (h_world (x_h s)) x (x_tables s ! x) (x_pairs s)"
    using inv r(1) by (simp add: x_inv_def xs_inv_def)
  ultimately show "xt_initialized (x_tables s ! x) = 1"
    by (auto simp: xtable_ok_def dest: xopen_okD(7))
qed

text \<open>
  C13. Revocation is final. Once a thread has entered a revoke of an issued reference, or a close of
  its table, no import of that reference is admitted any more in any later state: whatever it asks
  for, its validation fails and leaves the table as it is. This holds although the call may have
  found the row pinned by an import in progress and returned busy.
\<close>

theorem revocation_is_final:
  assumes "init_xsys s" and "xstep\<^sup>*\<^sup>* s t" and "xenabled i c t"
    and "x_idle (x_threads t ! i)" and "is_idle (h_threads (x_h t) ! i)"
    and "(x, r, a, authority) \<in> set (x_exports t)" and "c = CallRevoke (Some x) r \<or> c = CallClose (Some x)"
    and "xsection i c t = Inr t'" and "xstep\<^sup>*\<^sup>* t' u"
  shows "\<exists>status. ObjectTransferImport_pin (h_world (x_h u)) (DecodeTransferRefNospec r) ty rights (x_tables u ! x) =
    (Inl status, x_tables u ! x) \<and> status \<noteq> XferOk"
proof (rule dead_refused)
  let ?d = "DecodeTransferRefNospec r" and ?tb = "x_tables t ! x"
  have inv: "x_inv t" "x_inv t'"
    using x_reachable [OF assms(1,2)] xsection_good [OF _ assms(3)] assms(8) by (auto simp: xgood_def)
  have i: "i < length (x_threads t)" using assms(3) by (simp add: xenabled_def)
  note iss = issued_reference [OF inv(1) assms(6)]
  have ok: "xopen_ok (h_world (x_h t)) x ?tb ((x_threads t ! i, h_threads (x_h t) ! i) # x_rest i t)"
    using xtable_initialized [OF x_table_ok [OF inv(1) i iss(1)]] iss(3) by simp
  have idle: "pinning (fst (x_threads t ! i, h_threads (x_h t) ! i)) = None" using idle_pc [OF assms(4)] by simp
  have "xdead (xd_generation ?d) (xslot_at (x_tables t' ! x) (xd_slot ?d))"
    using assms(7)
  proof
    assume c: "c = CallRevoke (Some x) r"
    with assms(3-5,8) iss(1-3) have "x_tables t' ! x = snd (ObjectTransferRevoke_detach ?d ?tb)"
      by (auto simp: xsection_def begin_revoke_def goes_to_def set_xtable_def Let_def split: prod.splits sum.splits)
    with revoke_kills [OF ok idle iss(2,4)] show ?thesis by simp
  next
    assume c: "c = CallClose (Some x)"
    with assms(3-5,8) iss(1-3) have "x_tables t' ! x = snd (snd (ObjectTransferTableClose_detach ?tb))"
      by (auto simp: xsection_def begin_table_close_def goes_to_def set_xtable_def split: prod.splits)
    with close_kills [OF ok idle rest_valid [OF inv(1) i] iss(5,4)] show ?thesis by simp
  qed
  moreover have "x < length (x_tables t')"
    using xsection_good [OF inv(1) assms(3)] assms(8) iss(1) by (simp add: xgood_def xtables_le_def)
  ultimately show "xdead (xd_generation ?d) (xslot_at (x_tables u ! x) (xd_slot ?d))"
    using xdead_run [OF xtables_run [OF assms(9) inv(2) _ iss(5)]] by simp
qed

text \<open>The revoke finds the reference pinned by an import, which then completes.\<close>

definition pinned_state :: xsys where
  "pinned_state = the (run_xschedule
     [(1, CallImport (Some 0) 65 (Some 1) KTypeTest kHandleRightRead), go 1] exported_state)"

definition busy_state :: xsys where
  "busy_state = the (run_xschedule [(0, CallRevoke (Some 0) 65)] pinned_state)"

definition completed_state :: xsys where
  "completed_state = the (run_xschedule [go 1, go 1, go 1, go 1] busy_state)"

theorem revocation_is_final_witness:
  "\<exists>status. ObjectTransferImport_pin (h_world (x_h completed_state)) (DecodeTransferRefNospec 65) KTypeTest kHandleRightRead
    (x_tables completed_state ! 0) = (Inl status, x_tables completed_state ! 0) \<and> status \<noteq> XferOk"
proof (rule revocation_is_final [OF boot2_init])
  have "xstep\<^sup>*\<^sup>* exported_state pinned_state"
    unfolding pinned_state_def by (rule xschedule_reaches) code_simp
  with exported_reached show "xstep\<^sup>*\<^sup>* boot2 pinned_state" by (rule rtranclp_trans)
  show "xenabled 0 (CallRevoke (Some 0) 65) pinned_state" by code_simp
  show "x_idle (x_threads pinned_state ! 0)" by code_simp
  show "is_idle (h_threads (x_h pinned_state) ! 0)" by code_simp
  show "(0, 65, 0, shared) \<in> set (x_exports pinned_state)" by code_simp
  show "CallRevoke (Some 0) 65 = CallRevoke (Some 0) 65 \<or> CallRevoke (Some 0) 65 = CallClose (Some 0)" by simp
  show "xsection 0 (CallRevoke (Some 0) 65) pinned_state = Inr busy_state" by code_simp
  show "xstep\<^sup>*\<^sup>* busy_state completed_state"
    unfolding completed_state_def by (rule xschedule_reaches) code_simp
qed

end
