(* ===== verification/Spec2Isabelle.thy ===== *)
theory Spec2Isabelle
  imports MessageRingSystem RequestLedgerSystem ResourceDomainSystem ResourceDomainTest ServiceTransition
    ThreadGroupSystem HandleTableMap HandleTableLive ObjectTransferProps
begin

text \<open>
  A verification library for kernel components of DuetOS: the message path of its IPC, the
  reference-counted objects, per-process handle tables and transfers between them, and the bookkeeping services of
  processes and supervised services. All of them are allocation-free, lock-protected state
  machines in C++ whose callers may be hostile; the theorems say what holds for every sequence,
  and where the code leaves its lock for every interleaving, of calls with arbitrary arguments.

  \<^emph>\<open>Conventions.\<close> Integers are words of the source's width, so additions wrap where the code's do.
  A class or struct is a record, an enumeration that only the kernel writes is a datatype, one
  that is read from a peer's bytes is a word with named values. A pointer that may be null is an
  option, an out-parameter is an option that is returned. A \<^verbatim>\<open>KASSERT\<close> or \<^verbatim>\<open>Panic\<close> is an \<open>Inl\<close> result
  that ends the run. A critical section under a spinlock is one function of the state; an
  operation that takes its lock several times is one function per section, and a thread between
  two sections is a value of a program-counter type. \<^verbatim>\<open>Prelude\<close> holds the word and list lemmas and
  the contracts that the components share: \<open>transition_system\<close> (an invariant that holds initially
  and is kept by every step holds in every reachable state), \<open>layered_system\<close> (each step of a system
  is a step of the one below or leaves it alone) and \<open>generation_rows\<close> (rows named by an index and a
  generation that only grows: a name that died stays dead). Each component interprets them on its
  own step relation and rows.

  \<^emph>\<open>IPC message envelope.\<close> \<^verbatim>\<open>Bytes\<close> models the little-endian and pointer-range helpers,
  \<^verbatim>\<open>MessageAbi\<close> \<^verbatim>\<open>kernel/ipc/message_abi.{h,cpp}\<close>: the encoder and the validator of the 32-byte
  header. The validator accepts exactly the well-formed frames, encoding and validating is a round
  trip, accepted payload extents lie inside the received bytes, and failed calls change nothing.

  \<^emph>\<open>Versioned payloads.\<close> \<^verbatim>\<open>VersionedPayload\<close> models \<^verbatim>\<open>kernel/ipc/versioned_payload.{h,cpp}\<close>: the rule
  table in memory, its bisection (a function with a termination proof, equal to a linear search
  on a valid table), the encoder and the validator with the same kind of theorems.

  \<^emph>\<open>IPC message ring.\<close> \<^verbatim>\<open>MessageRing\<close> models \<^verbatim>\<open>kernel/ipc/message_ring.{h,cpp}\<close>, which stores validated
  envelopes in a circular byte buffer. Producers reserve under the lock, copy without it and
  publish under it; receivers lease the head, read it in one or two spans and commit.
  \<^verbatim>\<open>CircularStorage\<close> has the copy loops, \<^verbatim>\<open>MessageRingQueue\<close> the relation between the bytes and a
  queue of frames, \<^verbatim>\<open>MessageRingOps\<close> each complete call, \<^verbatim>\<open>MessageRingSystem\<close> the interleaving of
  threads down to single byte stores. In every reachable state what was published is what was
  retired followed by what storage holds, in order; leased spans do not change; every call
  returns and none reports a corrupt ring; stale reservations, leases and copies are refused.
  The loops that need not return on a corrupt object are \<open>partial_function (option)\<close>, and their
  return on reachable objects is proved.

  \<^emph>\<open>Endpoint request ledger.\<close> \<^verbatim>\<open>RequestLedger\<close> models \<^verbatim>\<open>kernel/ipc/endpoint_request_ledger.{h,cpp}\<close>,
  which tracks the requests whose frames travel through a ring. \<^verbatim>\<open>RequestLedgerInv\<close> states the
  canonical form that the code's own scan tests, \<^verbatim>\<open>RequestLedgerOps\<close> proves that each operation
  refines an operation on a finite table of live requests, \<^verbatim>\<open>RequestLedgerSystem\<close> that each key passes
  once through reserve, commit and end, that failures change nothing, and that a drained ledger
  can be reopened.

  \<^emph>\<open>Kernel objects and handle tables.\<close> \<^verbatim>\<open>KObject\<close> models \<^verbatim>\<open>kernel/ipc/kobject.{h,cpp}\<close> (checked retain,
  release, destroy, self-test), \<^verbatim>\<open>HandleTable\<close> \<^verbatim>\<open>kernel/ipc/handle_table.{h,cpp}\<close> with one definition
  per critical section, \<^verbatim>\<open>HandleCodec\<close> the encoding of handles and the rights rules.
  \<^verbatim>\<open>HandleTableSystem\<close> composes the sections into the operations and interleaves any number of
  threads over any number of tables; \<^verbatim>\<open>HandleTableInv\<close>, \<^verbatim>\<open>HandleTableAlloc\<close> and \<^verbatim>\<open>HandleTableSafety\<close>
  prove the invariant section by section (pins, closers and operation counters equal the number
  of threads that contribute to them). From it, \<^verbatim>\<open>HandleTableProps\<close> shows that no assertion fails,
  that reference counts are exact and objects are destroyed once, that handles are not recycled
  and resolve to live objects; \<^verbatim>\<open>HandleTableMap\<close> that the operations implement a map from handles
  to objects with rights; \<^verbatim>\<open>HandleTableLive\<close> that the spin loops of close and drain do not
  deadlock. An address of the object store is not reused by the model, the destroy callback of a
  concrete type is recorded as an event, and the nonce counter's compare-exchange loop is one
  atomic increment.

  \<^emph>\<open>Object transfer.\<close> \<^verbatim>\<open>ObjectTransfer\<close> models \<^verbatim>\<open>kernel/ipc/object_transfer.{h,cpp}\<close>, the table of an
  endpoint through which one process exports an object and others import it: references, authority
  checks, and one definition per critical section. Its operations call the handle tables of the
  two processes outside the transfer lock, so \<^verbatim>\<open>ObjectTransferSystem\<close> runs its threads on top of the
  handle-table threads: thread \<open>i\<close> is the same thread in both layers, a call into the handle layer
  proceeds section by section, and client code may call both layers in between. What the handle
  layer promises to code above it (types and reservations are stable, references move only as a
  call says) is proved in \<^verbatim>\<open>HandleTableFrame\<close>. \<^verbatim>\<open>ObjectTransferInv\<close> has the tables, \<^verbatim>\<open>ObjectTransferSafety\<close>
  the invariant of the composition, \<^verbatim>\<open>ObjectTransferSteps\<close> that every section keeps it, and
  \<^verbatim>\<open>ObjectTransferProps\<close> the results: no operation fails internally, reference counts are exact
  across both layers, an import yields what one export gave away and no more, and revocation is
  final even while an import holds the row. Client code is taken to use only references and
  reservations of its own; a table is initialized in one step, as the code does before sharing it.

  \<^emph>\<open>Process resources.\<close> \<^verbatim>\<open>ResourceDomain\<close> models \<^verbatim>\<open>kernel/proc/resource_domain.{h,cpp}\<close>, the limits on
  the Sections and ChannelCores of a process tree; \<^verbatim>\<open>ChargeAccounting\<close>, \<^verbatim>\<open>ResourceDomainInv\<close> and
  \<^verbatim>\<open>ResourceDomainSystem\<close> prove that each row counts exactly its live charges and stays within its
  limits, that charges are admitted exactly when there is room, and that dead keys stay dead;
  \<^verbatim>\<open>ResourceDomainTest\<close> runs the boot self-test. \<^verbatim>\<open>ThreadGroup\<close>, \<^verbatim>\<open>ThreadGroupInv\<close> and
  \<^verbatim>\<open>ThreadGroupSystem\<close> model \<^verbatim>\<open>kernel/proc/thread_group.{h,cpp}\<close>: the member array is a sorted set,
  groups retire only empty and exiting, and their keys are not reused.

  \<^emph>\<open>Service transitions.\<close> \<^verbatim>\<open>ServiceTransition\<close> models \<^verbatim>\<open>kernel/core/service_transition.{h,cpp}\<close>: the
  history of a service row is a sequence of complete, disjoint lives, and spent tickets and
  tokens have no effect.

  \<^emph>\<open>Bounds.\<close> Table sizes are those of the source (64 handle rows, 32 transfer rows, 64 domains and
  thread groups, 32 ledger slots). Loops over them are recursions over the index; none of the definitions uses
  fuel. A 32-bit counter of pins, operations or references that would overflow takes the code's
  own refusal branch, so no theorem assumes a bound on the number of threads or calls.

  \<^emph>\<open>Not modelled.\<close> Ports, mailboxes and the other blocking objects sleep on scheduler wait queues,
  and processes, spawning and the service runtime drive page tables and loaders: the context
  switch and the page tables are not modelled, so neither are they. Ticket locks are represented
  by the atomicity of their sections, weak memory orders are not. Drivers, filesystems, network,
  architecture code, the graphical applications and the userland libraries are outside this
  library.
\<close>

end
